(* ===== verification/Prelude.thy ===== *)
theory Prelude
  imports Main "HOL-Library.Word"
begin

unbundle bit_operations_syntax

text \<open>
  The shared vocabulary of the development: the Rust result type with its panics, the machine
  integer types, saturating and checked arithmetic, big-endian conversion, and slices with the
  bounds checks that Rust performs. Every other theory imports this one.

  A Rust computation has one of three outcomes here: \<open>Ok\<close> and \<open>Err\<close> are the two variants of
  \<^verbatim>\<open>Result\<close>, and \<open>Panic\<close> stands for an index or slice that is out of range, an \<^verbatim>\<open>expect\<close>
  that fails or an \<^verbatim>\<open>unreachable!\<close> that is reached. A theorem that a result is not \<open>Panic\<close>
  is therefore a statement about the source's own bounds checks.
\<close>

section \<open>Machine integers\<close>

type_synonym u8 = "8 word"
type_synonym u16 = "16 word"
type_synonym u32 = "32 word"
type_synonym u64 = "64 word"

text \<open>
  A byte slice is a list of bytes. A Rust \<^verbatim>\<open>String\<close> is the list of its UTF-8 bytes: the
  source only asks for its length in bytes, for ASCII characters inside it and for prefixes and
  separators that are ASCII, which are all byte-level questions.
\<close>

type_synonym bytes = "u8 list"
type_synonym rstring = "u8 list"

named_theorems result_simps \<open>rewriting of results and their sequencing\<close>
named_theorems wire_simps \<open>what a decoder reads back from encoded bytes\<close>
named_theorems no_panic \<open>operations that never panic\<close>

text \<open>The 64-bit \<^verbatim>\<open>usize\<close>: a natural number with the bound written out where it matters.\<close>

definition usize_max :: nat where
  "usize_max = 2 ^ 64 - 1"

definition usize_saturating_add :: "nat \<Rightarrow> nat \<Rightarrow> nat" where
  "usize_saturating_add a b = min (a + b) usize_max"

definition usize_checked_add :: "nat \<Rightarrow> nat \<Rightarrow> nat option" where
  "usize_checked_add a b = (if a + b \<le> usize_max then Some (a + b) else None)"

text \<open>\<^verbatim>\<open>saturating_add\<close>, \<^verbatim>\<open>saturating_sub\<close>, \<^verbatim>\<open>checked_add\<close> and \<^verbatim>\<open>checked_mul\<close> of the fixed-width types.\<close>

definition sat_add :: "'a::len word \<Rightarrow> 'a word \<Rightarrow> 'a word" where
  "sat_add a b = (if unat a + unat b < 2 ^ LENGTH('a) then a + b else - 1)"

definition sat_sub :: "'a::len word \<Rightarrow> 'a word \<Rightarrow> 'a word" where
  "sat_sub a b = (if b \<le> a then a - b else 0)"

definition checked_add :: "'a::len word \<Rightarrow> 'a word \<Rightarrow> 'a word option" where
  "checked_add a b = (if unat a + unat b < 2 ^ LENGTH('a) then Some (a + b) else None)"

definition checked_mul :: "'a::len word \<Rightarrow> 'a word \<Rightarrow> 'a word option" where
  "checked_mul a b = (if unat a * unat b < 2 ^ LENGTH('a) then Some (a * b) else None)"

lemma unat_sat_add: "unat (sat_add a b) = min (unat a + unat b) (2 ^ LENGTH('a) - 1)"
  for a b :: "'a::len word"
  by (auto simp: sat_add_def unat_word_ariths unsigned_minus_1_eq_mask mask_eq_exp_minus_1)

lemma unat_sat_sub: "unat (sat_sub a b) = unat a - unat b"
  by (auto simp: sat_sub_def unat_sub word_le_nat_alt)

lemma sat_sub_le: "sat_sub a b \<le> a"
  by (simp add: word_le_nat_alt unat_sat_sub)

lemma sat_sub_zero [simp]: "sat_sub a 0 = a" "sat_sub 0 a = 0"
  by (auto simp: sat_sub_def)

lemma checked_add_Some_iff:
  "checked_add a b = Some c \<longleftrightarrow> unat a + unat b < 2 ^ LENGTH('a) \<and> c = a + b"
  for a b :: "'a::len word"
  by (auto simp: checked_add_def)

lemma unat_add_no_wrap:
  "unat a + unat b < 2 ^ LENGTH('a) \<Longrightarrow> unat (a + b) = unat a + unat b"
  for a b :: "'a::len word"
  by (simp add: unat_word_ariths)

lemma unat_less_two_power: "unat (x :: 'a::len word) < 2 ^ LENGTH('a)"
  by (rule unsigned_less)

lemma unat_u8_less: "unat (x :: u8) < 256"
  using unat_less_two_power [of x] by simp

lemma unat_u16_less: "unat (x :: u16) < 65536"
  using unat_less_two_power [of x] by simp

lemma word_of_nat_unat_id [simp]: "word_of_nat (unat x) = x"
  by simp

lemma unat_word_of_nat_small:
  "n < 2 ^ LENGTH('a) \<Longrightarrow> unat (word_of_nat n :: 'a::len word) = n"
  by (simp add: unsigned_of_nat take_bit_nat_eq_self)

section \<open>Results and panics\<close>

datatype ('a, 'e) result = Ok 'a | Err 'e | Panic

fun rbind :: "('a, 'e) result \<Rightarrow> ('a \<Rightarrow> ('b, 'e) result) \<Rightarrow> ('b, 'e) result" where
  "rbind (Ok x) f = f x"
| "rbind (Err e) f = Err e"
| "rbind Panic f = Panic"

text \<open>\<^verbatim>\<open>Option::ok_or\<close>, \<^verbatim>\<open>Result::map_err\<close>, and \<^verbatim>\<open>Option::expect\<close>.\<close>

fun ok_or :: "'e \<Rightarrow> 'a option \<Rightarrow> ('a, 'e) result" where
  "ok_or e (Some x) = Ok x"
| "ok_or e None = Err e"

fun map_err :: "('e \<Rightarrow> 'f) \<Rightarrow> ('a, 'e) result \<Rightarrow> ('a, 'f) result" where
  "map_err f (Ok x) = Ok x"
| "map_err f (Err e) = Err (f e)"
| "map_err f Panic = Panic"

fun expect :: "'a option \<Rightarrow> ('a, 'e) result" where
  "expect (Some x) = Ok x"
| "expect None = Panic"

lemma rbind_assoc: "rbind (rbind m f) g = rbind m (\<lambda>x. rbind (f x) g)"
  by (cases m) auto

lemma rbind_Ok_iff [result_simps]:
  "rbind m f = Ok y \<longleftrightarrow> (\<exists>x. m = Ok x \<and> f x = Ok y)"
  by (cases m) auto

lemma rbind_Panic_iff [result_simps]:
  "rbind m f = Panic \<longleftrightarrow> m = Panic \<or> (\<exists>x. m = Ok x \<and> f x = Panic)"
  by (cases m) auto

lemma rbind_Err_iff [result_simps]:
  "rbind m f = Err e \<longleftrightarrow> m = Err e \<or> (\<exists>x. m = Ok x \<and> f x = Err e)"
  by (cases m) auto

lemma ok_or_simps [simp]:
  "ok_or e x = Ok y \<longleftrightarrow> x = Some y"
  "ok_or e x \<noteq> Panic"
  "ok_or e x = Err e' \<longleftrightarrow> x = None \<and> e' = e"
  by (cases x; auto)+

lemma map_err_simps [simp]:
  "map_err f m = Ok y \<longleftrightarrow> m = Ok y"
  "map_err f m = Panic \<longleftrightarrow> m = Panic"
  by (cases m; auto)+

lemma expect_Panic_iff [simp]: "expect x = Panic \<longleftrightarrow> x = None"
  by (cases x) auto

lemma rbind_no_panic [no_panic]:
  "m \<noteq> Panic \<Longrightarrow> (\<And>x. m = Ok x \<Longrightarrow> f x \<noteq> Panic) \<Longrightarrow> rbind m f \<noteq> Panic"
  by (cases m) auto

section \<open>Indexing and slicing with bounds checks\<close>

definition index :: "'a list \<Rightarrow> nat \<Rightarrow> ('a, 'e) result" where
  "index xs i = (if i < length xs then Ok (xs ! i) else Panic)"

text \<open>\<^verbatim>\<open>&buf[a..b]\<close> and \<^verbatim>\<open>&buf[a..]\<close>.\<close>

definition subslice :: "'a list \<Rightarrow> nat \<Rightarrow> nat \<Rightarrow> ('a list, 'e) result" where
  "subslice xs a b = (if a \<le> b \<and> b \<le> length xs then Ok (drop a (take b xs)) else Panic)"

definition subslice_from :: "'a list \<Rightarrow> nat \<Rightarrow> ('a list, 'e) result" where
  "subslice_from xs a = subslice xs a (length xs)"

text \<open>\<^verbatim>\<open>buf[i] = b\<close> and \<^verbatim>\<open>buf[i..i + bs.len()].copy_from_slice(&bs)\<close>.\<close>

definition index_set :: "'a list \<Rightarrow> nat \<Rightarrow> 'a \<Rightarrow> ('a list, 'e) result" where
  "index_set xs i v = (if i < length xs then Ok (xs[i := v]) else Panic)"

definition copy_from_slice :: "'a list \<Rightarrow> nat \<Rightarrow> 'a list \<Rightarrow> ('a list, 'e) result" where
  "copy_from_slice xs i vs =
     (if i + length vs \<le> length xs
      then Ok (take i xs @ vs @ drop (i + length vs) xs) else Panic)"

lemma index_Ok [simp]: "i < length xs \<Longrightarrow> index xs i = Ok (xs ! i)"
  by (simp add: index_def)

lemma index_Cons_0 [simp]: "index (x # xs) 0 = Ok x"
  by simp

lemma index_0_guard [simp]: "\<not> length xs < numeral k \<Longrightarrow> index xs 0 = Ok (xs ! 0)"
  by (cases xs) auto

lemma index_Panic_iff [simp]: "index xs i = Panic \<longleftrightarrow> length xs \<le> i"
  by (auto simp: index_def)

lemma subslice_Ok [simp]: "a \<le> b \<Longrightarrow> b \<le> length xs \<Longrightarrow> subslice xs a b = Ok (drop a (take b xs))"
  by (simp add: subslice_def)

lemma subslice_Panic_iff [simp]: "subslice xs a b = Panic \<longleftrightarrow> \<not> (a \<le> b \<and> b \<le> length xs)"
  by (auto simp: subslice_def)

lemma subslice_from_Ok [simp]: "a \<le> length xs \<Longrightarrow> subslice_from xs a = Ok (drop a xs)"
  by (simp add: subslice_from_def)

lemma subslice_from_Panic_iff [simp]: "subslice_from xs a = Panic \<longleftrightarrow> length xs < a"
  by (auto simp: subslice_from_def)

lemma subslice_never_Err [simp]:
  "index xs i \<noteq> Err e" "subslice xs a b \<noteq> Err e" "subslice_from xs a \<noteq> Err e"
  by (auto simp: index_def subslice_from_def subslice_def)

section \<open>Big-endian 16-bit values\<close>

definition u16_to_be_bytes :: "u16 \<Rightarrow> bytes" where
  "u16_to_be_bytes w = [ucast (drop_bit 8 w), ucast w]"

definition u16_from_be_bytes :: "u8 \<Rightarrow> u8 \<Rightarrow> u16" where
  "u16_from_be_bytes hi lo = push_bit 8 (ucast hi) OR ucast lo"

lemma u16_to_be_bytes_length [simp]: "length (u16_to_be_bytes w) = 2"
  by (simp add: u16_to_be_bytes_def)

lemma u16_from_to_be_bytes [simp]:
  "u16_from_be_bytes (ucast (drop_bit 8 w)) (ucast w) = w"
  unfolding u16_from_be_bytes_def
  by (rule bit_word_eqI) (auto simp: bit_simps)

lemma u8_bit_beyond [simp]: "\<not> bit (x :: u8) (8 + n)"
  using bit_imp_le_length [of x "8 + n"] by auto

lemma u16_to_from_be_bytes [simp]:
  "u16_to_be_bytes (u16_from_be_bytes hi lo) = [hi, lo]"
  unfolding u16_from_be_bytes_def u16_to_be_bytes_def
  by (auto intro!: bit_word_eqI simp: bit_simps)

lemma u16_to_be_bytes_inject [simp]:
  "u16_to_be_bytes v = u16_to_be_bytes w \<longleftrightarrow> v = w"
proof
  assume "u16_to_be_bytes v = u16_to_be_bytes w"
  then have "u16_from_be_bytes (ucast (drop_bit 8 v)) (ucast v)
      = u16_from_be_bytes (ucast (drop_bit 8 w)) (ucast w)"
    by (simp add: u16_to_be_bytes_def)
  then show "v = w" by simp
qed simp

section \<open>Histories of calls\<close>

text \<open>
  A history is the list of the calls made on a component, oldest first. \<open>since opens closes\<close> says
  that some call satisfies \<open>opens\<close> and no later one satisfies \<open>closes\<close>.
\<close>

definition since :: "('e \<Rightarrow> bool) \<Rightarrow> ('e \<Rightarrow> bool) \<Rightarrow> 'e list \<Rightarrow> bool" where
  "since opens closes evs \<longleftrightarrow>
     (\<exists>pre e post. evs = pre @ e # post \<and> opens e \<and> (\<forall>x \<in> set post. \<not> closes x))"

lemma since_Nil [simp]: "\<not> since opens closes []"
  by (simp add: since_def)

lemma since_snoc [simp]:
  "since opens closes (evs @ [e]) \<longleftrightarrow> opens e \<or> (since opens closes evs \<and> \<not> closes e)"
proof
  assume "since opens closes (evs @ [e])"
  then obtain pre x post where eq: "evs @ [e] = pre @ x # post" and x: "opens x"
    and post: "\<forall>x \<in> set post. \<not> closes x"
    by (auto simp: since_def)
  show "opens e \<or> (since opens closes evs \<and> \<not> closes e)"
  proof (cases post rule: rev_cases)
    case (snoc post' y)
    with eq have "e = y" "evs = pre @ x # post'" by auto
    with post x snoc show ?thesis by (auto simp: since_def)
  qed (use eq x in auto)
next
  assume "opens e \<or> (since opens closes evs \<and> \<not> closes e)"
  then show "since opens closes (evs @ [e])"
  proof
    assume "opens e"
    then show ?thesis unfolding since_def by (intro exI [of _ evs] exI [of _ e] exI [of _ "[]"]) simp
  next
    assume "since opens closes evs \<and> \<not> closes e"
    then obtain pre x post where "evs = pre @ x # post" "opens x" "\<forall>x \<in> set post. \<not> closes x"
      "\<not> closes e" by (auto simp: since_def)
    then show ?thesis
      unfolding since_def by (intro exI [of _ pre] exI [of _ x] exI [of _ "post @ [e]"]) auto
  qed
qed

end
