(* ===== verification/BTree.thy ===== *)
theory BTree
  imports Prelude "HOL-Library.Multiset"
begin

text \<open>
  The standard library's \<^verbatim>\<open>BTreeMap\<close> and \<^verbatim>\<open>BTreeSet\<close>, which the state machines keep their
  per-identifier state in. A map is the list of its entries in the order in which the library
  iterates over them, that is with strictly increasing keys; a set is a map to \<^verbatim>\<open>()\<close>, as in
  the library itself. The interface the clients rely on is the locale \<open>ordered_map\<close>: what
  \<^verbatim>\<open>get\<close> returns after an insertion or a removal, and that both keep the order. The list model is an
  interpretation of it.
\<close>

section \<open>The interface of an ordered map\<close>

locale ordered_map =
  fixes empty :: "'m"
    and insert :: "'k::linorder \<Rightarrow> 'v \<Rightarrow> 'm \<Rightarrow> 'm"
    and remove :: "'k \<Rightarrow> 'm \<Rightarrow> 'm"
    and get :: "'m \<Rightarrow> 'k \<Rightarrow> 'v option"
    and entries :: "'m \<Rightarrow> ('k \<times> 'v) list"
    and inv :: "'m \<Rightarrow> bool"
  assumes get_empty: "get empty k = None"
    and get_insert: "inv m \<Longrightarrow> get (insert k v m) k' = (if k' = k then Some v else get m k')"
    and get_remove: "inv m \<Longrightarrow> get (remove k m) k' = (if k' = k then None else get m k')"
    and inv_empty: "inv empty"
    and inv_insert: "inv m \<Longrightarrow> inv (insert k v m)"
    and inv_remove: "inv m \<Longrightarrow> inv (remove k m)"
    and entries_sorted: "inv m \<Longrightarrow> sorted_wrt (<) (map fst (entries m))"
    and entries_get: "inv m \<Longrightarrow> (k, v) \<in> set (entries m) \<longleftrightarrow> get m k = Some v"
begin

lemma remove_absent: "inv m \<Longrightarrow> get m k = None \<Longrightarrow> get (remove k m) k' = get m k'"
  by (simp add: get_remove)

lemma insert_after_remove:
  "inv m \<Longrightarrow> get (insert k v (remove k m)) k' = get (insert k v m) k'"
  by (simp add: get_insert get_remove inv_remove)

lemma entries_determined:
  assumes "inv m" "inv n" "\<And>k. get m k = get n k"
  shows "entries m = entries n"
proof -
  have sets: "set (entries m) = set (entries n)"
    using assms entries_get by (metis (no_types, opaque_lifting) subset_antisym subsetI surj_pair)
  have "sorted (map fst (entries m)) \<and> distinct (map fst (entries m))"
    "sorted (map fst (entries n)) \<and> distinct (map fst (entries n))"
    using entries_sorted assms(1,2) strict_sorted_iff by blast+
  with sets show ?thesis
    by (intro map_sorted_distinct_set_unique [where f = fst]) (auto simp: distinct_map)
qed

end

section \<open>Sorted association lists\<close>

type_synonym ('k, 'v) btmap = "('k \<times> 'v) list"

abbreviation bt_get :: "('k, 'v) btmap \<Rightarrow> 'k \<Rightarrow> 'v option" where
  "bt_get \<equiv> map_of"

fun bt_insert :: "'k::linorder \<Rightarrow> 'v \<Rightarrow> ('k, 'v) btmap \<Rightarrow> ('k, 'v) btmap" where
  "bt_insert k v [] = [(k, v)]"
| "bt_insert k v ((k', v') # m) =
     (if k < k' then (k, v) # (k', v') # m
      else if k = k' then (k, v) # m
      else (k', v') # bt_insert k v m)"

definition bt_remove :: "'k \<Rightarrow> ('k, 'v) btmap \<Rightarrow> ('k, 'v) btmap" where
  "bt_remove k m = filter (\<lambda>e. fst e \<noteq> k) m"

definition bt_keys :: "('k, 'v) btmap \<Rightarrow> 'k list" where
  "bt_keys m = map fst m"

definition bt_contains :: "'k \<Rightarrow> ('k, 'v) btmap \<Rightarrow> bool" where
  "bt_contains k m = (bt_get m k \<noteq> None)"

definition bt_map_values :: "('v \<Rightarrow> 'w) \<Rightarrow> ('k, 'v) btmap \<Rightarrow> ('k, 'w) btmap" where
  "bt_map_values f m = map (\<lambda>(k, v). (k, f v)) m"

definition bt_wf :: "('k::linorder, 'v) btmap \<Rightarrow> bool" where
  "bt_wf m = sorted_wrt (<) (map fst m)"

lemma bt_wf_Nil [simp]: "bt_wf []"
  by (simp add: bt_wf_def)

lemma bt_wf_Cons:
  "bt_wf ((k, v) # m) \<longleftrightarrow> bt_wf m \<and> (\<forall>k' \<in> fst ` set m. k < k')"
  by (auto simp: bt_wf_def)

lemma bt_wf_distinct: "bt_wf m \<Longrightarrow> distinct (map fst m)"
  by (simp add: bt_wf_def strict_sorted_iff)

lemma fst_set_bt_insert: "fst ` set (bt_insert k v m) = insert k (fst ` set m)"
  by (induction k v m rule: bt_insert.induct) auto

lemma bt_wf_insert [simp, intro]: "bt_wf m \<Longrightarrow> bt_wf (bt_insert k v m)"
proof (induction k v m rule: bt_insert.induct)
  case (2 k v k' v' m)
  then show ?case
    by (cases k k' rule: linorder_cases) (auto simp: bt_wf_Cons fst_set_bt_insert)
qed (simp add: bt_wf_def)

lemma bt_wf_remove [simp, intro]: "bt_wf m \<Longrightarrow> bt_wf (bt_remove k m)"
  unfolding bt_wf_def bt_remove_def
  by (induction m) auto

lemma bt_get_insert [simp]:
  "bt_wf m \<Longrightarrow> bt_get (bt_insert k v m) = (bt_get m)(k \<mapsto> v)"
  by (induction k v m rule: bt_insert.induct) (auto simp: bt_wf_Cons fun_eq_iff)

lemma bt_get_remove [simp]: "bt_get (bt_remove k m) = (bt_get m)(k := None)"
  by (induction m) (auto simp: bt_remove_def fun_eq_iff)

lemma bt_get_map_values [simp]: "bt_get (bt_map_values f m) k = map_option f (bt_get m k)"
  by (induction m) (auto simp: bt_map_values_def)

lemma bt_keys_map_values [simp]: "bt_keys (bt_map_values f m) = bt_keys m"
  by (auto simp: bt_keys_def bt_map_values_def)

lemma bt_wf_map_values [simp]: "bt_wf (bt_map_values f m) = bt_wf m"
  by (simp add: bt_wf_def bt_map_values_def comp_def case_prod_unfold)

lemma bt_entries_get: "bt_wf m \<Longrightarrow> (k, v) \<in> set m \<longleftrightarrow> bt_get m k = Some v"
  using bt_wf_distinct Some_eq_map_of_iff by metis

lemma set_bt_keys: "set (bt_keys m) = dom (bt_get m)"
  by (simp add: bt_keys_def dom_map_of_conv_image_fst)

lemma bt_contains_iff: "bt_contains k m \<longleftrightarrow> k \<in> dom (bt_get m)"
  by (auto simp: bt_contains_def)

lemma length_bt_dom: "bt_wf m \<Longrightarrow> length m = card (dom (bt_get m))"
  by (metis bt_keys_def bt_wf_distinct distinct_card length_map set_bt_keys)

lemma finite_dom_bt_get [simp]: "finite (dom (bt_get m))"
  by (rule finite_dom_map_of)

interpretation btm: ordered_map "[]" bt_insert bt_remove bt_get "\<lambda>m. m" bt_wf
proof unfold_locales
  show "bt_wf m \<Longrightarrow> sorted_wrt (<) (map fst m)" for m :: "('k::linorder, 'v) btmap"
    by (simp add: bt_wf_def)
qed (auto simp: bt_entries_get)

lemma bt_eqI: "bt_wf m \<Longrightarrow> bt_wf n \<Longrightarrow> bt_get m = bt_get n \<Longrightarrow> m = n"
  using btm.entries_determined [of m n] by simp

text \<open>Taking an entry out and putting it back, as several handlers do, changes nothing.\<close>

lemma bt_reinsert [simp]:
  "bt_wf m \<Longrightarrow> bt_get m k = Some v \<Longrightarrow> bt_insert k v (bt_remove k m) = m"
  by (rule bt_eqI) (auto simp: fun_eq_iff)

lemma bt_remove_absent: "bt_get m k = None \<Longrightarrow> bt_remove k m = m"
  by (induction m) (auto simp: bt_remove_def split: if_splits)

lemma bt_insert_absent_mset:
  "bt_get m k = None \<Longrightarrow> mset (bt_insert k v m) = add_mset (k, v) (mset m)"
  by (induction k v m rule: bt_insert.induct) (auto split: if_splits)

lemma bt_insert_update:
  assumes "bt_wf m" "bt_get m i = Some v"
  shows "bt_insert i w m = map (\<lambda>(j, x). (j, if j = i then w else x)) m"
proof (rule bt_eqI)
  show "bt_wf (map (\<lambda>(j, x). (j, if j = i then w else x)) m)"
    using assms(1) by (simp add: bt_wf_def comp_def case_prod_unfold)
  have "bt_get (map (\<lambda>(j, x). (j, if j = i then w else x)) m) k
      = map_option (\<lambda>x. if k = i then w else x) (bt_get m k)" for k
    by (induction m) auto
  with assms show "bt_get (bt_insert i w m) = bt_get (map (\<lambda>(j, x). (j, if j = i then w else x)) m)"
    by (auto simp: fun_eq_iff option.map_ident)
qed (use assms in simp)

section \<open>Sorting by a key\<close>

lemma sort_key_snoc:
  fixes k :: "'a \<Rightarrow> 'b::linorder"
  assumes "mset zs = add_mset x (mset xs)" "inj_on k (set zs)" "\<And>y. y \<in> set xs \<Longrightarrow> k y < k x"
  shows "sort_key k zs = sort_key k xs @ [x]"
proof (rule sort_key_inj_key_eq [OF _ assms(2)])
  show "mset zs = mset (sort_key k xs @ [x])" using assms(1) by simp
  show "sorted (map k (sort_key k xs @ [x]))"
    using assms(3) by (auto simp: sorted_append less_imp_le)
qed

lemma sort_key_map:
  fixes k :: "'a \<Rightarrow> 'b::linorder"
  assumes "\<And>x. k (h x) = k x"
  shows "sort_key k (map h xs) = map h (sort_key k xs)"
proof -
  have "insort_key k (h x) (map h ys) = map h (insort_key k x ys)" for x ys
    by (induction ys) (auto simp: assms)
  then show ?thesis by (induction xs) auto
qed

section \<open>Ordered sets\<close>

type_synonym 'k btset = "'k list"

fun bs_insert :: "'k::linorder \<Rightarrow> 'k btset \<Rightarrow> 'k btset" where
  "bs_insert x [] = [x]"
| "bs_insert x (y # ys) =
     (if x < y then x # y # ys else if x = y then y # ys else y # bs_insert x ys)"

definition bs_remove :: "'k \<Rightarrow> 'k btset \<Rightarrow> 'k btset" where
  "bs_remove x xs = filter (\<lambda>y. y \<noteq> x) xs"

definition bs_contains :: "'k \<Rightarrow> 'k btset \<Rightarrow> bool" where
  "bs_contains x xs = List.member xs x"

definition bs_first :: "'k btset \<Rightarrow> 'k option" where
  "bs_first xs = (case xs of [] \<Rightarrow> None | x # _ \<Rightarrow> Some x)"

definition bs_wf :: "'k::linorder btset \<Rightarrow> bool" where
  "bs_wf xs = sorted_wrt (<) xs"

lemma bs_wf_Nil [simp]: "bs_wf []"
  by (simp add: bs_wf_def)

lemma bs_contains_iff [simp]: "bs_contains x xs \<longleftrightarrow> x \<in> set xs"
  by (simp add: bs_contains_def)

lemma set_bs_insert [simp]: "set (bs_insert x xs) = insert x (set xs)"
  by (induction x xs rule: bs_insert.induct) auto

lemma set_bs_remove [simp]: "set (bs_remove x xs) = set xs - {x}"
  by (auto simp: bs_remove_def)

lemma bs_wf_insert [simp, intro]: "bs_wf xs \<Longrightarrow> bs_wf (bs_insert x xs)"
proof (induction x xs rule: bs_insert.induct)
  case (2 x y ys)
  then show ?case
    by (cases x y rule: linorder_cases) (auto simp: bs_wf_def)
qed (simp add: bs_wf_def)

lemma bs_wf_remove [simp, intro]: "bs_wf xs \<Longrightarrow> bs_wf (bs_remove x xs)"
  by (auto simp: bs_wf_def bs_remove_def sorted_wrt_filter)

lemma bs_first_Nil [simp]: "bs_first [] = None"
  by (simp add: bs_first_def)

lemma bs_first_None_iff [simp]: "bs_first xs = None \<longleftrightarrow> xs = []"
  by (auto simp: bs_first_def split: list.splits)

lemma bs_first_Some: "bs_first xs = Some x \<Longrightarrow> x \<in> set xs"
  by (auto simp: bs_first_def split: list.splits)

lemma bs_first_least: "bs_wf xs \<Longrightarrow> bs_first xs = Some x \<Longrightarrow> y \<in> set xs \<Longrightarrow> x \<le> y"
  by (auto simp: bs_first_def bs_wf_def split: list.splits)

lemma length_bs: "bs_wf xs \<Longrightarrow> length xs = card (set xs)"
  by (simp add: bs_wf_def strict_sorted_iff distinct_card)

end
