(* ===== verification/PacketId.thy ===== *)
theory PacketId
  imports BTree
begin

text \<open>
  The pool of packet identifiers, \<^verbatim>\<open>PacketIdManager\<close> of \<^verbatim>\<open>src/state/packet_id.rs\<close>, and the
  contract it offers to the session: an allocated identifier is non-zero and was not in use.
  The pool refines the specification \<open>least_unused\<close>, which hands out the least identifier of
  1 to 65535 that is not in use.
\<close>

section \<open>The pool\<close>

record packet_id_manager =
  next_id :: u32
  free_list :: "u16 btset"
  in_use :: "u16 btset"

definition pid_new :: packet_id_manager where
  "pid_new = \<lparr>next_id = 1, free_list = [], in_use = []\<rparr>"

lemma unat_ucast_next: "w \<le> 65535 \<Longrightarrow> unat (ucast (w :: u32) :: u16) = unat w"
  by (simp add: unsigned_ucast_eq take_bit_nat_eq_self word_le_nat_alt)

lemma unat_next_Suc: "w \<le> 65535 \<Longrightarrow> unat (w + 1 :: u32) = unat w + 1"
  by (simp add: unat_add_no_wrap word_le_nat_alt)

text \<open>The \<^verbatim>\<open>while\<close> loop of \<^verbatim>\<open>allocate\<close>: identifiers that are still in use are skipped.\<close>

function pid_allocate_loop :: "packet_id_manager \<Rightarrow> u16 option \<times> packet_id_manager" where
  "pid_allocate_loop p =
     (if next_id p \<le> 65535 then
        let i = (ucast (next_id p) :: u16);
            p' = p\<lparr>next_id := next_id p + 1\<rparr>
        in if \<not> bs_contains i (in_use p')
           then (Some i, p'\<lparr>in_use := bs_insert i (in_use p')\<rparr>)
           else pid_allocate_loop p'
      else (None, p))"
  by pat_completeness auto
termination
  by (relation "measure (\<lambda>p. 65536 - unat (next_id p))")
    (auto simp: unat_next_Suc word_le_nat_alt)

declare pid_allocate_loop.simps [simp del]

definition pid_allocate :: "packet_id_manager \<Rightarrow> u16 option \<times> packet_id_manager" where
  "pid_allocate p =
     (case bs_first (free_list p) of
        Some i \<Rightarrow>
          (Some i, p\<lparr>free_list := bs_remove i (free_list p), in_use := bs_insert i (in_use p)\<rparr>)
      | None \<Rightarrow> pid_allocate_loop p)"

definition pid_release :: "u16 \<Rightarrow> packet_id_manager \<Rightarrow> packet_id_manager" where
  "pid_release i p =
     (if i = 0 then p
      else if bs_contains i (in_use p)
      then p\<lparr>in_use := bs_remove i (in_use p), free_list := bs_insert i (free_list p)\<rparr>
      else p)"

definition pid_in_use_count :: "packet_id_manager \<Rightarrow> nat" where
  "pid_in_use_count p = length (in_use p)"

definition pid_is_available :: "packet_id_manager \<Rightarrow> bool" where
  "pid_is_available p \<longleftrightarrow> \<not> free_list p = [] \<or> next_id p \<le> 65535"

definition pid_reset :: "packet_id_manager \<Rightarrow> packet_id_manager" where
  "pid_reset p = p\<lparr>next_id := 1, free_list := [], in_use := []\<rparr>"

section \<open>Invariant and specification\<close>

text \<open>Every identifier below \<open>next_id\<close> is either in use or on the free list, and none is both.\<close>

definition pid_used :: "packet_id_manager \<Rightarrow> u16 set" where
  "pid_used p = set (in_use p)"

definition pid_inv :: "packet_id_manager \<Rightarrow> bool" where
  "pid_inv p \<longleftrightarrow>
     1 \<le> unat (next_id p) \<and> unat (next_id p) \<le> 65536 \<and>
     bs_wf (free_list p) \<and> bs_wf (in_use p) \<and>
     set (free_list p) \<inter> set (in_use p) = {} \<and>
     set (free_list p) \<union> set (in_use p) = {i. 0 < unat i \<and> unat i < unat (next_id p)}"

text \<open>The specification on the set of used identifiers alone.\<close>

definition least_unused :: "u16 set \<Rightarrow> u16 option" where
  "least_unused U = (if - U \<subseteq> {0} then None else Some (Min (- U - {0})))"

lemma least_unused_eqI:
  assumes "x \<notin> U" "x \<noteq> 0" "\<And>y. y \<notin> U \<Longrightarrow> y \<noteq> 0 \<Longrightarrow> x \<le> y"
  shows "least_unused U = Some x"
proof -
  have "Min (- U - {0}) = x" using assms by (intro Min_eqI) auto
  with assms(1,2) show ?thesis by (auto simp: least_unused_def)
qed

lemma least_unused_Some:
  assumes "least_unused U = Some x"
  shows "x \<noteq> 0" "x \<notin> U" "\<And>y. y \<notin> U \<Longrightarrow> y \<noteq> 0 \<Longrightarrow> x \<le> y"
proof -
  from assms have ne: "- U - {0} \<noteq> {}" and x: "x = Min (- U - {0})"
    by (auto simp: least_unused_def split: if_splits)
  from Min_in [OF _ ne] x show "x \<noteq> 0" "x \<notin> U" by auto
  show "\<And>y. y \<notin> U \<Longrightarrow> y \<noteq> 0 \<Longrightarrow> x \<le> y" using x by simp
qed

section \<open>The contract of an identifier pool\<close>

text \<open>What the session relies on. \<open>used\<close> is the set of identifiers handed out and not released.\<close>

locale id_pool =
  fixes fresh :: "'p"
    and alloc :: "'p \<Rightarrow> u16 option \<times> 'p"
    and release :: "u16 \<Rightarrow> 'p \<Rightarrow> 'p"
    and used :: "'p \<Rightarrow> u16 set"
    and inv :: "'p \<Rightarrow> bool"
  assumes inv_fresh: "inv fresh"
    and used_fresh: "used fresh = {}"
    and alloc_result: "inv p \<Longrightarrow> fst (alloc p) = least_unused (used p)"
    and alloc_used: "inv p \<Longrightarrow> used (snd (alloc p)) = used p \<union> set_option (fst (alloc p))"
    and inv_alloc: "inv p \<Longrightarrow> inv (snd (alloc p))"
    and release_used: "inv p \<Longrightarrow> used (release i p) = used p - {i}"
    and inv_release: "inv p \<Longrightarrow> inv (release i p)"
    and zero_unused: "inv p \<Longrightarrow> 0 \<notin> used p"
begin

lemma alloc_fresh: "inv p \<Longrightarrow> alloc p = (Some i, p') \<Longrightarrow> i \<noteq> 0 \<and> i \<notin> used p \<and> used p' = insert i (used p)"
  using alloc_result [of p] alloc_used [of p] least_unused_Some [of "used p" i] by auto

lemma alloc_None_iff: "inv p \<Longrightarrow> fst (alloc p) = None \<longleftrightarrow> used p = - {0}"
  using alloc_result [of p] zero_unused [of p]
  by (auto simp: least_unused_def split: if_splits)

text \<open>An allocated identifier that is released at once leaves the set of used ones as it was.\<close>

lemma alloc_release: "inv p \<Longrightarrow> alloc p = (Some i, p') \<Longrightarrow> used (release i p') = used p"
  using alloc_fresh [of p i p'] inv_alloc [of p] release_used [of p' i] by auto

text \<open>Any number of allocations in a row gives pairwise distinct identifiers.\<close>

fun alloc_many :: "nat \<Rightarrow> 'p \<Rightarrow> u16 list \<times> 'p" where
  "alloc_many 0 p = ([], p)"
| "alloc_many (Suc n) p =
     (case alloc p of (None, p') \<Rightarrow> ([], p')
      | (Some i, p') \<Rightarrow> (case alloc_many n p' of (ids, q) \<Rightarrow> (i # ids, q)))"

lemma alloc_many_distinct:
  "inv p \<Longrightarrow> alloc_many n p = (ids, q) \<Longrightarrow>
   inv q \<and> distinct ids \<and> 0 \<notin> set ids \<and> set ids \<inter> used p = {} \<and> used q = used p \<union> set ids"
proof (induction n arbitrary: p ids q)
  case (Suc n)
  obtain r p' where r: "alloc p = (r, p')" by fastforce
  show ?case
  proof (cases r)
    case None
    with r Suc.prems inv_alloc [of p] alloc_used [of p] show ?thesis by auto
  next
    case (Some i)
    obtain ids' where ids': "alloc_many n p' = (ids', q)" "ids = i # ids'"
      using r Some Suc.prems(2) by (auto split: prod.splits)
    have "inv p'" using inv_alloc [of p] Suc.prems(1) r by simp
    from Suc.IH [OF this ids'(1)] alloc_fresh [OF Suc.prems(1), of i p'] r Some ids'(2)
    show ?thesis by auto
  qed
qed simp

end

section \<open>The pool meets the contract\<close>

lemma pid_inv_new: "pid_inv pid_new"
  by (auto simp: pid_inv_def pid_new_def)

lemma pid_reset_eq [simp]: "pid_reset p = pid_new"
  by (cases p) (simp add: pid_reset_def pid_new_def)

lemma pid_inv_nonzero: "pid_inv p \<Longrightarrow> 0 \<notin> set (free_list p) \<union> set (in_use p)"
  unfolding pid_inv_def by (elim conjE, simp only:) simp

lemma pid_inv_next_unused:
  assumes "pid_inv p" "unat i = unat (next_id p)"
  shows "i \<notin> set (in_use p)"
  using assms by (auto simp: pid_inv_def)

text \<open>Under the invariant the loop runs at most once.\<close>

lemma pid_allocate_loop_inv:
  assumes "pid_inv p"
  shows "pid_allocate_loop p =
     (if next_id p \<le> 65535
      then (Some (ucast (next_id p)), p\<lparr>next_id := next_id p + 1,
              in_use := bs_insert (ucast (next_id p)) (in_use p)\<rparr>)
      else (None, p))"
  using pid_inv_next_unused [OF assms, of "ucast (next_id p)"] unat_ucast_next [of "next_id p"]
  by (subst pid_allocate_loop.simps) (simp add: Let_def)

lemma pid_inv_allocate: "pid_inv p \<Longrightarrow> pid_inv (snd (pid_allocate p))"
proof (cases "bs_first (free_list p)")
  case None
  assume p: "pid_inv p"
  show ?thesis
  proof (cases "next_id p \<le> 65535")
    case True
    let ?i = "ucast (next_id p) :: u16"
    have "{i. 0 < unat i \<and> unat i < unat (next_id p) + 1}
        = insert ?i {i. 0 < unat i \<and> unat i < unat (next_id p)}"
      using p unat_ucast_next [OF True] by (auto simp: pid_inv_def less_Suc_eq word_unat_eq_iff)
    with p True None pid_inv_next_unused [OF p, of ?i] unat_next_Suc [OF True]
      unat_ucast_next [OF True]
    show ?thesis
      by (auto simp: pid_allocate_def pid_allocate_loop_inv pid_inv_def word_le_nat_alt)
  qed (use p None in \<open>simp add: pid_allocate_def pid_allocate_loop_inv\<close>)
next
  case (Some i)
  assume p: "pid_inv p"
  from Some bs_first_Some [OF Some] p show ?thesis
    by (auto simp: pid_allocate_def pid_inv_def)
qed

lemma pid_used_allocate:
  "pid_inv p \<Longrightarrow> pid_used (snd (pid_allocate p)) = pid_used p \<union> set_option (fst (pid_allocate p))"
  by (auto simp: pid_allocate_def pid_allocate_loop_inv pid_used_def split: option.splits)

lemma pid_allocate_least:
  assumes p: "pid_inv p"
  shows "fst (pid_allocate p) = least_unused (pid_used p)"
proof -
  have cover: "unat y < unat (next_id p) \<Longrightarrow> y \<noteq> 0 \<Longrightarrow> y \<in> set (free_list p) \<union> set (in_use p)" for y
    using p by (auto simp: pid_inv_def unat_gt_0)
  show ?thesis
  proof (cases "bs_first (free_list p)")
    case None
    then have free: "free_list p = []" by simp
    show ?thesis
    proof (cases "next_id p \<le> 65535")
      case True
      let ?i = "ucast (next_id p) :: u16"
      have "?i \<notin> pid_used p" "?i \<noteq> 0"
        using pid_inv_next_unused [OF p, of ?i] unat_ucast_next [OF True] p
        by (auto simp: pid_used_def pid_inv_def)
      moreover have "?i \<le> y" if "y \<notin> pid_used p" "y \<noteq> 0" for y
        using cover [of y] that free unat_ucast_next [OF True]
        by (cases "unat y < unat (next_id p)") (auto simp: pid_used_def word_le_nat_alt)
      ultimately have "least_unused (pid_used p) = Some ?i" by (rule least_unused_eqI)
      with None True p show ?thesis by (simp add: pid_allocate_def pid_allocate_loop_inv)
    next
      case False
      then have "unat y < unat (next_id p)" for y :: u16
        using unat_u16_less [of y] by (simp add: word_le_nat_alt)
      with cover free have "- pid_used p \<subseteq> {0}" by (auto simp: pid_used_def)
      then show ?thesis
        using False None p by (simp add: pid_allocate_def pid_allocate_loop_inv least_unused_def)
    qed
  next
    case (Some i)
    have "i \<noteq> 0" using bs_first_Some [OF Some] pid_inv_nonzero [OF p] by auto
    moreover have "i \<notin> pid_used p"
      using bs_first_Some [OF Some] p by (auto simp: pid_inv_def pid_used_def)
    moreover have "i \<le> y" if "y \<notin> pid_used p" "y \<noteq> 0" for y
    proof (cases "unat y < unat (next_id p)")
      case True
      with cover [of y] that have "y \<in> set (free_list p)" by (auto simp: pid_used_def)
      with bs_first_least [OF _ Some] p show ?thesis by (auto simp: pid_inv_def)
    next
      case False
      have "unat i < unat (next_id p)" using bs_first_Some [OF Some] p by (auto simp: pid_inv_def)
      with False show ?thesis by (simp add: word_le_nat_alt)
    qed
    ultimately have "least_unused (pid_used p) = Some i" by (intro least_unused_eqI)
    with Some show ?thesis by (simp add: pid_allocate_def)
  qed
qed

lemma pid_used_release: "pid_inv p \<Longrightarrow> pid_used (pid_release i p) = pid_used p - {i}"
  by (auto simp: pid_release_def pid_used_def pid_inv_def)

lemma pid_inv_release: "pid_inv p \<Longrightarrow> pid_inv (pid_release i p)"
  by (auto simp: pid_release_def pid_inv_def)

interpretation pid: id_pool pid_new pid_allocate pid_release pid_used pid_inv
proof unfold_locales
  show "pid_used pid_new = {}" by (simp add: pid_used_def pid_new_def)
  show "pid_inv p \<Longrightarrow> 0 \<notin> pid_used p" for p by (auto simp: pid_inv_def pid_used_def)
qed (simp_all add: pid_inv_new pid_allocate_least pid_used_allocate pid_inv_allocate
    pid_used_release pid_inv_release)

text \<open>\<^verbatim>\<open>is_available\<close> answers exactly whether the next \<^verbatim>\<open>allocate\<close> succeeds.\<close>

lemma pid_is_available_iff: "pid_inv p \<Longrightarrow> pid_is_available p \<longleftrightarrow> fst (pid_allocate p) \<noteq> None"
  by (auto simp: pid_is_available_def pid_allocate_def pid_allocate_loop_inv bs_first_def
      split: option.splits list.splits)

lemma pid_in_use_count_card: "pid_inv p \<Longrightarrow> pid_in_use_count p = card (pid_used p)"
  by (simp add: pid_in_use_count_def pid_used_def pid_inv_def length_bs)

section \<open>Properties\<close>

text \<open>A history of allocations and releases, and what the caller sees of it.\<close>

datatype pid_event = Alloc | Release u16

fun pid_outputs :: "pid_event list \<Rightarrow> packet_id_manager \<Rightarrow> u16 option list" where
  "pid_outputs [] p = []"
| "pid_outputs (Alloc # evs) p = (case pid_allocate p of (r, p') \<Rightarrow> r # pid_outputs evs p')"
| "pid_outputs (Release i # evs) p = pid_outputs evs (pid_release i p)"

fun unused_outputs :: "pid_event list \<Rightarrow> u16 set \<Rightarrow> u16 option list" where
  "unused_outputs [] U = []"
| "unused_outputs (Alloc # evs) U =
     least_unused U # unused_outputs evs (U \<union> set_option (least_unused U))"
| "unused_outputs (Release i # evs) U = unused_outputs evs (U - {i})"

lemma pid_outputs_refine: "pid_inv p \<Longrightarrow> pid_outputs evs p = unused_outputs evs (pid_used p)"
proof (induction evs arbitrary: p)
  case (Cons e evs)
  show ?case
  proof (cases e)
    case Alloc
    obtain r p' where r: "pid_allocate p = (r, p')" by fastforce
    with pid.inv_alloc [OF Cons.prems] pid.alloc_result [OF Cons.prems] pid.alloc_used [OF Cons.prems]
    show ?thesis using Alloc Cons.IH [of p'] by simp
  next
    case (Release i)
    then show ?thesis
      using Cons.IH [OF pid_inv_release [OF Cons.prems]] Cons.prems by (simp add: pid_used_release)
  qed
qed simp

text \<open>
  C17: The pool refines its specification. Whatever sequence of allocations and releases is made on a
  new pool, every allocation answers with the least identifier of 1 to 65535 that is not in use, and
  with \<open>None\<close> exactly when all of them are.
\<close>

theorem pid_refines_least_unused: "pid_outputs evs pid_new = unused_outputs evs {}"
  using pid_outputs_refine [OF pid_inv_new] pid.used_fresh by simp

text \<open>
  Allocating any number of times in a row never hands out the same identifier twice, nor zero, nor
  one that was already in use; identifiers handed out are in use afterwards.
\<close>

theorem pid_allocations_distinct:
  assumes "pid_inv p" "pid.alloc_many n p = (ids, q)"
  shows "distinct ids \<and> 0 \<notin> set ids \<and> set ids \<inter> pid_used p = {} \<and> pid_used q = pid_used p \<union> set ids"
  using pid.alloc_many_distinct [OF assms] by simp

lemma pid_allocate_new: "pid_allocate pid_new = (Some 1, \<lparr>next_id = 2, free_list = [], in_use = [1]\<rparr>)"
  by (simp add: pid_allocate_def pid_new_def pid_allocate_loop.simps [of "\<lparr>next_id = 1, free_list = [], in_use = []\<rparr>"])

theorem pid_allocations_distinct_witness:
  "distinct [1 :: u16] \<and> pid_used \<lparr>next_id = 2, free_list = [], in_use = [1]\<rparr> = pid_used pid_new \<union> set [1]"
  using pid_allocations_distinct [OF pid_inv_new, of 1 "[1]"
      "\<lparr>next_id = 2, free_list = [], in_use = [1]\<rparr>"]
  by (simp add: pid_allocate_new)

end
