(* ===== verification/FlowControl.thy ===== *)
theory FlowControl
  imports Prelude
begin

text \<open>
  The receive-maximum accounting of \<^verbatim>\<open>src/state/flow_control.rs\<close>. Both directions keep a count of
  unacknowledged messages below a limit; the locale \<open>credit\<close> states that contract once and is
  interpreted for the sending and for the receiving direction.
\<close>

section \<open>State and operations\<close>

datatype flow_control_error =
    ReceiveMaximumExceeded | InvalidReceiveMaximum | InvalidQoS | InvalidPacketId

record flow_control =
  fc_receive_maximum :: u16
  fc_outstanding_count :: u16
  fc_initialized :: bool
  fc_own_receive_maximum :: u16
  fc_incoming_count :: u16

text \<open>An operation that returns \<open>Err\<close> has not assigned to any field, so no state comes with it.\<close>

type_synonym fc_result = "(flow_control, flow_control_error) result"

definition fc_new :: flow_control where
  "fc_new = \<lparr>fc_receive_maximum = 65535, fc_outstanding_count = 0, fc_initialized = False,
     fc_own_receive_maximum = 65535, fc_incoming_count = 0\<rparr>"

definition fc_set_receive_maximum :: "u16 \<Rightarrow> flow_control \<Rightarrow> fc_result" where
  "fc_set_receive_maximum m fc =
     (if m = 0 then Err InvalidReceiveMaximum
      else Ok (fc\<lparr>fc_receive_maximum := m, fc_initialized := True\<rparr>))"

definition fc_set_own_receive_maximum :: "u16 \<Rightarrow> flow_control \<Rightarrow> fc_result" where
  "fc_set_own_receive_maximum m fc =
     (if m = 0 then Err InvalidReceiveMaximum
      else Ok (fc\<lparr>fc_own_receive_maximum := m\<rparr>))"

definition fc_can_send :: "flow_control \<Rightarrow> bool" where
  "fc_can_send fc \<longleftrightarrow> fc_outstanding_count fc < fc_receive_maximum fc"

definition fc_available :: "flow_control \<Rightarrow> u16" where
  "fc_available fc = sat_sub (fc_receive_maximum fc) (fc_outstanding_count fc)"

definition fc_publish_sent :: "flow_control \<Rightarrow> fc_result" where
  "fc_publish_sent fc =
     (if \<not> fc_can_send fc then Err ReceiveMaximumExceeded
      else Ok (fc\<lparr>fc_outstanding_count := sat_add (fc_outstanding_count fc) 1\<rparr>))"

definition fc_publish_acked :: "flow_control \<Rightarrow> flow_control" where
  "fc_publish_acked fc = fc\<lparr>fc_outstanding_count := sat_sub (fc_outstanding_count fc) 1\<rparr>"

definition fc_can_receive :: "flow_control \<Rightarrow> bool" where
  "fc_can_receive fc \<longleftrightarrow> fc_incoming_count fc < fc_own_receive_maximum fc"

definition fc_publish_received :: "flow_control \<Rightarrow> fc_result" where
  "fc_publish_received fc =
     (if \<not> fc_can_receive fc then Err ReceiveMaximumExceeded
      else Ok (fc\<lparr>fc_incoming_count := sat_add (fc_incoming_count fc) 1\<rparr>))"

definition fc_publish_ack_sent :: "flow_control \<Rightarrow> flow_control" where
  "fc_publish_ack_sent fc = fc\<lparr>fc_incoming_count := sat_sub (fc_incoming_count fc) 1\<rparr>"

definition fc_incoming_available :: "flow_control \<Rightarrow> u16" where
  "fc_incoming_available fc = sat_sub (fc_own_receive_maximum fc) (fc_incoming_count fc)"

definition fc_reset :: "bool \<Rightarrow> flow_control \<Rightarrow> flow_control" where
  "fc_reset keep_own_receive_maximum fc =
     (let own = (if keep_own_receive_maximum then fc_own_receive_maximum fc else 65535) in
      fc\<lparr>fc_receive_maximum := 65535, fc_outstanding_count := 0, fc_initialized := False,
         fc_own_receive_maximum := own, fc_incoming_count := 0\<rparr>)"

section \<open>The credit contract\<close>

locale credit =
  fixes count :: "'s \<Rightarrow> nat"
    and limit :: "'s \<Rightarrow> nat"
    and charge :: "'s \<Rightarrow> ('s, flow_control_error) result"
    and refund :: "'s \<Rightarrow> 's"
  assumes charge_ok: "count s < limit s \<Longrightarrow>
      \<exists>s'. charge s = Ok s' \<and> count s' = count s + 1 \<and> limit s' = limit s"
    and charge_err: "limit s \<le> count s \<Longrightarrow> charge s = Err ReceiveMaximumExceeded"
    and refund_count: "count (refund s) = count s - 1"
    and refund_limit: "limit (refund s) = limit s"
begin

lemma charge_OkD: "charge s = Ok s' \<Longrightarrow> count s < limit s \<and> count s' = count s + 1 \<and> limit s' = limit s"
  using charge_ok [of s] charge_err [of s] by (cases "count s < limit s") (auto simp: not_less)

lemma charge_Ok_iff: "(\<exists>s'. charge s = Ok s') \<longleftrightarrow> count s < limit s"
  using charge_ok [of s] charge_OkD [of s] by auto

lemma charge_never_panics: "charge s \<noteq> Panic"
  using charge_ok [of s] charge_err [of s] by (cases "count s < limit s") auto

lemma charge_refund: "charge s = Ok s' \<Longrightarrow> count (refund s') = count s \<and> limit (refund s') = limit s"
  using charge_OkD [of s s'] by (simp add: refund_count refund_limit)

text \<open>A sequence of attempts: \<open>True\<close> charges, keeping the state when that is refused, \<open>False\<close> refunds.\<close>

primrec attempts :: "bool list \<Rightarrow> 's \<Rightarrow> 's" where
  "attempts [] s = s"
| "attempts (b # bs) s =
     attempts bs (if b then (case charge s of Ok s' \<Rightarrow> s' | _ \<Rightarrow> s) else refund s)"

lemma attempts_bounded: "count s \<le> limit s \<Longrightarrow> count (attempts bs s) \<le> limit s \<and> limit (attempts bs s) = limit s"
proof (induction bs arbitrary: s)
  case (Cons b bs)
  show ?case
  proof (cases b)
    case True
    show ?thesis
    proof (cases "charge s")
      case (Ok s')
      with charge_OkD [OF Ok] Cons.IH [of s'] True show ?thesis by simp
    qed (use True Cons in auto)
  next
    case False
    with Cons.IH [of "refund s"] Cons.prems show ?thesis by (simp add: refund_count refund_limit)
  qed
qed simp

text \<open>From an idle state exactly \<open>limit\<close> charges in a row succeed.\<close>

primrec charges :: "nat \<Rightarrow> 's \<Rightarrow> ('s, flow_control_error) result" where
  "charges 0 s = Ok s"
| "charges (Suc n) s = rbind (charge s) (charges n)"

lemma charges_Ok_iff: "(\<exists>s'. charges n s = Ok s') \<longleftrightarrow> n = 0 \<or> count s + n \<le> limit s"
proof (induction n arbitrary: s)
  case (Suc n)
  show ?case
  proof (cases "count s < limit s")
    case True
    from charge_ok [OF this] obtain s' where s': "charge s = Ok s'" "count s' = count s + 1"
      "limit s' = limit s" by blast
    with Suc.IH [of s'] True show ?thesis by auto
  next
    case False
    then show ?thesis using charge_err [of s] by simp
  qed
qed simp

end

section \<open>Both directions of the flow control meet the contract\<close>

lemma unat_sat_succ: "a < b \<Longrightarrow> unat (sat_add a 1 :: u16) = unat a + 1"
  using unat_u16_less [of b] by (simp add: unat_sat_add word_less_nat_alt)

interpretation sending: credit "\<lambda>fc. unat (fc_outstanding_count fc)"
  "\<lambda>fc. unat (fc_receive_maximum fc)" fc_publish_sent fc_publish_acked
  by unfold_locales
    (auto simp: fc_publish_sent_def fc_can_send_def fc_publish_acked_def unat_sat_succ unat_sat_sub
      word_less_nat_alt)

interpretation receiving: credit "\<lambda>fc. unat (fc_incoming_count fc)"
  "\<lambda>fc. unat (fc_own_receive_maximum fc)" fc_publish_received fc_publish_ack_sent
  by unfold_locales
    (auto simp: fc_publish_received_def fc_can_receive_def fc_publish_ack_sent_def unat_sat_succ
      unat_sat_sub word_less_nat_alt)

section \<open>Invariant\<close>

definition fc_inv :: "flow_control \<Rightarrow> bool" where
  "fc_inv fc \<longleftrightarrow>
     0 < fc_receive_maximum fc \<and> 0 < fc_own_receive_maximum fc \<and>
     fc_outstanding_count fc \<le> fc_receive_maximum fc \<and>
     fc_incoming_count fc \<le> fc_own_receive_maximum fc"

lemma fc_inv_new [simp]: "fc_inv fc_new"
  by (simp add: fc_inv_def fc_new_def)

lemma fc_inv_reset [simp]: "fc_inv fc \<Longrightarrow> fc_inv (fc_reset keep fc)"
  by (simp add: fc_inv_def fc_reset_def Let_def)

lemma fc_inv_publish_sent: "fc_inv fc \<Longrightarrow> fc_publish_sent fc = Ok fc' \<Longrightarrow> fc_inv fc'"
  by (auto simp: fc_inv_def fc_publish_sent_def fc_can_send_def word_le_nat_alt word_less_nat_alt
      unat_sat_succ split: if_splits)

lemma fc_inv_publish_received: "fc_inv fc \<Longrightarrow> fc_publish_received fc = Ok fc' \<Longrightarrow> fc_inv fc'"
  by (auto simp: fc_inv_def fc_publish_received_def fc_can_receive_def word_le_nat_alt
      word_less_nat_alt unat_sat_succ split: if_splits)

lemma fc_inv_acked [simp]: "fc_inv fc \<Longrightarrow> fc_inv (fc_publish_acked fc)"
  by (auto simp: fc_inv_def fc_publish_acked_def word_le_nat_alt unat_sat_sub)

lemma fc_inv_ack_sent [simp]: "fc_inv fc \<Longrightarrow> fc_inv (fc_publish_ack_sent fc)"
  by (auto simp: fc_inv_def fc_publish_ack_sent_def word_le_nat_alt unat_sat_sub)

text \<open>A new limit keeps the invariant when nothing is unacknowledged, as at the start of a connection.\<close>

lemma fc_inv_set_receive_maximum:
  "fc_inv fc \<Longrightarrow> fc_outstanding_count fc = 0 \<Longrightarrow> fc_set_receive_maximum m fc = Ok fc' \<Longrightarrow> fc_inv fc'"
  by (auto simp: fc_inv_def fc_set_receive_maximum_def word_neq_0_conv split: if_splits)

lemma fc_inv_set_own_receive_maximum:
  "fc_inv fc \<Longrightarrow> fc_incoming_count fc = 0 \<Longrightarrow> fc_set_own_receive_maximum m fc = Ok fc' \<Longrightarrow> fc_inv fc'"
  by (auto simp: fc_inv_def fc_set_own_receive_maximum_def word_neq_0_conv split: if_splits)

lemma fc_can_send_iff_available: "fc_can_send fc \<longleftrightarrow> fc_available fc \<noteq> 0"
  by (auto simp: fc_can_send_def fc_available_def word_less_nat_alt unat_sat_sub
      simp flip: unat_gt_0)

lemma fc_can_receive_iff_available: "fc_can_receive fc \<longleftrightarrow> fc_incoming_available fc \<noteq> 0"
  by (auto simp: fc_can_receive_def fc_incoming_available_def word_less_nat_alt unat_sat_sub
      simp flip: unat_gt_0)

section \<open>Properties\<close>

text \<open>
  The send window is exact. From any state, \<open>n > 0\<close> PUBLISH packets in a row are accepted if and
  only if \<open>n\<close> more unacknowledged ones still fit under the peer's receive maximum.
\<close>

theorem fc_send_window_exact:
  "(\<exists>fc'. sending.charges n fc = Ok fc') \<longleftrightarrow>
     n = 0 \<or> unat (fc_outstanding_count fc) + n \<le> unat (fc_receive_maximum fc)"
  by (rule sending.charges_Ok_iff)

text \<open>
  No sequence of send attempts and acknowledgements, in any order and with refused attempts
  included, takes the number of unacknowledged PUBLISH packets above the receive maximum.
\<close>

theorem fc_never_exceeds_window:
  assumes "fc_inv fc"
  shows "unat (fc_outstanding_count (sending.attempts bs fc)) \<le> unat (fc_receive_maximum fc)"
  using sending.attempts_bounded [of fc bs] assms by (simp add: fc_inv_def word_le_nat_alt)

theorem fc_never_exceeds_window_witness:
  "fc_inv fc_new \<and> unat (fc_outstanding_count (sending.attempts [True, True, False] fc_new))
     \<le> unat (fc_receive_maximum fc_new)"
  by (intro conjI fc_inv_new fc_never_exceeds_window)

end
