(* ===== verification/KeepAlive.thy ===== *)
theory KeepAlive
  imports Prelude
begin

text \<open>
  The keep-alive timer of \<^verbatim>\<open>src/state/keep_alive.rs\<close>: 64-bit time stamps in milliseconds that
  the caller supplies, and the two deadlines computed from them. The timer's answers are related to
  the sequence of calls made on it.
\<close>

section \<open>State and operations\<close>

type_synonym timestamp = u64

record keep_alive =
  ka_keep_alive_secs :: u16
  ka_last_activity :: u64
  ka_pingreq_sent_at :: "timestamp option"

definition ka_new :: "u16 \<Rightarrow> keep_alive" where
  "ka_new secs = \<lparr>ka_keep_alive_secs = secs, ka_last_activity = 0, ka_pingreq_sent_at = None\<rparr>"

definition ka_set_keep_alive :: "u16 \<Rightarrow> keep_alive \<Rightarrow> keep_alive" where
  "ka_set_keep_alive secs ka = ka\<lparr>ka_keep_alive_secs := secs\<rparr>"

definition ka_activity :: "timestamp \<Rightarrow> keep_alive \<Rightarrow> keep_alive" where
  "ka_activity now ka = ka\<lparr>ka_last_activity := now\<rparr>"

definition ka_pingreq_sent :: "timestamp \<Rightarrow> keep_alive \<Rightarrow> keep_alive" where
  "ka_pingreq_sent now ka = ka\<lparr>ka_pingreq_sent_at := Some now, ka_last_activity := now\<rparr>"

definition ka_pingresp_received :: "keep_alive \<Rightarrow> keep_alive" where
  "ka_pingresp_received ka = ka\<lparr>ka_pingreq_sent_at := None\<rparr>"

definition ka_is_awaiting_pingresp :: "keep_alive \<Rightarrow> bool" where
  "ka_is_awaiting_pingresp ka \<longleftrightarrow> ka_pingreq_sent_at ka \<noteq> None"

definition ka_should_send_pingreq :: "keep_alive \<Rightarrow> timestamp \<Rightarrow> bool" where
  "ka_should_send_pingreq ka now =
     (if ka_keep_alive_secs ka = 0 then False
      else
        let keep_alive_ms = (ucast (ka_keep_alive_secs ka) :: u64) * 1000;
            threshold_ms = keep_alive_ms
        in threshold_ms \<le> sat_sub now (ka_last_activity ka))"

definition ka_has_timed_out :: "keep_alive \<Rightarrow> timestamp \<Rightarrow> bool" where
  "ka_has_timed_out ka now =
     (if ka_keep_alive_secs ka = 0 then False
      else
        case ka_pingreq_sent_at ka of
          None \<Rightarrow> False
        | Some sent_at \<Rightarrow>
            let deadline_ms = (ucast (ka_keep_alive_secs ka) :: u64) * 1000
            in deadline_ms \<le> sat_sub now sent_at)"

definition ka_reset :: "keep_alive \<Rightarrow> keep_alive" where
  "ka_reset ka = ka\<lparr>ka_keep_alive_secs := 0, ka_last_activity := 0, ka_pingreq_sent_at := None\<rparr>"

section \<open>Deadlines on unbounded time\<close>

text \<open>The product of a 16-bit number of seconds and 1000 does not wrap in 64 bits.\<close>

lemma unat_interval_ms: "unat ((ucast (s :: u16) :: u64) * 1000) = 1000 * unat s"
proof -
  have "unat (ucast s :: u64) = unat s"
    using unat_u16_less [of s] by (simp add: unsigned_ucast_eq take_bit_nat_eq_self)
  then show ?thesis using unat_u16_less [of s] by (simp add: unat_word_ariths)
qed

lemma interval_elapsed:
  assumes "s \<noteq> (0 :: u16)"
  shows "(ucast s :: u64) * 1000 \<le> sat_sub now t \<longleftrightarrow> unat t + 1000 * unat s \<le> unat now"
proof -
  have "0 < unat s" using assms by (simp add: unat_gt_0)
  then show ?thesis
    unfolding word_le_nat_alt unat_interval_ms unat_sat_sub by linarith
qed

lemma ka_should_send_iff:
  "ka_should_send_pingreq ka now \<longleftrightarrow> ka_keep_alive_secs ka \<noteq> 0 \<and>
     unat (ka_last_activity ka) + 1000 * unat (ka_keep_alive_secs ka) \<le> unat now"
  by (simp add: ka_should_send_pingreq_def interval_elapsed Let_def)

lemma ka_timed_out_iff:
  "ka_has_timed_out ka now \<longleftrightarrow> ka_keep_alive_secs ka \<noteq> 0 \<and>
     (\<exists>t. ka_pingreq_sent_at ka = Some t \<and>
          unat t + 1000 * unat (ka_keep_alive_secs ka) \<le> unat now)"
  by (auto simp: ka_has_timed_out_def interval_elapsed Let_def split: option.splits)

section \<open>The timer as an observer of the calls made on it\<close>

datatype ka_event = SetKeepAlive u16 | Activity timestamp | PingreqSent timestamp | PingrespReceived

fun ka_step :: "keep_alive \<Rightarrow> ka_event \<Rightarrow> keep_alive" where
  "ka_step ka (SetKeepAlive s) = ka_set_keep_alive s ka"
| "ka_step ka (Activity t) = ka_activity t ka"
| "ka_step ka (PingreqSent t) = ka_pingreq_sent t ka"
| "ka_step ka PingrespReceived = ka_pingresp_received ka"

definition ka_run :: "u16 \<Rightarrow> ka_event list \<Rightarrow> keep_alive" where
  "ka_run secs evs = foldl ka_step (ka_new secs) evs"

lemmas ka_op_defs = ka_set_keep_alive_def ka_activity_def ka_pingreq_sent_def
  ka_pingresp_received_def

text \<open>A ping sent at \<open>t\<close> is open when neither a response nor another request has followed it.\<close>

definition ping_open :: "timestamp \<Rightarrow> ka_event list \<Rightarrow> bool" where
  "ping_open t = since (\<lambda>e. e = PingreqSent t) (\<lambda>e. e = PingrespReceived \<or> (\<exists>u. e = PingreqSent u))"

lemma ka_run_snoc: "ka_run secs (evs @ [e]) = ka_step (ka_run secs evs) e"
  by (simp add: ka_run_def)

lemma ka_run_pingreq: "ka_pingreq_sent_at (ka_run secs evs) = Some t \<longleftrightarrow> ping_open t evs"
proof (induction evs rule: rev_induct)
  case (snoc e evs)
  then show ?case
    by (cases e) (auto simp: ka_run_snoc ping_open_def ka_op_defs)
qed (simp add: ka_run_def ka_new_def ping_open_def)

section \<open>Properties\<close>

text \<open>
  C34: The timer reports a timeout exactly when keep alive is on and a PINGREQ, sent at some time \<open>t\<close>
  and followed by neither a PINGRESP nor another PINGREQ, has been waiting for at least the keep-alive
  interval. The comparison is the one on unbounded time: neither the product nor the difference of the
  64-bit computation wraps.
\<close>

theorem ka_timeout_history:
  "ka_has_timed_out (ka_run secs evs) now \<longleftrightarrow>
     ka_keep_alive_secs (ka_run secs evs) \<noteq> 0 \<and>
     (\<exists>t. ping_open t evs \<and>
          unat t + 1000 * unat (ka_keep_alive_secs (ka_run secs evs)) \<le> unat now)"
  by (simp add: ka_timed_out_iff ka_run_pingreq)

text \<open>
  A PINGREQ is due exactly when keep alive is on and the interval has elapsed since the last
  activity, on unbounded time.
\<close>

theorem ka_pingreq_due:
  "ka_should_send_pingreq ka now \<longleftrightarrow> ka_keep_alive_secs ka \<noteq> 0 \<and>
     unat (ka_last_activity ka) + 1000 * unat (ka_keep_alive_secs ka) \<le> unat now"
  by (rule ka_should_send_iff)

end
