(* ===== verification/TopicAlias.thy ===== *)
theory TopicAlias
  imports Prelude
begin

text \<open>
  The topic alias tables of \<^verbatim>\<open>src/state/topic_alias.rs\<close>: a receiving table that maps an alias to
  the topic the peer registered for it and a sending table searched by topic. The main result is
  that a sender and a receiver which run this code agree: whatever the sender puts into a PUBLISH,
  the receiver resolves to the topic the sender meant.
\<close>

section \<open>State and operations\<close>

type_synonym alias_table = "rstring option list"

record topic_alias_manager =
  alias_to_topic :: alias_table
  topic_to_alias :: alias_table
  ta_own_maximum :: u16
  ta_peer_maximum :: u16

definition ta_new :: topic_alias_manager where
  "ta_new = \<lparr>alias_to_topic = [], topic_to_alias = [], ta_own_maximum = 0, ta_peer_maximum = 0\<rparr>"

text \<open>\<^verbatim>\<open>Vec::resize(index + 1, None)\<close> when the table is too short for \<open>idx\<close>.\<close>

definition ensure_capacity :: "nat \<Rightarrow> alias_table \<Rightarrow> alias_table" where
  "ensure_capacity idx tab =
     (if length tab \<le> idx then tab @ replicate (idx + 1 - length tab) None else tab)"

definition ta_ensure_receive_capacity :: "nat \<Rightarrow> topic_alias_manager \<Rightarrow> topic_alias_manager" where
  "ta_ensure_receive_capacity idx ta =
     ta\<lparr>alias_to_topic := ensure_capacity idx (alias_to_topic ta)\<rparr>"

definition ta_ensure_send_capacity :: "nat \<Rightarrow> topic_alias_manager \<Rightarrow> topic_alias_manager" where
  "ta_ensure_send_capacity idx ta =
     ta\<lparr>topic_to_alias := ensure_capacity idx (topic_to_alias ta)\<rparr>"

definition ta_set_own_maximum :: "u16 \<Rightarrow> topic_alias_manager \<Rightarrow> topic_alias_manager" where
  "ta_set_own_maximum m ta = ta_ensure_receive_capacity (unat m) (ta\<lparr>ta_own_maximum := m\<rparr>)"

definition ta_set_peer_maximum :: "u16 \<Rightarrow> topic_alias_manager \<Rightarrow> topic_alias_manager" where
  "ta_set_peer_maximum m ta = ta_ensure_send_capacity (unat m) (ta\<lparr>ta_peer_maximum := m\<rparr>)"

text \<open>\<^verbatim>\<open>table.get(i).and_then(|entry| entry.clone())\<close>\<close>

definition entry :: "alias_table \<Rightarrow> nat \<Rightarrow> rstring option" where
  "entry tab i = (if i < length tab then tab ! i else None)"

text \<open>The only failure of these operations is an index panic, so the error type stays open.\<close>

definition ta_resolve_on_receive ::
    "rstring \<Rightarrow> u16 \<Rightarrow> topic_alias_manager \<Rightarrow> (rstring option \<times> topic_alias_manager, 'e) result" where
  "ta_resolve_on_receive topic_name topic_alias ta =
     (if topic_alias = 0 then
        if topic_name = [] then Ok (None, ta) else Ok (Some topic_name, ta)
      else if ta_own_maximum ta < topic_alias then Ok (None, ta)
      else if topic_name = [] then Ok (entry (alias_to_topic ta) (unat topic_alias), ta)
      else
        let ta1 = ta_ensure_receive_capacity (unat topic_alias) ta in
        rbind (index_set (alias_to_topic ta1) (unat topic_alias) (Some topic_name)) (\<lambda>tab.
        Ok (Some topic_name, ta1\<lparr>alias_to_topic := tab\<rparr>)))"

text \<open>The \<^verbatim>\<open>for\<close> loop of \<^verbatim>\<open>find_alias_for_topic\<close>; \<open>i\<close> is the index of the head entry.\<close>

fun find_alias_loop :: "u16 \<Rightarrow> rstring \<Rightarrow> nat \<Rightarrow> alias_table \<Rightarrow> u16 option" where
  "find_alias_loop peer topic_name i [] = None"
| "find_alias_loop peer topic_name i (e # es) =
     (let alias = (word_of_nat i :: u16) in
      if e = Some topic_name \<and> 0 < alias \<and> alias \<le> peer then Some alias
      else find_alias_loop peer topic_name (i + 1) es)"

definition ta_find_alias_for_topic :: "rstring \<Rightarrow> topic_alias_manager \<Rightarrow> u16 option" where
  "ta_find_alias_for_topic topic_name ta =
     (if ta_peer_maximum ta = 0 then None
      else find_alias_loop (ta_peer_maximum ta) topic_name 0 (topic_to_alias ta))"

text \<open>The \<^verbatim>\<open>for alias in 1..=max\<close> loop of \<^verbatim>\<open>register_for_send\<close>, over the aliases that are left.\<close>

fun register_loop :: "rstring \<Rightarrow> nat list \<Rightarrow> topic_alias_manager \<Rightarrow>
    (u16 option \<times> topic_alias_manager, 'e) result" where
  "register_loop topic_name [] ta = Ok (None, ta)"
| "register_loop topic_name (alias # aliases) ta =
     rbind (index (topic_to_alias ta) alias) (\<lambda>e.
       if e = None then
         rbind (index_set (topic_to_alias ta) alias (Some topic_name)) (\<lambda>tab.
         Ok (Some (word_of_nat alias), ta\<lparr>topic_to_alias := tab\<rparr>))
       else register_loop topic_name aliases ta)"

definition ta_register_for_send ::
    "rstring \<Rightarrow> topic_alias_manager \<Rightarrow> (u16 option \<times> topic_alias_manager, 'e) result" where
  "ta_register_for_send topic_name ta =
     (if ta_peer_maximum ta = 0 then Ok (None, ta)
      else
        case ta_find_alias_for_topic topic_name ta of
          Some alias \<Rightarrow> Ok (Some alias, ta)
        | None \<Rightarrow>
            let m = unat (ta_peer_maximum ta);
                ta1 = ta_ensure_send_capacity m ta
            in register_loop topic_name [1..<Suc m] ta1)"

definition ta_reset_mappings :: "topic_alias_manager \<Rightarrow> topic_alias_manager" where
  "ta_reset_mappings ta = ta\<lparr>alias_to_topic := [], topic_to_alias := []\<rparr>"

definition ta_reset :: "topic_alias_manager \<Rightarrow> topic_alias_manager" where
  "ta_reset ta =
     ta\<lparr>alias_to_topic := [], topic_to_alias := [], ta_own_maximum := 0, ta_peer_maximum := 0\<rparr>"

definition ta_alias_count :: "topic_alias_manager \<Rightarrow> nat" where
  "ta_alias_count ta =
     length (filter (\<lambda>e. e \<noteq> None) (alias_to_topic ta)) +
     length (filter (\<lambda>e. e \<noteq> None) (topic_to_alias ta))"

section \<open>Tables\<close>

lemma entry_ensure_capacity [simp]: "entry (ensure_capacity n tab) i = entry tab i"
  by (auto simp: entry_def ensure_capacity_def nth_append)

lemma length_ensure_capacity: "length (ensure_capacity n tab) = max (n + 1) (length tab)"
  by (auto simp: ensure_capacity_def)

lemma entry_update: "i < length tab \<Longrightarrow> entry (tab[i := v]) j = (if j = i then v else entry tab j)"
  by (auto simp: entry_def)

lemma entry_Some: "entry tab i = Some t \<Longrightarrow> i < length tab \<and> tab ! i = Some t"
  by (simp add: entry_def split: if_splits)

text \<open>The sending table holds entries for usable aliases only, and each topic at most once.\<close>

definition ta_inv :: "topic_alias_manager \<Rightarrow> bool" where
  "ta_inv ta \<longleftrightarrow>
     length (topic_to_alias ta) \<le> 65536 \<and> length (alias_to_topic ta) \<le> 65536 \<and>
     (\<forall>i t. entry (topic_to_alias ta) i = Some t \<longrightarrow> 1 \<le> i \<and> i \<le> unat (ta_peer_maximum ta)) \<and>
     (\<forall>i j t. entry (topic_to_alias ta) i = Some t \<longrightarrow> entry (topic_to_alias ta) j = Some t \<longrightarrow> i = j)"

lemma find_alias_loop_sound:
  "find_alias_loop peer t i tab = Some a \<Longrightarrow> i + length tab \<le> 65536 \<Longrightarrow>
   i \<le> unat a \<and> entry tab (unat a - i) = Some t \<and> 0 < a \<and> a \<le> peer"
proof (induction tab arbitrary: i)
  case (Cons e es)
  show ?case
  proof (cases "e = Some t \<and> 0 < (word_of_nat i :: u16) \<and> (word_of_nat i :: u16) \<le> peer")
    case True
    with Cons.prems show ?thesis
      by (auto simp: Let_def entry_def unat_word_of_nat_small split: if_splits)
  next
    case False
    with Cons.prems have r: "find_alias_loop peer t (i + 1) es = Some a"
      unfolding find_alias_loop.simps Let_def by argo
    from Cons.IH [OF r] Cons.prems(2)
    have "i + 1 \<le> unat a" "entry es (unat a - (i + 1)) = Some t" "0 < a" "a \<le> peer" by auto
    moreover from this have "unat a - i = Suc (unat a - (i + 1))" by simp
    ultimately show ?thesis by (simp add: entry_def split: if_splits)
  qed
qed simp

lemma find_alias_loop_complete:
  "entry tab j = Some t \<Longrightarrow> i + length tab \<le> 65536 \<Longrightarrow> 0 < i + j \<Longrightarrow> i + j \<le> unat peer \<Longrightarrow>
   find_alias_loop peer t i tab \<noteq> None"
proof (induction tab arbitrary: i j)
  case (Cons e es)
  show ?case
  proof (cases j)
    case 0
    with Cons.prems have "e = Some t" "0 < (word_of_nat i :: u16) \<and> (word_of_nat i :: u16) \<le> peer"
      by (auto simp: entry_def word_less_nat_alt word_le_nat_alt unat_word_of_nat_small)
    then show ?thesis by (simp add: Let_def)
  next
    case (Suc j')
    with Cons.prems have "entry es j' = Some t" by (simp add: entry_def split: if_splits)
    with Cons.IH [of j' "i + 1"] Cons.prems Suc show ?thesis by (simp add: Let_def)
  qed
qed (simp add: entry_def)

lemma ta_find_alias_iff:
  assumes "ta_inv ta"
  shows "ta_find_alias_for_topic t ta = Some a \<longleftrightarrow> entry (topic_to_alias ta) (unat a) = Some t"
proof
  assume "ta_find_alias_for_topic t ta = Some a"
  with assms show "entry (topic_to_alias ta) (unat a) = Some t"
    using find_alias_loop_sound [of "ta_peer_maximum ta" t 0 "topic_to_alias ta" a]
    by (auto simp: ta_find_alias_for_topic_def ta_inv_def split: if_splits)
next
  assume e: "entry (topic_to_alias ta) (unat a) = Some t"
  with assms have r: "1 \<le> unat a" "unat a \<le> unat (ta_peer_maximum ta)"
    by (auto simp: ta_inv_def)
  with e assms find_alias_loop_complete [OF e, of 0 "ta_peer_maximum ta"]
  obtain b where b: "find_alias_loop (ta_peer_maximum ta) t 0 (topic_to_alias ta) = Some b"
    by (auto simp: ta_inv_def)
  with assms have "entry (topic_to_alias ta) (unat b) = Some t"
    using find_alias_loop_sound [OF b] by (auto simp: ta_inv_def)
  with e assms have "a = b" by (auto simp: ta_inv_def word_unat_eq_iff)
  with b r show "ta_find_alias_for_topic t ta = Some a"
    by (auto simp: ta_find_alias_for_topic_def)
qed

section \<open>Registration\<close>

text \<open>The loop takes the first alias of its list that is free.\<close>

lemma register_loop_spec:
  "\<forall>a \<in> set as. a < length (topic_to_alias ta) \<Longrightarrow>
   register_loop t as ta =
     (case List.find (\<lambda>a. entry (topic_to_alias ta) a = None) as of
        None \<Rightarrow> Ok (None, ta)
      | Some a \<Rightarrow> Ok (Some (word_of_nat a), ta\<lparr>topic_to_alias := (topic_to_alias ta)[a := Some t]\<rparr>))"
  by (induction as) (auto simp: entry_def index_set_def)

definition free_alias :: "topic_alias_manager \<Rightarrow> nat option" where
  "free_alias ta =
     List.find (\<lambda>a. entry (topic_to_alias ta) a = None) [1..<Suc (unat (ta_peer_maximum ta))]"

lemma free_alias_Some:
  assumes "free_alias ta = Some a"
  shows "1 \<le> a" "a \<le> unat (ta_peer_maximum ta)" "entry (topic_to_alias ta) a = None"
  using assms unfolding free_alias_def find_Some_iff
  by (auto simp del: upt_Suc)

lemma free_alias_None_iff:
  "free_alias ta = None \<longleftrightarrow>
     (\<forall>a. 1 \<le> a \<longrightarrow> a \<le> unat (ta_peer_maximum ta) \<longrightarrow> entry (topic_to_alias ta) a \<noteq> None)"
  unfolding free_alias_def find_None_iff by (auto simp del: upt_Suc)

lemma ta_register_new:
  assumes "ta_find_alias_for_topic t ta = None"
  shows "ta_register_for_send t ta =
     (if ta_peer_maximum ta = 0 then Ok (None, ta)
      else
        let ta1 = ta_ensure_send_capacity (unat (ta_peer_maximum ta)) ta in
        case free_alias ta of
          None \<Rightarrow> Ok (None, ta1)
        | Some a \<Rightarrow> Ok (Some (word_of_nat a), ta1\<lparr>topic_to_alias := (topic_to_alias ta1)[a := Some t]\<rparr>))"
proof -
  let ?m = "unat (ta_peer_maximum ta)"
  let ?ta1 = "ta_ensure_send_capacity ?m ta"
  have "\<forall>a \<in> set [1..<Suc ?m]. a < length (topic_to_alias ?ta1)"
    by (auto simp: ta_ensure_send_capacity_def length_ensure_capacity)
  moreover have "List.find (\<lambda>a. entry (topic_to_alias ?ta1) a = None) [1..<Suc ?m] = free_alias ta"
    by (simp add: free_alias_def ta_ensure_send_capacity_def del: upt_Suc)
  ultimately show ?thesis
    using assms unfolding ta_register_for_send_def Let_def by (simp only: register_loop_spec) simp
qed

lemma ta_register_known:
  "ta_find_alias_for_topic t ta = Some b \<Longrightarrow> ta_register_for_send t ta = Ok (Some b, ta)"
  by (simp add: ta_register_for_send_def ta_find_alias_for_topic_def split: if_splits)

lemma ta_register_returns: "\<exists>r ta'. ta_register_for_send t ta = Ok (r, ta')"
  by (cases "ta_find_alias_for_topic t ta")
    (auto simp: ta_register_new ta_register_known Let_def split: option.splits)

lemma ta_register_cases:
  assumes "ta_register_for_send t ta = Ok (r, ta')"
  obtains (known) b where "ta_find_alias_for_topic t ta = Some b" "r = Some b" "ta' = ta"
    | (disabled) "r = None" "ta' = ta"
    | (full) "r = None" "ta' = ta\<lparr>topic_to_alias := ensure_capacity (unat (ta_peer_maximum ta)) (topic_to_alias ta)\<rparr>"
    | (new) b where "ta_find_alias_for_topic t ta = None" "free_alias ta = Some b"
        "r = Some (word_of_nat b)"
        "ta' = ta\<lparr>topic_to_alias := (ensure_capacity (unat (ta_peer_maximum ta)) (topic_to_alias ta))[b := Some t]\<rparr>"
proof (cases "ta_find_alias_for_topic t ta")
  case None
  with assms that(2-4) show thesis
    by (cases "free_alias ta")
      (auto simp: ta_register_new ta_ensure_send_capacity_def Let_def split: if_splits)
next
  case (Some b)
  with assms have "r = Some b" "ta' = ta" by (simp_all add: ta_register_known)
  with that(1) [OF Some] show thesis by blast
qed

lemma ta_register_Ok:
  assumes "ta_inv ta" "ta_register_for_send t ta = Ok (r, ta')"
  shows "ta_inv ta'" "alias_to_topic ta' = alias_to_topic ta" "ta_own_maximum ta' = ta_own_maximum ta"
    "ta_peer_maximum ta' = ta_peer_maximum ta"
    "r = Some a \<Longrightarrow> entry (topic_to_alias ta') (unat a) = Some t"
    "r = Some a \<Longrightarrow> i \<noteq> unat a \<Longrightarrow> entry (topic_to_alias ta') i = entry (topic_to_alias ta) i"
    "r = None \<Longrightarrow> entry (topic_to_alias ta') i = entry (topic_to_alias ta) i"
proof -
  let ?m = "unat (ta_peer_maximum ta)"
  let ?tab = "ensure_capacity ?m (topic_to_alias ta)"
  note cases = ta_register_cases [OF assms(2)]
  have len: "length ?tab \<le> 65536" using assms(1) unat_u16_less [of "ta_peer_maximum ta"]
    by (auto simp: ta_inv_def length_ensure_capacity)
  have new: "b < length ?tab \<and> unat (word_of_nat b :: u16) = b \<and> 1 \<le> b \<and> b \<le> ?m"
    if "free_alias ta = Some b" for b
    using free_alias_Some [OF that] unat_u16_less [of "ta_peer_maximum ta"]
    by (auto simp: length_ensure_capacity unat_word_of_nat_small)
  have absent: "entry (topic_to_alias ta) i \<noteq> Some t" if "ta_find_alias_for_topic t ta = None" for i
  proof
    assume e: "entry (topic_to_alias ta) i = Some t"
    with assms(1) have "i < 65536" by (auto simp: ta_inv_def dest: entry_Some)
    with e have "entry (topic_to_alias ta) (unat (word_of_nat i :: u16)) = Some t"
      by (simp add: unat_word_of_nat_small)
    with ta_find_alias_iff [OF assms(1)] that show False by force
  qed
  show "ta_inv ta'"
    by (rule cases)
      (use assms(1) len new absent in \<open>auto simp: ta_inv_def entry_update split: if_splits\<close>)
  show "alias_to_topic ta' = alias_to_topic ta" "ta_own_maximum ta' = ta_own_maximum ta"
    "ta_peer_maximum ta' = ta_peer_maximum ta"
    by (rule cases; simp)+
  show "r = Some a \<Longrightarrow> entry (topic_to_alias ta') (unat a) = Some t"
    by (rule cases) (use ta_find_alias_iff [OF assms(1)] new in \<open>auto simp: entry_update\<close>)
  show "r = Some a \<Longrightarrow> i \<noteq> unat a \<Longrightarrow> entry (topic_to_alias ta') i = entry (topic_to_alias ta) i"
    by (rule cases) (use new in \<open>auto simp: entry_update\<close>)
  show "r = None \<Longrightarrow> entry (topic_to_alias ta') i = entry (topic_to_alias ta) i"
    by (rule cases) auto
qed

lemma ta_inv_new: "ta_inv ta_new"
  by (simp add: ta_inv_def ta_new_def entry_def)

lemma ta_inv_reset_mappings: "ta_inv (ta_reset_mappings ta)"
  by (simp add: ta_inv_def ta_reset_mappings_def entry_def)

lemma ta_reset_eq [simp]: "ta_reset ta = ta_new"
  by (cases ta) (simp add: ta_reset_def ta_new_def)

lemma ta_inv_set_own_maximum: "ta_inv ta \<Longrightarrow> ta_inv (ta_set_own_maximum m ta)"
  using unat_u16_less [of m]
  by (auto simp: ta_inv_def ta_set_own_maximum_def ta_ensure_receive_capacity_def
      length_ensure_capacity)

text \<open>
  Lowering the peer's maximum below an alias in use would leave an unusable entry behind; the
  session sets it only after the mappings have been cleared.
\<close>

lemma ta_inv_set_peer_maximum:
  assumes "ta_inv ta" "\<And>i t. entry (topic_to_alias ta) i = Some t \<Longrightarrow> i \<le> unat m"
  shows "ta_inv (ta_set_peer_maximum m ta)"
  using assms unat_u16_less [of m]
  by (auto simp: ta_inv_def ta_set_peer_maximum_def ta_ensure_send_capacity_def
      length_ensure_capacity)

section \<open>Resolution\<close>

lemma ta_resolve_eq:
  "ta_resolve_on_receive t a ta = Ok
     (if a = 0 then (if t = [] then None else Some t, ta)
      else if ta_own_maximum ta < a then (None, ta)
      else if t = [] then (entry (alias_to_topic ta) (unat a), ta)
      else (Some t, ta\<lparr>alias_to_topic :=
              (ensure_capacity (unat a) (alias_to_topic ta))[unat a := Some t]\<rparr>))"
  by (auto simp: ta_resolve_on_receive_def ta_ensure_receive_capacity_def index_set_def
      length_ensure_capacity Let_def)

lemma ta_inv_resolve:
  assumes "ta_inv ta" "ta_resolve_on_receive t a ta = Ok (r, ta')"
  shows "ta_inv ta'"
  using assms unat_u16_less [of a]
  by (auto simp: ta_resolve_eq ta_inv_def length_ensure_capacity split: if_splits)

section \<open>A sender and a receiver stay in agreement\<close>

text \<open>
  What the sender puts into the PUBLISH for a topic: the alias alone once it is registered, topic
  and alias when the alias is new, the topic alone (alias 0) when no alias is free.
\<close>

definition ta_send :: "rstring \<Rightarrow> topic_alias_manager \<Rightarrow> (rstring \<times> u16) \<times> topic_alias_manager" where
  "ta_send t s =
     (case ta_find_alias_for_topic t s of
        Some a \<Rightarrow> (([], a), s)
      | None \<Rightarrow>
          (case ta_register_for_send t s :: (_, unit) result of
             Ok (Some a, s') \<Rightarrow> ((t, a), s')
           | Ok (None, s') \<Rightarrow> ((t, 0), s')
           | _ \<Rightarrow> ((t, 0), s)))"

definition ta_sync :: "topic_alias_manager \<Rightarrow> topic_alias_manager \<Rightarrow> bool" where
  "ta_sync s r \<longleftrightarrow> ta_inv s \<and> ta_own_maximum r = ta_peer_maximum s \<and>
     (\<forall>i t. entry (topic_to_alias s) i = Some t \<longrightarrow> entry (alias_to_topic r) i = Some t)"

lemma ta_sync_step:
  assumes sync: "ta_sync s r" and "t \<noteq> []" and snd_s: "ta_send t s = ((w, a), s')"
  shows "\<exists>r'. (ta_resolve_on_receive w a r :: (_, unit) result) = Ok (Some t, r') \<and> ta_sync s' r'"
proof (cases "ta_find_alias_for_topic t s")
  case (Some b)
  with snd_s have eq: "w = []" "a = b" "s' = s" by (auto simp: ta_send_def)
  from sync Some have e: "entry (topic_to_alias s) (unat a) = Some t"
    using ta_find_alias_iff [of s] eq by (auto simp: ta_sync_def)
  with sync have "1 \<le> unat a" "a \<le> ta_own_maximum r" "entry (alias_to_topic r) (unat a) = Some t"
    by (auto simp: ta_sync_def ta_inv_def word_le_nat_alt)
  with sync eq show ?thesis by (auto simp: ta_resolve_eq)
next
  case None
  from ta_register_returns obtain q s1 where
    reg: "(ta_register_for_send t s :: (_, unit) result) = Ok (q, s1)" by blast
  have inv: "ta_inv s" using sync by (simp add: ta_sync_def)
  note r = ta_register_Ok [OF inv reg]
  show ?thesis
  proof (cases q)
    case N: None
    with None reg snd_s have "w = t" "a = 0" "s' = s1" by (auto simp: ta_send_def)
    with sync r N \<open>t \<noteq> []\<close> show ?thesis by (auto simp: ta_resolve_eq ta_sync_def)
  next
    case (Some b)
    with None reg snd_s have eq: "w = t" "a = b" "s' = s1" by (auto simp: ta_send_def)
    with Some r(5) r(1) have e: "entry (topic_to_alias s') (unat a) = Some t" by simp
    with r(1,4) sync eq have "1 \<le> unat a" "a \<le> ta_own_maximum r"
      by (auto simp: ta_sync_def ta_inv_def word_le_nat_alt)
    with sync r(1,4) r(6) [OF Some] e eq \<open>t \<noteq> []\<close> show ?thesis
      by (auto simp: ta_resolve_eq ta_sync_def entry_update length_ensure_capacity)
  qed
qed

text \<open>The topics a receiver recovers from the PUBLISH packets of a sender, in order.\<close>

fun ta_exchange :: "rstring list \<Rightarrow> topic_alias_manager \<Rightarrow> topic_alias_manager \<Rightarrow> rstring option list" where
  "ta_exchange [] s r = []"
| "ta_exchange (t # ts) s r =
     (case ta_send t s of ((w, a), s') \<Rightarrow>
      (case ta_resolve_on_receive w a r :: (_, unit) result of
         Ok (res, r') \<Rightarrow> res # ta_exchange ts s' r'
       | _ \<Rightarrow> []))"

lemma ta_exchange_sync:
  "ta_sync s r \<Longrightarrow> [] \<notin> set ts \<Longrightarrow> ta_exchange ts s r = map Some ts"
proof (induction ts arbitrary: s r)
  case (Cons t ts)
  obtain w a s' where s: "ta_send t s = ((w, a), s')" by (metis prod.exhaust)
  with ta_sync_step [OF Cons.prems(1) _ s] Cons.prems(2)
  obtain r' where "(ta_resolve_on_receive w a r :: (_, unit) result) = Ok (Some t, r')" "ta_sync s' r'"
    by auto
  with s Cons show ?case by simp
qed simp

section \<open>Properties\<close>

lemma ta_sync_start: "ta_sync (ta_set_peer_maximum m ta_new) (ta_set_own_maximum m ta_new)"
  using ta_inv_set_peer_maximum [OF ta_inv_new, of m] unat_u16_less [of m]
  by (auto simp: ta_sync_def ta_new_def ta_set_peer_maximum_def ta_set_own_maximum_def
      ta_ensure_send_capacity_def ta_ensure_receive_capacity_def entry_def ensure_capacity_def
      ta_inv_def nth_append split: if_splits)

text \<open>
  C31: Topic aliases are transparent. A sender and a receiver that have agreed on a topic alias maximum
  recover, for every sequence of non-empty topics, exactly the topics that were sent: an alias is never
  resolved to another topic, and running out of aliases only costs compression.
\<close>

theorem ta_alias_transparent:
  assumes "[] \<notin> set ts"
  shows "ta_exchange ts (ta_set_peer_maximum m ta_new) (ta_set_own_maximum m ta_new) = map Some ts"
  by (rule ta_exchange_sync [OF ta_sync_start assms])

theorem ta_alias_transparent_witness:
  "ta_exchange [[97], [98], [97]] (ta_set_peer_maximum 1 ta_new) (ta_set_own_maximum 1 ta_new) =
     [Some [97], Some [98], Some [97]]"
  using ta_alias_transparent [of "[[97], [98], [97]]" 1] by simp

text \<open>
  Registering a topic on a well-formed table always returns, keeps the table well-formed, and an
  alias it returns is between 1 and the peer's maximum and from then on found for that topic.
\<close>

theorem ta_register_correct:
  assumes "ta_inv ta" "(ta_register_for_send t ta :: (_, unit) result) = Ok (Some a, ta')"
  shows "ta_inv ta' \<and> 0 < a \<and> a \<le> ta_peer_maximum ta \<and> ta_find_alias_for_topic t ta' = Some a"
proof -
  note r = ta_register_Ok [OF assms]
  have e: "entry (topic_to_alias ta') (unat a) = Some t" using r(5) by blast
  with r(1,4) have "1 \<le> unat a \<and> unat a \<le> unat (ta_peer_maximum ta)" by (auto simp: ta_inv_def)
  with r(1) e show ?thesis
    by (simp add: ta_find_alias_iff word_le_nat_alt word_less_nat_alt)
qed

theorem ta_register_correct_witness:
  "ta_inv (ta_set_peer_maximum 1 ta_new) \<and>
   ta_find_alias_for_topic [97] ((ta_set_peer_maximum 1 ta_new)\<lparr>topic_to_alias := [None, Some [97]]\<rparr>)
     = Some 1"
proof -
  have inv: "ta_inv (ta_set_peer_maximum 1 ta_new)"
    using ta_sync_start [of 1] by (simp add: ta_sync_def)
  have "(ta_register_for_send [97] (ta_set_peer_maximum 1 ta_new) :: (_, unit) result) =
      Ok (Some 1, (ta_set_peer_maximum 1 ta_new)\<lparr>topic_to_alias := [None, Some [97]]\<rparr>)"
    by (simp add: ta_register_for_send_def ta_set_peer_maximum_def ta_new_def
        ta_ensure_send_capacity_def ensure_capacity_def ta_find_alias_for_topic_def index_set_def
        numeral_2_eq_2 Let_def)
  from ta_register_correct [OF inv this] inv show ?thesis by simp
qed

end
