(* ===== verification/QosFlow.thy ===== *)
theory QosFlow
  imports BTree "HOL-Library.Product_Lexorder"
begin

text \<open>
  The QoS 1 and QoS 2 handshakes of \<^verbatim>\<open>src/state/qos_flow.rs\<close>. Outgoing and incoming flows live
  in separate spaces of packet identifiers. The outgoing side refines a queue of unfinished
  handshakes in retransmission order; the incoming side is characterised by the history of calls.
\<close>

section \<open>State and operations\<close>

datatype flow_state =
    AwaitingPuback | AwaitingPubrec | AwaitingPubcomp | AwaitingPubrel | IncomingAwaitingPuback

datatype action =
    SendPuback u16
  | SendPubrec u16 bool
  | SendPubrel u16
  | SendPubcomp u16
  | ResendPubcomp u16
  | ResendPublish u16
  | ResendPubrel u16
  | Complete u16
  | Aborted u16

datatype flow_error = Unknown | StateMismatch

record outgoing_flow =
  flow_seq :: u64
  flow_st :: flow_state
  quota_charged :: bool

record qos_flow_manager =
  outgoing :: "(u16, outgoing_flow) btmap"
  incoming :: "(u16, flow_state) btmap"
  next_seq :: u64

text \<open>A handler returns its verdict and the state it leaves behind, also when the verdict is an error.\<close>

type_synonym flow_verdict = "(action option, flow_error) result"

definition qf_new :: qos_flow_manager where
  "qf_new = \<lparr>outgoing = [], incoming = [], next_seq = 0\<rparr>"

definition qf_allocate_seq :: "qos_flow_manager \<Rightarrow> u64 \<times> qos_flow_manager" where
  "qf_allocate_seq q = (next_seq q, q\<lparr>next_seq := next_seq q + 1\<rparr>)"

definition qf_active_flow_count :: "qos_flow_manager \<Rightarrow> nat" where
  "qf_active_flow_count q = length (outgoing q) + length (incoming q)"

definition qf_is_active :: "qos_flow_manager \<Rightarrow> u16 \<Rightarrow> bool" where
  "qf_is_active q packet_id \<longleftrightarrow> bt_contains packet_id (outgoing q) \<or> bt_contains packet_id (incoming q)"

definition qf_has_incoming_flow :: "qos_flow_manager \<Rightarrow> u16 \<Rightarrow> bool" where
  "qf_has_incoming_flow q packet_id \<longleftrightarrow> bt_contains packet_id (incoming q)"

definition qf_is_quota_charged :: "qos_flow_manager \<Rightarrow> u16 \<Rightarrow> bool" where
  "qf_is_quota_charged q packet_id =
     (case bt_get (outgoing q) packet_id of None \<Rightarrow> False | Some flow \<Rightarrow> quota_charged flow)"

definition qf_mark_quota_charged :: "u16 \<Rightarrow> qos_flow_manager \<Rightarrow> qos_flow_manager" where
  "qf_mark_quota_charged packet_id q =
     (case bt_get (outgoing q) packet_id of
        None \<Rightarrow> q
      | Some flow \<Rightarrow>
          q\<lparr>outgoing := bt_insert packet_id (flow\<lparr>quota_charged := True\<rparr>) (outgoing q)\<rparr>)"

definition qf_clear_quota_charges :: "qos_flow_manager \<Rightarrow> qos_flow_manager" where
  "qf_clear_quota_charges q =
     q\<lparr>outgoing := bt_map_values (\<lambda>flow. flow\<lparr>quota_charged := False\<rparr>) (outgoing q)\<rparr>"

definition qf_publish_sent_qos1 :: "u16 \<Rightarrow> qos_flow_manager \<Rightarrow> qos_flow_manager" where
  "qf_publish_sent_qos1 packet_id q =
     (if packet_id = 0 \<or> bt_contains packet_id (outgoing q) then q
      else
        let (s, q1) = qf_allocate_seq q;
            flow = \<lparr>flow_seq = s, flow_st = AwaitingPuback, quota_charged = True\<rparr>
        in q1\<lparr>outgoing := bt_insert packet_id flow (outgoing q1)\<rparr>)"

definition qf_publish_sent_qos2 :: "u16 \<Rightarrow> qos_flow_manager \<Rightarrow> qos_flow_manager" where
  "qf_publish_sent_qos2 packet_id q =
     (if packet_id = 0 \<or> bt_contains packet_id (outgoing q) then q
      else
        let (s, q1) = qf_allocate_seq q;
            flow = \<lparr>flow_seq = s, flow_st = AwaitingPubrec, quota_charged = True\<rparr>
        in q1\<lparr>outgoing := bt_insert packet_id flow (outgoing q1)\<rparr>)"

definition qf_puback_received :: "u16 \<Rightarrow> qos_flow_manager \<Rightarrow> flow_verdict \<times> qos_flow_manager" where
  "qf_puback_received packet_id q =
     (case bt_get (outgoing q) packet_id of
        Some flow \<Rightarrow>
          let q1 = q\<lparr>outgoing := bt_remove packet_id (outgoing q)\<rparr> in
          (case flow_st flow of
             AwaitingPuback \<Rightarrow> (Ok (Some (Complete packet_id)), q1)
           | _ \<Rightarrow> (Err StateMismatch, q1\<lparr>outgoing := bt_insert packet_id flow (outgoing q1)\<rparr>))
      | None \<Rightarrow>
          if bt_contains packet_id (incoming q) then (Err StateMismatch, q) else (Ok None, q))"

definition qf_pubrec_received :: "u16 \<Rightarrow> u8 \<Rightarrow> qos_flow_manager \<Rightarrow> flow_verdict \<times> qos_flow_manager" where
  "qf_pubrec_received packet_id reason_code q =
     (if 0x80 \<le> reason_code then
        (case bt_get (outgoing q) packet_id of
           Some flow \<Rightarrow>
             (case flow_st flow of
                AwaitingPubrec \<Rightarrow>
                  (Ok (Some (Aborted packet_id)), q\<lparr>outgoing := bt_remove packet_id (outgoing q)\<rparr>)
              | _ \<Rightarrow> (Err StateMismatch, q))
         | None \<Rightarrow>
             if bt_contains packet_id (incoming q) then (Err StateMismatch, q) else (Ok None, q))
      else
        (case bt_get (outgoing q) packet_id of
           Some flow \<Rightarrow>
             let q1 = q\<lparr>outgoing := bt_remove packet_id (outgoing q)\<rparr> in
             (case flow_st flow of
                AwaitingPubrec \<Rightarrow>
                  let (s, q2) = qf_allocate_seq q1;
                      flow' = \<lparr>flow_seq = s, flow_st = AwaitingPubcomp,
                               quota_charged = quota_charged flow\<rparr>
                  in (Ok (Some (SendPubrel packet_id)),
                      q2\<lparr>outgoing := bt_insert packet_id flow' (outgoing q2)\<rparr>)
              | AwaitingPubcomp \<Rightarrow>
                  (Ok (Some (SendPubrel packet_id)),
                   q1\<lparr>outgoing := bt_insert packet_id flow (outgoing q1)\<rparr>)
              | _ \<Rightarrow> (Err StateMismatch, q1\<lparr>outgoing := bt_insert packet_id flow (outgoing q1)\<rparr>))
         | None \<Rightarrow>
             if bt_contains packet_id (incoming q) then (Err StateMismatch, q) else (Ok None, q)))"

definition qf_pubrel_received :: "u16 \<Rightarrow> qos_flow_manager \<Rightarrow> flow_verdict \<times> qos_flow_manager" where
  "qf_pubrel_received packet_id q =
     (case bt_get (incoming q) packet_id of
        Some st \<Rightarrow>
          let q1 = q\<lparr>incoming := bt_remove packet_id (incoming q)\<rparr> in
          (case st of
             AwaitingPubrel \<Rightarrow> (Ok (Some (SendPubcomp packet_id)), q1)
           | other \<Rightarrow> (Err StateMismatch, q1\<lparr>incoming := bt_insert packet_id other (incoming q1)\<rparr>))
      | None \<Rightarrow>
          if bt_contains packet_id (outgoing q) then (Err StateMismatch, q)
          else (Ok (Some (ResendPubcomp packet_id)), q))"

definition qf_pubcomp_received :: "u16 \<Rightarrow> qos_flow_manager \<Rightarrow> flow_verdict \<times> qos_flow_manager" where
  "qf_pubcomp_received packet_id q =
     (case bt_get (outgoing q) packet_id of
        Some flow \<Rightarrow>
          let q1 = q\<lparr>outgoing := bt_remove packet_id (outgoing q)\<rparr> in
          (case flow_st flow of
             AwaitingPubcomp \<Rightarrow> (Ok (Some (Complete packet_id)), q1)
           | _ \<Rightarrow> (Err StateMismatch, q1\<lparr>outgoing := bt_insert packet_id flow (outgoing q1)\<rparr>))
      | None \<Rightarrow>
          if bt_contains packet_id (incoming q) then (Err StateMismatch, q) else (Ok None, q))"

definition qf_publish_received_qos1 :: "u16 \<Rightarrow> qos_flow_manager \<Rightarrow> action \<times> qos_flow_manager" where
  "qf_publish_received_qos1 packet_id q =
     (SendPuback packet_id,
      q\<lparr>incoming := bt_insert packet_id IncomingAwaitingPuback (incoming q)\<rparr>)"

definition qf_puback_sent :: "u16 \<Rightarrow> qos_flow_manager \<Rightarrow> qos_flow_manager" where
  "qf_puback_sent packet_id q =
     (case bt_get (incoming q) packet_id of
        None \<Rightarrow> q
      | Some st \<Rightarrow>
          let q1 = q\<lparr>incoming := bt_remove packet_id (incoming q)\<rparr> in
          if st \<noteq> IncomingAwaitingPuback
          then q1\<lparr>incoming := bt_insert packet_id st (incoming q1)\<rparr> else q1)"

definition qf_publish_received_qos2 :: "u16 \<Rightarrow> qos_flow_manager \<Rightarrow> action \<times> qos_flow_manager" where
  "qf_publish_received_qos2 packet_id q =
     (let is_duplicate = bt_contains packet_id (incoming q) in
      (SendPubrec packet_id is_duplicate,
       q\<lparr>incoming := bt_insert packet_id AwaitingPubrel (incoming q)\<rparr>))"

definition qf_needs_retransmission :: "qos_flow_manager \<Rightarrow> u16 \<Rightarrow> action option" where
  "qf_needs_retransmission q packet_id =
     (case bt_get (outgoing q) packet_id of
        None \<Rightarrow> None
      | Some flow \<Rightarrow>
          (case flow_st flow of
             AwaitingPuback \<Rightarrow> Some (ResendPublish packet_id)
           | AwaitingPubrec \<Rightarrow> Some (ResendPublish packet_id)
           | AwaitingPubcomp \<Rightarrow> Some (ResendPubrel packet_id)
           | AwaitingPubrel \<Rightarrow> None
           | IncomingAwaitingPuback \<Rightarrow> None))"

definition qf_pending_packet_ids :: "qos_flow_manager \<Rightarrow> u16 list" where
  "qf_pending_packet_ids q =
     map snd (sort (map (\<lambda>(packet_id, flow). (flow_seq flow, packet_id)) (outgoing q)))"

definition qf_release :: "u16 \<Rightarrow> qos_flow_manager \<Rightarrow> qos_flow_manager" where
  "qf_release packet_id q =
     q\<lparr>outgoing := bt_remove packet_id (outgoing q), incoming := bt_remove packet_id (incoming q)\<rparr>"

definition qf_reset :: "qos_flow_manager \<Rightarrow> qos_flow_manager" where
  "qf_reset q = q\<lparr>outgoing := [], incoming := [], next_seq := 0\<rparr>"

section \<open>Well-formedness\<close>

definition qf_wf :: "qos_flow_manager \<Rightarrow> bool" where
  "qf_wf q \<longleftrightarrow>
     bt_wf (outgoing q) \<and> bt_wf (incoming q) \<and> bt_get (outgoing q) 0 = None \<and>
     (\<forall>i f. bt_get (outgoing q) i = Some f \<longrightarrow>
        flow_st f \<in> {AwaitingPuback, AwaitingPubrec, AwaitingPubcomp}) \<and>
     (\<forall>i st. bt_get (incoming q) i = Some st \<longrightarrow> st \<in> {AwaitingPubrel, IncomingAwaitingPuback})"

lemma qf_wfD [dest]:
  assumes "qf_wf q"
  shows "bt_wf (outgoing q)" "bt_wf (incoming q)" "bt_get (outgoing q) 0 = None"
  using assms by (auto simp: qf_wf_def)

lemma qf_wf_new [simp]: "qf_wf qf_new"
  by (simp add: qf_wf_def qf_new_def)

lemma qf_reset_eq [simp]: "qf_reset q = qf_new"
  by (cases q) (simp add: qf_reset_def qf_new_def)

section \<open>What the handlers do\<close>

text \<open>The new sequence number goes to the entry that the operation writes.\<close>

definition qf_put :: "u16 \<Rightarrow> flow_state \<Rightarrow> bool \<Rightarrow> qos_flow_manager \<Rightarrow> qos_flow_manager" where
  "qf_put i st charged q =
     q\<lparr>outgoing := bt_insert i \<lparr>flow_seq = next_seq q, flow_st = st, quota_charged = charged\<rparr>
         (bt_remove i (outgoing q)),
       next_seq := next_seq q + 1\<rparr>"

definition qf_drop :: "u16 \<Rightarrow> qos_flow_manager \<Rightarrow> qos_flow_manager" where
  "qf_drop i q = q\<lparr>outgoing := bt_remove i (outgoing q)\<rparr>"

lemma qf_publish_sent_eq:
  "qf_publish_sent_qos1 i q =
     (if i = 0 \<or> bt_contains i (outgoing q) then q else qf_put i AwaitingPuback True q)"
  "qf_publish_sent_qos2 i q =
     (if i = 0 \<or> bt_contains i (outgoing q) then q else qf_put i AwaitingPubrec True q)"
  by (simp_all add: qf_publish_sent_qos1_def qf_publish_sent_qos2_def qf_allocate_seq_def qf_put_def
      bt_contains_def bt_remove_absent)

definition qf_unmatched :: "qos_flow_manager \<Rightarrow> u16 \<Rightarrow> flow_verdict" where
  "qf_unmatched q i = (if qf_is_active q i then Err StateMismatch else Ok None)"

lemma qf_puback_received_eq:
  assumes "qf_wf q"
  shows "qf_puback_received i q =
     (if map_option flow_st (bt_get (outgoing q) i) = Some AwaitingPuback
      then (Ok (Some (Complete i)), qf_drop i q) else (qf_unmatched q i, q))"
  using qf_wfD [OF assms]
  by (auto simp: qf_puback_received_def qf_drop_def qf_unmatched_def qf_is_active_def bt_contains_def
      Let_def split: option.splits flow_state.splits)

lemma qf_pubcomp_received_eq:
  assumes "qf_wf q"
  shows "qf_pubcomp_received i q =
     (if map_option flow_st (bt_get (outgoing q) i) = Some AwaitingPubcomp
      then (Ok (Some (Complete i)), qf_drop i q) else (qf_unmatched q i, q))"
  using qf_wfD [OF assms]
  by (auto simp: qf_pubcomp_received_def qf_drop_def qf_unmatched_def qf_is_active_def bt_contains_def
      Let_def split: option.splits flow_state.splits)

lemma qf_pubrec_received_eq:
  assumes "qf_wf q"
  shows "qf_pubrec_received i rc q =
     (case bt_get (outgoing q) i of
        None \<Rightarrow> (qf_unmatched q i, q)
      | Some f \<Rightarrow>
          if flow_st f = AwaitingPubrec then
            if 0x80 \<le> rc then (Ok (Some (Aborted i)), qf_drop i q)
            else (Ok (Some (SendPubrel i)), qf_put i AwaitingPubcomp (quota_charged f) q)
          else if flow_st f = AwaitingPubcomp \<and> rc < 0x80 then (Ok (Some (SendPubrel i)), q)
          else (Err StateMismatch, q))"
  using qf_wfD [OF assms]
  by (auto simp: qf_pubrec_received_def qf_drop_def qf_put_def qf_unmatched_def qf_is_active_def
      bt_contains_def qf_allocate_seq_def Let_def not_le
      split: option.splits flow_state.splits)

lemma qf_pubrel_received_eq:
  assumes "qf_wf q"
  shows "qf_pubrel_received i q =
     (case bt_get (incoming q) i of
        Some AwaitingPubrel \<Rightarrow>
          (Ok (Some (SendPubcomp i)), q\<lparr>incoming := bt_remove i (incoming q)\<rparr>)
      | Some _ \<Rightarrow> (Err StateMismatch, q)
      | None \<Rightarrow>
          (if bt_contains i (outgoing q) then Err StateMismatch else Ok (Some (ResendPubcomp i)), q))"
  using qf_wfD [OF assms]
  by (auto simp: qf_pubrel_received_def Let_def split: option.splits flow_state.splits)

lemma qf_puback_sent_eq:
  assumes "qf_wf q"
  shows "qf_puback_sent i q =
     (if bt_get (incoming q) i = Some IncomingAwaitingPuback
      then q\<lparr>incoming := bt_remove i (incoming q)\<rparr> else q)"
  using qf_wfD [OF assms]
  by (auto simp: qf_puback_sent_def Let_def split: option.splits)

lemma qf_verdict_no_panic:
  "fst (qf_puback_received i q) \<noteq> Panic" "fst (qf_pubrec_received i rc q) \<noteq> Panic"
  "fst (qf_pubrel_received i q) \<noteq> Panic" "fst (qf_pubcomp_received i q) \<noteq> Panic"
  by (auto simp: qf_puback_received_def qf_pubrec_received_def qf_pubrel_received_def
      qf_pubcomp_received_def Let_def qf_allocate_seq_def split: option.splits flow_state.splits)

section \<open>Histories\<close>

datatype qf_event =
    EvPublishQos1 u16 | EvPublishQos2 u16 | EvPuback u16 | EvPubrec u16 u8 | EvPubcomp u16
  | EvRecvQos1 u16 | EvRecvQos2 u16 | EvPubackSent u16 | EvPubrel u16
  | EvMarkCharged u16 | EvClearCharges | EvRelease u16 | EvReset

fun qf_step :: "qos_flow_manager \<Rightarrow> qf_event \<Rightarrow> qos_flow_manager" where
  "qf_step q (EvPublishQos1 i) = qf_publish_sent_qos1 i q"
| "qf_step q (EvPublishQos2 i) = qf_publish_sent_qos2 i q"
| "qf_step q (EvPuback i) = snd (qf_puback_received i q)"
| "qf_step q (EvPubrec i rc) = snd (qf_pubrec_received i rc q)"
| "qf_step q (EvPubcomp i) = snd (qf_pubcomp_received i q)"
| "qf_step q (EvRecvQos1 i) = snd (qf_publish_received_qos1 i q)"
| "qf_step q (EvRecvQos2 i) = snd (qf_publish_received_qos2 i q)"
| "qf_step q (EvPubackSent i) = qf_puback_sent i q"
| "qf_step q (EvPubrel i) = snd (qf_pubrel_received i q)"
| "qf_step q (EvMarkCharged i) = qf_mark_quota_charged i q"
| "qf_step q EvClearCharges = qf_clear_quota_charges q"
| "qf_step q (EvRelease i) = qf_release i q"
| "qf_step q EvReset = qf_reset q"

definition qf_run :: "qf_event list \<Rightarrow> qos_flow_manager" where
  "qf_run evs = foldl qf_step qf_new evs"

lemma qf_run_snoc: "qf_run (evs @ [e]) = qf_step (qf_run evs) e"
  by (simp add: qf_run_def)

lemma qf_wf_put: "qf_wf q \<Longrightarrow> i \<noteq> 0 \<Longrightarrow> st \<in> {AwaitingPuback, AwaitingPubrec, AwaitingPubcomp} \<Longrightarrow>
  qf_wf (qf_put i st c q)"
  by (auto simp: qf_wf_def qf_put_def split: if_splits)

lemma qf_wf_drop: "qf_wf q \<Longrightarrow> qf_wf (qf_drop i q)"
  by (auto simp: qf_wf_def qf_drop_def split: if_splits)

lemma qf_wf_incoming_put: "qf_wf q \<Longrightarrow> st \<in> {AwaitingPubrel, IncomingAwaitingPuback} \<Longrightarrow>
  qf_wf (q\<lparr>incoming := bt_insert i st (incoming q)\<rparr>)"
  by (auto simp: qf_wf_def split: if_splits)

lemma qf_wf_incoming_drop: "qf_wf q \<Longrightarrow> qf_wf (q\<lparr>incoming := bt_remove i (incoming q)\<rparr>)"
  by (auto simp: qf_wf_def split: if_splits)

lemmas qf_wf_intros = qf_wf_put qf_wf_drop qf_wf_incoming_put qf_wf_incoming_drop

lemma qf_wf_mark: "qf_wf q \<Longrightarrow> qf_wf (qf_mark_quota_charged i q)"
  by (auto simp: qf_wf_def qf_mark_quota_charged_def split: option.splits if_splits)

lemma qf_wf_clear: "qf_wf q \<Longrightarrow> qf_wf (qf_clear_quota_charges q)"
  unfolding qf_wf_def qf_clear_quota_charges_def by fastforce

lemma qf_release_eq: "qf_release i q = (qf_drop i q)\<lparr>incoming := bt_remove i (incoming (qf_drop i q))\<rparr>"
  by (simp add: qf_release_def qf_drop_def)

lemma qf_wf_step: "qf_wf q \<Longrightarrow> qf_wf (qf_step q e)"
proof (cases e)
  case (EvPubrec i rc)
  assume q: "qf_wf q"
  then have "i \<noteq> 0" if "bt_get (outgoing q) i = Some f" for f using that by (auto dest: qf_wfD(3))
  with q EvPubrec show ?thesis
    by (auto simp: qf_pubrec_received_eq intro!: qf_wf_intros split: option.splits)
qed (auto simp: qf_publish_sent_eq qf_puback_received_eq qf_pubcomp_received_eq qf_pubrel_received_eq
    qf_puback_sent_eq qf_publish_received_qos1_def qf_publish_received_qos2_def qf_release_eq
    qf_wf_mark qf_wf_clear Let_def intro!: qf_wf_intros split: option.splits flow_state.splits)

lemma qf_wf_run: "qf_wf (qf_run evs)"
  by (induction evs rule: rev_induct) (auto simp: qf_run_snoc qf_wf_step, simp add: qf_run_def)

section \<open>The outgoing side refines a queue\<close>

text \<open>
  The specification of the outgoing side: the unfinished handshakes with what each one waits for,
  in the order in which they have to be retransmitted. A PUBLISH goes to the end of the queue, the
  first PUBREC moves its handshake to the end, an acknowledgement removes it.
\<close>

type_synonym flow_queue = "(u16 \<times> flow_state) list"

definition fq_remove :: "u16 \<Rightarrow> flow_queue \<Rightarrow> flow_queue" where
  "fq_remove i l = filter (\<lambda>e. fst e \<noteq> i) l"

definition fq_publish :: "u16 \<Rightarrow> flow_state \<Rightarrow> flow_queue \<Rightarrow> flow_queue" where
  "fq_publish i st l = (if i = 0 \<or> i \<in> fst ` set l then l else l @ [(i, st)])"

definition fq_ack :: "u16 \<Rightarrow> flow_state \<Rightarrow> flow_queue \<Rightarrow> flow_queue" where
  "fq_ack i st l = (if (i, st) \<in> set l then fq_remove i l else l)"

definition fq_pubrec :: "u16 \<Rightarrow> u8 \<Rightarrow> flow_queue \<Rightarrow> flow_queue" where
  "fq_pubrec i rc l =
     (if (i, AwaitingPubrec) \<in> set l
      then fq_remove i l @ (if 0x80 \<le> rc then [] else [(i, AwaitingPubcomp)]) else l)"

fun fq_step :: "flow_queue \<Rightarrow> qf_event \<Rightarrow> flow_queue" where
  "fq_step l (EvPublishQos1 i) = fq_publish i AwaitingPuback l"
| "fq_step l (EvPublishQos2 i) = fq_publish i AwaitingPubrec l"
| "fq_step l (EvPuback i) = fq_ack i AwaitingPuback l"
| "fq_step l (EvPubrec i rc) = fq_pubrec i rc l"
| "fq_step l (EvPubcomp i) = fq_ack i AwaitingPubcomp l"
| "fq_step l (EvRelease i) = fq_remove i l"
| "fq_step l EvReset = []"
| "fq_step l _ = l"

definition fq_run :: "qf_event list \<Rightarrow> flow_queue" where
  "fq_run evs = foldl fq_step [] evs"

text \<open>The abstraction: the entries of the map in the order of their sequence numbers.\<close>

definition seq_key :: "u16 \<times> outgoing_flow \<Rightarrow> u64 \<times> u16" where
  "seq_key e = (flow_seq (snd e), fst e)"

definition qf_queue :: "qos_flow_manager \<Rightarrow> flow_queue" where
  "qf_queue q = map (\<lambda>(i, f). (i, flow_st f)) (sort_key seq_key (outgoing q))"

definition qf_seq_inv :: "qos_flow_manager \<Rightarrow> bool" where
  "qf_seq_inv q \<longleftrightarrow> (\<forall>i f. bt_get (outgoing q) i = Some f \<longrightarrow> flow_seq f < next_seq q)"

lemma inj_seq_key: "bt_wf m \<Longrightarrow> inj_on seq_key (set m)"
  by (rule inj_onI) (metis Pair_inject bt_entries_get option.inject prod.collapse seq_key_def)

lemma qf_pending_queue: "qf_pending_packet_ids q = map fst (qf_queue q)"
proof -
  let ?g = "\<lambda>(i, f). (flow_seq f, i) :: u64 \<times> u16"
  have g: "?g = seq_key" by (auto simp: seq_key_def fun_eq_iff)
  have "sort (map seq_key (outgoing q)) = map seq_key (sort_key seq_key (outgoing q))"
    by (rule properties_for_sort) auto
  then show ?thesis
    unfolding qf_pending_packet_ids_def qf_queue_def g by (simp add: seq_key_def case_prod_unfold)
qed

lemma set_qf_queue:
  "bt_wf (outgoing q) \<Longrightarrow>
   (i, st) \<in> set (qf_queue q) \<longleftrightarrow> map_option flow_st (bt_get (outgoing q) i) = Some st"
  by (force simp: qf_queue_def bt_entries_get)

lemma fst_set_qf_queue: "fst ` set (qf_queue q) = dom (bt_get (outgoing q))"
  by (force simp: qf_queue_def dom_map_of_conv_image_fst)

lemma qf_queue_drop: "qf_queue (qf_drop i q) = fq_remove i (qf_queue q)"
  by (simp add: qf_queue_def qf_drop_def fq_remove_def bt_remove_def filter_sort [symmetric]
      filter_map comp_def case_prod_unfold)

lemma qf_queue_put:
  assumes "bt_wf (outgoing q)" "qf_seq_inv q"
  shows "qf_queue (qf_put i st c q) = fq_remove i (qf_queue q) @ [(i, st)]"
proof -
  let ?f = "\<lparr>flow_seq = next_seq q, flow_st = st, quota_charged = c\<rparr>"
  let ?m = "bt_remove i (outgoing q)"
  have wf: "bt_wf ?m" using assms(1) by simp
  have "sort_key seq_key (bt_insert i ?f ?m) = sort_key seq_key ?m @ [(i, ?f)]"
  proof (rule sort_key_snoc)
    show "mset (bt_insert i ?f ?m) = add_mset (i, ?f) (mset ?m)"
      by (simp add: bt_insert_absent_mset)
    show "inj_on seq_key (set (bt_insert i ?f ?m))" using wf by (intro inj_seq_key) simp
    show "seq_key y < seq_key (i, ?f)" if "y \<in> set ?m" for y
    proof -
      obtain j g where y: "y = (j, g)" by fastforce
      with that assms(1) have "bt_get (outgoing q) j = Some g"
        by (simp add: bt_remove_def bt_entries_get)
      with assms(2) y show ?thesis by (auto simp: seq_key_def qf_seq_inv_def)
    qed
  qed
  moreover have "qf_queue (qf_drop i q) = fq_remove i (qf_queue q)" by (rule qf_queue_drop)
  ultimately show ?thesis by (simp add: qf_queue_def qf_put_def qf_drop_def)
qed

lemma fq_remove_absent: "i \<notin> fst ` set l \<Longrightarrow> fq_remove i l = l"
  by (force simp: fq_remove_def intro: filter_True)

lemma qf_queue_incoming [simp]: "qf_queue (q\<lparr>incoming := x\<rparr>) = qf_queue q"
  by (simp add: qf_queue_def)

lemma qf_queue_map_flows:
  assumes "\<And>i f. flow_seq (g i f) = flow_seq f \<and> flow_st (g i f) = flow_st f"
  shows "qf_queue (q\<lparr>outgoing := map (\<lambda>(i, f). (i, g i f)) (outgoing q)\<rparr>) = qf_queue q"
proof -
  have "sort_key seq_key (map (\<lambda>(i, f). (i, g i f)) (outgoing q))
      = map (\<lambda>(i, f). (i, g i f)) (sort_key seq_key (outgoing q))"
    by (rule sort_key_map) (auto simp: seq_key_def assms)
  then show ?thesis by (auto simp: qf_queue_def assms)
qed

lemma qf_queue_clear: "qf_queue (qf_clear_quota_charges q) = qf_queue q"
  unfolding qf_clear_quota_charges_def bt_map_values_def by (rule qf_queue_map_flows) simp

lemma qf_queue_mark: "bt_wf (outgoing q) \<Longrightarrow> qf_queue (qf_mark_quota_charged i q) = qf_queue q"
proof (cases "bt_get (outgoing q) i")
  case (Some f)
  assume wf: "bt_wf (outgoing q)"
  have "map (\<lambda>(j, x). (j, if j = i then f\<lparr>quota_charged := True\<rparr> else x)) (outgoing q)
      = map (\<lambda>(j, x). (j, if j = i then x\<lparr>quota_charged := True\<rparr> else x)) (outgoing q)"
    using Some wf by (auto simp: bt_entries_get)
  with Some wf have "qf_mark_quota_charged i q = q\<lparr>outgoing :=
      map (\<lambda>(j, x). (j, if j = i then x\<lparr>quota_charged := True\<rparr> else x)) (outgoing q)\<rparr>"
    by (simp add: qf_mark_quota_charged_def bt_insert_update del: map_eq_conv)
  then show ?thesis
    by (simp only:) (rule qf_queue_map_flows, simp)
qed (simp add: qf_mark_quota_charged_def)

lemma qf_queue_new: "qf_queue qf_new = []"
  by (simp add: qf_queue_def qf_new_def)

text \<open>One step of the manager is one step of the queue, as long as sequence numbers do not wrap.\<close>

lemma qf_queue_step:
  assumes wf: "qf_wf q" and s: "qf_seq_inv q"
  shows "qf_queue (qf_step q e) = fq_step (qf_queue q) e"
proof -
  note wfo = qf_wfD(1) [OF wf]
  have put: "qf_queue (qf_put i st c q) = fq_remove i (qf_queue q) @ [(i, st)]" for i st c
    by (rule qf_queue_put [OF wfo s])
  have absent: "\<not> bt_contains i (outgoing q) \<Longrightarrow> fq_remove i (qf_queue q) = qf_queue q" for i
    by (rule fq_remove_absent) (simp add: fst_set_qf_queue bt_contains_iff)
  have mem: "(i, st) \<in> set (qf_queue q) \<longleftrightarrow> map_option flow_st (bt_get (outgoing q) i) = Some st" for i st
    by (rule set_qf_queue [OF wfo])
  have in_q: "i \<in> fst ` set (qf_queue q) \<longleftrightarrow> bt_contains i (outgoing q)" for i
    by (simp add: fst_set_qf_queue bt_contains_iff)
  show ?thesis
  proof (cases e)
    case (EvPubrec i rc)
    with wf show ?thesis
      by (auto simp: qf_pubrec_received_eq fq_pubrec_def mem put qf_queue_drop
          split: option.splits)
  next
    case (EvPubrel i)
    with wf show ?thesis
      by (auto simp: qf_pubrel_received_eq split: option.splits flow_state.splits)
  qed (use wf in \<open>auto simp: qf_publish_sent_eq fq_publish_def in_q put absent qf_puback_received_eq
      qf_pubcomp_received_eq fq_ack_def mem qf_queue_drop qf_publish_received_qos1_def
      qf_publish_received_qos2_def Let_def qf_puback_sent_eq qf_queue_mark wfo qf_queue_clear
      qf_release_eq qf_queue_new\<close>)
qed

lemma qf_seq_inv_step:
  assumes wf: "qf_wf q" and s: "qf_seq_inv q" and n: "unat (next_seq q) + 1 < 2 ^ 64"
  shows "qf_seq_inv (qf_step q e)" "unat (next_seq (qf_step q e)) \<le> unat (next_seq q) + 1"
proof -
  note wfo = qf_wfD(1) [OF wf]
  have suc: "unat (next_seq q + 1) = unat (next_seq q) + 1" using n by (simp add: unat_add_no_wrap)
  have put: "qf_seq_inv (qf_put i st c q)" for i st c
  proof -
    have "next_seq q < next_seq q + 1" using suc by (simp add: word_less_nat_alt)
    then show ?thesis
      using s wfo by (auto simp: qf_seq_inv_def qf_put_def intro: less_trans split: if_splits)
  qed
  have drop: "qf_seq_inv (qf_drop i q)" for i using s by (auto simp: qf_seq_inv_def qf_drop_def)
  have inc: "qf_seq_inv (q'\<lparr>incoming := x\<rparr>) = qf_seq_inv q'" for q' x by (simp add: qf_seq_inv_def)
  have seqs: "unat (next_seq (qf_put i st c q)) = unat (next_seq q) + 1"
    "next_seq (qf_drop i q) = next_seq q" for i st c
    using suc by (simp_all add: qf_put_def qf_drop_def)
  have mark: "qf_seq_inv (qf_mark_quota_charged i q)" for i
    using s wfo by (auto simp: qf_seq_inv_def qf_mark_quota_charged_def split: option.splits)
  have clear: "qf_seq_inv (qf_clear_quota_charges q)"
    using s by (auto simp: qf_seq_inv_def qf_clear_quota_charges_def)
  have new: "qf_seq_inv qf_new" by (simp add: qf_seq_inv_def qf_new_def)
  note eqs = qf_publish_sent_eq qf_puback_received_eq [OF wf] qf_pubcomp_received_eq [OF wf]
    qf_pubrec_received_eq [OF wf] qf_pubrel_received_eq [OF wf] qf_puback_sent_eq [OF wf]
    qf_publish_received_qos1_def qf_publish_received_qos2_def qf_release_eq
  show "qf_seq_inv (qf_step q e)"
    using s by (cases e)
      (auto simp: eqs put drop inc mark clear new Let_def split: option.splits flow_state.splits)
  show "unat (next_seq (qf_step q e)) \<le> unat (next_seq q) + 1"
    by (cases e)
      (auto simp: eqs seqs Let_def qf_mark_quota_charged_def qf_clear_quota_charges_def qf_new_def
        split: option.splits flow_state.splits)
qed

lemma qf_run_seq:
  "length evs < 2 ^ 64 - 1 \<Longrightarrow> qf_seq_inv (qf_run evs) \<and> unat (next_seq (qf_run evs)) \<le> length evs"
proof (induction evs rule: rev_induct)
  case (snoc e evs)
  then have "qf_seq_inv (qf_run evs)" "unat (next_seq (qf_run evs)) \<le> length evs" by auto
  with snoc.prems qf_seq_inv_step [OF qf_wf_run, of evs e] show ?case
    by (auto simp: qf_run_snoc)
qed (simp add: qf_run_def qf_seq_inv_def qf_new_def)

lemma qf_run_refines_queue: "length evs < 2 ^ 64 \<Longrightarrow> qf_queue (qf_run evs) = fq_run evs"
proof (induction evs rule: rev_induct)
  case (snoc e evs)
  then have "qf_seq_inv (qf_run evs)" using qf_run_seq [of evs] by simp
  with snoc show ?case
    using qf_queue_step [OF qf_wf_run, of evs e] by (simp add: qf_run_snoc fq_run_def)
qed (simp add: qf_run_def fq_run_def qf_queue_def qf_new_def)

section \<open>The incoming side by its history\<close>

definition closes2 :: "u16 \<Rightarrow> qf_event \<Rightarrow> bool" where
  "closes2 i e \<longleftrightarrow> e \<in> {EvPubrel i, EvRecvQos1 i, EvRelease i, EvReset}"

definition closes1 :: "u16 \<Rightarrow> qf_event \<Rightarrow> bool" where
  "closes1 i e \<longleftrightarrow> e \<in> {EvPubackSent i, EvRecvQos2 i, EvRelease i, EvReset}"

text \<open>An incoming QoS 2 (QoS 1) flow is open: received, and neither finished nor taken over since.\<close>

definition qos2_open :: "u16 \<Rightarrow> qf_event list \<Rightarrow> bool" where
  "qos2_open i = since (\<lambda>e. e = EvRecvQos2 i) (closes2 i)"

definition qos1_open :: "u16 \<Rightarrow> qf_event list \<Rightarrow> bool" where
  "qos1_open i = since (\<lambda>e. e = EvRecvQos1 i) (closes1 i)"

lemma qf_incoming_keep [simp]:
  "incoming (qf_put i st c q) = incoming q" "incoming (qf_drop i q) = incoming q"
  "incoming (qf_mark_quota_charged i q) = incoming q" "incoming (qf_clear_quota_charges q) = incoming q"
  "incoming qf_new = []"
  by (auto simp: qf_put_def qf_drop_def qf_mark_quota_charged_def qf_clear_quota_charges_def
      qf_new_def split: option.splits)

lemma qf_run_incoming:
  "(bt_get (incoming (qf_run evs)) i = Some AwaitingPubrel \<longleftrightarrow> qos2_open i evs) \<and>
   (bt_get (incoming (qf_run evs)) i = Some IncomingAwaitingPuback \<longleftrightarrow> qos1_open i evs)"
proof (induction evs rule: rev_induct)
  case (snoc e evs)
  let ?q = "qf_run evs"
  note wf = qf_wf_run [of evs]
  note wfi = qf_wfD(2) [OF wf]
  note eqs = qf_publish_sent_eq qf_puback_received_eq [OF wf] qf_pubcomp_received_eq [OF wf]
    qf_pubrec_received_eq [OF wf] qf_pubrel_received_eq [OF wf] qf_puback_sent_eq [OF wf]
    qf_publish_received_qos1_def qf_publish_received_qos2_def qf_release_eq Let_def
  show ?case
    using snoc wfi unfolding qf_run_snoc qos1_open_def qos2_open_def since_snoc
    by (cases e) (auto simp: eqs closes1_def closes2_def split: option.splits flow_state.splits)
qed (simp add: qf_run_def qos1_open_def qos2_open_def)

section \<open>Properties\<close>

text \<open>
  C13: Retransmission order. Whatever calls are made on the manager (fewer than \<open>2\<^sup>6\<^sup>4\<close> of them), the list
  of identifiers to retransmit is the queue of unfinished handshakes of the specification: PUBLISH
  packets in the order they were sent, PUBREL packets in the order of the first PUBREC.
\<close>

theorem qf_retransmission_order:
  assumes "length evs < 2 ^ 64"
  shows "qf_pending_packet_ids (qf_run evs) = map fst (fq_run evs)"
  by (simp add: qf_pending_queue qf_run_refines_queue [OF assms])

theorem qf_retransmission_order_witness:
  "qf_pending_packet_ids (qf_run [EvPublishQos2 7, EvPublishQos1 3, EvPubrec 7 0, EvPublishQos1 1])
     = [3, 7, 1]"
  using qf_retransmission_order [of "[EvPublishQos2 7, EvPublishQos1 3, EvPubrec 7 0, EvPublishQos1 1]"]
  by (simp add: fq_run_def fq_publish_def fq_pubrec_def fq_remove_def)

text \<open>
  Exactly-once delivery. The answer to a QoS 2 PUBLISH is marked as a duplicate exactly when an
  earlier PUBLISH with that identifier has been received and its flow has not been ended since; so
  between two deliveries of an identifier its flow was finished.
\<close>

theorem qf_duplicate_iff_open:
  "fst (qf_publish_received_qos2 i (qf_run evs)) =
     SendPubrec i (qos2_open i evs \<or> qos1_open i evs)"
proof -
  have "bt_contains i (incoming (qf_run evs)) \<longleftrightarrow> qos2_open i evs \<or> qos1_open i evs"
  proof (cases "bt_get (incoming (qf_run evs)) i")
    case (Some st)
    moreover have "st \<in> {AwaitingPubrel, IncomingAwaitingPuback}"
      using qf_wf_run [of evs] Some by (auto simp: qf_wf_def)
    ultimately show ?thesis using qf_run_incoming [of evs i] by (auto simp: bt_contains_def)
  qed (use qf_run_incoming [of evs i] in \<open>auto simp: bt_contains_def\<close>)
  then show ?thesis by (simp add: qf_publish_received_qos2_def Let_def)
qed

text \<open>
  Every answer to a PUBREC, on every branch: an unknown identifier is ignored or, if it belongs to
  an incoming flow, a mismatch; an error code ends a flow that waits for its PUBREC and nothing else; a
  success code sends PUBREL, advances the flow once and is idempotent afterwards.
\<close>

theorem qf_pubrec_branches:
  "qf_pubrec_received i rc (qf_run evs) =
     (let q = qf_run evs in
      case bt_get (outgoing q) i of
        None \<Rightarrow> (if bt_contains i (incoming q) then Err StateMismatch else Ok None, q)
      | Some f \<Rightarrow>
          if flow_st f = AwaitingPubrec then
            if 0x80 \<le> rc
            then (Ok (Some (Aborted i)), q\<lparr>outgoing := bt_remove i (outgoing q)\<rparr>)
            else (Ok (Some (SendPubrel i)),
                  q\<lparr>outgoing := bt_insert i \<lparr>flow_seq = next_seq q, flow_st = AwaitingPubcomp,
                        quota_charged = quota_charged f\<rparr> (bt_remove i (outgoing q)),
                    next_seq := next_seq q + 1\<rparr>)
          else if flow_st f = AwaitingPubcomp \<and> rc < 0x80 then (Ok (Some (SendPubrel i)), q)
          else (Err StateMismatch, q))"
  by (simp add: qf_pubrec_received_eq [OF qf_wf_run] qf_unmatched_def qf_is_active_def bt_contains_def
      qf_put_def qf_drop_def Let_def split: option.splits)

end
