(* ===== verification/Wire.thy ===== *)
theory Wire
  imports Prelude
begin

text \<open>
  The error types of \<^verbatim>\<open>src/error.rs\<close>, the way an encoder fills a caller's buffer, and the
  contract between an encoder and its decoder.

  An encoder receives the buffer it writes to and returns the number of bytes written together
  with the buffer after the writes; what a buffer holds after an encoder reported an error is not
  observed by any caller in the library and is not part of the model. Inside an encoder the pair
  of the buffer and the running \<^verbatim>\<open>offset\<close> is threaded through the writes.
\<close>

section \<open>Errors\<close>

datatype decode_error =
    InsufficientData
  | MalformedPacket
  | InvalidPacketType
  | UnexpectedPacket u8
  | InvalidPacketFlags
  | InvalidUtf8
  | DecPacketTooLarge nat nat

fun malformed_if_insufficient :: "decode_error \<Rightarrow> decode_error" where
  "malformed_if_insufficient InsufficientData = MalformedPacket"
| "malformed_if_insufficient other = other"

datatype encode_invalid_field =
    EmptyTopicName | WildcardInTopicName | MissingPacketId | UnexpectedPacketId | ZeroPacketId
  | DupWithQos0 | EmptySubscriptions | EmptyTopicFilters | EmptyReasonCodes | EmptyReturnCodes
  | InvalidTopicFilter | SharedSubscriptionNoLocal | PropertyValidationFailed
  | DuplicatePropertyIdentifier | InvalidPropertyValue | InvalidPayloadUtf8 | InvalidReasonCode
  | SessionPresentWithNonSuccess | NullInUtf8String | PasswordWithoutUsername
  | EmptyClientIdWithoutCleanSession

datatype encode_error =
    BufferTooSmall
  | PacketTooLarge nat nat
  | InvalidField encode_invalid_field

type_synonym encoder = "bytes \<Rightarrow> (nat \<times> bytes, encode_error) result"
type_synonym 'a decoder = "bytes \<Rightarrow> ('a \<times> nat, decode_error) result"

lemma malformed_if_insufficient_never [simp]:
  "malformed_if_insufficient e \<noteq> InsufficientData"
  by (cases e) auto

section \<open>Writing through a buffer and an offset\<close>

type_synonym writer = "bytes \<times> nat"

text \<open>\<^verbatim>\<open>buf[offset] = b; offset += 1\<close>\<close>

fun put_u8 :: "u8 \<Rightarrow> writer \<Rightarrow> (writer, encode_error) result" where
  "put_u8 b (buf, offset) =
     rbind (index_set buf offset b) (\<lambda>buf'. Ok (buf', offset + 1))"

text \<open>\<^verbatim>\<open>buf[offset..offset + bs.len()].copy_from_slice(&bs); offset += bs.len()\<close>\<close>

fun put_bytes :: "bytes \<Rightarrow> writer \<Rightarrow> (writer, encode_error) result" where
  "put_bytes bs (buf, offset) =
     rbind (copy_from_slice buf offset bs) (\<lambda>buf'. Ok (buf', offset + length bs))"

text \<open>\<^verbatim>\<open>offset += enc(&mut buf[offset..])?\<close>\<close>

fun put_with :: "encoder \<Rightarrow> writer \<Rightarrow> (writer, encode_error) result" where
  "put_with enc (buf, offset) =
     rbind (subslice_from buf offset) (\<lambda>sub.
     rbind (enc sub) (\<lambda>(n, sub'). Ok (take offset buf @ sub', offset + n)))"

text \<open>\<^verbatim>\<open>Ok(offset)\<close>, with the buffer as it is at that point\<close>

fun finish :: "writer \<Rightarrow> (nat \<times> bytes, encode_error) result" where
  "finish (buf, offset) = Ok (offset, buf)"

text \<open>The writer that has put \<open>bs\<close> into \<open>buf\<close>: the invariant of every encoder.\<close>

definition cursor :: "bytes \<Rightarrow> bytes \<Rightarrow> writer" where
  "cursor buf bs = (bs @ drop (length bs) buf, length bs)"

lemma cursor_start: "(buf, 0) = cursor buf []"
  by (simp add: cursor_def)

lemma put_u8_cursor [simp]:
  "length bs < length buf \<Longrightarrow> put_u8 b (cursor buf bs) = Ok (cursor buf (bs @ [b]))"
  by (auto simp: cursor_def index_set_def list_update_append Cons_nth_drop_Suc [symmetric])

lemma put_bytes_cursor [simp]:
  "length bs + length w \<le> length buf \<Longrightarrow>
   put_bytes w (cursor buf bs) = Ok (cursor buf (bs @ w))"
  by (auto simp: cursor_def copy_from_slice_def add.commute)

lemma finish_cursor [simp]: "finish (cursor buf bs) = Ok (length bs, bs @ drop (length bs) buf)"
  by (simp add: cursor_def)

section \<open>Encoders that emit a fixed byte string\<close>

text \<open>
  The promise every encoder of the library makes once its own validation has passed: it writes
  exactly the bytes \<open>w\<close> at the front of the buffer, leaves the rest alone and fails with
  \<^verbatim>\<open>BufferTooSmall\<close>, never with a panic, when the buffer is too short.
\<close>

definition emits :: "encoder \<Rightarrow> bytes \<Rightarrow> bool" where
  "emits enc w \<longleftrightarrow>
     (\<forall>buf. enc buf = (if length w \<le> length buf
                       then Ok (length w, w @ drop (length w) buf) else Err BufferTooSmall))"

lemma emitsI:
  assumes "\<And>buf. length w \<le> length buf \<Longrightarrow> enc buf = Ok (length w, w @ drop (length w) buf)"
    and "\<And>buf. length buf < length w \<Longrightarrow> enc buf = Err BufferTooSmall"
  shows "emits enc w"
  using assms by (auto simp: emits_def not_le)

lemma emitsD: "emits enc w \<Longrightarrow> length w \<le> length buf \<Longrightarrow>
  enc buf = Ok (length w, w @ drop (length w) buf)"
  by (simp add: emits_def)

lemma emits_short: "emits enc w \<Longrightarrow> length buf < length w \<Longrightarrow> enc buf = Err BufferTooSmall"
  by (simp add: emits_def)

lemma put_with_cursor:
  assumes "emits enc w" "length bs + length w \<le> length buf"
  shows "put_with enc (cursor buf bs) = Ok (cursor buf (bs @ w))"
  using assms by (auto simp: cursor_def emitsD add.commute)

section \<open>The contract of an encoder and its decoder\<close>

locale wire_codec =
  fixes enc :: "'a \<Rightarrow> encoder"
    and dec :: "'a decoder"
    and wire :: "'a \<Rightarrow> bytes"
    and valid :: "'a \<Rightarrow> bool"
  assumes enc_emits: "valid x \<Longrightarrow> emits (enc x) (wire x)"
    and dec_wire: "valid x \<Longrightarrow> dec (wire x @ rest) = Ok (x, length (wire x))"
    and dec_total: "dec bs \<noteq> Panic"
begin

text \<open>Encoding into a buffer and decoding that buffer gives the value and its length back.\<close>

lemma roundtrip:
  assumes "valid x" "enc x buf = Ok (n, buf')"
  shows "dec buf' = Ok (x, n) \<and> length buf' = length buf \<and> drop n buf' = drop n buf"
proof -
  have "length (wire x) \<le> length buf"
    using emits_short [OF enc_emits [OF assms(1)]] assms(2)
    by (metis linorder_not_less result.distinct(1))
  with emitsD [OF enc_emits [OF assms(1)]] assms(2)
  have "n = length (wire x)" "buf' = wire x @ drop n buf" by auto
  then show ?thesis
    using dec_wire [OF assms(1)] \<open>length (wire x) \<le> length buf\<close> by auto
qed

lemma encode_fits: "valid x \<Longrightarrow> length (wire x) \<le> length buf \<Longrightarrow>
  enc x buf = Ok (length (wire x), wire x @ drop (length (wire x)) buf)"
  using emitsD [OF enc_emits] .

lemma encode_too_small: "valid x \<Longrightarrow> length buf < length (wire x) \<Longrightarrow> enc x buf = Err BufferTooSmall"
  using emits_short [OF enc_emits] .

text \<open>No encoding is a prefix of another: the wire format is uniquely decodable.\<close>

lemma wire_prefix_free: "valid x \<Longrightarrow> valid y \<Longrightarrow> wire x @ r = wire y @ s \<Longrightarrow> x = y \<and> r = s"
  using dec_wire [of x r] dec_wire [of y s] by auto

end

text \<open>
  A decoder that accepts nothing but what the encoder writes: the consumed bytes are the encoding
  of the decoded value. For such a codec decoding is injective and rejects every non-canonical form.
\<close>

locale canonical_codec = wire_codec +
  assumes dec_sound: "dec bs = Ok (x, n) \<Longrightarrow> valid x \<and> n \<le> length bs \<and> take n bs = wire x"
begin

lemma dec_iff: "dec bs = Ok (x, n) \<longleftrightarrow> valid x \<and> n = length (wire x) \<and> (\<exists>r. bs = wire x @ r)"
proof
  assume "dec bs = Ok (x, n)"
  from dec_sound [OF this] show "valid x \<and> n = length (wire x) \<and> (\<exists>r. bs = wire x @ r)"
    by (metis append_take_drop_id length_take min.absorb2)
qed (auto simp: dec_wire)

lemma dec_inj: "dec bs = Ok (x, n) \<Longrightarrow> dec bs' = Ok (x, n') \<Longrightarrow> n = n' \<and> take n bs = take n bs'"
  by (auto simp: dec_iff)

end

end
