(* ===== verification/Codec.thy ===== *)
theory Codec
  imports Wire
begin

unbundle bit_operations_syntax

text \<open>
  The basic types of \<^verbatim>\<open>src/codec\<close>: the protocol version and quality of service, the decoder
  limits, the variable byte integer, binary data and UTF-8 strings, each with its encoder and
  decoder as written in the source and an interpretation of the codec contract of theory \<open>Wire\<close>.
\<close>

section \<open>Version, quality of service, limits\<close>

datatype mqtt_version = V5 | V311

datatype qos = AtMostOnce | AtLeastOnce | ExactlyOnce

definition qos_from_u8 :: "u8 \<Rightarrow> qos option" where
  "qos_from_u8 value =
     (if value = 0 then Some AtMostOnce
      else if value = 1 then Some AtLeastOnce
      else if value = 2 then Some ExactlyOnce
      else None)"

fun qos_as_u8 :: "qos \<Rightarrow> u8" where
  "qos_as_u8 AtMostOnce = 0"
| "qos_as_u8 AtLeastOnce = 1"
| "qos_as_u8 ExactlyOnce = 2"

lemma qos_from_as_u8 [simp]: "qos_from_u8 (qos_as_u8 q) = Some q"
  by (cases q) (auto simp: qos_from_u8_def)

lemma qos_from_u8_Some_iff: "qos_from_u8 v = Some q \<longleftrightarrow> v = qos_as_u8 q"
  by (cases q) (auto simp: qos_from_u8_def)

record limits =
  max_packet_size :: nat

definition limits_new :: limits where
  "limits_new = \<lparr>max_packet_size = 256 * 1024 * 1024\<rparr>"

definition with_max_packet_size :: "limits \<Rightarrow> nat \<Rightarrow> limits" where
  "with_max_packet_size l n = l\<lparr>max_packet_size := n\<rparr>"

section \<open>Variable byte integer\<close>

definition vbi_MAX :: u32 where
  "vbi_MAX = 268435455"

definition vbi_encoded_len :: "u32 \<Rightarrow> nat" where
  "vbi_encoded_len v =
     (if v \<le> 127 then 1 else if v \<le> 16383 then 2 else if v \<le> 2097151 then 3 else 4)"

text \<open>The loop of \<^verbatim>\<open>VariableByteInteger::encode\<close>: \<open>value\<close> is what is left to write.\<close>

function vbi_encode_loop :: "u32 \<Rightarrow> nat \<Rightarrow> bytes \<Rightarrow> (nat \<times> bytes, encode_error) result" where
  "vbi_encode_loop value i buf =
     (if length buf \<le> i then Err BufferTooSmall
      else
        let byte = (ucast (value mod 128) :: u8);
            value' = value div 128;
            byte' = (if 0 < value' then byte OR 0x80 else byte);
            buf' = buf[i := byte']
        in if value' = 0 then Ok (i + 1, buf') else vbi_encode_loop value' (i + 1) buf')"
  by pat_completeness auto
termination
  by (relation "measure (\<lambda>(value, i, buf). length buf - i)") auto

declare vbi_encode_loop.simps [simp del]

definition vbi_encode :: "u32 \<Rightarrow> encoder" where
  "vbi_encode v buf =
     (if vbi_MAX < v then Err (PacketTooLarge (unat v) (unat vbi_MAX))
      else vbi_encode_loop v 0 buf)"

text \<open>The loop of \<^verbatim>\<open>VariableByteInteger::decode\<close>.\<close>

function vbi_decode_loop :: "bytes \<Rightarrow> u32 \<Rightarrow> u32 \<Rightarrow> nat \<Rightarrow> (u32 \<times> nat, decode_error) result" where
  "vbi_decode_loop buf value multiplier i =
     (if 4 \<le> i then Err MalformedPacket
      else if length buf \<le> i then Err InsufficientData
      else
        let byte = buf ! i in
        case checked_add value (ucast (byte AND 0x7F) * multiplier) of
          None \<Rightarrow> Err MalformedPacket
        | Some value' \<Rightarrow>
            if byte AND 0x80 = 0 then Ok (value', i + 1)
            else
              case checked_mul multiplier 128 of
                None \<Rightarrow> Err MalformedPacket
              | Some multiplier' \<Rightarrow> vbi_decode_loop buf value' multiplier' (i + 1))"
  by pat_completeness auto
termination
  by (relation "measure (\<lambda>(buf, value, multiplier, i). 4 - i)") auto

declare vbi_decode_loop.simps [simp del]

definition vbi_decode :: "u32 decoder" where
  "vbi_decode buf =
     rbind (vbi_decode_loop buf 0 1 0) (\<lambda>(value, i).
       if vbi_MAX < value then Err MalformedPacket
       else if i \<noteq> vbi_encoded_len value then Err MalformedPacket
       else Ok (value, i))"

text \<open>The reference: little-endian base 128 with a continuation bit.\<close>

fun vbi_bytes :: "nat \<Rightarrow> bytes" where
  "vbi_bytes n =
     (if n < 128 then [word_of_nat n] else word_of_nat (n mod 128 + 128) # vbi_bytes (n div 128))"

declare vbi_bytes.simps [simp del]

definition vbi_wire :: "u32 \<Rightarrow> bytes" where
  "vbi_wire v = vbi_bytes (unat v)"

section \<open>Binary data\<close>

definition binary_encode_slice :: "bytes \<Rightarrow> encoder" where
  "binary_encode_slice value buf =
     (let len = length value in
      if unat (- 1 :: u16) < len then Err (PacketTooLarge len (unat (- 1 :: u16)))
      else if length buf < 2 + len then Err BufferTooSmall
      else
        rbind (copy_from_slice buf 0 (u16_to_be_bytes (word_of_nat len))) (\<lambda>buf1.
        rbind (copy_from_slice buf1 2 value) (\<lambda>buf2. Ok (2 + len, buf2))))"

definition binary_decode :: "bytes decoder" where
  "binary_decode buf =
     (if length buf < 2 then Err InsufficientData
      else
        rbind (index buf 0) (\<lambda>b0.
        rbind (index buf 1) (\<lambda>b1.
        let len = unat (u16_from_be_bytes b0 b1) in
        if length buf < 2 + len then Err InsufficientData
        else rbind (subslice buf 2 (2 + len)) (\<lambda>data. Ok (data, 2 + len)))))"

definition binary_bytes :: "bytes \<Rightarrow> bytes" where
  "binary_bytes value = u16_to_be_bytes (word_of_nat (length value)) @ value"

section \<open>UTF-8 strings\<close>

text \<open>
  \<^verbatim>\<open>String::from_utf8\<close> accepts exactly the well-formed UTF-8 byte sequences: one to four bytes
  per scalar value, no overlong form, no surrogate, nothing above U+10FFFF.
\<close>

definition utf8_cont :: "u8 \<Rightarrow> bool" where
  "utf8_cont b \<longleftrightarrow> 0x80 \<le> b \<and> b \<le> 0xBF"

fun utf8_valid :: "bytes \<Rightarrow> bool" where
  "utf8_valid [] = True"
| "utf8_valid (b # bs) =
     (if b < 0x80 then utf8_valid bs
      else if 0xC2 \<le> b \<and> b \<le> 0xDF then
        (case bs of c1 # r \<Rightarrow> utf8_cont c1 \<and> utf8_valid r | _ \<Rightarrow> False)
      else if 0xE0 \<le> b \<and> b \<le> 0xEF then
        (case bs of c1 # c2 # r \<Rightarrow>
            (if b = 0xE0 then 0xA0 \<le> c1 \<and> c1 \<le> 0xBF
             else if b = 0xED then 0x80 \<le> c1 \<and> c1 \<le> 0x9F
             else utf8_cont c1) \<and> utf8_cont c2 \<and> utf8_valid r
         | _ \<Rightarrow> False)
      else if 0xF0 \<le> b \<and> b \<le> 0xF4 then
        (case bs of c1 # c2 # c3 # r \<Rightarrow>
            (if b = 0xF0 then 0x90 \<le> c1 \<and> c1 \<le> 0xBF
             else if b = 0xF4 then 0x80 \<le> c1 \<and> c1 \<le> 0x8F
             else utf8_cont c1) \<and> utf8_cont c2 \<and> utf8_cont c3 \<and> utf8_valid r
         | _ \<Rightarrow> False)
      else False)"

definition from_utf8 :: "bytes \<Rightarrow> rstring option" where
  "from_utf8 bs = (if utf8_valid bs then Some bs else None)"

text \<open>\<^verbatim>\<open>s.contains(c)\<close> for an ASCII character: its byte occurs only as that character in UTF-8.\<close>

definition str_contains :: "u8 \<Rightarrow> rstring \<Rightarrow> bool" where
  "str_contains c s = List.member s c"

lemma str_contains_iff [simp]: "str_contains c s \<longleftrightarrow> c \<in> set s"
  by (simp add: str_contains_def)

definition utf8_encode_str :: "rstring \<Rightarrow> encoder" where
  "utf8_encode_str value buf =
     (if str_contains 0 value then Err (InvalidField NullInUtf8String)
      else
        let bs = value; len = length bs in
        if unat (- 1 :: u16) < len then Err (PacketTooLarge len (unat (- 1 :: u16)))
        else if length buf < 2 + len then Err BufferTooSmall
        else
          rbind (copy_from_slice buf 0 (u16_to_be_bytes (word_of_nat len))) (\<lambda>buf1.
          rbind (copy_from_slice buf1 2 bs) (\<lambda>buf2. Ok (2 + len, buf2))))"

definition utf8_decode :: "rstring decoder" where
  "utf8_decode buf =
     (if length buf < 2 then Err InsufficientData
      else
        rbind (index buf 0) (\<lambda>b0.
        rbind (index buf 1) (\<lambda>b1.
        let len = unat (u16_from_be_bytes b0 b1) in
        if length buf < 2 + len then Err InsufficientData
        else
          rbind (subslice buf 2 (2 + len)) (\<lambda>bs.
          rbind (ok_or InvalidUtf8 (from_utf8 bs)) (\<lambda>s.
          if str_contains 0 s then Err MalformedPacket else Ok (s, 2 + len))))))"

text \<open>What a string must satisfy to be an MQTT UTF-8 string; the first conjunct holds of every Rust \<^verbatim>\<open>String\<close>.\<close>

definition mqtt_string :: "rstring \<Rightarrow> bool" where
  "mqtt_string s \<longleftrightarrow> utf8_valid s \<and> \<not> str_contains 0 s \<and> length s \<le> 65535"

section \<open>The variable byte integer is a canonical codec\<close>

lemma top_bit_nat: "n < 256 \<Longrightarrow> even (n div 128) \<longleftrightarrow> n < (128 :: nat)"
proof (cases "n < 128")
  case False
  assume "n < 256"
  with False have "n div 128 = 1" by (intro div_nat_eqI) auto
  with False show ?thesis by simp
qed simp

lemma mod_top_bit_nat: "\<not> n < 128 \<Longrightarrow> n < 256 \<Longrightarrow> n mod 128 + 128 = (n :: nat)"
proof -
  assume n: "\<not> n < 128" "n < 256"
  then have "n div 128 = 1" by (intro div_nat_eqI) auto
  with div_mult_mod_eq [of n 128] show ?thesis by simp
qed

lemma unat_u8_and_7F: "unat (x AND 0x7F :: u8) = unat x mod 128"
proof -
  have "x AND 0x7F = take_bit 7 x"
    by (simp add: take_bit_eq_mask mask_eq_exp_minus_1 and.commute)
  then show ?thesis by (simp add: unsigned_take_bit_eq take_bit_eq_mod unat_mod)
qed

lemma u8_and_80_eq_0: "(x AND 0x80 :: u8) = 0 \<longleftrightarrow> unat x < 128"
proof -
  have "x AND 0x80 = 0 \<longleftrightarrow> \<not> bit x 7"
    using and_exp_eq_0_iff_not_bit [of x 7] by simp
  also have "\<dots> \<longleftrightarrow> \<not> bit (unat x) 7"
    by (simp add: bit_unsigned_iff)
  also have "\<dots> \<longleftrightarrow> even (unat x div 128)"
    by (simp add: bit_iff_odd)
  also have "\<dots> \<longleftrightarrow> unat x < 128"
    by (rule top_bit_nat [OF unat_u8_less])
  finally show ?thesis .
qed

lemma vbi_MAX_unat: "unat vbi_MAX = 268435455"
  by (simp add: vbi_MAX_def)

lemma length_vbi_bytes:
  "n \<le> 268435455 \<Longrightarrow> length (vbi_bytes n) = vbi_encoded_len (word_of_nat n)"
proof -
  assume n: "n \<le> 268435455"
  then have "unat (word_of_nat n :: u32) = n" by (intro unat_word_of_nat_small) simp
  then have "vbi_encoded_len (word_of_nat n) = (if n \<le> 127 then 1 else if n \<le> 16383 then 2
      else if n \<le> 2097151 then 3 else 4)"
    by (simp add: vbi_encoded_len_def word_le_nat_alt)
  moreover have "n div 128 < 128 \<longleftrightarrow> n \<le> 16383" "n div 128 div 128 < 128 \<longleftrightarrow> n \<le> 2097151"
      "n div 128 div 128 div 128 < 128" "n < 128 \<longleftrightarrow> n \<le> 127"
    using n by linarith+
  ultimately show ?thesis
    by (simp add: vbi_bytes.simps [of n] vbi_bytes.simps [of "n div 128"]
      vbi_bytes.simps [of "n div 128 div 128"] vbi_bytes.simps [of "n div 128 div 128 div 128"])
qed

lemma u8_continuation:
  "(word_of_nat (k mod 128) :: u8) OR 0x80 = word_of_nat (k mod 128) + 0x80"
proof -
  have "(word_of_nat (k mod 128) :: u8) AND 0x80 = 0"
    by (simp add: u8_and_80_eq_0 unat_word_of_nat_small)
  then show ?thesis by (simp add: disjunctive_add_eq_or)
qed

lemma vbi_encode_loop_emits:
  "vbi_encode_loop v (length bs) (bs @ rest) =
     (if length (vbi_bytes (unat v)) \<le> length rest
      then Ok (length bs + length (vbi_bytes (unat v)),
               bs @ vbi_bytes (unat v) @ drop (length (vbi_bytes (unat v))) rest)
      else Err BufferTooSmall)"
proof (induction "unat v" arbitrary: v bs rest rule: less_induct)
  case less
  let ?n = "unat v"
  have d: "unat (v div 128) = ?n div 128" by (simp add: unat_div)
  have b: "(ucast (v mod 128) :: u8) = word_of_nat (?n mod 128)"
  proof -
    have "unat (v mod 128) = ?n mod 128" by (simp add: unat_mod)
    then show ?thesis by (metis of_nat_unat)
  qed
  have z: "v div 128 = 0 \<longleftrightarrow> ?n < 128" "0 < v div 128 \<longleftrightarrow> \<not> ?n < 128"
    using d by (auto simp: word_eq_iff_unsigned word_less_nat_alt unat_eq_zero)
  show ?case
  proof (cases rest)
    case Nil
    have "0 < length (vbi_bytes ?n)" by (subst vbi_bytes.simps) simp
    with Nil show ?thesis by (simp add: vbi_encode_loop.simps)
  next
    case (Cons r rest')
    show ?thesis
    proof (cases "?n < 128")
      case True
      with Cons z b show ?thesis
        by (simp add: vbi_encode_loop.simps [of v] vbi_bytes.simps [of ?n] list_update_append)
    next
      case False
      with d have "unat (v div 128) < ?n" by simp
      from less [OF this, of "bs @ [word_of_nat (?n mod 128 + 128)]" rest']
      show ?thesis using False Cons z b d
        by (simp add: vbi_encode_loop.simps [of v] vbi_bytes.simps [of ?n] list_update_append
            u8_continuation)
    qed
  qed
qed

lemma length_vbi_bytes_pos: "0 < length (vbi_bytes n)"
  by (subst vbi_bytes.simps) simp

lemma pow128_less: "i \<le> 4 \<Longrightarrow> (128::nat) ^ i \<le> 268435456"
  using power_increasing [of i 4 "128::nat"] by simp

lemma digit_bound: "a < 128 ^ i \<Longrightarrow> a + d mod 128 * 128 ^ i < 128 ^ (i + 1)" for a d :: nat
proof -
  assume a: "a < 128 ^ i"
  have "d mod 128 * 128 ^ i \<le> 127 * 128 ^ i" by (intro mult_right_mono) auto
  moreover have "(128::nat) ^ (i + 1) = 128 ^ i + 127 * 128 ^ i" by simp
  ultimately show ?thesis using a by linarith
qed

lemma vbi_decode_step:
  assumes "i < length buf" "i < 4" "unat v < 128 ^ i" "unat m = 128 ^ i"
  obtains v' m' where "unat v' = unat v + unat (buf ! i) mod 128 * 128 ^ i"
    "unat m' = 128 ^ (i + 1)"
    "vbi_decode_loop buf v m i =
       (if unat (buf ! i) < 128 then Ok (v', i + 1) else vbi_decode_loop buf v' m' (i + 1))"
proof -
  let ?d = "unat (buf ! i) mod 128" and ?b = "ucast (buf ! i AND 0x7F) :: u32"
  have d: "unat ?b = ?d" by (simp add: unat_u8_and_7F unsigned_ucast_eq take_bit_nat_eq_self)
  have p: "(128::nat) ^ (i + 1) \<le> 268435456" using assms(2) by (intro pow128_less) simp
  have s: "unat v + ?d * 128 ^ i < 2 ^ 32"
    using digit_bound [OF assms(3), of "unat (buf ! i)"] p by simp
  then have m: "unat (?b * m) = ?d * 128 ^ i"
    by (simp add: unat_word_ariths d assms(4))
  note s
  then have add: "checked_add v (?b * m) = Some (v + ?b * m)"
    "unat (v + ?b * m) = unat v + ?d * 128 ^ i"
    by (simp_all add: checked_add_def m unat_add_no_wrap)
  have mul: "checked_mul m 128 = Some (m * 128)" "unat (m * 128) = 128 ^ (i + 1)"
    using p by (simp_all add: checked_mul_def assms(4) unat_word_ariths)
  show thesis
    by (rule that [OF add(2) mul(2)])
      (use assms(1,2) in \<open>simp add: vbi_decode_loop.simps [of buf v] add mul u8_and_80_eq_0 Let_def\<close>)
qed

lemma vbi_decode_loop_bytes:
  assumes "unat v < 128 ^ length pre" "unat m = 128 ^ length pre"
    "length pre + length (vbi_bytes n) \<le> 4"
  shows "\<exists>r. vbi_decode_loop (pre @ vbi_bytes n @ rest) v m (length pre)
      = Ok (r, length pre + length (vbi_bytes n)) \<and> unat r = unat v + n * 128 ^ length pre"
  using assms
proof (induction n arbitrary: v m pre rule: vbi_bytes.induct)
  case (1 n)
  let ?i = "length pre" and ?buf = "pre @ vbi_bytes n @ rest"
  have i: "?i < 4" "?i < length ?buf"
    using "1.prems"(3) length_vbi_bytes_pos [of n] by (linarith, simp)
  from vbi_decode_step [OF i(2,1) "1.prems"(1,2)] obtain v' m' where
    v': "unat v' = unat v + unat (?buf ! ?i) mod 128 * 128 ^ ?i" and m': "unat m' = 128 ^ (?i + 1)"
    and st: "vbi_decode_loop ?buf v m ?i = (if unat (?buf ! ?i) < 128 then Ok (v', ?i + 1)
       else vbi_decode_loop ?buf v' m' (?i + 1))" by blast
  show ?case
  proof (cases "n < 128")
    case True
    then have w: "vbi_bytes n = [word_of_nat n]" "unat (word_of_nat n :: u8) = n"
      by (simp_all add: vbi_bytes.simps unat_word_of_nat_small)
    with True st v' show ?thesis by auto
  next
    case False
    let ?b = "word_of_nat (n mod 128 + 128) :: u8"
    have w: "vbi_bytes n = ?b # vbi_bytes (n div 128)"
      using False by (simp add: vbi_bytes.simps [of n])
    have b: "?buf ! ?i = ?b" "unat ?b = n mod 128 + 128"
      using w by (simp_all only: nth_append_length append_Cons) (rule unat_word_of_nat_small, simp)
    have "unat v' < 128 ^ length (pre @ [?b])"
      using digit_bound [OF "1.prems"(1), of n] v' b by simp
    then obtain r where "vbi_decode_loop ((pre @ [?b]) @ vbi_bytes (n div 128) @ rest) v' m' (?i + 1)
        = Ok (r, ?i + 1 + length (vbi_bytes (n div 128)))"
      "unat r = unat v' + n div 128 * 128 ^ (?i + 1)"
      using "1.IH" [OF False, of v' "pre @ [?b]" m'] m' "1.prems"(3) w by auto
    moreover have "unat v + n mod 128 * 128 ^ ?i + n div 128 * 128 ^ (?i + 1) = unat v + n * 128 ^ ?i"
    proof -
      have "n * 128 ^ ?i = (n div 128 * 128 + n mod 128) * 128 ^ ?i" by simp
      then show ?thesis by (simp only: add_mult_distrib) simp
    qed
    ultimately show ?thesis using st v' b w by simp
  qed
qed

text \<open>Soundness: every accepted input starts with a chain of bytes that spells the value.\<close>

lemma vbi_decode_loop_spells:
  assumes "vbi_decode_loop buf v m i = Ok (r, k)" "unat v < 128 ^ i" "unat m = 128 ^ i"
  shows "\<exists>n. unat r = unat v + n * 128 ^ i \<and> k \<le> length buf \<and> i < k
    \<and> (k - i = length (vbi_bytes n) \<longrightarrow> take (k - i) (drop i buf) = vbi_bytes n)"
  using assms
proof (induction "4 - i" arbitrary: v m i)
  case 0
  then show ?case by (simp add: vbi_decode_loop.simps)
next
  case (Suc x)
  then have i: "i < 4" "i < length buf"
    by (auto simp: vbi_decode_loop.simps [of buf v] split: if_splits)
  let ?b = "buf ! i"
  from vbi_decode_step [OF i(2,1) Suc.prems(2,3)] obtain v' m' where
    v': "unat v' = unat v + unat ?b mod 128 * 128 ^ i" and m': "unat m' = 128 ^ (i + 1)"
    and st: "vbi_decode_loop buf v m i = (if unat ?b < 128 then Ok (v', i + 1)
       else vbi_decode_loop buf v' m' (i + 1))" by blast
  have drop_i: "drop i buf = ?b # drop (i + 1) buf" using i by (simp add: Cons_nth_drop_Suc)
  show ?case
  proof (cases "unat ?b < 128")
    case True
    then have "vbi_bytes (unat ?b) = [?b]" by (simp add: vbi_bytes.simps)
    with True st Suc.prems(1) v' i drop_i show ?thesis
      by (intro exI [of _ "unat ?b"]) auto
  next
    case False
    have "unat v' < 128 ^ (i + 1)"
      using digit_bound [OF Suc.prems(2)] v' by simp
    moreover have "x = 4 - (i + 1)" using Suc.hyps(2) by simp
    ultimately obtain n where n: "unat r = unat v' + n * 128 ^ (i + 1)" "k \<le> length buf" "i + 1 < k"
      "k - (i + 1) = length (vbi_bytes n) \<Longrightarrow> take (k - (i + 1)) (drop (i + 1) buf) = vbi_bytes n"
      using Suc.hyps(1) [of "i + 1" v' m'] Suc.prems(1) st m' False by auto
    let ?n = "unat ?b mod 128 + 128 * n"
    have "take (k - i) (drop i buf) = vbi_bytes ?n" if l: "k - i = length (vbi_bytes ?n)"
    proof -
      have "\<not> ?n < 128" using l n(3) by (auto simp: vbi_bytes.simps [of ?n] split: if_splits)
      then have e: "vbi_bytes ?n = word_of_nat (?n mod 128 + 128) # vbi_bytes (?n div 128)"
        by (subst vbi_bytes.simps) simp
      have q: "?n mod 128 = unat ?b mod 128" "?n div 128 = n" by auto
      have "unat ?b mod 128 + 128 = unat ?b" by (rule mod_top_bit_nat [OF False unat_u8_less])
      with e q have e': "vbi_bytes ?n = ?b # vbi_bytes n" by (metis of_nat_unat ucast_id)
      have "k - i = Suc (k - (i + 1))" using n(3) by simp
      with l e' n(4) drop_i show ?thesis by simp
    qed
    moreover have "unat r = unat v + ?n * 128 ^ i"
      using n(1) v' by (simp add: algebra_simps)
    ultimately show ?thesis using n(2,3) by (intro exI [of _ ?n]) auto
  qed
qed

lemma vbi_decode_loop_no_panic: "vbi_decode_loop buf v m i \<noteq> Panic"
  by (induction buf v m i rule: vbi_decode_loop.induct)
    (subst vbi_decode_loop.simps, auto simp: Let_def split: option.splits)

lemma vbi_decode_no_panic [no_panic, simp]: "vbi_decode buf \<noteq> Panic"
  using vbi_decode_loop_no_panic by (auto simp: vbi_decode_def rbind_Panic_iff split: if_splits)

lemma length_vbi_wire: "v \<le> vbi_MAX \<Longrightarrow> length (vbi_wire v) = vbi_encoded_len v"
  using length_vbi_bytes [of "unat v"]
  by (simp add: vbi_wire_def vbi_MAX_unat word_le_nat_alt del: of_nat_unat)

lemma vbi_encoded_len_bounds: "1 \<le> vbi_encoded_len v" "vbi_encoded_len v \<le> 4"
  by (auto simp: vbi_encoded_len_def)

interpretation vbi: canonical_codec vbi_encode vbi_decode vbi_wire "\<lambda>v. v \<le> vbi_MAX"
proof unfold_locales
  fix v :: u32 assume v: "v \<le> vbi_MAX"
  show "emits (vbi_encode v) (vbi_wire v)"
    using v vbi_encode_loop_emits [of v "[]"]
    by (simp add: emits_def vbi_encode_def vbi_wire_def)
  fix rest
  show "vbi_decode (vbi_wire v @ rest) = Ok (v, length (vbi_wire v))"
    using vbi_decode_loop_bytes [of 0 "[]" 1 "unat v" rest] v
      length_vbi_wire [OF v] vbi_encoded_len_bounds(2) [of v]
    by (auto simp: vbi_decode_def vbi_wire_def dest!: unsigned_word_eqI)
next
  fix buf v n assume "vbi_decode buf = Ok (v, n)"
  then have l: "vbi_decode_loop buf 0 1 0 = Ok (v, n)" and v: "v \<le> vbi_MAX"
    and n: "n = vbi_encoded_len v"
    by (auto simp: vbi_decode_def rbind_Ok_iff split: if_splits)
  from vbi_decode_loop_spells [OF l] have "n \<le> length buf"
    "n = length (vbi_bytes (unat v)) \<Longrightarrow> take n buf = vbi_bytes (unat v)" by auto
  with v n show "v \<le> vbi_MAX \<and> n \<le> length buf \<and> take n buf = vbi_wire v"
    using length_vbi_wire [OF v] by (simp add: vbi_wire_def)
qed (simp)

section \<open>Length-prefixed data\<close>

lemma unat_u16_max: "unat (- 1 :: u16) = 65535"
  by (simp add: unsigned_minus_1_eq_mask mask_eq_exp_minus_1)

lemma length_binary_bytes [simp]: "length (binary_bytes v) = 2 + length v"
  by (simp add: binary_bytes_def)

lemma binary_encode_emits:
  "length v \<le> 65535 \<Longrightarrow> emits (binary_encode_slice v) (binary_bytes v)"
  by (intro emitsI) (auto simp: binary_encode_slice_def unat_u16_max copy_from_slice_def binary_bytes_def Let_def)

lemma u16_be_of_length:
  assumes "n \<le> 65535"
  shows "u16_to_be_bytes (word_of_nat n) = [ucast (drop_bit 8 (word_of_nat n :: u16)), ucast (word_of_nat n :: u16)]"
    "unat (word_of_nat n :: u16) = n"
  using assms by (simp_all add: u16_to_be_bytes_def unat_word_of_nat_small)

lemma binary_decode_bytes:
  "length v \<le> 65535 \<Longrightarrow> binary_decode (binary_bytes v @ rest) = Ok (v, 2 + length v)"
  by (simp add: binary_decode_def binary_bytes_def u16_be_of_length Let_def)

lemma prefix_two:
  assumes "2 \<le> length buf" "len = unat (u16_from_be_bytes (buf ! 0) (buf ! 1))" "2 + len \<le> length buf"
  shows "take (2 + len) buf = binary_bytes (drop 2 (take (2 + len) buf))"
proof -
  obtain b0 b1 r where buf: "buf = b0 # b1 # r"
    using assms(1) by (cases buf; cases "tl buf") auto
  then have "length (take len r) = len" using assms(3) by simp
  moreover have "word_of_nat len = u16_from_be_bytes b0 b1" using assms(2) buf by simp
  ultimately show ?thesis using buf by (simp add: binary_bytes_def)
qed

lemma binary_decode_sound:
  "binary_decode buf = Ok (v, n) \<Longrightarrow> length v \<le> 65535 \<and> n \<le> length buf \<and> take n buf = binary_bytes v"
  using prefix_two [of buf] unat_u16_less [of "u16_from_be_bytes (buf ! 0) (buf ! 1)"]
  by (auto simp: binary_decode_def Let_def split: if_splits)

lemma binary_decode_no_panic [no_panic, simp]: "binary_decode buf \<noteq> Panic"
  by (auto simp: binary_decode_def Let_def)

interpretation binary: canonical_codec binary_encode_slice binary_decode binary_bytes
  "\<lambda>v. length v \<le> 65535"
  by unfold_locales (use binary_encode_emits binary_decode_bytes binary_decode_sound in auto)

section \<open>UTF-8 strings\<close>

lemma utf8_encode_eq_binary:
  "\<not> str_contains 0 s \<Longrightarrow> utf8_encode_str s buf = binary_encode_slice s buf"
  by (simp add: utf8_encode_str_def binary_encode_slice_def Let_def)

lemma utf8_decode_eq_binary:
  "utf8_decode buf = rbind (binary_decode buf) (\<lambda>(s, n).
     if \<not> utf8_valid s then Err InvalidUtf8
     else if str_contains 0 s then Err MalformedPacket else Ok (s, n))"
  by (auto simp: utf8_decode_def binary_decode_def Let_def from_utf8_def)

lemma utf8_decode_no_panic [no_panic, simp]: "utf8_decode buf \<noteq> Panic"
  by (auto simp: utf8_decode_eq_binary rbind_Panic_iff split: if_splits)

lemma utf8_decode_Ok_iff:
  "utf8_decode buf = Ok (s, n) \<longleftrightarrow> binary_decode buf = Ok (s, n) \<and> utf8_valid s \<and> \<not> str_contains 0 s"
  by (auto simp: utf8_decode_eq_binary rbind_Ok_iff split: if_splits)

interpretation utf8: canonical_codec utf8_encode_str utf8_decode binary_bytes mqtt_string
proof unfold_locales
  fix s assume "mqtt_string s"
  then show "emits (utf8_encode_str s) (binary_bytes s)"
    using binary_encode_emits [of s]
    by (simp add: emits_def utf8_encode_eq_binary mqtt_string_def)
qed (auto simp: utf8_decode_Ok_iff mqtt_string_def binary_decode_bytes dest: binary_decode_sound)

section \<open>Properties\<close>

text \<open>
  C35: The variable byte integer decoder accepts exactly the shortest base-128 encodings of the
  values up to 268435455 and reports how many bytes it used; the encoder writes that encoding, refuses
  larger values and reports a buffer that is too small; neither panics.
\<close>

theorem vbi_codec_exact:
  "(vbi_decode bs = Ok (v, n) \<longleftrightarrow>
      v \<le> vbi_MAX \<and> n = length (vbi_wire v) \<and> (\<exists>rest. bs = vbi_wire v @ rest)) \<and>
   vbi_decode bs \<noteq> Panic \<and>
   vbi_encode v buf =
     (if vbi_MAX < v then Err (PacketTooLarge (unat v) (unat vbi_MAX))
      else if length buf < length (vbi_wire v) then Err BufferTooSmall
      else Ok (length (vbi_wire v), vbi_wire v @ drop (length (vbi_wire v)) buf))"
proof -
  have "vbi_encode v buf =
     (if vbi_MAX < v then Err (PacketTooLarge (unat v) (unat vbi_MAX))
      else if length buf < length (vbi_wire v) then Err BufferTooSmall
      else Ok (length (vbi_wire v), vbi_wire v @ drop (length (vbi_wire v)) buf))"
    using vbi.encode_fits [of v buf] vbi.encode_too_small [of v buf]
    by (auto simp: vbi_encode_def not_less)
  then show ?thesis using vbi.dec_iff [of bs v n] by simp
qed

text \<open>
  The decoder of UTF-8 strings accepts exactly a two-byte length followed by that many bytes of
  well-formed UTF-8 without U+0000, and what the encoder writes for such a string is decoded to it
  again, whatever the buffer holds after it.
\<close>

theorem utf8_codec_exact:
  "(utf8_decode bs = Ok (s, n) \<longleftrightarrow>
      mqtt_string s \<and> n = length (binary_bytes s) \<and> (\<exists>rest. bs = binary_bytes s @ rest)) \<and>
   utf8_decode bs \<noteq> Panic \<and>
   (case utf8_encode_str s buf of
      Ok (k, buf') \<Rightarrow> utf8_decode buf' = (if utf8_valid s then Ok (s, k) else Err InvalidUtf8) \<and>
        drop k buf' = drop k buf
    | Err e \<Rightarrow> 0 \<in> set s \<or> 65535 < length s \<or> length buf < 2 + length s
    | Panic \<Rightarrow> False)"
proof -
  have enc: "utf8_encode_str s buf =
      (if 0 \<in> set s then Err (InvalidField NullInUtf8String)
       else if 65535 < length s then Err (PacketTooLarge (length s) 65535)
       else if length buf < 2 + length s then Err BufferTooSmall
       else Ok (2 + length s, binary_bytes s @ drop (2 + length s) buf))"
    by (auto simp: utf8_encode_str_def unat_u16_max copy_from_slice_def binary_bytes_def Let_def)
  have "case utf8_encode_str s buf of
      Ok (k, buf') \<Rightarrow> utf8_decode buf' = (if utf8_valid s then Ok (s, k) else Err InvalidUtf8) \<and>
        drop k buf' = drop k buf
    | Err e \<Rightarrow> 0 \<in> set s \<or> 65535 < length s \<or> length buf < 2 + length s
    | Panic \<Rightarrow> False"
    by (simp add: enc utf8_decode_eq_binary binary_decode_bytes)
  then show ?thesis using utf8.dec_iff [of bs s n] by simp
qed

end
