(* ===== verification/Subscription.thy ===== *)
theory Subscription
  imports BTree Codec "HOL-Library.List_Lexorder"
begin

text \<open>
  The subscription table of \<^verbatim>\<open>src/state/subscribe.rs\<close>: confirmed subscriptions by topic filter,
  the SUBSCRIBE and UNSUBSCRIBE requests that await their acknowledgement, and the reverse index from
  subscription identifiers to topic filters. The invariant ties the reverse index to the table, so
  that a lookup by identifier finds exactly the confirmed subscriptions with that identifier.
\<close>

section \<open>State\<close>

datatype retain_handling = SendRetained | SendRetainedIfNotExists | DoNotSendRetained

text \<open>One item of a v5 SUBSCRIBE packet, \<^verbatim>\<open>v5::subscribe::Subscription\<close>.\<close>

record v5_subscription =
  v5s_topic_filter :: rstring
  v5s_qos :: qos
  v5s_no_local :: bool
  v5s_retain_as_published :: bool
  v5s_retain_handling :: retain_handling

record subscription_entry =
  se_topic_filter :: rstring
  se_requested_qos :: qos
  se_granted_qos :: "qos option"
  se_no_local :: bool
  se_retain_as_published :: bool
  se_retain_handling :: retain_handling
  se_subscription_identifier :: "u32 option"

definition subscription_entry_default :: subscription_entry where
  "subscription_entry_default =
     \<lparr>se_topic_filter = [], se_requested_qos = AtMostOnce, se_granted_qos = None, se_no_local = False,
      se_retain_as_published = False, se_retain_handling = SendRetained,
      se_subscription_identifier = None\<rparr>"

definition subscription_entry_new :: "rstring \<Rightarrow> qos \<Rightarrow> subscription_entry" where
  "subscription_entry_new topic_filter requested_qos =
     subscription_entry_default\<lparr>se_topic_filter := topic_filter, se_requested_qos := requested_qos\<rparr>"

definition subscription_entry_from :: "v5_subscription \<Rightarrow> subscription_entry" where
  "subscription_entry_from s =
     \<lparr>se_topic_filter = v5s_topic_filter s, se_requested_qos = v5s_qos s, se_granted_qos = None,
      se_no_local = v5s_no_local s, se_retain_as_published = v5s_retain_as_published s,
      se_retain_handling = v5s_retain_handling s, se_subscription_identifier = None\<rparr>"

record subscription_manager =
  sm_active :: "(rstring, subscription_entry) btmap"
  sm_pending_subscribes :: "(u16, subscription_entry list) btmap"
  sm_pending_unsubscribes :: "(u16, rstring list) btmap"
  sm_subscription_ids :: "(u32, rstring list) btmap"

definition sm_new :: subscription_manager where
  "sm_new = \<lparr>sm_active = [], sm_pending_subscribes = [], sm_pending_unsubscribes = [],
     sm_subscription_ids = []\<rparr>"

section \<open>Operations\<close>

definition sm_active_count :: "subscription_manager \<Rightarrow> nat" where
  "sm_active_count sm = length (sm_active sm)"

definition sm_is_subscribed :: "subscription_manager \<Rightarrow> rstring \<Rightarrow> bool" where
  "sm_is_subscribed sm topic_filter = bt_contains topic_filter (sm_active sm)"

definition sm_active_subscriptions :: "subscription_manager \<Rightarrow> subscription_entry list" where
  "sm_active_subscriptions sm = map snd (sm_active sm)"

definition sm_find_by_subscription_identifier ::
    "subscription_manager \<Rightarrow> u32 \<Rightarrow> subscription_entry list" where
  "sm_find_by_subscription_identifier sm i =
     (case bt_get (sm_subscription_ids sm) i of
        None \<Rightarrow> []
      | Some filters \<Rightarrow> List.map_filter (\<lambda>f. bt_get (sm_active sm) f) filters)"

definition sm_subscribe_sent ::
    "u16 \<Rightarrow> subscription_entry list \<Rightarrow> subscription_manager \<Rightarrow> subscription_manager" where
  "sm_subscribe_sent packet_id subscriptions sm =
     (if packet_id = 0 \<or> subscriptions = [] then sm
      else sm\<lparr>sm_pending_subscribes :=
                bt_insert packet_id subscriptions (sm_pending_subscribes sm)\<rparr>)"

definition sm_drop_pending_subscribe ::
    "u16 \<Rightarrow> subscription_manager \<Rightarrow> subscription_entry list option \<times> subscription_manager" where
  "sm_drop_pending_subscribe packet_id sm =
     (bt_get (sm_pending_subscribes sm) packet_id,
      sm\<lparr>sm_pending_subscribes := bt_remove packet_id (sm_pending_subscribes sm)\<rparr>)"

definition sm_remove_subscription_identifier ::
    "rstring \<Rightarrow> u32 \<Rightarrow> subscription_manager \<Rightarrow> subscription_manager" where
  "sm_remove_subscription_identifier topic_filter i sm =
     (case bt_get (sm_subscription_ids sm) i of
        None \<Rightarrow> sm
      | Some filters \<Rightarrow>
          let filters' = filter (\<lambda>f. f \<noteq> topic_filter) filters in
          if filters' = [] then sm\<lparr>sm_subscription_ids := bt_remove i (sm_subscription_ids sm)\<rparr>
          else sm\<lparr>sm_subscription_ids := bt_insert i filters' (sm_subscription_ids sm)\<rparr>)"

text \<open>\<^verbatim>\<open>subscription_ids.entry(id).or_default().push(filter)\<close>\<close>

definition sm_push_subscription_identifier ::
    "rstring \<Rightarrow> u32 \<Rightarrow> subscription_manager \<Rightarrow> subscription_manager" where
  "sm_push_subscription_identifier topic_filter i sm =
     sm\<lparr>sm_subscription_ids :=
          bt_insert i
            ((case bt_get (sm_subscription_ids sm) i of None \<Rightarrow> [] | Some fs \<Rightarrow> fs) @ [topic_filter])
            (sm_subscription_ids sm)\<rparr>"

text \<open>The body of the loop of \<^verbatim>\<open>suback_received\<close> for an entry whose reason code is a success.\<close>

definition sm_confirm :: "subscription_entry \<Rightarrow> subscription_manager \<Rightarrow> subscription_manager" where
  "sm_confirm entry sm =
     (let f = se_topic_filter entry;
          sm1 = (case bt_get (sm_active sm) f of
                   None \<Rightarrow> sm
                 | Some old \<Rightarrow>
                     (case se_subscription_identifier old of
                        None \<Rightarrow> sm
                      | Some old_id \<Rightarrow> sm_remove_subscription_identifier f old_id sm));
          sm2 = (case se_subscription_identifier entry of
                   None \<Rightarrow> sm1
                 | Some i \<Rightarrow> sm_push_subscription_identifier f i sm1)
      in sm2\<lparr>sm_active := bt_insert f entry (sm_active sm2)\<rparr>)"

fun sm_suback_loop :: "u8 list \<Rightarrow> nat \<Rightarrow> subscription_entry list \<Rightarrow> subscription_entry list \<Rightarrow>
    subscription_manager \<Rightarrow> (subscription_entry list \<times> subscription_manager, 'e) result" where
  "sm_suback_loop reason_codes i [] confirmed sm = Ok (confirmed, sm)"
| "sm_suback_loop reason_codes i (entry # pending) confirmed sm =
     rbind (index reason_codes i) (\<lambda>code.
       if code \<le> 2 then
         let entry' = entry\<lparr>se_granted_qos := qos_from_u8 code\<rparr> in
         sm_suback_loop reason_codes (i + 1) pending (confirmed @ [entry']) (sm_confirm entry' sm)
       else sm_suback_loop reason_codes (i + 1) pending confirmed sm)"

definition sm_suback_received :: "u16 \<Rightarrow> u8 list \<Rightarrow> subscription_manager \<Rightarrow>
    (subscription_entry list option \<times> subscription_manager, 'e) result" where
  "sm_suback_received packet_id reason_codes sm =
     (case bt_get (sm_pending_subscribes sm) packet_id of
        None \<Rightarrow> Ok (None, sm)
      | Some pending \<Rightarrow>
          let sm1 = sm\<lparr>sm_pending_subscribes := bt_remove packet_id (sm_pending_subscribes sm)\<rparr> in
          if length reason_codes \<noteq> length pending then Ok (None, sm1)
          else rbind (sm_suback_loop reason_codes 0 pending [] sm1) (\<lambda>(confirmed, sm2).
               Ok (Some confirmed, sm2)))"

definition sm_unsubscribe_sent ::
    "u16 \<Rightarrow> rstring list \<Rightarrow> subscription_manager \<Rightarrow> subscription_manager" where
  "sm_unsubscribe_sent packet_id topic_filters sm =
     (if packet_id = 0 \<or> topic_filters = [] then sm
      else sm\<lparr>sm_pending_unsubscribes :=
                bt_insert packet_id topic_filters (sm_pending_unsubscribes sm)\<rparr>)"

definition sm_drop_pending_unsubscribe ::
    "u16 \<Rightarrow> subscription_manager \<Rightarrow> rstring list option \<times> subscription_manager" where
  "sm_drop_pending_unsubscribe packet_id sm =
     (bt_get (sm_pending_unsubscribes sm) packet_id,
      sm\<lparr>sm_pending_unsubscribes := bt_remove packet_id (sm_pending_unsubscribes sm)\<rparr>)"

text \<open>The removal of one filter in the loop of \<^verbatim>\<open>unsuback_received\<close>, once the server has dropped it.\<close>

definition sm_unsubscribe_one ::
    "rstring \<Rightarrow> subscription_manager \<Rightarrow> bool \<times> subscription_manager" where
  "sm_unsubscribe_one f sm =
     (case bt_get (sm_active sm) f of
        None \<Rightarrow> (False, sm)
      | Some removed \<Rightarrow>
          let sm1 = sm\<lparr>sm_active := bt_remove f (sm_active sm)\<rparr> in
          (True,
           (case se_subscription_identifier removed of
              None \<Rightarrow> sm1
            | Some i \<Rightarrow> sm_remove_subscription_identifier f i sm1)))"

fun sm_unsuback_loop :: "u8 list \<Rightarrow> nat \<Rightarrow> rstring list \<Rightarrow> rstring list \<Rightarrow>
    subscription_manager \<Rightarrow> (rstring list \<times> subscription_manager, 'e) result" where
  "sm_unsuback_loop reason_codes i [] unsubscribed sm = Ok (unsubscribed, sm)"
| "sm_unsuback_loop reason_codes i (f # pending) unsubscribed sm =
     rbind (if reason_codes = [] then Ok True
            else rbind (index reason_codes i) (\<lambda>c. Ok (c = 0x00 \<or> c = 0x11)))
       (\<lambda>removed_on_server.
       if \<not> removed_on_server then sm_unsuback_loop reason_codes (i + 1) pending unsubscribed sm
       else
         case sm_unsubscribe_one f sm of (was_active, sm') \<Rightarrow>
           sm_unsuback_loop reason_codes (i + 1) pending
             (if was_active then unsubscribed @ [f] else unsubscribed) sm')"

definition sm_unsuback_received :: "u16 \<Rightarrow> u8 list \<Rightarrow> subscription_manager \<Rightarrow>
    (rstring list option \<times> subscription_manager, 'e) result" where
  "sm_unsuback_received packet_id reason_codes sm =
     (case bt_get (sm_pending_unsubscribes sm) packet_id of
        None \<Rightarrow> Ok (None, sm)
      | Some pending \<Rightarrow>
          let sm1 = sm\<lparr>sm_pending_unsubscribes :=
                         bt_remove packet_id (sm_pending_unsubscribes sm)\<rparr> in
          if reason_codes \<noteq> [] \<and> length reason_codes \<noteq> length pending then Ok (None, sm1)
          else rbind (sm_unsuback_loop reason_codes 0 pending [] sm1) (\<lambda>(unsubscribed, sm2).
               Ok (Some unsubscribed, sm2)))"

definition sm_pending_subscribe_ids :: "subscription_manager \<Rightarrow> u16 list" where
  "sm_pending_subscribe_ids sm = bt_keys (sm_pending_subscribes sm)"

definition sm_pending_unsubscribe_ids :: "subscription_manager \<Rightarrow> u16 list" where
  "sm_pending_unsubscribe_ids sm = bt_keys (sm_pending_unsubscribes sm)"

definition sm_reset :: "subscription_manager \<Rightarrow> subscription_manager" where
  "sm_reset sm = sm\<lparr>sm_active := [], sm_pending_subscribes := [], sm_pending_unsubscribes := [],
     sm_subscription_ids := []\<rparr>"

section \<open>The reverse index agrees with the table\<close>

definition ids_of :: "subscription_manager \<Rightarrow> u32 \<Rightarrow> rstring list" where
  "ids_of sm i = (case bt_get (sm_subscription_ids sm) i of None \<Rightarrow> [] | Some fs \<Rightarrow> fs)"

definition has_identifier :: "subscription_manager \<Rightarrow> u32 \<Rightarrow> rstring \<Rightarrow> bool" where
  "has_identifier sm i f \<longleftrightarrow>
     (\<exists>e. bt_get (sm_active sm) f = Some e \<and> se_subscription_identifier e = Some i)"

definition sm_inv :: "subscription_manager \<Rightarrow> bool" where
  "sm_inv sm \<longleftrightarrow>
     bt_wf (sm_active sm) \<and> bt_wf (sm_pending_subscribes sm) \<and> bt_wf (sm_pending_unsubscribes sm) \<and>
     bt_wf (sm_subscription_ids sm) \<and>
     (\<forall>f e. bt_get (sm_active sm) f = Some e \<longrightarrow> se_topic_filter e = f) \<and>
     (\<forall>i. bt_get (sm_subscription_ids sm) i \<noteq> Some []) \<and>
     (\<forall>i. distinct (ids_of sm i)) \<and>
     (\<forall>i f. f \<in> set (ids_of sm i) \<longleftrightarrow> has_identifier sm i f)"

lemma sm_inv_wf:
  assumes "sm_inv sm"
  shows "bt_wf (sm_active sm)" "bt_wf (sm_pending_subscribes sm)"
    "bt_wf (sm_pending_unsubscribes sm)" "bt_wf (sm_subscription_ids sm)"
  using assms by (auto simp: sm_inv_def)

lemma sm_inv_new [simp]: "sm_inv sm_new"
  by (simp add: sm_inv_def sm_new_def ids_of_def has_identifier_def)

lemma sm_reset_eq [simp]: "sm_reset sm = sm_new"
  by (cases sm) (simp add: sm_reset_def sm_new_def)

lemma sm_inv_pending [simp]:
  "sm_inv sm \<Longrightarrow> bt_wf p \<Longrightarrow> sm_inv (sm\<lparr>sm_pending_subscribes := p\<rparr>)"
  "sm_inv sm \<Longrightarrow> bt_wf u \<Longrightarrow> sm_inv (sm\<lparr>sm_pending_unsubscribes := u\<rparr>)"
  by (auto simp: sm_inv_def ids_of_def has_identifier_def)

lemma ids_of_remove:
  "bt_wf (sm_subscription_ids sm) \<Longrightarrow>
   ids_of (sm_remove_subscription_identifier f i sm) j =
     (if j = i then filter (\<lambda>g. g \<noteq> f) (ids_of sm j) else ids_of sm j)"
  by (auto simp: sm_remove_subscription_identifier_def ids_of_def Let_def split: option.splits)

lemma ids_of_push:
  "bt_wf (sm_subscription_ids sm) \<Longrightarrow>
   ids_of (sm_push_subscription_identifier f i sm) j = ids_of sm j @ (if j = i then [f] else [])"
  by (auto simp: sm_push_subscription_identifier_def ids_of_def split: option.splits)

lemma sm_identifier_frame [simp]:
  "sm_active (sm_remove_subscription_identifier f i sm) = sm_active sm"
  "sm_active (sm_push_subscription_identifier f i sm) = sm_active sm"
  "sm_pending_subscribes (sm_remove_subscription_identifier f i sm) = sm_pending_subscribes sm"
  "sm_pending_subscribes (sm_push_subscription_identifier f i sm) = sm_pending_subscribes sm"
  "sm_pending_unsubscribes (sm_remove_subscription_identifier f i sm) = sm_pending_unsubscribes sm"
  "sm_pending_unsubscribes (sm_push_subscription_identifier f i sm) = sm_pending_unsubscribes sm"
  by (auto simp: sm_remove_subscription_identifier_def sm_push_subscription_identifier_def Let_def
      split: option.splits)

lemma sm_identifier_wf [simp]:
  "bt_wf (sm_subscription_ids sm) \<Longrightarrow>
   bt_wf (sm_subscription_ids (sm_remove_subscription_identifier f i sm))"
  "bt_wf (sm_subscription_ids sm) \<Longrightarrow>
   bt_wf (sm_subscription_ids (sm_push_subscription_identifier f i sm))"
  by (auto simp: sm_remove_subscription_identifier_def sm_push_subscription_identifier_def Let_def
      split: option.splits)

text \<open>The identifier of the entry under a filter, if any, is the only list that holds the filter.\<close>

definition sm_forget :: "rstring \<Rightarrow> subscription_manager \<Rightarrow> subscription_manager" where
  "sm_forget f sm =
     (case bt_get (sm_active sm) f of
        None \<Rightarrow> sm
      | Some old \<Rightarrow>
          (case se_subscription_identifier old of
             None \<Rightarrow> sm
           | Some old_id \<Rightarrow> sm_remove_subscription_identifier f old_id sm))"

lemma ids_of_forget:
  assumes "sm_inv sm"
  shows "ids_of (sm_forget f sm) i = filter (\<lambda>g. g \<noteq> f) (ids_of sm i)"
proof -
  have mem: "g \<in> set (ids_of sm j) \<longleftrightarrow> has_identifier sm j g" for g j
    using assms by (auto simp: sm_inv_def)
  have other: "filter (\<lambda>g. g \<noteq> f) (ids_of sm j) = ids_of sm j" if "\<not> has_identifier sm j f" for j
    using that mem [of f j] by (auto intro!: filter_True)
  show ?thesis
    using sm_inv_wf [OF assms] other
    by (auto simp: sm_forget_def ids_of_remove has_identifier_def split: option.splits)
qed

lemma sm_forget_frame [simp]:
  "sm_active (sm_forget f sm) = sm_active sm"
  "sm_pending_subscribes (sm_forget f sm) = sm_pending_subscribes sm"
  "sm_pending_unsubscribes (sm_forget f sm) = sm_pending_unsubscribes sm"
  "bt_wf (sm_subscription_ids sm) \<Longrightarrow> bt_wf (sm_subscription_ids (sm_forget f sm))"
  by (auto simp: sm_forget_def split: option.splits)

lemma no_empty_remove:
  "bt_wf (sm_subscription_ids sm) \<Longrightarrow> \<forall>i. bt_get (sm_subscription_ids sm) i \<noteq> Some [] \<Longrightarrow>
   bt_get (sm_subscription_ids (sm_remove_subscription_identifier f j sm)) i \<noteq> Some []"
  by (auto simp: sm_remove_subscription_identifier_def Let_def split: option.splits)

lemma no_empty_forget:
  "sm_inv sm \<Longrightarrow> bt_get (sm_subscription_ids (sm_forget f sm)) i \<noteq> Some []"
  by (auto simp: sm_forget_def sm_inv_def no_empty_remove split: option.splits)

lemma sm_confirm_eq:
  "sm_confirm e sm =
     (case se_subscription_identifier e of
        None \<Rightarrow> sm_forget (se_topic_filter e) sm
      | Some i \<Rightarrow> sm_push_subscription_identifier (se_topic_filter e) i (sm_forget (se_topic_filter e) sm))
     \<lparr>sm_active := bt_insert (se_topic_filter e) e (sm_active sm)\<rparr>"
  by (auto simp: sm_confirm_def sm_forget_def Let_def split: option.splits)

lemma sm_remove_active_commute:
  "sm_remove_subscription_identifier f i (sm\<lparr>sm_active := x\<rparr>) =
     (sm_remove_subscription_identifier f i sm)\<lparr>sm_active := x\<rparr>"
  by (auto simp: sm_remove_subscription_identifier_def Let_def split: option.splits)

lemma sm_unsubscribe_one_eq:
  "sm_unsubscribe_one f sm =
     (sm_is_subscribed sm f, (sm_forget f sm)\<lparr>sm_active := bt_remove f (sm_active sm)\<rparr>)"
  by (auto simp: sm_unsubscribe_one_def sm_forget_def sm_is_subscribed_def bt_contains_def
      sm_remove_active_commute bt_remove_absent Let_def split: option.splits)

lemma ids_of_active [simp]: "ids_of (sm\<lparr>sm_active := x\<rparr>) i = ids_of sm i"
  by (simp add: ids_of_def)

lemma sm_inv_confirm:
  assumes inv: "sm_inv sm"
  shows "sm_inv (sm_confirm e sm)"
proof -
  let ?f = "se_topic_filter e"
  note wf = sm_inv_wf [OF inv]
  have ids: "ids_of (sm_confirm e sm) i = filter (\<lambda>g. g \<noteq> ?f) (ids_of sm i) @
      (if se_subscription_identifier e = Some i then [?f] else [])" for i
    using wf by (auto simp: sm_confirm_eq ids_of_forget [OF inv] ids_of_push split: option.splits)
  have has: "has_identifier (sm_confirm e sm) i g \<longleftrightarrow>
      (if g = ?f then se_subscription_identifier e = Some i else has_identifier sm i g)" for i g
    using wf by (auto simp: sm_confirm_eq has_identifier_def)
  have ne: "bt_get (sm_subscription_ids (sm_confirm e sm)) i \<noteq> Some []" for i
    using wf no_empty_forget [OF inv]
    by (auto simp: sm_confirm_eq sm_push_subscription_identifier_def split: option.splits)
  have act: "sm_active (sm_confirm e sm) = bt_insert ?f e (sm_active sm)"
    by (simp add: sm_confirm_eq)
  have wfs: "bt_wf (sm_subscription_ids (sm_confirm e sm))"
    "bt_wf (sm_pending_subscribes (sm_confirm e sm))"
    "bt_wf (sm_pending_unsubscribes (sm_confirm e sm))"
    using wf by (auto simp: sm_confirm_eq split: option.splits)
  show ?thesis
    unfolding sm_inv_def
    using inv wfs ne act wf by (auto simp: ids has sm_inv_def)
qed

lemma sm_inv_unsubscribe_one:
  assumes inv: "sm_inv sm"
  shows "sm_inv (snd (sm_unsubscribe_one f sm))"
proof -
  note wf = sm_inv_wf [OF inv]
  let ?sm = "snd (sm_unsubscribe_one f sm)"
  have ids: "ids_of ?sm i = filter (\<lambda>g. g \<noteq> f) (ids_of sm i)" for i
    by (simp add: sm_unsubscribe_one_eq ids_of_forget [OF inv])
  have has: "has_identifier ?sm i g \<longleftrightarrow> g \<noteq> f \<and> has_identifier sm i g" for i g
    by (auto simp: sm_unsubscribe_one_eq has_identifier_def)
  show ?thesis
    unfolding sm_inv_def
    using inv wf no_empty_forget [OF inv]
    by (auto simp: ids has sm_inv_def) (auto simp: sm_unsubscribe_one_eq split: if_splits)
qed

section \<open>SUBACK and UNSUBACK\<close>

text \<open>What a SUBACK confirms: the entries whose code is a granted QoS, with that QoS filled in.\<close>

definition granted :: "subscription_entry list \<Rightarrow> u8 list \<Rightarrow> subscription_entry list" where
  "granted pending codes =
     map (\<lambda>(e, c). e\<lparr>se_granted_qos := qos_from_u8 c\<rparr>) (filter (\<lambda>(e, c). c \<le> 2) (zip pending codes))"

lemma sm_suback_loop_eq:
  "i + length pending = length codes \<Longrightarrow>
   sm_suback_loop codes i pending confirmed sm =
     Ok (confirmed @ granted pending (drop i codes), fold sm_confirm (granted pending (drop i codes)) sm)"
proof (induction pending arbitrary: i confirmed sm)
  case (Cons e es)
  then have i: "i < length codes" by simp
  then have d: "drop i codes = codes ! i # drop (Suc i) codes" by (simp add: Cons_nth_drop_Suc)
  show ?case
    using Cons.IH [of "Suc i"] Cons.prems i by (simp add: granted_def d Let_def)
qed (simp add: granted_def)

lemma sm_suback_received_eq:
  "sm_suback_received packet_id codes sm =
     (case bt_get (sm_pending_subscribes sm) packet_id of
        None \<Rightarrow> Ok (None, sm)
      | Some pending \<Rightarrow>
          let sm1 = sm\<lparr>sm_pending_subscribes := bt_remove packet_id (sm_pending_subscribes sm)\<rparr> in
          if length codes \<noteq> length pending then Ok (None, sm1)
          else Ok (Some (granted pending codes), fold sm_confirm (granted pending codes) sm1))"
  by (auto simp: sm_suback_received_def sm_suback_loop_eq Let_def split: option.splits)

text \<open>What an UNSUBACK removes: the filters acknowledged with 0x00 or 0x11, all of them in v3.1.1.\<close>

definition dropped :: "rstring list \<Rightarrow> u8 list \<Rightarrow> rstring list" where
  "dropped pending codes =
     (if codes = [] then pending
      else map fst (filter (\<lambda>(f, c). c = 0x00 \<or> c = 0x11) (zip pending codes)))"

fun sm_unsubscribe_all :: "rstring list \<Rightarrow> subscription_manager \<Rightarrow> rstring list \<times> subscription_manager" where
  "sm_unsubscribe_all [] sm = ([], sm)"
| "sm_unsubscribe_all (f # fs) sm =
     (case sm_unsubscribe_one f sm of (b, sm') \<Rightarrow>
        (case sm_unsubscribe_all fs sm' of (l, sm'') \<Rightarrow> (if b then f # l else l, sm'')))"

lemma sm_unsuback_loop_empty:
  "sm_unsuback_loop [] i pending acc sm =
     (case sm_unsubscribe_all pending sm of (l, sm') \<Rightarrow> Ok (acc @ l, sm'))"
  by (induction pending arbitrary: i acc sm) (auto split: prod.splits)

lemma sm_unsuback_loop_eq:
  "codes \<noteq> [] \<Longrightarrow> i + length pending = length codes \<Longrightarrow>
   sm_unsuback_loop codes i pending acc sm =
     (case sm_unsubscribe_all (map fst (filter (\<lambda>(f, c). c = 0x00 \<or> c = 0x11)
             (zip pending (drop i codes)))) sm of
        (l, sm') \<Rightarrow> Ok (acc @ l, sm'))"
proof (induction pending arbitrary: i acc sm)
  case (Cons f fs)
  then have i: "i < length codes" by simp
  then have d: "drop i codes = codes ! i # drop (Suc i) codes" by (simp add: Cons_nth_drop_Suc)
  show ?case
    using Cons.IH [of "Suc i"] Cons.prems i by (auto simp: d split: prod.splits)
qed simp

lemma sm_unsuback_received_eq:
  "sm_unsuback_received packet_id codes sm =
     (case bt_get (sm_pending_unsubscribes sm) packet_id of
        None \<Rightarrow> Ok (None, sm)
      | Some pending \<Rightarrow>
          let sm1 = sm\<lparr>sm_pending_unsubscribes := bt_remove packet_id (sm_pending_unsubscribes sm)\<rparr> in
          if codes \<noteq> [] \<and> length codes \<noteq> length pending then Ok (None, sm1)
          else (case sm_unsubscribe_all (dropped pending codes) sm1 of (l, sm2) \<Rightarrow> Ok (Some l, sm2)))"
  by (auto simp: sm_unsuback_received_def sm_unsuback_loop_eq sm_unsuback_loop_empty dropped_def
      Let_def split: option.splits prod.splits)

lemma sm_inv_fold_confirm: "sm_inv sm \<Longrightarrow> sm_inv (fold sm_confirm es sm)"
  by (induction es arbitrary: sm) (simp_all add: sm_inv_confirm)

lemma sm_inv_unsubscribe_all: "sm_inv sm \<Longrightarrow> sm_unsubscribe_all fs sm = (l, sm') \<Longrightarrow> sm_inv sm'"
proof (induction fs arbitrary: sm l)
  case (Cons f fs)
  from Cons.IH [OF sm_inv_unsubscribe_one [OF Cons.prems(1), of f]] Cons.prems(2)
  show ?case by (auto split: prod.splits)
qed simp

lemma sm_inv_suback:
  "sm_inv sm \<Longrightarrow> sm_suback_received p codes sm = Ok (r, sm') \<Longrightarrow> sm_inv sm'"
  using sm_inv_wf [of sm]
  by (auto simp: sm_suback_received_eq Let_def sm_inv_fold_confirm split: option.splits if_splits)

lemma sm_inv_unsuback:
  assumes "sm_inv sm" "sm_unsuback_received p codes sm = Ok (r, sm')"
  shows "sm_inv sm'"
proof -
  let ?sm1 = "sm\<lparr>sm_pending_unsubscribes := bt_remove p (sm_pending_unsubscribes sm)\<rparr>"
  have "sm_inv ?sm1" using assms(1) sm_inv_wf [OF assms(1)] by simp
  with assms show ?thesis
    by (auto simp: sm_unsuback_received_eq Let_def split: option.splits if_splits prod.splits
        dest: sm_inv_unsubscribe_all [OF \<open>sm_inv ?sm1\<close>])
qed

text \<open>The reverse lookup finds exactly the confirmed subscriptions with the identifier.\<close>

lemma sm_find_iff:
  assumes "sm_inv sm"
  shows "e \<in> set (sm_find_by_subscription_identifier sm i) \<longleftrightarrow>
     e \<in> set (sm_active_subscriptions sm) \<and> se_subscription_identifier e = Some i"
proof -
  have "e \<in> set (sm_find_by_subscription_identifier sm i) \<longleftrightarrow>
      (\<exists>f \<in> set (ids_of sm i). bt_get (sm_active sm) f = Some e)"
    by (force simp: sm_find_by_subscription_identifier_def ids_of_def List.map_filter_def
        split: option.splits)
  also have "\<dots> \<longleftrightarrow> (\<exists>f. bt_get (sm_active sm) f = Some e \<and> se_subscription_identifier e = Some i)"
    using assms by (auto simp: sm_inv_def has_identifier_def)
  also have "\<dots> \<longleftrightarrow> e \<in> set (sm_active_subscriptions sm) \<and> se_subscription_identifier e = Some i"
    using bt_entries_get [OF sm_inv_wf(1) [OF assms]] by (force simp: sm_active_subscriptions_def)
  finally show ?thesis .
qed

section \<open>Properties\<close>

text \<open>A history of calls on the subscription table.\<close>

datatype sm_event =
    SubscribeSent u16 "subscription_entry list" | DropSubscribe u16 | SubackReceived u16 "u8 list"
  | UnsubscribeSent u16 "rstring list" | DropUnsubscribe u16 | UnsubackReceived u16 "u8 list"
  | SubscriptionsReset

fun sm_step :: "subscription_manager \<Rightarrow> sm_event \<Rightarrow> subscription_manager" where
  "sm_step sm (SubscribeSent i es) = sm_subscribe_sent i es sm"
| "sm_step sm (DropSubscribe i) = snd (sm_drop_pending_subscribe i sm)"
| "sm_step sm (SubackReceived i codes) =
     (case sm_suback_received i codes sm :: (_, unit) result of Ok (_, sm') \<Rightarrow> sm' | _ \<Rightarrow> sm)"
| "sm_step sm (UnsubscribeSent i fs) = sm_unsubscribe_sent i fs sm"
| "sm_step sm (DropUnsubscribe i) = snd (sm_drop_pending_unsubscribe i sm)"
| "sm_step sm (UnsubackReceived i codes) =
     (case sm_unsuback_received i codes sm :: (_, unit) result of Ok (_, sm') \<Rightarrow> sm' | _ \<Rightarrow> sm)"
| "sm_step sm SubscriptionsReset = sm_reset sm"

definition sm_run :: "sm_event list \<Rightarrow> subscription_manager" where
  "sm_run evs = foldl sm_step sm_new evs"

lemma sm_inv_step: "sm_inv sm \<Longrightarrow> sm_inv (sm_step sm e)"
  using sm_inv_wf [of sm]
  by (cases e) (auto simp: sm_subscribe_sent_def sm_unsubscribe_sent_def sm_drop_pending_subscribe_def
      sm_drop_pending_unsubscribe_def dest: sm_inv_suback sm_inv_unsuback split: result.splits)

lemma sm_inv_run: "sm_inv (sm_run evs)"
proof -
  have "sm_inv sm \<Longrightarrow> sm_inv (foldl sm_step sm evs)" for sm
    by (induction evs arbitrary: sm) (simp_all add: sm_inv_step)
  then show ?thesis by (simp add: sm_run_def)
qed

text \<open>
  C32: After any history of calls, looking a subscription identifier up returns exactly the confirmed
  subscriptions that carry it: none is missing, none is stale.
\<close>

theorem sm_lookup_exact:
  "e \<in> set (sm_find_by_subscription_identifier (sm_run evs) i) \<longleftrightarrow>
     e \<in> set (sm_active_subscriptions (sm_run evs)) \<and> se_subscription_identifier e = Some i"
  by (rule sm_find_iff [OF sm_inv_run])

text \<open>
  What a SUBACK does, on every branch. Without a pending request nothing changes; with the wrong
  number of codes the request is dropped and nothing is confirmed; otherwise exactly the entries with
  code 0x00 to 0x02 are returned, with that QoS granted, and entered in order. It never panics.
\<close>

theorem sm_suback_effect:
  "sm_suback_received i codes sm =
     (case bt_get (sm_pending_subscribes sm) i of
        None \<Rightarrow> Ok (None, sm)
      | Some pending \<Rightarrow>
          let sm1 = sm\<lparr>sm_pending_subscribes := bt_remove i (sm_pending_subscribes sm)\<rparr> in
          if length codes \<noteq> length pending then Ok (None, sm1)
          else Ok (Some (granted pending codes), fold sm_confirm (granted pending codes) sm1))"
  by (rule sm_suback_received_eq)

lemma sm_unsubscribe_all_active:
  "sm_unsubscribe_all fs sm = (l, sm') \<Longrightarrow>
   bt_get (sm_active sm') = (\<lambda>f. if f \<in> set fs then None else bt_get (sm_active sm) f) \<and>
   set l = set fs \<inter> dom (bt_get (sm_active sm)) \<and> distinct l"
proof (induction fs arbitrary: sm l)
  case (Cons f fs)
  obtain b sm1 where one: "sm_unsubscribe_one f sm = (b, sm1)" by fastforce
  obtain l1 where l1: "sm_unsubscribe_all fs sm1 = (l1, sm')" "l = (if b then f # l1 else l1)"
    using Cons.prems one by (auto split: prod.splits)
  from one have "b = sm_is_subscribed sm f" "sm_active sm1 = bt_remove f (sm_active sm)"
    by (auto simp: sm_unsubscribe_one_eq)
  with Cons.IH [OF l1(1)] l1(2) show ?case
    by (auto simp: sm_is_subscribed_def bt_contains_def fun_eq_iff split: if_splits)
qed auto

text \<open>
  An UNSUBACK that answers a pending request with a matching number of codes (or none, in v3.1.1)
  removes exactly the acknowledged filters from the table and reports each of them that was there once.
\<close>

theorem sm_unsuback_effect:
  assumes "bt_get (sm_pending_unsubscribes sm) i = Some pending"
    "codes = [] \<or> length codes = length pending"
  shows "\<exists>l sm'. (sm_unsuback_received i codes sm :: (_, unit) result) = Ok (Some l, sm') \<and>
     bt_get (sm_active sm') =
       (\<lambda>f. if f \<in> set (dropped pending codes) then None else bt_get (sm_active sm) f) \<and>
     set l = set (dropped pending codes) \<inter> dom (bt_get (sm_active sm)) \<and> distinct l"
proof -
  let ?sm1 = "sm\<lparr>sm_pending_unsubscribes := bt_remove i (sm_pending_unsubscribes sm)\<rparr>"
  obtain l sm' where r: "sm_unsubscribe_all (dropped pending codes) ?sm1 = (l, sm')" by fastforce
  from sm_unsubscribe_all_active [OF r] r assms show ?thesis
    by (auto simp: sm_unsuback_received_eq Let_def)
qed

theorem sm_unsuback_effect_witness:
  "\<exists>l sm'. (sm_unsuback_received 5 [0x11, 0x80]
       (sm_new\<lparr>sm_pending_unsubscribes := [(5, [[97], [98]])]\<rparr>) :: (_, unit) result) = Ok (Some l, sm') \<and> l = []"
  using sm_unsuback_effect [of "sm_new\<lparr>sm_pending_unsubscribes := [(5, [[97], [98]])]\<rparr>" 5 "[[97], [98]]"
      "[0x11, 0x80]"]
  by (auto simp: sm_new_def)

end
