(* ===== verification/Auth.thy ===== *)
theory Auth
  imports Prelude
begin

text \<open>
  The extended authentication of \<^verbatim>\<open>src/state/auth.rs\<close>: the phases of an AUTH exchange and the
  method agreed in CONNECT. Both \<^verbatim>\<open>expect\<close> calls and the \<^verbatim>\<open>unreachable!\<close> arm of the source
  are panics of the model; the invariant shows that none is reached.
\<close>

section \<open>State and operations\<close>

datatype auth_phase = Idle | InitialAuthenticating | Authenticated | Reauthenticating

datatype auth_action = AuthDone | AuthContinue | AuthFailed | MethodMismatch

datatype auth_error = NotAuthenticated | V5OnlyOperation

datatype auth_method_error = MethodMissing | MethodDiffers | MethodUnexpected

record auth_state_machine =
  auth_phase :: auth_phase
  auth_method :: "rstring option"

definition auth_new :: auth_state_machine where
  "auth_new = \<lparr>auth_phase = Idle, auth_method = None\<rparr>"

definition auth_is_authenticating :: "auth_state_machine \<Rightarrow> bool" where
  "auth_is_authenticating a =
     (case auth_phase a of InitialAuthenticating \<Rightarrow> True | Reauthenticating \<Rightarrow> True | _ \<Rightarrow> False)"

definition auth_is_initial_authenticating :: "auth_state_machine \<Rightarrow> bool" where
  "auth_is_initial_authenticating a \<longleftrightarrow> auth_phase a = InitialAuthenticating"

definition auth_is_reauthenticating :: "auth_state_machine \<Rightarrow> bool" where
  "auth_is_reauthenticating a \<longleftrightarrow> auth_phase a = Reauthenticating"

definition auth_is_authenticated :: "auth_state_machine \<Rightarrow> bool" where
  "auth_is_authenticated a \<longleftrightarrow> auth_phase a = Authenticated"

definition auth_connect_with_auth :: "rstring \<Rightarrow> auth_state_machine \<Rightarrow> auth_state_machine" where
  "auth_connect_with_auth m a = a\<lparr>auth_method := Some m, auth_phase := InitialAuthenticating\<rparr>"

definition auth_received :: "u8 \<Rightarrow> rstring option \<Rightarrow> auth_state_machine \<Rightarrow>
    (auth_action \<times> auth_state_machine, 'e) result" where
  "auth_received reason_code authentication_method a =
     (let is_legal =
            (auth_phase a = InitialAuthenticating \<and> reason_code = 0x18) \<or>
            (auth_phase a = Reauthenticating \<and> reason_code = 0x18) \<or>
            (auth_phase a = Reauthenticating \<and> reason_code = 0x00)
      in
      if \<not> is_legal then Ok (AuthFailed, a\<lparr>auth_phase := Idle, auth_method := None\<rparr>)
      else
        rbind (expect (auth_method a)) (\<lambda>expected.
          let is_reauth_success = (auth_phase a = Reauthenticating \<and> reason_code = 0x00);
              accepted =
                (case authentication_method of
                   Some m \<Rightarrow> m = expected
                 | None \<Rightarrow> is_reauth_success)
          in
          if \<not> accepted then Ok (MethodMismatch, a\<lparr>auth_phase := Idle, auth_method := None\<rparr>)
          else if (auth_phase a = InitialAuthenticating \<or> auth_phase a = Reauthenticating) \<and>
                  reason_code = 0x18
          then Ok (AuthContinue, a)
          else if auth_phase a = Reauthenticating \<and> reason_code = 0x00
          then Ok (AuthDone, a\<lparr>auth_phase := Authenticated\<rparr>)
          else Panic))"

text \<open>An error of \<^verbatim>\<open>connack_received\<close> and of \<^verbatim>\<open>reauthenticate_sent\<close> leaves the state alone.\<close>

definition auth_connack_received :: "rstring option \<Rightarrow> auth_state_machine \<Rightarrow>
    (auth_state_machine, auth_method_error) result" where
  "auth_connack_received authentication_method a =
     (case auth_phase a of
        InitialAuthenticating \<Rightarrow>
          rbind (expect (auth_method a)) (\<lambda>expected.
            case authentication_method of
              None \<Rightarrow> Err MethodMissing
            | Some m \<Rightarrow>
                if m \<noteq> expected then Err MethodDiffers
                else Ok (a\<lparr>auth_phase := Authenticated\<rparr>))
      | _ \<Rightarrow>
          if authentication_method \<noteq> None then Err MethodUnexpected else Ok a)"

definition auth_reauthenticate_sent ::
    "auth_state_machine \<Rightarrow> (auth_state_machine, auth_error) result" where
  "auth_reauthenticate_sent a =
     (if auth_phase a \<noteq> Authenticated then Err NotAuthenticated
      else Ok (a\<lparr>auth_phase := Reauthenticating\<rparr>))"

definition auth_reset :: "auth_state_machine \<Rightarrow> auth_state_machine" where
  "auth_reset a = a\<lparr>auth_phase := Idle, auth_method := None\<rparr>"

section \<open>Invariant\<close>

text \<open>The method is set in every phase but \<open>Idle\<close>, and only there.\<close>

definition auth_inv :: "auth_state_machine \<Rightarrow> bool" where
  "auth_inv a \<longleftrightarrow> (auth_phase a = Idle \<longleftrightarrow> auth_method a = None)"

lemma auth_inv_new [simp]: "auth_inv auth_new"
  by (simp add: auth_inv_def auth_new_def)

lemma auth_reset_eq [simp]: "auth_reset a = auth_new"
  by (cases a) (simp add: auth_reset_def auth_new_def)

lemma auth_inv_connect [simp]: "auth_inv (auth_connect_with_auth m a)"
  by (simp add: auth_inv_def auth_connect_with_auth_def)

lemma auth_received_returns:
  assumes "auth_inv a"
  shows "\<exists>act a'. auth_received rc m a = Ok (act, a') \<and> auth_inv a'"
  using assms
  by (cases "auth_method a")
    (auto simp: auth_received_def auth_inv_def Let_def split: option.splits)

lemma auth_connack_no_panic: "auth_inv a \<Longrightarrow> auth_connack_received m a \<noteq> Panic"
  by (auto simp: auth_connack_received_def auth_inv_def rbind_Panic_iff
      split: auth_phase.splits option.splits)

lemma auth_inv_connack: "auth_inv a \<Longrightarrow> auth_connack_received m a = Ok a' \<Longrightarrow> auth_inv a'"
  by (auto simp: auth_connack_received_def auth_inv_def rbind_Ok_iff
      split: auth_phase.splits option.splits if_splits)

lemma auth_inv_reauthenticate: "auth_inv a \<Longrightarrow> auth_reauthenticate_sent a = Ok a' \<Longrightarrow> auth_inv a'"
  by (auto simp: auth_reauthenticate_sent_def auth_inv_def split: if_splits)

section \<open>The exchange as a transition system\<close>

text \<open>The packets of an AUTH exchange as the state machine sees them.\<close>

inductive auth_step :: "auth_state_machine \<Rightarrow> auth_state_machine \<Rightarrow> bool" where
  step_connect: "auth_step a (auth_connect_with_auth m a)"
| step_auth: "(auth_received rc m a :: (_, unit) result) = Ok (act, a') \<Longrightarrow> auth_step a a'"
| step_connack: "auth_connack_received m a = Ok a' \<Longrightarrow> auth_step a a'"
| step_reauth: "auth_reauthenticate_sent a = Ok a' \<Longrightarrow> auth_step a a'"
| step_reset: "auth_step a (auth_reset a)"

lemma auth_inv_step: "auth_step a a' \<Longrightarrow> auth_inv a \<Longrightarrow> auth_inv a'"
proof (induction rule: auth_step.induct)
  case (step_auth rc m a act a')
  with auth_received_returns [of a rc m, where 'a = unit] show ?case by auto
qed (auto intro: auth_inv_connack auth_inv_reauthenticate)

lemma auth_inv_reachable: "auth_step\<^sup>*\<^sup>* auth_new a \<Longrightarrow> auth_inv a"
  by (induction rule: rtranclp_induct) (auto intro: auth_inv_step)


section \<open>Properties\<close>

text \<open>
  No reachable authentication state makes a received AUTH or CONNACK panic: the \<^verbatim>\<open>expect\<close>s on
  the stored method and the \<^verbatim>\<open>unreachable!\<close> arm are never hit.
\<close>

theorem auth_never_panics:
  assumes "auth_step\<^sup>*\<^sup>* auth_new a"
  shows "(auth_received rc m a :: (_, unit) result) \<noteq> Panic \<and> auth_connack_received m a \<noteq> Panic"
  using auth_received_returns [OF auth_inv_reachable [OF assms], of rc m, where 'a = unit]
    auth_connack_no_panic [OF auth_inv_reachable [OF assms]] by auto

theorem auth_never_panics_witness:
  "auth_step\<^sup>*\<^sup>* auth_new (auth_connect_with_auth [88] auth_new) \<and>
   (auth_received 0x18 (Some [88]) (auth_connect_with_auth [88] auth_new) :: (_, unit) result) \<noteq> Panic"
proof -
  have r: "auth_step\<^sup>*\<^sup>* auth_new (auth_connect_with_auth [88] auth_new)"
    by (rule r_into_rtranclp) (rule step_connect)
  with auth_never_panics [OF r] show ?thesis by blast
qed



end
