(* ===== verification/ReasonCodes.thy ===== *)
theory ReasonCodes
  imports Codec
begin

text \<open>
  The codes a CONNACK carries: the connect return codes of MQTT v3.1.1 (\<^verbatim>\<open>src/v311/connack.rs\<close>)
  and the connect reason codes of MQTT v5.0 (\<^verbatim>\<open>src/v5/connack.rs\<close>). The locale \<open>byte_enum\<close>
  states what every such enumeration promises of its conversions; it is interpreted for each of them.
\<close>

section \<open>Enumerations carried in one byte\<close>

locale byte_enum =
  fixes from_u8 :: "u8 \<Rightarrow> 'c option"
    and as_u8 :: "'c \<Rightarrow> u8"
  assumes from_as: "from_u8 (as_u8 c) = Some c"
    and from_Some: "from_u8 v = Some c \<Longrightarrow> as_u8 c = v"
begin

lemma from_u8_iff: "from_u8 v = Some c \<longleftrightarrow> v = as_u8 c"
  using from_as from_Some by auto

lemma as_u8_inject: "as_u8 c = as_u8 d \<longleftrightarrow> c = d"
  by (metis from_as option.inject)

end

interpretation qos: byte_enum qos_from_u8 qos_as_u8
  by unfold_locales (simp_all add: qos_from_u8_Some_iff)

section \<open>Connect return codes of MQTT v3.1.1\<close>

datatype connect_return_code =
    Accepted
  | UnacceptableProtocolVersion
  | IdentifierRejected
  | RcServerUnavailable
  | RcBadUserNameOrPassword
  | RcNotAuthorized

definition return_code_from_u8 :: "u8 \<Rightarrow> connect_return_code option" where
  "return_code_from_u8 value =
     (if value = 0x00 then Some Accepted
      else if value = 0x01 then Some UnacceptableProtocolVersion
      else if value = 0x02 then Some IdentifierRejected
      else if value = 0x03 then Some RcServerUnavailable
      else if value = 0x04 then Some RcBadUserNameOrPassword
      else if value = 0x05 then Some RcNotAuthorized
      else None)"

fun return_code_as_u8 :: "connect_return_code \<Rightarrow> u8" where
  "return_code_as_u8 Accepted = 0x00"
| "return_code_as_u8 UnacceptableProtocolVersion = 0x01"
| "return_code_as_u8 IdentifierRejected = 0x02"
| "return_code_as_u8 RcServerUnavailable = 0x03"
| "return_code_as_u8 RcBadUserNameOrPassword = 0x04"
| "return_code_as_u8 RcNotAuthorized = 0x05"

interpretation return_code: byte_enum return_code_from_u8 return_code_as_u8
proof unfold_locales
  show "return_code_from_u8 (return_code_as_u8 c) = Some c" for c
    by (cases c) (simp_all add: return_code_from_u8_def)
qed (auto simp: return_code_from_u8_def split: if_splits)

section \<open>Connect reason codes of MQTT v5.0\<close>

datatype connect_reason_code =
    Success
  | UnspecifiedError
  | CrMalformedPacket
  | CrProtocolError
  | ImplementationSpecificError
  | UnsupportedProtocolVersion
  | ClientIdentifierNotValid
  | BadUserNameOrPassword
  | NotAuthorized
  | ServerUnavailable
  | ServerBusy
  | Banned
  | BadAuthenticationMethod
  | TopicNameInvalid
  | CrPacketTooLarge
  | QuotaExceeded
  | PayloadFormatInvalid
  | RetainNotSupported
  | QoSNotSupported
  | UseAnotherServer
  | ServerMoved
  | ConnectionRateExceeded

fun reason_code_as_u8 :: "connect_reason_code \<Rightarrow> u8" where
  "reason_code_as_u8 Success = 0x00"
| "reason_code_as_u8 UnspecifiedError = 0x80"
| "reason_code_as_u8 CrMalformedPacket = 0x81"
| "reason_code_as_u8 CrProtocolError = 0x82"
| "reason_code_as_u8 ImplementationSpecificError = 0x83"
| "reason_code_as_u8 UnsupportedProtocolVersion = 0x84"
| "reason_code_as_u8 ClientIdentifierNotValid = 0x85"
| "reason_code_as_u8 BadUserNameOrPassword = 0x86"
| "reason_code_as_u8 NotAuthorized = 0x87"
| "reason_code_as_u8 ServerUnavailable = 0x88"
| "reason_code_as_u8 ServerBusy = 0x89"
| "reason_code_as_u8 Banned = 0x8A"
| "reason_code_as_u8 BadAuthenticationMethod = 0x8C"
| "reason_code_as_u8 TopicNameInvalid = 0x90"
| "reason_code_as_u8 CrPacketTooLarge = 0x95"
| "reason_code_as_u8 QuotaExceeded = 0x97"
| "reason_code_as_u8 PayloadFormatInvalid = 0x99"
| "reason_code_as_u8 RetainNotSupported = 0x9A"
| "reason_code_as_u8 QoSNotSupported = 0x9B"
| "reason_code_as_u8 UseAnotherServer = 0x9C"
| "reason_code_as_u8 ServerMoved = 0x9D"
| "reason_code_as_u8 ConnectionRateExceeded = 0x9F"

definition reason_code_from_u8 :: "u8 \<Rightarrow> connect_reason_code option" where
  "reason_code_from_u8 value =
     (if value = 0x00 then Some Success
      else if value = 0x80 then Some UnspecifiedError
      else if value = 0x81 then Some CrMalformedPacket
      else if value = 0x82 then Some CrProtocolError
      else if value = 0x83 then Some ImplementationSpecificError
      else if value = 0x84 then Some UnsupportedProtocolVersion
      else if value = 0x85 then Some ClientIdentifierNotValid
      else if value = 0x86 then Some BadUserNameOrPassword
      else if value = 0x87 then Some NotAuthorized
      else if value = 0x88 then Some ServerUnavailable
      else if value = 0x89 then Some ServerBusy
      else if value = 0x8A then Some Banned
      else if value = 0x8C then Some BadAuthenticationMethod
      else if value = 0x90 then Some TopicNameInvalid
      else if value = 0x95 then Some CrPacketTooLarge
      else if value = 0x97 then Some QuotaExceeded
      else if value = 0x99 then Some PayloadFormatInvalid
      else if value = 0x9A then Some RetainNotSupported
      else if value = 0x9B then Some QoSNotSupported
      else if value = 0x9C then Some UseAnotherServer
      else if value = 0x9D then Some ServerMoved
      else if value = 0x9F then Some ConnectionRateExceeded
      else None)"

interpretation reason_code: byte_enum reason_code_from_u8 reason_code_as_u8
proof unfold_locales
  show "reason_code_from_u8 (reason_code_as_u8 c) = Some c" for c
    by (cases c) (simp_all add: reason_code_from_u8_def)
  show "reason_code_from_u8 v = Some c \<Longrightarrow> reason_code_as_u8 c = v" for v c
    unfolding reason_code_from_u8_def
    by (auto split: if_splits)
qed

end
