(* ===== verification/TopicFilter.thy ===== *)
theory TopicFilter
  imports Codec
begin

text \<open>
  The syntax check of topic filters of \<^verbatim>\<open>src/topic_filter.rs\<close>, with the string functions it uses
  (\<^verbatim>\<open>split\<close>, \<^verbatim>\<open>find\<close>, \<^verbatim>\<open>strip_prefix\<close> for ASCII separators), and its equivalence with a
  description of valid filters by the positions of the wildcards.
\<close>

section \<open>Characters and string functions\<close>

definition plus_byte :: u8 where "plus_byte = 0x2B"
definition hash_byte :: u8 where "hash_byte = 0x23"
definition slash_byte :: u8 where "slash_byte = 0x2F"

definition share_prefix :: rstring where
  "share_prefix = [0x24, 0x73, 0x68, 0x61, 0x72, 0x65, 0x2F]"

lemma wildcard_bytes_distinct [simp]:
  "plus_byte \<noteq> hash_byte" "hash_byte \<noteq> plus_byte" "plus_byte \<noteq> slash_byte" "slash_byte \<noteq> plus_byte"
  "hash_byte \<noteq> slash_byte" "slash_byte \<noteq> hash_byte"
  by (simp_all add: plus_byte_def hash_byte_def slash_byte_def)

definition starts_with :: "rstring \<Rightarrow> rstring \<Rightarrow> bool" where
  "starts_with p s \<longleftrightarrow> take (length p) s = p"

lemma starts_with_iff: "starts_with p s \<longleftrightarrow> (\<exists>r. s = p @ r)"
  unfolding starts_with_def by (metis append_eq_conv_conj append_take_drop_id)

definition strip_prefix :: "rstring \<Rightarrow> rstring \<Rightarrow> rstring option" where
  "strip_prefix p s = (if starts_with p s then Some (drop (length p) s) else None)"

text \<open>\<^verbatim>\<open>s.split(c).collect()\<close>: always at least one piece.\<close>

fun str_split :: "u8 \<Rightarrow> rstring \<Rightarrow> rstring list" where
  "str_split c [] = [[]]"
| "str_split c (b # s) =
     (if b = c then [] # str_split c s
      else case str_split c s of [] \<Rightarrow> [[b]] | piece # pieces \<Rightarrow> (b # piece) # pieces)"

fun str_find :: "u8 \<Rightarrow> rstring \<Rightarrow> nat option" where
  "str_find c [] = None"
| "str_find c (b # s) = (if b = c then Some 0 else map_option Suc (str_find c s))"

section \<open>The checks\<close>

text \<open>The loop over \<^verbatim>\<open>levels.iter().enumerate()\<close>; \<open>n\<close> is the number of all levels.\<close>

fun filter_levels_loop :: "nat \<Rightarrow> nat \<Rightarrow> rstring list \<Rightarrow> bool" where
  "filter_levels_loop n i [] = True"
| "filter_levels_loop n i (level # levels) =
     (if str_contains hash_byte level \<and> (level \<noteq> [hash_byte] \<or> i \<noteq> n - 1) then False
      else if str_contains plus_byte level \<and> level \<noteq> [plus_byte] then False
      else filter_levels_loop n (i + 1) levels)"

definition is_valid_topic_filter :: "rstring \<Rightarrow> bool" where
  "is_valid_topic_filter filt =
     (if filt = [] then False
      else let levels = str_split slash_byte filt in filter_levels_loop (length levels) 0 levels)"

definition is_valid_v5_topic_filter :: "rstring \<Rightarrow> bool" where
  "is_valid_v5_topic_filter filt =
     (case strip_prefix share_prefix filt of
        Some rest \<Rightarrow>
          (case str_find slash_byte rest of
             Some slash_pos \<Rightarrow>
               let share_name = take slash_pos rest;
                   actual_filter = drop (slash_pos + 1) rest
               in if share_name = [] \<or> str_contains plus_byte share_name \<or>
                     str_contains hash_byte share_name
                  then False
                  else is_valid_topic_filter actual_filter
           | None \<Rightarrow> False)
      | None \<Rightarrow> is_valid_topic_filter filt)"

section \<open>Splitting and searching\<close>

lemma str_split_not_Nil [simp]: "str_split c s \<noteq> []"
  by (induction s) (auto split: list.splits)

lemma str_find_Some_iff:
  "str_find c s = Some n \<longleftrightarrow> n < length s \<and> s ! n = c \<and> c \<notin> set (take n s)"
proof (induction s arbitrary: n)
  case (Cons b s)
  then show ?case by (cases n) auto
qed simp

lemma str_find_None_iff: "str_find c s = None \<longleftrightarrow> c \<notin> set s"
  by (induction s) auto

section \<open>Where wildcards may stand\<close>

text \<open>
  The reference: a \<open>#\<close> is the last byte and follows a separator or the start, a \<open>+\<close> has a
  separator or an end of the filter on both sides. The flag says whether a level starts at the front.
\<close>

definition wildcards_placed :: "bool \<Rightarrow> rstring \<Rightarrow> bool" where
  "wildcards_placed start f \<longleftrightarrow>
     (\<forall>i < length f.
        (f ! i = hash_byte \<longrightarrow>
           i + 1 = length f \<and> (if i = 0 then start else f ! (i - 1) = slash_byte)) \<and>
        (f ! i = plus_byte \<longrightarrow>
           (if i = 0 then start else f ! (i - 1) = slash_byte) \<and>
           (i + 1 = length f \<or> f ! (i + 1) = slash_byte)))"

text \<open>The same as a scan, and the loop of the source as a check of each level and the rest.\<close>

fun filter_scan :: "bool \<Rightarrow> rstring \<Rightarrow> bool" where
  "filter_scan start [] = True"
| "filter_scan start (b # s) =
     ((b = hash_byte \<longrightarrow> start \<and> s = []) \<and>
      (b = plus_byte \<longrightarrow> start \<and> (s = [] \<or> hd s = slash_byte)) \<and>
      filter_scan (b = slash_byte) s)"

lemma wildcards_placed_Cons:
  "wildcards_placed start (b # s) \<longleftrightarrow>
     (b = hash_byte \<longrightarrow> start \<and> s = []) \<and>
     (b = plus_byte \<longrightarrow> start \<and> (s = [] \<or> hd s = slash_byte)) \<and>
     wildcards_placed (b = slash_byte) s"
proof -
  have "(\<forall>i < length (b # s). P i) \<longleftrightarrow> P 0 \<and> (\<forall>i < length s. P (Suc i))" for P
    by (simp add: All_less_Suc2)
  then show ?thesis
    unfolding wildcards_placed_def by (cases s) (auto simp: nth_Cons' split: if_splits)
qed

lemma filter_scan_iff: "filter_scan start f \<longleftrightarrow> wildcards_placed start f"
proof (induction f arbitrary: start)
  case (Cons b s)
  then show ?case by (simp add: wildcards_placed_Cons)
qed (simp add: wildcards_placed_def)

fun levels_ok :: "rstring list \<Rightarrow> bool" where
  "levels_ok [] = True"
| "levels_ok (l # ls) =
     ((hash_byte \<in> set l \<longrightarrow> l = [hash_byte] \<and> ls = []) \<and>
      (plus_byte \<in> set l \<longrightarrow> l = [plus_byte]) \<and> levels_ok ls)"

lemma filter_levels_loop_iff:
  "i + length ls = n \<Longrightarrow> filter_levels_loop n i ls \<longleftrightarrow> levels_ok ls"
proof (induction ls arbitrary: i)
  case (Cons l ls)
  then have "i \<noteq> n - 1 \<longleftrightarrow> ls \<noteq> []" by (cases ls) auto
  with Cons show ?case by auto
qed simp

lemma filter_scan_split:
  "filter_scan start f \<longleftrightarrow>
     (case str_split slash_byte f of [] \<Rightarrow> True | l # ls \<Rightarrow>
        (hash_byte \<in> set l \<longrightarrow> start \<and> l = [hash_byte] \<and> ls = []) \<and>
        (plus_byte \<in> set l \<longrightarrow> start \<and> l = [plus_byte]) \<and> levels_ok ls)"
proof (induction f arbitrary: start)
  case (Cons b s)
  obtain l ls where split: "str_split slash_byte s = l # ls" by (cases "str_split slash_byte s") auto
  have hd: "s = [] \<longleftrightarrow> l = [] \<and> ls = []" "s = [] \<or> hd s = slash_byte \<longleftrightarrow> l = []"
    using split by (cases s; auto split: if_splits list.splits)+
  show ?case using Cons.IH [of "b = slash_byte"] split hd by auto
qed simp

lemma is_valid_topic_filter_iff:
  "is_valid_topic_filter f \<longleftrightarrow> f \<noteq> [] \<and> wildcards_placed True f"
proof -
  obtain l ls where "str_split slash_byte f = l # ls" by (cases "str_split slash_byte f") auto
  then show ?thesis
    using filter_scan_split [of True f] filter_levels_loop_iff [of 0 "l # ls"]
    by (auto simp: is_valid_topic_filter_def filter_scan_iff)
qed

section \<open>Properties\<close>

text \<open>
  C36: A topic filter is accepted exactly when it is not empty, every \<open>#\<close> is its last byte and stands
  alone in its level, and every \<open>+\<close> stands alone in its level.
\<close>

theorem topic_filter_exact:
  "is_valid_topic_filter f \<longleftrightarrow>
     f \<noteq> [] \<and>
     (\<forall>i \<in> {i. i < length f \<and> f ! i = hash_byte}.
        i + 1 = length f \<and> (i = 0 \<or> f ! (i - 1) = slash_byte)) \<and>
     (\<forall>i \<in> {i. i < length f \<and> f ! i = plus_byte}.
        (i = 0 \<or> f ! (i - 1) = slash_byte) \<and> (i + 1 = length f \<or> f ! (i + 1) = slash_byte))"
  unfolding is_valid_topic_filter_iff wildcards_placed_def by auto

theorem topic_filter_exact_witness:
  "is_valid_topic_filter [plus_byte, slash_byte, hash_byte] \<and>
   \<not> is_valid_topic_filter [hash_byte, slash_byte]"
  unfolding topic_filter_exact by (auto simp: less_Suc_eq numeral_2_eq_2 numeral_3_eq_3)

text \<open>
  The MQTT 5 check accepts a filter that starts with \<^verbatim>\<open>$share/\<close> exactly when a non-empty share
  name without wildcards and separators, a separator and a valid filter follow, and treats every other
  filter like the plain check.
\<close>

theorem v5_topic_filter_exact:
  "is_valid_v5_topic_filter f =
     (if starts_with share_prefix f
      then \<exists>name filt. f = share_prefix @ name @ [slash_byte] @ filt \<and> name \<noteq> [] \<and>
             set name \<inter> {slash_byte, plus_byte, hash_byte} = {} \<and> is_valid_topic_filter filt
      else is_valid_topic_filter f)"
proof (cases "starts_with share_prefix f")
  case True
  then obtain rest where f: "f = share_prefix @ rest" by (auto simp: starts_with_iff)
  have split: "(\<exists>name filt. rest = name @ slash_byte # filt \<and> slash_byte \<notin> set name \<and> P name filt) \<longleftrightarrow>
      (case str_find slash_byte rest of None \<Rightarrow> False | Some n \<Rightarrow> P (take n rest) (drop (n + 1) rest))" for P
  proof (cases "str_find slash_byte rest")
    case None
    moreover from None have "slash_byte \<notin> set rest" by (simp add: str_find_None_iff)
    ultimately show ?thesis by auto
  next
    case (Some n)
    then have n: "n < length rest" "rest ! n = slash_byte" "slash_byte \<notin> set (take n rest)"
      by (auto simp: str_find_Some_iff)
    then have eq: "rest = take n rest @ slash_byte # drop (n + 1) rest"
      using id_take_nth_drop [of n rest] by simp
    have "name = take n rest \<and> filt = drop (n + 1) rest"
      if "rest = name @ slash_byte # filt" "slash_byte \<notin> set name" for name filt
    proof -
      have "str_find slash_byte rest = Some (length name)"
        using that by (simp add: str_find_Some_iff)
      with Some that(1) show ?thesis by simp
    qed
    with eq n(3) Some show ?thesis by (auto intro: exI [of _ "take n rest"])
  qed
  have "is_valid_v5_topic_filter f \<longleftrightarrow> (\<exists>name filt. rest = name @ slash_byte # filt \<and>
      slash_byte \<notin> set name \<and> (name \<noteq> [] \<and> plus_byte \<notin> set name \<and> hash_byte \<notin> set name \<and>
      is_valid_topic_filter filt))"
    unfolding split
    using True by (auto simp: is_valid_v5_topic_filter_def strip_prefix_def f Let_def split: option.splits)
  then show ?thesis using True by (auto simp: f)
next
  case False
  then show ?thesis by (simp add: is_valid_v5_topic_filter_def strip_prefix_def)
qed

end
