(* ===== verification/Capabilities.thy ===== *)
theory Capabilities
  imports ReasonCodes Subscription TopicFilter
begin

text \<open>
  The server capabilities of \<^verbatim>\<open>src/state/session/capabilities.rs\<close> with the two checks that
  outgoing packets are subject to, and the CONNACK parameters of \<^verbatim>\<open>src/state/session/params.rs\<close>.
\<close>

section \<open>Server capabilities\<close>

record server_capabilities =
  cap_maximum_packet_size :: "u32 option"
  cap_maximum_qos :: qos
  cap_retain_available :: bool
  cap_wildcard_subscription_available :: bool
  cap_subscription_identifiers_available :: bool
  cap_shared_subscription_available :: bool

definition capabilities_new :: server_capabilities where
  "capabilities_new =
     \<lparr>cap_maximum_packet_size = None, cap_maximum_qos = ExactlyOnce, cap_retain_available = True,
      cap_wildcard_subscription_available = True, cap_subscription_identifiers_available = True,
      cap_shared_subscription_available = True\<rparr>"

datatype server_capability_error =
    MaximumQoSExceeded
  | RetainNotAvailable
  | MaximumPacketSizeExceeded u32 u32
  | WildcardSubscriptionNotAvailable
  | SubscriptionIdentifierNotAvailable
  | SharedSubscriptionNotAvailable

definition validate_publish :: "server_capabilities \<Rightarrow> qos \<Rightarrow> bool \<Rightarrow> nat \<Rightarrow>
    (unit, server_capability_error) result" where
  "validate_publish cap qos retain packet_size =
     (if qos_as_u8 (cap_maximum_qos cap) < qos_as_u8 qos then Err MaximumQoSExceeded
      else if retain \<and> \<not> cap_retain_available cap then Err RetainNotAvailable
      else
        case cap_maximum_packet_size cap of
          Some limit \<Rightarrow>
            if unat limit < packet_size
            then Err (MaximumPacketSizeExceeded (word_of_nat packet_size) limit) else Ok ()
        | None \<Rightarrow> Ok ())"

fun validate_subscribe :: "server_capabilities \<Rightarrow> subscription_entry list \<Rightarrow>
    (unit, server_capability_error) result" where
  "validate_subscribe cap [] = Ok ()"
| "validate_subscribe cap (entry # entries) =
     (if \<not> cap_wildcard_subscription_available cap \<and>
         (str_contains plus_byte (se_topic_filter entry) \<or> str_contains hash_byte (se_topic_filter entry))
      then Err WildcardSubscriptionNotAvailable
      else if \<not> cap_subscription_identifiers_available cap \<and> se_subscription_identifier entry \<noteq> None
      then Err SubscriptionIdentifierNotAvailable
      else if \<not> cap_shared_subscription_available cap \<and> starts_with share_prefix (se_topic_filter entry)
      then Err SharedSubscriptionNotAvailable
      else validate_subscribe cap entries)"

text \<open>The property that a SUBSCRIBE uses nothing the server has declared unavailable.\<close>

definition entry_supported :: "server_capabilities \<Rightarrow> subscription_entry \<Rightarrow> bool" where
  "entry_supported cap e \<longleftrightarrow>
     (plus_byte \<in> set (se_topic_filter e) \<or> hash_byte \<in> set (se_topic_filter e)
        \<longrightarrow> cap_wildcard_subscription_available cap) \<and>
     (se_subscription_identifier e \<noteq> None \<longrightarrow> cap_subscription_identifiers_available cap) \<and>
     (starts_with share_prefix (se_topic_filter e) \<longrightarrow> cap_shared_subscription_available cap)"

lemma validate_subscribe_Ok_iff:
  "validate_subscribe cap es = Ok () \<longleftrightarrow> (\<forall>e \<in> set es. entry_supported cap e)"
  by (induction es) (auto simp: entry_supported_def)

lemma validate_subscribe_no_panic: "validate_subscribe cap es \<noteq> Panic"
  by (induction es) auto

lemma validate_publish_Ok_iff:
  "validate_publish cap q retain n = Ok () \<longleftrightarrow>
     qos_as_u8 q \<le> qos_as_u8 (cap_maximum_qos cap) \<and> (retain \<longrightarrow> cap_retain_available cap) \<and>
     (\<forall>limit. cap_maximum_packet_size cap = Some limit \<longrightarrow> n \<le> unat limit)"
  by (auto simp: validate_publish_def not_less split: option.splits)

lemma capabilities_new_permit_all:
  "validate_publish capabilities_new q retain n = Ok ()" "validate_subscribe capabilities_new es = Ok ()"
  by (cases q; simp add: validate_publish_def capabilities_new_def)
    (simp add: validate_subscribe_Ok_iff entry_supported_def capabilities_new_def)

section \<open>CONNACK parameters\<close>

datatype connack_error =
    ConnectionRefused
  | SessionPresentProtocolError
  | ConnackInvalidReceiveMaximum
  | InvalidMaximumPacketSize
  | InvalidMaximumQoS
  | AssignedClientIdentifierMissing
  | AuthenticationMethodMissing
  | AuthenticationMethodMismatch
  | UnexpectedAuthenticationMethod
  | InvalidConnectionState
  | VersionMismatch
  | V5OnlyParameters

datatype connack_reason = ReasonV5 connect_reason_code | ReasonV311 connect_return_code

fun reason_is_success :: "connack_reason \<Rightarrow> bool" where
  "reason_is_success (ReasonV5 code) = (code = Success)"
| "reason_is_success (ReasonV311 code) = (code = Accepted)"

record connack_params =
  p_session_present :: bool
  p_reason_code :: connack_reason
  p_session_expiry_interval :: "u32 option"
  p_receive_maximum :: "u16 option"
  p_topic_alias_maximum :: "u16 option"
  p_server_keep_alive :: "u16 option"
  p_maximum_packet_size :: "u32 option"
  p_maximum_qos :: "qos option"
  p_retain_available :: "bool option"
  p_wildcard_subscription_available :: "bool option"
  p_subscription_identifiers_available :: "bool option"
  p_shared_subscription_available :: "bool option"
  p_assigned_client_identifier :: "rstring option"
  p_authentication_method :: "rstring option"

definition has_v5_only_fields :: "connack_params \<Rightarrow> bool" where
  "has_v5_only_fields p \<longleftrightarrow>
     p_session_expiry_interval p \<noteq> None \<or> p_receive_maximum p \<noteq> None \<or>
     p_topic_alias_maximum p \<noteq> None \<or> p_server_keep_alive p \<noteq> None \<or>
     p_maximum_packet_size p \<noteq> None \<or> p_maximum_qos p \<noteq> None \<or> p_retain_available p \<noteq> None \<or>
     p_wildcard_subscription_available p \<noteq> None \<or> p_subscription_identifiers_available p \<noteq> None \<or>
     p_shared_subscription_available p \<noteq> None \<or> p_assigned_client_identifier p \<noteq> None \<or>
     p_authentication_method p \<noteq> None"

section \<open>Properties\<close>

text \<open>
  An outgoing SUBSCRIBE passes the check exactly when none of its entries uses a feature the server
  has declared unavailable; the check never panics.
\<close>

theorem validate_subscribe_exact:
  "(validate_subscribe cap es = Ok () \<longleftrightarrow> list_all (entry_supported cap) es) \<and>
   validate_subscribe cap es \<noteq> Panic"
  by (simp add: validate_subscribe_Ok_iff list_all_iff validate_subscribe_no_panic)

text \<open>
  An outgoing PUBLISH passes the check exactly when its QoS does not exceed the server's maximum,
  RETAIN is available if it is set, and the packet is not larger than the server's limit, if there is one.
\<close>

theorem validate_publish_exact:
  "validate_publish cap q retain n = Ok () \<longleftrightarrow>
     qos_as_u8 q \<le> qos_as_u8 (cap_maximum_qos cap) \<and>
     (\<not> retain \<or> cap_retain_available cap) \<and>
     (case cap_maximum_packet_size cap of None \<Rightarrow> True | Some limit \<Rightarrow> n \<le> unat limit)"
  by (auto simp: validate_publish_Ok_iff split: option.splits)

theorem validate_publish_exact_witness:
  "validate_publish capabilities_new ExactlyOnce True 1000000 = Ok ()"
  by (simp add: validate_publish_exact) (simp add: capabilities_new_def)

end
