(* ===== verification/Session.thy ===== *)
theory Session
  imports PacketId FlowControl KeepAlive TopicAlias QosFlow Subscription Auth Capabilities
begin

text \<open>
  The session of \<^verbatim>\<open>src/state/session/mod.rs\<close>: the record of all sub state machines and every
  operation of the source that changes it. An operation that can fail returns its verdict together
  with the state it leaves behind, since the source works on \<^verbatim>\<open>&mut self\<close> and an error does not
  by itself undo earlier assignments. The \<^verbatim>\<open>debug_assert!\<close>s of \<^verbatim>\<open>subscribe_sent\<close> and
  \<^verbatim>\<open>unsubscribe_sent\<close> are not part of the model, which follows a release build; the accessors
  that hand out mutable references to a sub state machine are covered by the theories of those
  machines.
\<close>

section \<open>State\<close>

datatype connection_state = Disconnected | Connecting | Connected | Disconnecting

datatype session_error = InvalidClientId

datatype handle_suback_error = SubackPendingNotFound

datatype handle_unsuback_error = UnsubackPendingNotFound

record session =
  protocol_version :: mqtt_version
  connection_state :: connection_state
  client_id :: rstring
  clean_start :: bool
  session_expiry_interval :: u32
  packet_id_manager :: packet_id_manager
  qos_flow :: qos_flow_manager
  flow_control :: flow_control
  subscription_manager :: subscription_manager
  topic_alias_manager :: topic_alias_manager
  keep_alive :: keep_alive
  auth_state :: auth_state_machine
  server_capabilities :: server_capabilities
  session_limits :: limits

definition session_new :: "mqtt_version \<Rightarrow> rstring \<Rightarrow> bool \<Rightarrow> (session, session_error) result" where
  "session_new v cid clean =
     (if v = V311 \<and> cid = [] \<and> \<not> clean then Err InvalidClientId
      else Ok \<lparr>protocol_version = v, connection_state = Disconnected, client_id = cid,
               clean_start = clean, session_expiry_interval = 0, packet_id_manager = pid_new,
               qos_flow = qf_new, flow_control = fc_new, subscription_manager = sm_new,
               topic_alias_manager = ta_new, keep_alive = ka_new 0, auth_state = auth_new,
               server_capabilities = capabilities_new, session_limits = limits_new\<rparr>)"

definition session_new_v5 :: "rstring \<Rightarrow> bool \<Rightarrow> (session, session_error) result" where
  "session_new_v5 cid clean = session_new V5 cid clean"

definition session_new_v311 :: "rstring \<Rightarrow> bool \<Rightarrow> (session, session_error) result" where
  "session_new_v311 cid clean = session_new V311 cid clean"

definition is_v5 :: "session \<Rightarrow> bool" where
  "is_v5 s \<longleftrightarrow> protocol_version s = V5"

definition is_v311 :: "session \<Rightarrow> bool" where
  "is_v311 s \<longleftrightarrow> protocol_version s = V311"

definition set_session_expiry_interval :: "u32 \<Rightarrow> session \<Rightarrow> session" where
  "set_session_expiry_interval interval s = s\<lparr>session_expiry_interval := interval\<rparr>"

section \<open>Reset\<close>

definition reset_session_state :: "session \<Rightarrow> session" where
  "reset_session_state s =
     s\<lparr>packet_id_manager := pid_reset (packet_id_manager s),
       qos_flow := qf_reset (qos_flow s),
       subscription_manager := sm_reset (subscription_manager s)\<rparr>"

definition reset_connection_state :: "session \<Rightarrow> session" where
  "reset_connection_state s =
     s\<lparr>flow_control := fc_reset True (flow_control s),
       qos_flow := qf_clear_quota_charges (qos_flow s),
       topic_alias_manager := ta_set_peer_maximum 0 (ta_reset_mappings (topic_alias_manager s)),
       auth_state := auth_reset (auth_state s),
       server_capabilities := capabilities_new,
       keep_alive := ka_pingresp_received (keep_alive s)\<rparr>"

definition session_reset :: "session \<Rightarrow> session" where
  "session_reset s =
     s\<lparr>connection_state := Disconnected,
       session_expiry_interval := 0,
       packet_id_manager := pid_reset (packet_id_manager s),
       qos_flow := qf_reset (qos_flow s),
       flow_control := fc_reset False (flow_control s),
       subscription_manager := sm_reset (subscription_manager s),
       topic_alias_manager := ta_reset (topic_alias_manager s),
       keep_alive := ka_reset (keep_alive s),
       auth_state := auth_reset (auth_state s),
       server_capabilities := capabilities_new\<rparr>"

section \<open>Connecting\<close>

definition configure_for_connect :: "u16 \<Rightarrow> u32 \<Rightarrow> u16 \<Rightarrow> u16 \<Rightarrow> u32 \<Rightarrow> session \<Rightarrow>
    (unit, flow_control_error) result \<times> session" where
  "configure_for_connect keep_alive_secs expiry topic_alias_maximum receive_maximum
       maximum_packet_size s =
     (let s1 = s\<lparr>keep_alive := ka_set_keep_alive keep_alive_secs (keep_alive s),
                 session_expiry_interval := expiry,
                 topic_alias_manager :=
                   ta_set_own_maximum topic_alias_maximum (topic_alias_manager s)\<rparr>
      in
      case fc_set_own_receive_maximum receive_maximum (flow_control s1) of
        Err e \<Rightarrow> (Err e, s1)
      | Panic \<Rightarrow> (Panic, s1)
      | Ok fc \<Rightarrow>
          let s2 = s1\<lparr>flow_control := fc\<rparr>;
              s3 = (if 0 < maximum_packet_size
                    then s2\<lparr>session_limits :=
                              with_max_packet_size limits_new (unat maximum_packet_size)\<rparr>
                    else s2)
          in (Ok (), s3))"

definition connect_sent :: "session \<Rightarrow> session" where
  "connect_sent s = reset_connection_state (s\<lparr>connection_state := Connecting\<rparr>)"

definition connect_sent_with_auth :: "rstring \<Rightarrow> session \<Rightarrow> (unit, auth_error) result \<times> session" where
  "connect_sent_with_auth method s =
     (if \<not> is_v5 s then (Err V5OnlyOperation, s)
      else
        let s1 = connect_sent s
        in (Ok (), s1\<lparr>auth_state := auth_connect_with_auth method (auth_state s1)\<rparr>))"

definition session_connected :: "bool \<Rightarrow> session \<Rightarrow> session" where
  "session_connected session_present s =
     (let s1 = s\<lparr>connection_state := Connected\<rparr>
      in if clean_start s1 \<or> \<not> session_present then reset_session_state s1 else s1)"

fun connack_auth_error :: "auth_method_error \<Rightarrow> connack_error" where
  "connack_auth_error MethodMissing = AuthenticationMethodMissing"
| "connack_auth_error MethodDiffers = AuthenticationMethodMismatch"
| "connack_auth_error MethodUnexpected = UnexpectedAuthenticationMethod"

text \<open>The validation phase of \<^verbatim>\<open>apply_connack\<close>, which reads the session without writing to it.\<close>

definition connack_rejected :: "connack_params \<Rightarrow> session \<Rightarrow> connack_error option" where
  "connack_rejected params s =
     (if connection_state s \<noteq> Connecting then Some InvalidConnectionState
      else if \<not> (case p_reason_code params of ReasonV5 _ \<Rightarrow> is_v5 s | ReasonV311 _ \<Rightarrow> is_v311 s)
      then Some VersionMismatch
      else if is_v311 s \<and> has_v5_only_fields params then Some V5OnlyParameters
      else if \<not> reason_is_success (p_reason_code params) then Some ConnectionRefused
      else if p_session_present params \<and> clean_start s then Some SessionPresentProtocolError
      else if is_v5 s \<and> client_id s = [] \<and>
              (case p_assigned_client_identifier params of None \<Rightarrow> True | Some i \<Rightarrow> i = [])
      then Some AssignedClientIdentifierMissing
      else if p_receive_maximum params = Some 0 then Some ConnackInvalidReceiveMaximum
      else if p_maximum_packet_size params = Some 0 then Some InvalidMaximumPacketSize
      else if p_maximum_qos params = Some ExactlyOnce then Some InvalidMaximumQoS
      else None)"

text \<open>The capability updates of the application phase: \<^verbatim>\<open>if let Some(x) = ... { ... = x }\<close>.\<close>

definition set_if :: "'a option \<Rightarrow> ('a \<Rightarrow> 's \<Rightarrow> 's) \<Rightarrow> 's \<Rightarrow> 's" where
  "set_if x f s = (case x of None \<Rightarrow> s | Some v \<Rightarrow> f v s)"

definition apply_capabilities :: "connack_params \<Rightarrow> server_capabilities \<Rightarrow> server_capabilities" where
  "apply_capabilities params cap =
     (let cap1 = set_if (p_maximum_packet_size params) (\<lambda>x c. c\<lparr>cap_maximum_packet_size := Some x\<rparr>) cap;
          cap2 = set_if (p_maximum_qos params) (\<lambda>x c. c\<lparr>cap_maximum_qos := x\<rparr>) cap1;
          cap3 = set_if (p_retain_available params) (\<lambda>x c. c\<lparr>cap_retain_available := x\<rparr>) cap2;
          cap4 = set_if (p_wildcard_subscription_available params)
                   (\<lambda>x c. c\<lparr>cap_wildcard_subscription_available := x\<rparr>) cap3;
          cap5 = set_if (p_subscription_identifiers_available params)
                   (\<lambda>x c. c\<lparr>cap_subscription_identifiers_available := x\<rparr>) cap4
      in set_if (p_shared_subscription_available params)
           (\<lambda>x c. c\<lparr>cap_shared_subscription_available := x\<rparr>) cap5)"

definition apply_connack_params :: "connack_params \<Rightarrow> session \<Rightarrow>
    (unit, connack_error) result \<times> session" where
  "apply_connack_params params s =
     (let s1 = session_connected (p_session_present params) s in
      case (case p_receive_maximum params of
              None \<Rightarrow> Some s1
            | Some m \<Rightarrow>
                (case fc_set_receive_maximum m (flow_control s1) of
                   Ok fc \<Rightarrow> Some (s1\<lparr>flow_control := fc\<rparr>)
                 | _ \<Rightarrow> None)) of
        None \<Rightarrow> (Panic, s1)
      | Some s2 \<Rightarrow>
          let s3 = set_if (p_session_expiry_interval params) set_session_expiry_interval s2;
              s4 = set_if (p_topic_alias_maximum params)
                     (\<lambda>m t. t\<lparr>topic_alias_manager := ta_set_peer_maximum m (topic_alias_manager t)\<rparr>) s3;
              s5 = set_if (p_server_keep_alive params)
                     (\<lambda>secs t. t\<lparr>keep_alive := ka_set_keep_alive secs (keep_alive t)\<rparr>) s4;
              s6 = s5\<lparr>server_capabilities := apply_capabilities params (server_capabilities s5)\<rparr>;
              s7 = set_if (p_assigned_client_identifier params)
                     (\<lambda>i t. if client_id t = [] then t\<lparr>client_id := i\<rparr> else t) s6
          in (Ok (), s7))"

definition apply_connack :: "connack_params \<Rightarrow> session \<Rightarrow> (unit, connack_error) result \<times> session" where
  "apply_connack params s =
     (case connack_rejected params s of
        Some e \<Rightarrow> (Err e, s)
      | None \<Rightarrow>
          if is_v5 s then
            (case auth_connack_received (p_authentication_method params) (auth_state s) of
               Err e \<Rightarrow> (Err (connack_auth_error e), s)
             | Panic \<Rightarrow> (Panic, s)
             | Ok a \<Rightarrow> apply_connack_params params (s\<lparr>auth_state := a\<rparr>))
          else apply_connack_params params s)"

definition disconnect_sent :: "session \<Rightarrow> session" where
  "disconnect_sent s = s\<lparr>connection_state := Disconnecting\<rparr>"

definition disconnect_received :: "session \<Rightarrow> session" where
  "disconnect_received s = s\<lparr>connection_state := Disconnected\<rparr>"

definition session_disconnected :: "session \<Rightarrow> session" where
  "session_disconnected s = s\<lparr>connection_state := Disconnected\<rparr>"

definition is_connected :: "session \<Rightarrow> bool" where
  "is_connected s \<longleftrightarrow> connection_state s = Connected"

definition session_is_active :: "session \<Rightarrow> bool" where
  "session_is_active s \<longleftrightarrow> connection_state s = Connected \<or> connection_state s = Connecting"

section \<open>Keep alive and authentication\<close>

definition session_pingresp_received :: "session \<Rightarrow> session" where
  "session_pingresp_received s = s\<lparr>keep_alive := ka_pingresp_received (keep_alive s)\<rparr>"

definition session_pingreq_sent :: "timestamp \<Rightarrow> session \<Rightarrow> session" where
  "session_pingreq_sent now s = s\<lparr>keep_alive := ka_pingreq_sent now (keep_alive s)\<rparr>"

definition session_activity :: "timestamp \<Rightarrow> session \<Rightarrow> session" where
  "session_activity now s = s\<lparr>keep_alive := ka_activity now (keep_alive s)\<rparr>"

definition session_auth_received :: "u8 \<Rightarrow> rstring option \<Rightarrow> session \<Rightarrow>
    (auth_action \<times> session, 'e) result" where
  "session_auth_received reason_code method s =
     rbind (auth_received reason_code method (auth_state s)) (\<lambda>(act, a).
     Ok (act, s\<lparr>auth_state := a\<rparr>))"

definition session_reauthenticate_sent :: "session \<Rightarrow> (unit, auth_error) result \<times> session" where
  "session_reauthenticate_sent s =
     (case auth_reauthenticate_sent (auth_state s) of
        Ok a \<Rightarrow> (Ok (), s\<lparr>auth_state := a\<rparr>)
      | Err e \<Rightarrow> (Err e, s)
      | Panic \<Rightarrow> (Panic, s))"

section \<open>Received packets\<close>

text \<open>\<^verbatim>\<open>flow_control.publish_acked(); packet_id_manager.release(packet_id)\<close>\<close>

definition finish_outgoing :: "u16 \<Rightarrow> session \<Rightarrow> session" where
  "finish_outgoing packet_id s =
     s\<lparr>flow_control := fc_publish_acked (flow_control s),
       packet_id_manager := pid_release packet_id (packet_id_manager s)\<rparr>"

definition handle_puback :: "u16 \<Rightarrow> session \<Rightarrow> flow_verdict \<times> session" where
  "handle_puback packet_id s =
     (case qf_puback_received packet_id (qos_flow s) of (verdict, q) \<Rightarrow>
      let s1 = s\<lparr>qos_flow := q\<rparr> in
      (case verdict of
         Ok (Some act) \<Rightarrow> (Ok (Some act), finish_outgoing packet_id s1)
       | _ \<Rightarrow> (verdict, s1)))"

definition handle_pubrec :: "u16 \<Rightarrow> u8 \<Rightarrow> session \<Rightarrow> flow_verdict \<times> session" where
  "handle_pubrec packet_id reason_code s =
     (case qf_pubrec_received packet_id reason_code (qos_flow s) of (verdict, q) \<Rightarrow>
      let s1 = s\<lparr>qos_flow := q\<rparr> in
      (case verdict of
         Ok (Some (Aborted i)) \<Rightarrow> (Ok (Some (Aborted i)), finish_outgoing packet_id s1)
       | _ \<Rightarrow> (verdict, s1)))"

definition handle_pubrel :: "u16 \<Rightarrow> session \<Rightarrow> flow_verdict \<times> session" where
  "handle_pubrel packet_id s =
     (case qf_pubrel_received packet_id (qos_flow s) of (verdict, q) \<Rightarrow>
      (verdict, s\<lparr>qos_flow := q\<rparr>))"

definition handle_pubcomp :: "u16 \<Rightarrow> session \<Rightarrow> flow_verdict \<times> session" where
  "handle_pubcomp packet_id s =
     (case qf_pubcomp_received packet_id (qos_flow s) of (verdict, q) \<Rightarrow>
      let s1 = s\<lparr>qos_flow := q\<rparr> in
      (case verdict of
         Ok (Some act) \<Rightarrow> (Ok (Some act), finish_outgoing packet_id s1)
       | _ \<Rightarrow> (verdict, s1)))"

text \<open>\<^verbatim>\<open>if !self.qos_flow.has_incoming_flow(packet_id) { self.flow_control.publish_received()?; }\<close>\<close>

definition charge_incoming :: "u16 \<Rightarrow> session \<Rightarrow> (session, flow_control_error) result" where
  "charge_incoming packet_id s =
     (if \<not> qf_has_incoming_flow (qos_flow s) packet_id
      then rbind (fc_publish_received (flow_control s)) (\<lambda>fc. Ok (s\<lparr>flow_control := fc\<rparr>))
      else Ok s)"

definition handle_publish_qos1 :: "u16 \<Rightarrow> session \<Rightarrow> (action, flow_control_error) result \<times> session" where
  "handle_publish_qos1 packet_id s =
     (case charge_incoming packet_id s of
        Err e \<Rightarrow> (Err e, s)
      | Panic \<Rightarrow> (Panic, s)
      | Ok s1 \<Rightarrow>
          (case qf_publish_received_qos1 packet_id (qos_flow s1) of (act, q) \<Rightarrow>
             (Ok act, s1\<lparr>qos_flow := q\<rparr>)))"

definition handle_publish_qos2 :: "u16 \<Rightarrow> session \<Rightarrow> (action, flow_control_error) result \<times> session" where
  "handle_publish_qos2 packet_id s =
     (case charge_incoming packet_id s of
        Err e \<Rightarrow> (Err e, s)
      | Panic \<Rightarrow> (Panic, s)
      | Ok s1 \<Rightarrow>
          (case qf_publish_received_qos2 packet_id (qos_flow s1) of (act, q) \<Rightarrow>
             (Ok act, s1\<lparr>qos_flow := q\<rparr>)))"

definition session_puback_sent :: "u16 \<Rightarrow> session \<Rightarrow> session" where
  "session_puback_sent packet_id s =
     s\<lparr>qos_flow := qf_puback_sent packet_id (qos_flow s),
       flow_control := fc_publish_ack_sent (flow_control s)\<rparr>"

definition session_pubrec_sent :: "u8 \<Rightarrow> session \<Rightarrow> session" where
  "session_pubrec_sent reason_code s =
     (if 0x80 \<le> reason_code then s\<lparr>flow_control := fc_publish_ack_sent (flow_control s)\<rparr> else s)"

definition session_pubcomp_sent :: "session \<Rightarrow> session" where
  "session_pubcomp_sent s = s\<lparr>flow_control := fc_publish_ack_sent (flow_control s)\<rparr>"

section \<open>Retransmission\<close>

definition pending_retransmissions :: "session \<Rightarrow> (u16 \<times> action) list" where
  "pending_retransmissions s =
     List.map_filter
       (\<lambda>i. map_option (\<lambda>act. (i, act)) (qf_needs_retransmission (qos_flow s) i))
       (qf_pending_packet_ids (qos_flow s))"

definition resend_publish :: "u16 \<Rightarrow> session \<Rightarrow>
    (action option, flow_control_error) result \<times> session" where
  "resend_publish packet_id s =
     (let act = qf_needs_retransmission (qos_flow s) packet_id in
      case act of
        Some (ResendPublish _) \<Rightarrow>
          if qf_is_quota_charged (qos_flow s) packet_id
          then (if is_v5 s then (Ok None, s) else (Ok act, s))
          else
            (case fc_publish_sent (flow_control s) of
               Err e \<Rightarrow> (Err e, s)
             | Panic \<Rightarrow> (Panic, s)
             | Ok fc \<Rightarrow>
                 (Ok act, s\<lparr>flow_control := fc,
                            qos_flow := qf_mark_quota_charged packet_id (qos_flow s)\<rparr>))
      | _ \<Rightarrow> (Ok None, s))"

definition resend_pubrel :: "u16 \<Rightarrow> session \<Rightarrow> action option" where
  "resend_pubrel packet_id s =
     (let act = qf_needs_retransmission (qos_flow s) packet_id in
      case act of Some (ResendPubrel _) \<Rightarrow> act | _ \<Rightarrow> None)"

section \<open>Sent packets\<close>

definition allocate_packet_id :: "session \<Rightarrow> u16 option \<times> session" where
  "allocate_packet_id s =
     (case pid_allocate (packet_id_manager s) of (r, p) \<Rightarrow> (r, s\<lparr>packet_id_manager := p\<rparr>))"

definition session_publish_sent :: "qos \<Rightarrow> u16 \<Rightarrow> session \<Rightarrow>
    (unit, flow_control_error) result \<times> session" where
  "session_publish_sent q packet_id s =
     (if q = AtMostOnce then (Err InvalidQoS, s)
      else if packet_id = 0 then (Err InvalidPacketId, s)
      else
        case fc_publish_sent (flow_control s) of
          Err e \<Rightarrow> (Err e, s)
        | Panic \<Rightarrow> (Panic, s)
        | Ok fc \<Rightarrow>
            let s1 = s\<lparr>flow_control := fc\<rparr> in
            (case q of
               AtLeastOnce \<Rightarrow> (Ok (), s1\<lparr>qos_flow := qf_publish_sent_qos1 packet_id (qos_flow s1)\<rparr>)
             | ExactlyOnce \<Rightarrow> (Ok (), s1\<lparr>qos_flow := qf_publish_sent_qos2 packet_id (qos_flow s1)\<rparr>)
             | AtMostOnce \<Rightarrow> (Panic, s1)))"

definition abort_publish :: "u16 \<Rightarrow> session \<Rightarrow> session" where
  "abort_publish packet_id s =
     (let s1 = (if qf_is_active (qos_flow s) packet_id
                then s\<lparr>flow_control := fc_publish_acked (flow_control s)\<rparr> else s)
      in s1\<lparr>qos_flow := qf_release packet_id (qos_flow s1),
            packet_id_manager := pid_release packet_id (packet_id_manager s1)\<rparr>)"

definition release_packet_id :: "u16 \<Rightarrow> session \<Rightarrow> session" where
  "release_packet_id packet_id s =
     s\<lparr>packet_id_manager := pid_release packet_id (packet_id_manager s)\<rparr>"

definition session_subscribe_sent :: "u16 \<Rightarrow> subscription_entry list \<Rightarrow> session \<Rightarrow> session" where
  "session_subscribe_sent packet_id subs s =
     s\<lparr>subscription_manager := sm_subscribe_sent packet_id subs (subscription_manager s)\<rparr>"

definition session_unsubscribe_sent :: "u16 \<Rightarrow> rstring list \<Rightarrow> session \<Rightarrow> session" where
  "session_unsubscribe_sent packet_id filters s =
     s\<lparr>subscription_manager := sm_unsubscribe_sent packet_id filters (subscription_manager s)\<rparr>"

definition abort_subscribe :: "u16 \<Rightarrow> session \<Rightarrow> session" where
  "abort_subscribe packet_id s =
     s\<lparr>subscription_manager := snd (sm_drop_pending_subscribe packet_id (subscription_manager s)),
       packet_id_manager := pid_release packet_id (packet_id_manager s)\<rparr>"

definition abort_unsubscribe :: "u16 \<Rightarrow> session \<Rightarrow> session" where
  "abort_unsubscribe packet_id s =
     s\<lparr>subscription_manager := snd (sm_drop_pending_unsubscribe packet_id (subscription_manager s)),
       packet_id_manager := pid_release packet_id (packet_id_manager s)\<rparr>"

definition handle_suback :: "u16 \<Rightarrow> u8 list \<Rightarrow> session \<Rightarrow>
    (subscription_entry list, handle_suback_error) result \<times> session" where
  "handle_suback packet_id reason_codes s =
     (case sm_suback_received packet_id reason_codes (subscription_manager s)
             :: (_, handle_suback_error) result of
        Ok (confirmed, sm) \<Rightarrow>
          (ok_or SubackPendingNotFound confirmed,
           s\<lparr>subscription_manager := sm,
             packet_id_manager := pid_release packet_id (packet_id_manager s)\<rparr>)
      | Err e \<Rightarrow> (Err e, s)
      | Panic \<Rightarrow> (Panic, s))"

definition handle_unsuback :: "u16 \<Rightarrow> u8 list \<Rightarrow> session \<Rightarrow>
    (rstring list, handle_unsuback_error) result \<times> session" where
  "handle_unsuback packet_id reason_codes s =
     (case sm_unsuback_received packet_id reason_codes (subscription_manager s)
             :: (_, handle_unsuback_error) result of
        Ok (unsubscribed, sm) \<Rightarrow>
          (ok_or UnsubackPendingNotFound unsubscribed,
           s\<lparr>subscription_manager := sm,
             packet_id_manager := pid_release packet_id (packet_id_manager s)\<rparr>)
      | Err e \<Rightarrow> (Err e, s)
      | Panic \<Rightarrow> (Panic, s))"

definition validate_outgoing_publish :: "qos \<Rightarrow> bool \<Rightarrow> nat \<Rightarrow> session \<Rightarrow>
    (unit, server_capability_error) result" where
  "validate_outgoing_publish q retain packet_size s =
     validate_publish (server_capabilities s) q retain packet_size"

definition validate_outgoing_subscribe :: "subscription_entry list \<Rightarrow> session \<Rightarrow>
    (unit, server_capability_error) result" where
  "validate_outgoing_subscribe entries s = validate_subscribe (server_capabilities s) entries"

end
