(* ===== verification/SessionRun.thy ===== *)
theory SessionRun
  imports Session
begin

text \<open>
  The session as a transition system. A step is one call of the public interface made under the
  calling contract the source documents; the invariant of all reachable sessions ties the packet
  identifier pool, the handshakes, the subscription requests and the flow-control counters together.
\<close>

section \<open>Which flows have consumed send quota\<close>

definition qf_charged :: "qos_flow_manager \<Rightarrow> u16 set" where
  "qf_charged q = {i. qf_is_quota_charged q i}"

abbreviation flow_ids :: "qos_flow_manager \<Rightarrow> u16 set" where
  "flow_ids q \<equiv> dom (bt_get (outgoing q))"

lemma qf_charged_dom: "qf_charged q \<subseteq> flow_ids q"
  by (auto simp: qf_charged_def qf_is_quota_charged_def split: option.splits)

lemma finite_qf_charged [simp]: "finite (qf_charged q)"
  by (rule finite_subset [OF qf_charged_dom]) simp

lemma qf_charged_ops [simp]:
  "qf_charged (qf_drop i q) = qf_charged q - {i}"
  "qf_charged (q\<lparr>incoming := x\<rparr>) = qf_charged q"
  "qf_charged (qf_clear_quota_charges q) = {}"
  "qf_charged qf_new = {}"
  by (auto simp: qf_charged_def qf_is_quota_charged_def qf_drop_def qf_clear_quota_charges_def
      qf_new_def split: option.splits if_splits)

lemma qf_charged_put [simp]:
  "bt_wf (outgoing q) \<Longrightarrow>
   qf_charged (qf_put i st c q) = (if c then insert i (qf_charged q) else qf_charged q - {i})"
  by (auto simp: qf_charged_def qf_is_quota_charged_def qf_put_def split: option.splits if_splits)

lemma qf_charged_mark:
  "bt_wf (outgoing q) \<Longrightarrow> i \<in> flow_ids q \<Longrightarrow>
   qf_charged (qf_mark_quota_charged i q) = insert i (qf_charged q)"
  by (auto simp: qf_charged_def qf_is_quota_charged_def qf_mark_quota_charged_def
      split: option.splits if_splits)

lemma flow_ids_ops [simp]:
  "flow_ids (qf_drop i q) = flow_ids q - {i}"
  "bt_wf (outgoing q) \<Longrightarrow> flow_ids (qf_put i st c q) = insert i (flow_ids q)"
  "flow_ids (qf_clear_quota_charges q) = flow_ids q"
  "bt_wf (outgoing q) \<Longrightarrow> flow_ids (qf_mark_quota_charged i q) = flow_ids q"
  "flow_ids qf_new = {}"
  by (auto simp: qf_drop_def qf_put_def qf_clear_quota_charges_def qf_new_def
      qf_mark_quota_charged_def split: option.splits if_splits)

section \<open>The invariant of a session\<close>

abbreviation sub_ids :: "subscription_manager \<Rightarrow> u16 set" where
  "sub_ids sm \<equiv> dom (bt_get (sm_pending_subscribes sm))"

abbreviation unsub_ids :: "subscription_manager \<Rightarrow> u16 set" where
  "unsub_ids sm \<equiv> dom (bt_get (sm_pending_unsubscribes sm))"

text \<open>
  Every identifier that an unfinished exchange uses is taken from the pool, and no two exchanges
  share one.
\<close>

definition ids_ok :: "packet_id_manager \<Rightarrow> qos_flow_manager \<Rightarrow> subscription_manager \<Rightarrow> bool" where
  "ids_ok p q sm \<longleftrightarrow>
     flow_ids q \<union> sub_ids sm \<union> unsub_ids sm \<subseteq> pid_used p \<and>
     flow_ids q \<inter> sub_ids sm = {} \<and> flow_ids q \<inter> unsub_ids sm = {} \<and>
     sub_ids sm \<inter> unsub_ids sm = {}"

definition quota_ok :: "flow_control \<Rightarrow> qos_flow_manager \<Rightarrow> bool" where
  "quota_ok fc q \<longleftrightarrow> unat (fc_outstanding_count fc) \<le> card (qf_charged q)"

definition window_ok :: "flow_control \<Rightarrow> connection_state \<Rightarrow> bool" where
  "window_ok fc st \<longleftrightarrow>
     0 < fc_receive_maximum fc \<and> 0 < fc_own_receive_maximum fc \<and>
     fc_outstanding_count fc \<le> fc_receive_maximum fc \<and>
     (st = Connecting \<longrightarrow> fc_outstanding_count fc = 0) \<and>
     (st = Connecting \<or> st = Connected \<longrightarrow> fc_incoming_count fc \<le> fc_own_receive_maximum fc)"

definition no_aliases :: "topic_alias_manager \<Rightarrow> bool" where
  "no_aliases ta \<longleftrightarrow> ta_inv ta \<and> (\<forall>i. entry (topic_to_alias ta) i = None)"

definition session_inv :: "session \<Rightarrow> bool" where
  "session_inv s \<longleftrightarrow>
     pid_inv (packet_id_manager s) \<and> qf_wf (qos_flow s) \<and> sm_inv (subscription_manager s) \<and>
     auth_inv (auth_state s) \<and> no_aliases (topic_alias_manager s) \<and>
     ids_ok (packet_id_manager s) (qos_flow s) (subscription_manager s) \<and>
     quota_ok (flow_control s) (qos_flow s) \<and>
     window_ok (flow_control s) (connection_state s)"

text \<open>An identifier that was allocated and is not yet part of any exchange.\<close>

definition fresh_id :: "u16 \<Rightarrow> session \<Rightarrow> bool" where
  "fresh_id i s \<longleftrightarrow> i \<in> pid_used (packet_id_manager s) \<and> i \<notin> flow_ids (qos_flow s) \<and>
     i \<notin> sub_ids (subscription_manager s) \<and> i \<notin> unsub_ids (subscription_manager s)"

lemma session_invD:
  assumes "session_inv s"
  shows "pid_inv (packet_id_manager s)" "qf_wf (qos_flow s)" "sm_inv (subscription_manager s)"
    "auth_inv (auth_state s)" "no_aliases (topic_alias_manager s)"
    "ids_ok (packet_id_manager s) (qos_flow s) (subscription_manager s)"
    "quota_ok (flow_control s) (qos_flow s)"
    "window_ok (flow_control s) (connection_state s)"
  using assms by (auto simp: session_inv_def)

section \<open>Preservation by the parts\<close>

lemma entry_set_maximum [simp]:
  "entry (topic_to_alias (ta_set_peer_maximum m ta)) i = entry (topic_to_alias ta) i"
  "entry (topic_to_alias (ta_set_own_maximum m ta)) i = entry (topic_to_alias ta) i"
  by (simp_all add: ta_set_peer_maximum_def ta_ensure_send_capacity_def ta_set_own_maximum_def
      ta_ensure_receive_capacity_def)

lemma no_aliases_ops [simp]:
  "no_aliases ta_new"
  "no_aliases ta \<Longrightarrow> no_aliases (ta_set_own_maximum m ta)"
  "no_aliases (ta_reset_mappings ta)"
  by (simp_all add: no_aliases_def ta_inv_new ta_inv_set_own_maximum ta_inv_reset_mappings,
      simp_all add: ta_new_def entry_def ta_reset_mappings_def)

lemma no_aliases_set_peer [simp]: "no_aliases ta \<Longrightarrow> no_aliases (ta_set_peer_maximum m ta)"
  using ta_inv_set_peer_maximum [of ta m] by (auto simp: no_aliases_def)

lemma ids_ok_new [simp]: "ids_ok p qf_new sm_new"
  by (simp add: ids_ok_def sm_new_def)

lemma ids_ok_drop:
  "pid_inv p \<Longrightarrow> ids_ok p q sm \<Longrightarrow> i \<in> flow_ids q \<Longrightarrow> ids_ok (pid_release i p) (qf_drop i q) sm"
  by (auto simp: ids_ok_def pid_used_release)

lemma ids_ok_flows: "ids_ok p q sm \<Longrightarrow> flow_ids q' = flow_ids q \<Longrightarrow> ids_ok p q' sm"
  by (simp add: ids_ok_def)

lemma ids_ok_release_unused:
  "pid_inv p \<Longrightarrow> ids_ok p q sm \<Longrightarrow> i \<notin> flow_ids q \<Longrightarrow> i \<notin> sub_ids sm \<Longrightarrow> i \<notin> unsub_ids sm \<Longrightarrow>
   ids_ok (pid_release i p) q sm"
  by (auto simp: ids_ok_def pid_used_release)

lemma ids_ok_allocate:
  "pid_inv p \<Longrightarrow> ids_ok p q sm \<Longrightarrow> ids_ok (snd (pid_allocate p)) q sm"
  by (auto simp: ids_ok_def pid_used_allocate)

lemma quota_ok_drop: "quota_ok fc q \<Longrightarrow> quota_ok (fc_publish_acked fc) (qf_drop i q)"
  by (auto simp: quota_ok_def fc_publish_acked_def unat_sat_sub card_Diff_singleton_if)

lemma quota_ok_sent:
  assumes "quota_ok fc q" "fc_publish_sent fc = Ok fc'" "qf_charged q' = insert i (qf_charged q)"
    "i \<notin> qf_charged q"
  shows "quota_ok fc' q'"
  using assms sending.charge_OkD [OF assms(2)] by (simp add: quota_ok_def)

lemma quota_ok_zero: "fc_outstanding_count fc = 0 \<Longrightarrow> quota_ok fc q"
  by (simp add: quota_ok_def)

lemma quota_ok_cong:
  "quota_ok fc q \<Longrightarrow> qf_charged q' = qf_charged q \<Longrightarrow>
   fc_outstanding_count fc' = fc_outstanding_count fc \<Longrightarrow> quota_ok fc' q'"
  by (simp add: quota_ok_def)

lemma window_ok_acked: "window_ok fc st \<Longrightarrow> window_ok (fc_publish_acked fc) st"
  by (auto simp: window_ok_def fc_publish_acked_def word_le_nat_alt unat_sat_sub)

lemma window_ok_ack_sent: "window_ok fc st \<Longrightarrow> window_ok (fc_publish_ack_sent fc) st"
  by (auto simp: window_ok_def fc_publish_ack_sent_def word_le_nat_alt unat_sat_sub)

lemma window_ok_sent:
  "window_ok fc Connected \<Longrightarrow> fc_publish_sent fc = Ok fc' \<Longrightarrow> window_ok fc' Connected"
  by (auto simp: window_ok_def fc_publish_sent_def fc_can_send_def word_le_nat_alt word_less_nat_alt
      unat_sat_succ split: if_splits)

lemma window_ok_received:
  "window_ok fc st \<Longrightarrow> fc_publish_received fc = Ok fc' \<Longrightarrow> window_ok fc' st"
  by (auto simp: window_ok_def fc_publish_received_def fc_can_receive_def word_le_nat_alt
      word_less_nat_alt unat_sat_succ split: if_splits)

lemma window_ok_reset: "window_ok fc st \<Longrightarrow> window_ok (fc_reset keep fc) st'"
  by (simp add: window_ok_def fc_reset_def Let_def)

lemma window_ok_inactive: "window_ok fc st \<Longrightarrow> st' \<noteq> Connecting \<Longrightarrow> st' \<noteq> Connected \<Longrightarrow> window_ok fc st'"
  by (simp add: window_ok_def)

section \<open>Preservation by the operations\<close>

lemma session_inv_new: "session_new v c clean = Ok s \<Longrightarrow> session_inv s"
  by (auto simp: session_new_def session_inv_def pid_inv_new quota_ok_def window_ok_def fc_new_def
      split: if_splits)

text \<open>Operations on the timer, the authentication, the limits or the connection state only.\<close>

lemma session_inv_frame:
  "session_inv s \<Longrightarrow> session_inv (s\<lparr>keep_alive := ka\<rparr>)"
  "session_inv s \<Longrightarrow> session_inv (s\<lparr>session_expiry_interval := n\<rparr>)"
  "session_inv s \<Longrightarrow> session_inv (s\<lparr>session_limits := l\<rparr>)"
  "session_inv s \<Longrightarrow> session_inv (s\<lparr>server_capabilities := c\<rparr>)"
  "session_inv s \<Longrightarrow> session_inv (s\<lparr>client_id := i\<rparr>)"
  "session_inv s \<Longrightarrow> auth_inv a \<Longrightarrow> session_inv (s\<lparr>auth_state := a\<rparr>)"
  "session_inv s \<Longrightarrow> no_aliases t \<Longrightarrow> session_inv (s\<lparr>topic_alias_manager := t\<rparr>)"
  by (simp_all add: session_inv_def)

lemma session_inv_disconnect:
  "session_inv s \<Longrightarrow> session_inv (disconnect_sent s)"
  "session_inv s \<Longrightarrow> session_inv (disconnect_received s)"
  "session_inv s \<Longrightarrow> session_inv (session_disconnected s)"
  by (auto simp: disconnect_sent_def disconnect_received_def session_disconnected_def
      session_inv_def window_ok_inactive)

lemma session_inv_keep_alive:
  "session_inv s \<Longrightarrow> session_inv (session_pingresp_received s)"
  "session_inv s \<Longrightarrow> session_inv (session_pingreq_sent now s)"
  "session_inv s \<Longrightarrow> session_inv (session_activity now s)"
  by (simp_all add: session_pingresp_received_def session_pingreq_sent_def session_activity_def
      session_inv_frame)

lemma session_inv_auth_received:
  assumes "session_inv s" "(session_auth_received rc m s :: (_, 'e) result) = Ok (act, s')"
  shows "session_inv s'"
proof -
  from auth_received_returns [OF session_invD(4) [OF assms(1)], of rc m, where 'a = 'e]
  obtain act' a where "(auth_received rc m (auth_state s) :: (_, 'e) result) = Ok (act', a)" "auth_inv a"
    by blast
  with assms show ?thesis by (auto simp: session_auth_received_def intro: session_inv_frame)
qed

lemma session_inv_reauthenticate:
  "session_inv s \<Longrightarrow> session_inv (snd (session_reauthenticate_sent s))"
  using auth_inv_reauthenticate session_invD(4)
  by (auto simp: session_reauthenticate_sent_def intro!: session_inv_frame split: result.splits)

lemma session_inv_configure:
  assumes "session_inv s" "\<not> session_is_active s"
  shows "session_inv (snd (configure_for_connect k e t r m s))"
proof -
  have "window_ok fc' (connection_state s)"
    if "fc_set_own_receive_maximum r (flow_control s) = Ok fc'" for fc'
    using that assms
    by (auto simp: fc_set_own_receive_maximum_def session_inv_def window_ok_def session_is_active_def
        word_neq_0_conv split: if_splits)
  moreover have "quota_ok fc' (qos_flow s)"
    if "fc_set_own_receive_maximum r (flow_control s) = Ok fc'" for fc'
    using that assms(1) by (auto simp: fc_set_own_receive_maximum_def session_inv_def quota_ok_def
        split: if_splits)
  ultimately show ?thesis
    using assms(1)
    by (auto simp: configure_for_connect_def Let_def session_inv_def split: result.splits)
qed

lemma session_inv_connect_sent:
  assumes "session_inv s"
  shows "session_inv (connect_sent s)"
proof -
  have "ids_ok (packet_id_manager s) (qf_clear_quota_charges (qos_flow s)) (subscription_manager s)"
    by (rule ids_ok_flows [OF session_invD(6) [OF assms]]) simp
  then show ?thesis
    using assms
    by (auto simp: connect_sent_def reset_connection_state_def session_inv_def qf_wf_clear
        intro!: window_ok_reset quota_ok_zero) (simp add: fc_reset_def Let_def)
qed

lemma session_inv_connect_sent_with_auth:
  "session_inv s \<Longrightarrow> session_inv (snd (connect_sent_with_auth m s))"
  using session_inv_connect_sent [of s]
  by (auto simp: connect_sent_with_auth_def Let_def intro!: session_inv_frame)

lemma session_inv_reset: "session_inv s \<Longrightarrow> session_inv (session_reset s)"
  by (auto simp: session_reset_def session_inv_def pid_inv_new intro!: window_ok_reset quota_ok_zero)
    (simp add: fc_reset_def Let_def)

lemma session_inv_connected:
  assumes "session_inv s" "connection_state s = Connecting"
  shows "session_inv (session_connected present s)"
    "fc_outstanding_count (flow_control (session_connected present s)) = 0"
    "connection_state (session_connected present s) = Connected"
proof -
  have w: "window_ok (flow_control s) Connected" "fc_outstanding_count (flow_control s) = 0"
    using assms by (auto simp: session_inv_def window_ok_def)
  then show "session_inv (session_connected present s)"
    using assms by (auto simp: session_connected_def Let_def reset_session_state_def session_inv_def
        pid_inv_new quota_ok_zero)
  from w(2) show "fc_outstanding_count (flow_control (session_connected present s)) = 0"
    by (simp add: session_connected_def Let_def reset_session_state_def)
  show "connection_state (session_connected present s) = Connected"
    by (simp add: session_connected_def Let_def reset_session_state_def)
qed

lemma session_inv_set_if:
  "session_inv s \<Longrightarrow> (\<And>v. session_inv (f v s)) \<Longrightarrow> session_inv (set_if x f s)"
  by (simp add: set_if_def split: option.splits)

lemma session_inv_apply_params:
  assumes "session_inv s" "connection_state s = Connecting"
  shows "session_inv (snd (apply_connack_params params s))"
proof -
  let ?s1 = "session_connected (p_session_present params) s"
  note c = session_inv_connected [OF assms, of "p_session_present params"]
  have "session_inv (?s1\<lparr>flow_control := fc\<rparr>)"
    if "fc_set_receive_maximum m (flow_control ?s1) = Ok fc" for m fc
    using that c
    by (auto simp: fc_set_receive_maximum_def session_inv_def quota_ok_def window_ok_def
        word_neq_0_conv split: if_splits)
  then show ?thesis
    using c(1)
    by (auto simp: apply_connack_params_def Let_def set_session_expiry_interval_def
        split: option.splits result.splits
        intro!: session_inv_set_if session_inv_frame no_aliases_set_peer session_invD(5))
qed

lemma session_inv_apply_connack:
  assumes "session_inv s"
  shows "session_inv (snd (apply_connack params s))"
proof -
  have "session_inv (s\<lparr>auth_state := a\<rparr>)"
    if "auth_connack_received (p_authentication_method params) (auth_state s) = Ok a" for a
    using that assms auth_inv_connack [OF session_invD(4) [OF assms]] by (auto intro: session_inv_frame)
  then show ?thesis
    using assms session_inv_apply_params
    by (auto simp: apply_connack_def connack_rejected_def split: option.splits result.splits if_splits)
qed

subsection \<open>Handshakes\<close>

text \<open>A finished handshake gives back its quota and its identifier.\<close>

lemma session_inv_finish:
  assumes "session_inv s" "i \<in> flow_ids (qos_flow s)"
  shows "session_inv (finish_outgoing i (s\<lparr>qos_flow := qf_drop i (qos_flow s)\<rparr>))"
  using assms
  by (auto simp: session_inv_def finish_outgoing_def pid_inv_release qf_wf_drop ids_ok_drop
      quota_ok_drop window_ok_acked)

lemma session_inv_qos_flow:
  assumes "session_inv s" "qf_wf q" "flow_ids q = flow_ids (qos_flow s)"
    "qf_charged q = qf_charged (qos_flow s)"
  shows "session_inv (s\<lparr>qos_flow := q\<rparr>)"
  using assms by (auto simp: session_inv_def intro: ids_ok_flows quota_ok_cong)

lemma handle_puback_eq:
  assumes "qf_wf (qos_flow s)"
  shows "handle_puback i s =
     (if map_option flow_st (bt_get (outgoing (qos_flow s)) i) = Some AwaitingPuback
      then (Ok (Some (Complete i)), finish_outgoing i (s\<lparr>qos_flow := qf_drop i (qos_flow s)\<rparr>))
      else (qf_unmatched (qos_flow s) i, s))"
  by (auto simp: handle_puback_def qf_puback_received_eq [OF assms] qf_unmatched_def Let_def)

lemma handle_pubcomp_eq:
  assumes "qf_wf (qos_flow s)"
  shows "handle_pubcomp i s =
     (if map_option flow_st (bt_get (outgoing (qos_flow s)) i) = Some AwaitingPubcomp
      then (Ok (Some (Complete i)), finish_outgoing i (s\<lparr>qos_flow := qf_drop i (qos_flow s)\<rparr>))
      else (qf_unmatched (qos_flow s) i, s))"
  by (auto simp: handle_pubcomp_def qf_pubcomp_received_eq [OF assms] qf_unmatched_def Let_def)

lemma handle_pubrec_eq:
  assumes "qf_wf (qos_flow s)"
  shows "handle_pubrec i rc s =
     (case bt_get (outgoing (qos_flow s)) i of
        None \<Rightarrow> (qf_unmatched (qos_flow s) i, s)
      | Some f \<Rightarrow>
          if flow_st f = AwaitingPubrec then
            if 0x80 \<le> rc
            then (Ok (Some (Aborted i)), finish_outgoing i (s\<lparr>qos_flow := qf_drop i (qos_flow s)\<rparr>))
            else (Ok (Some (SendPubrel i)),
                  s\<lparr>qos_flow := qf_put i AwaitingPubcomp (quota_charged f) (qos_flow s)\<rparr>)
          else if flow_st f = AwaitingPubcomp \<and> rc < 0x80 then (Ok (Some (SendPubrel i)), s)
          else (Err StateMismatch, s))"
  by (auto simp: handle_pubrec_def qf_pubrec_received_eq [OF assms] qf_unmatched_def Let_def
      split: option.splits)

lemma session_inv_puback: "session_inv s \<Longrightarrow> session_inv (snd (handle_puback i s))"
  using session_inv_finish [of s i] by (auto simp: handle_puback_eq session_invD(2))

lemma session_inv_pubcomp: "session_inv s \<Longrightarrow> session_inv (snd (handle_pubcomp i s))"
  using session_inv_finish [of s i] by (auto simp: handle_pubcomp_eq session_invD(2))

lemma session_inv_pubrec:
  assumes inv: "session_inv s"
  shows "session_inv (snd (handle_pubrec i rc s))"
proof (cases "bt_get (outgoing (qos_flow s)) i")
  case None
  then show ?thesis using inv by (simp add: handle_pubrec_eq session_invD(2))
next
  case (Some f)
  note wf = session_invD(2) [OF inv]
  have i0: "i \<noteq> 0" using Some qf_wfD(3) [OF wf] by auto
  have charged: "quota_charged f \<longleftrightarrow> i \<in> qf_charged (qos_flow s)"
    using Some by (simp add: qf_charged_def qf_is_quota_charged_def)
  have "session_inv (s\<lparr>qos_flow := qf_put i AwaitingPubcomp (quota_charged f) (qos_flow s)\<rparr>)"
  proof (rule session_inv_qos_flow [OF inv])
    show "qf_wf (qf_put i AwaitingPubcomp (quota_charged f) (qos_flow s))"
      using wf i0 by (simp add: qf_wf_put)
  qed (use qf_wfD(1) [OF wf] charged Some in auto)
  then show ?thesis
    using inv Some session_inv_finish [OF inv, of i] by (auto simp: handle_pubrec_eq wf)
qed

lemma session_inv_pubrel: "session_inv s \<Longrightarrow> session_inv (snd (handle_pubrel i s))"
  by (auto simp: handle_pubrel_def qf_pubrel_received_eq session_invD(2)
      intro!: session_inv_qos_flow qf_wf_incoming_drop split: option.splits flow_state.splits)

lemma session_inv_charge_incoming:
  "session_inv s \<Longrightarrow> charge_incoming i s = Ok s' \<Longrightarrow>
   session_inv s' \<and> qos_flow s' = qos_flow s"
  using window_ok_received [of "flow_control s"]
  by (auto simp: charge_incoming_def rbind_Ok_iff session_inv_def quota_ok_def
      fc_publish_received_def split: if_splits)

lemma session_inv_incoming:
  "session_inv s \<Longrightarrow> st \<in> {AwaitingPubrel, IncomingAwaitingPuback} \<Longrightarrow>
   session_inv (s\<lparr>qos_flow := (qos_flow s)\<lparr>incoming := bt_insert i st (incoming (qos_flow s))\<rparr>\<rparr>)"
  using qf_wf_incoming_put [OF session_invD(2), of s st i] by (intro session_inv_qos_flow) auto

lemma session_inv_publish_received:
  assumes "session_inv s"
  shows "session_inv (snd (handle_publish_qos1 i s))" "session_inv (snd (handle_publish_qos2 i s))"
proof -
  have "session_inv (s'\<lparr>qos_flow := (qos_flow s')\<lparr>incoming := bt_insert i st (incoming (qos_flow s'))\<rparr>\<rparr>)"
    if "charge_incoming i s = Ok s'" "st \<in> {AwaitingPubrel, IncomingAwaitingPuback}" for s' st
    using session_inv_charge_incoming [OF assms that(1)] that(2) by (intro session_inv_incoming) auto
  then show "session_inv (snd (handle_publish_qos1 i s))" "session_inv (snd (handle_publish_qos2 i s))"
    using assms
    by (auto simp: handle_publish_qos1_def handle_publish_qos2_def qf_publish_received_qos1_def
        qf_publish_received_qos2_def Let_def split: result.splits)
qed

lemma session_inv_flow_control:
  "session_inv s \<Longrightarrow> fc_outstanding_count fc = fc_outstanding_count (flow_control s) \<Longrightarrow>
   window_ok fc (connection_state s) \<Longrightarrow> session_inv (s\<lparr>flow_control := fc\<rparr>)"
  by (auto simp: session_inv_def quota_ok_def)

lemma session_inv_ack_sent:
  assumes "session_inv s"
  shows "session_inv (s\<lparr>flow_control := fc_publish_ack_sent (flow_control s)\<rparr>)"
  using assms window_ok_ack_sent [OF session_invD(8) [OF assms]]
  by (intro session_inv_flow_control) (auto simp: fc_publish_ack_sent_def)

lemma session_inv_acks_sent:
  "session_inv s \<Longrightarrow> session_inv (session_pubrec_sent rc s)"
  "session_inv s \<Longrightarrow> session_inv (session_pubcomp_sent s)"
  by (auto simp: session_pubrec_sent_def session_pubcomp_sent_def session_inv_ack_sent)

lemma session_inv_puback_sent: "session_inv s \<Longrightarrow> session_inv (session_puback_sent i s)"
proof -
  assume inv: "session_inv s"
  have "session_inv (s\<lparr>qos_flow := qf_puback_sent i (qos_flow s)\<rparr>)"
    using inv by (auto simp: qf_puback_sent_eq session_invD(2)
        intro!: session_inv_qos_flow qf_wf_incoming_drop)
  from session_inv_ack_sent [OF this] show ?thesis by (simp add: session_puback_sent_def)
qed

subsection \<open>Sending\<close>

lemma session_inv_allocate: "session_inv s \<Longrightarrow> session_inv (snd (allocate_packet_id s))"
  by (auto simp: allocate_packet_id_def session_inv_def split: prod.splits
      dest: pid_inv_allocate ids_ok_allocate)

lemma session_inv_release:
  "session_inv s \<Longrightarrow> i \<notin> flow_ids (qos_flow s) \<Longrightarrow> i \<notin> sub_ids (subscription_manager s) \<Longrightarrow>
   i \<notin> unsub_ids (subscription_manager s) \<Longrightarrow> session_inv (release_packet_id i s)"
  by (auto simp: release_packet_id_def session_inv_def pid_inv_release ids_ok_release_unused)

lemma session_inv_publish_sent:
  assumes inv: "session_inv s" and conn: "connection_state s = Connected" and fresh: "fresh_id i s"
  shows "session_inv (snd (session_publish_sent q i s))"
proof -
  note wf = session_invD(2) [OF inv]
  have i: "i \<noteq> 0" "i \<notin> flow_ids (qos_flow s)"
    using fresh pid.zero_unused [OF session_invD(1) [OF inv]] by (auto simp: fresh_id_def)
  have nc: "i \<notin> qf_charged (qos_flow s)" using i(2) qf_charged_dom by blast
  have "session_inv (s\<lparr>flow_control := fc, qos_flow := qf_put i st True (qos_flow s)\<rparr>)"
    if fc: "fc_publish_sent (flow_control s) = Ok fc" and st: "st \<in> {AwaitingPuback, AwaitingPubrec}"
    for fc st
  proof -
    have "window_ok fc Connected"
      using window_ok_sent [OF _ fc] session_invD(8) [OF inv] conn by simp
    moreover have "quota_ok fc (qf_put i st True (qos_flow s))"
      using quota_ok_sent [OF session_invD(7) [OF inv] fc _ nc] qf_wfD(1) [OF wf] by simp
    moreover have "ids_ok (packet_id_manager s) (qf_put i st True (qos_flow s)) (subscription_manager s)"
      using session_invD(6) [OF inv] fresh qf_wfD(1) [OF wf] by (auto simp: ids_ok_def fresh_id_def)
    ultimately show ?thesis
      using inv conn st i(1) wf qf_wf_put [OF wf i(1), of st True] by (auto simp: session_inv_def)
  qed
  then show ?thesis
    using inv i
    by (auto simp: session_publish_sent_def qf_publish_sent_eq bt_contains_iff Let_def
        split: result.splits qos.splits)
qed

lemma session_inv_resend_publish:
  assumes inv: "session_inv s" and conn: "connection_state s = Connected"
  shows "session_inv (snd (resend_publish i s))"
proof -
  note wf = session_invD(2) [OF inv]
  have "session_inv (s\<lparr>flow_control := fc, qos_flow := qf_mark_quota_charged i (qos_flow s)\<rparr>)"
    if fc: "fc_publish_sent (flow_control s) = Ok fc" and d: "i \<in> flow_ids (qos_flow s)"
      and nc: "\<not> qf_is_quota_charged (qos_flow s) i" for fc
  proof -
    have "window_ok fc Connected"
      using window_ok_sent [OF _ fc] session_invD(8) [OF inv] conn by simp
    moreover have "quota_ok fc (qf_mark_quota_charged i (qos_flow s))"
      using quota_ok_sent [OF session_invD(7) [OF inv] fc qf_charged_mark [OF qf_wfD(1) [OF wf] d]] nc
      by (simp add: qf_charged_def)
    moreover have "ids_ok (packet_id_manager s) (qf_mark_quota_charged i (qos_flow s))
        (subscription_manager s)"
      by (rule ids_ok_flows [OF session_invD(6) [OF inv]]) (simp add: qf_wfD(1) [OF wf])
    ultimately show ?thesis using inv conn qf_wf_mark [OF wf] by (auto simp: session_inv_def)
  qed
  moreover have "i \<in> flow_ids (qos_flow s)" if "qf_needs_retransmission (qos_flow s) i = Some a" for a
    using that by (auto simp: qf_needs_retransmission_def split: option.splits)
  ultimately show ?thesis
    using inv by (auto simp: resend_publish_def Let_def split: option.splits action.splits result.splits)
qed

lemma session_inv_abort_publish:
  assumes inv: "session_inv s" and i: "i \<in> flow_ids (qos_flow s)"
  shows "session_inv (abort_publish i s)"
proof -
  let ?t = "finish_outgoing i (s\<lparr>qos_flow := qf_drop i (qos_flow s)\<rparr>)"
  have t: "session_inv ?t" using session_inv_finish [OF inv i] .
  have "session_inv (?t\<lparr>qos_flow := qf_release i (qos_flow s)\<rparr>)"
    using qf_wf_incoming_drop [OF qf_wf_drop [OF session_invD(2) [OF inv]], of i i]
    by (intro session_inv_qos_flow [OF t]) (auto simp: qf_release_eq finish_outgoing_def)
  moreover have "abort_publish i s = ?t\<lparr>qos_flow := qf_release i (qos_flow s)\<rparr>"
    using i by (simp add: abort_publish_def finish_outgoing_def qf_is_active_def bt_contains_iff Let_def)
  ultimately show ?thesis by simp
qed

subsection \<open>Subscriptions\<close>

lemma sm_confirm_pending [simp]:
  "sm_pending_subscribes (fold sm_confirm es sm) = sm_pending_subscribes sm"
  "sm_pending_unsubscribes (fold sm_confirm es sm) = sm_pending_unsubscribes sm"
  by (induction es arbitrary: sm) (auto simp: sm_confirm_eq split: option.splits)

lemma sm_unsubscribe_all_pending:
  "sm_unsubscribe_all fs sm = (l, sm') \<Longrightarrow>
   sm_pending_subscribes sm' = sm_pending_subscribes sm \<and>
   sm_pending_unsubscribes sm' = sm_pending_unsubscribes sm"
  by (induction fs arbitrary: sm l) (auto simp: sm_unsubscribe_one_eq split: prod.splits)

lemma suback_pending:
  "sm_suback_received i codes sm = Ok (r, sm') \<Longrightarrow>
   sub_ids sm' = sub_ids sm - {i} \<and> unsub_ids sm' = unsub_ids sm"
  by (auto simp: sm_suback_received_eq Let_def split: option.splits if_splits)

lemma unsuback_pending:
  "sm_unsuback_received i codes sm = Ok (r, sm') \<Longrightarrow>
   unsub_ids sm' = unsub_ids sm - {i} \<and> sub_ids sm' = sub_ids sm"
  by (auto simp: sm_unsuback_received_eq Let_def dest!: sm_unsubscribe_all_pending
      split: option.splits if_splits prod.splits)

lemma suback_returns: "\<exists>r sm'. sm_suback_received i codes sm = Ok (r, sm')"
  by (auto simp: sm_suback_received_eq Let_def split: option.splits)

lemma unsuback_returns: "\<exists>r sm'. sm_unsuback_received i codes sm = Ok (r, sm')"
  by (auto simp: sm_unsuback_received_eq Let_def split: option.splits prod.splits)

lemma shrink_ids:
  "F \<union> S \<union> U \<subseteq> P \<and> F \<inter> S = {} \<and> F \<inter> U = {} \<and> S \<inter> U = {} \<Longrightarrow> S' \<subseteq> S - {i} \<Longrightarrow> U' \<subseteq> U - {i} \<Longrightarrow>
   i \<notin> F \<Longrightarrow> F \<union> S' \<union> U' \<subseteq> P - {i} \<and> F \<inter> S' = {} \<and> F \<inter> U' = {} \<and> S' \<inter> U' = {}"
  by auto

text \<open>Replacing the subscription table and releasing the identifier of a finished request.\<close>

lemma session_inv_subs_release:
  assumes inv: "session_inv s" and sm: "sm_inv sm"
    and ids: "sub_ids sm \<subseteq> sub_ids (subscription_manager s) - {i}"
      "unsub_ids sm \<subseteq> unsub_ids (subscription_manager s) - {i}"
    and i: "i \<notin> flow_ids (qos_flow s)"
  shows "session_inv (s\<lparr>subscription_manager := sm,
     packet_id_manager := pid_release i (packet_id_manager s)\<rparr>)"
proof -
  have "ids_ok (pid_release i (packet_id_manager s)) (qos_flow s) sm"
    using session_invD(6) [OF inv] ids i
    unfolding ids_ok_def pid_used_release [OF session_invD(1) [OF inv]] by (rule shrink_ids)
  then show ?thesis using inv sm by (auto simp: session_inv_def pid_inv_release)
qed

lemma session_inv_suback:
  assumes inv: "session_inv s"
    and i: "i \<in> sub_ids (subscription_manager s) \<or> i \<notin> pid_used (packet_id_manager s)"
  shows "session_inv (snd (handle_suback i codes s))"
proof -
  from suback_returns obtain r sm' where
    r: "(sm_suback_received i codes (subscription_manager s) :: (_, handle_suback_error) result) = Ok (r, sm')"
    by blast
  have disj: "i \<notin> flow_ids (qos_flow s)" "i \<notin> unsub_ids (subscription_manager s)"
    using i session_invD(6) [OF inv] by (auto simp: ids_ok_def)
  show ?thesis
    using session_inv_subs_release [OF inv sm_inv_suback [OF session_invD(3) [OF inv] r], of i]
      suback_pending [OF r] disj
    by (auto simp: handle_suback_def r)
qed

lemma session_inv_unsuback:
  assumes inv: "session_inv s"
    and i: "i \<in> unsub_ids (subscription_manager s) \<or> i \<notin> pid_used (packet_id_manager s)"
  shows "session_inv (snd (handle_unsuback i codes s))"
proof -
  from unsuback_returns obtain r sm' where
    r: "(sm_unsuback_received i codes (subscription_manager s) :: (_, handle_unsuback_error) result) = Ok (r, sm')"
    by blast
  have disj: "i \<notin> flow_ids (qos_flow s)" "i \<notin> sub_ids (subscription_manager s)"
    using i session_invD(6) [OF inv] by (auto simp: ids_ok_def)
  show ?thesis
    using session_inv_subs_release [OF inv sm_inv_unsuback [OF session_invD(3) [OF inv] r], of i]
      unsuback_pending [OF r] disj
    by (auto simp: handle_unsuback_def r)
qed

lemma session_inv_abort_sub:
  assumes inv: "session_inv s"
  shows "i \<in> sub_ids (subscription_manager s) \<Longrightarrow> session_inv (abort_subscribe i s)"
    "i \<in> unsub_ids (subscription_manager s) \<Longrightarrow> session_inv (abort_unsubscribe i s)"
proof -
  note sm = session_invD(3) [OF inv] and ids = session_invD(6) [OF inv]
  note wf = sm_inv_wf [OF sm]
  assume "i \<in> sub_ids (subscription_manager s)"
  with ids show "session_inv (abort_subscribe i s)"
    unfolding abort_subscribe_def sm_drop_pending_subscribe_def snd_conv
    by (intro session_inv_subs_release [OF inv]) (use sm wf in \<open>auto simp: ids_ok_def\<close>)
next
  note sm = session_invD(3) [OF inv] and ids = session_invD(6) [OF inv]
  note wf = sm_inv_wf [OF sm]
  assume "i \<in> unsub_ids (subscription_manager s)"
  with ids show "session_inv (abort_unsubscribe i s)"
    unfolding abort_unsubscribe_def sm_drop_pending_unsubscribe_def snd_conv
    by (intro session_inv_subs_release [OF inv]) (use sm wf in \<open>auto simp: ids_ok_def\<close>)
qed

lemma session_inv_request_sent:
  assumes inv: "session_inv s" and fresh: "fresh_id i s"
  shows "session_inv (session_subscribe_sent i subs s)" "session_inv (session_unsubscribe_sent i fs s)"
proof -
  note sm = session_invD(3) [OF inv]
  note wf = sm_inv_wf [OF sm]
  show "session_inv (session_subscribe_sent i subs s)" "session_inv (session_unsubscribe_sent i fs s)"
    using inv fresh wf sm
    by (auto simp: session_subscribe_sent_def session_unsubscribe_sent_def sm_subscribe_sent_def
        sm_unsubscribe_sent_def session_inv_def ids_ok_def fresh_id_def)
qed

section \<open>The session as a transition system\<close>

text \<open>
  One rule per operation. The premises are the calling contract of the documentation: parameters are
  set before a connection is opened, \<^verbatim>\<open>connected\<close> answers a CONNECT, PUBLISH packets are sent
  while connected and carry an identifier that was allocated for them, an exchange is aborted only
  while it is in progress, and a SUBACK or UNSUBACK does not name the identifier of another exchange.
\<close>

inductive session_step :: "session \<Rightarrow> session \<Rightarrow> bool" where
  st_configure: "\<not> session_is_active s \<Longrightarrow> session_step s (snd (configure_for_connect k e t r m s))"
| st_expiry: "session_step s (set_session_expiry_interval n s)"
| st_connect_sent: "session_step s (connect_sent s)"
| st_connect_sent_with_auth: "session_step s (snd (connect_sent_with_auth meth s))"
| st_apply_connack: "session_step s (snd (apply_connack params s))"
| st_connected: "connection_state s = Connecting \<Longrightarrow> session_step s (session_connected present s)"
| st_disconnect_sent: "session_step s (disconnect_sent s)"
| st_disconnect_received: "session_step s (disconnect_received s)"
| st_disconnected: "session_step s (session_disconnected s)"
| st_pingresp: "session_step s (session_pingresp_received s)"
| st_pingreq: "session_step s (session_pingreq_sent now s)"
| st_activity: "session_step s (session_activity now s)"
| st_auth: "(session_auth_received rc am s :: (_, unit) result) = Ok (act, s') \<Longrightarrow> session_step s s'"
| st_reauth: "session_step s (snd (session_reauthenticate_sent s))"
| st_puback: "session_step s (snd (handle_puback i s))"
| st_pubrec: "session_step s (snd (handle_pubrec i rc s))"
| st_pubrel: "session_step s (snd (handle_pubrel i s))"
| st_pubcomp: "session_step s (snd (handle_pubcomp i s))"
| st_publish_qos1: "session_step s (snd (handle_publish_qos1 i s))"
| st_publish_qos2: "session_step s (snd (handle_publish_qos2 i s))"
| st_puback_sent: "session_step s (session_puback_sent i s)"
| st_pubrec_sent: "session_step s (session_pubrec_sent rc s)"
| st_pubcomp_sent: "session_step s (session_pubcomp_sent s)"
| st_resend_publish: "connection_state s = Connected \<Longrightarrow> session_step s (snd (resend_publish i s))"
| st_allocate: "session_step s (snd (allocate_packet_id s))"
| st_publish_sent: "connection_state s = Connected \<Longrightarrow> fresh_id i s \<Longrightarrow>
    session_step s (snd (session_publish_sent q i s))"
| st_abort_publish: "i \<in> flow_ids (qos_flow s) \<Longrightarrow> session_step s (abort_publish i s)"
| st_release: "i \<notin> flow_ids (qos_flow s) \<Longrightarrow> i \<notin> sub_ids (subscription_manager s) \<Longrightarrow>
    i \<notin> unsub_ids (subscription_manager s) \<Longrightarrow> session_step s (release_packet_id i s)"
| st_subscribe_sent: "fresh_id i s \<Longrightarrow> session_step s (session_subscribe_sent i subs s)"
| st_unsubscribe_sent: "fresh_id i s \<Longrightarrow> session_step s (session_unsubscribe_sent i fs s)"
| st_abort_subscribe: "i \<in> sub_ids (subscription_manager s) \<Longrightarrow> session_step s (abort_subscribe i s)"
| st_abort_unsubscribe: "i \<in> unsub_ids (subscription_manager s) \<Longrightarrow>
    session_step s (abort_unsubscribe i s)"
| st_suback: "i \<in> sub_ids (subscription_manager s) \<or> i \<notin> pid_used (packet_id_manager s) \<Longrightarrow>
    session_step s (snd (handle_suback i codes s))"
| st_unsuback: "i \<in> unsub_ids (subscription_manager s) \<or> i \<notin> pid_used (packet_id_manager s) \<Longrightarrow>
    session_step s (snd (handle_unsuback i codes s))"
| st_reset: "session_step s (session_reset s)"

inductive session_reachable :: "session \<Rightarrow> bool" where
  reach_new: "session_new v c clean = Ok s \<Longrightarrow> session_reachable s"
| reach_step: "session_reachable s \<Longrightarrow> session_step s s' \<Longrightarrow> session_reachable s'"

lemmas session_inv_intros = session_inv_configure session_inv_connect_sent
  session_inv_connect_sent_with_auth session_inv_apply_connack session_inv_connected(1)
  session_inv_disconnect session_inv_keep_alive session_inv_auth_received session_inv_reauthenticate
  session_inv_puback session_inv_pubrec session_inv_pubrel session_inv_pubcomp
  session_inv_publish_received session_inv_puback_sent session_inv_acks_sent
  session_inv_resend_publish session_inv_allocate session_inv_publish_sent
  session_inv_abort_publish session_inv_release session_inv_request_sent session_inv_abort_sub
  session_inv_suback session_inv_unsuback session_inv_reset

lemma session_inv_step: "session_step s s' \<Longrightarrow> session_inv s \<Longrightarrow> session_inv s'"
proof (induction rule: session_step.induct)
  case (st_expiry s n)
  then show ?case by (simp add: set_session_expiry_interval_def session_inv_frame)
qed (blast intro: session_inv_intros)+

lemma session_reachable_inv: "session_reachable s \<Longrightarrow> session_inv s"
  by (induction rule: session_reachable.induct) (blast intro: session_inv_new session_inv_step)+

lemma session_allocate_fresh_core:
  assumes inv: "session_inv s"
  shows "case allocate_packet_id s of
       (Some i, s') \<Rightarrow> i \<noteq> 0 \<and> i \<notin> flow_ids (qos_flow s) \<and> i \<notin> sub_ids (subscription_manager s) \<and>
          i \<notin> unsub_ids (subscription_manager s) \<and> fresh_id i s'
     | (None, s') \<Rightarrow> pid_used (packet_id_manager s) = - {0}"
proof -
  note p = session_invD(1) [OF inv] and ids = session_invD(6) [OF inv]
  obtain r p' where r: "pid_allocate (packet_id_manager s) = (r, p')" by fastforce
  show ?thesis
  proof (cases r)
    case None
    with r pid.alloc_None_iff [OF p] show ?thesis by (simp add: allocate_packet_id_def)
  next
    case (Some i)
    with pid.alloc_fresh [OF p] r have "i \<noteq> 0" "i \<notin> pid_used (packet_id_manager s)"
      "pid_used p' = insert i (pid_used (packet_id_manager s))" by auto
    with ids r Some show ?thesis
      by (auto simp: allocate_packet_id_def fresh_id_def ids_ok_def)
  qed
qed

section \<open>Properties\<close>


definition demo_session :: session where
  "demo_session =
     \<lparr>protocol_version = V5, connection_state = Disconnected, client_id = [97], clean_start = True,
      session_expiry_interval = 0, packet_id_manager = pid_new, qos_flow = qf_new,
      flow_control = fc_new, subscription_manager = sm_new, topic_alias_manager = ta_new,
      keep_alive = ka_new 0, auth_state = auth_new, server_capabilities = capabilities_new,
      session_limits = limits_new\<rparr>"

lemma demo_new: "session_new V5 [97] True = Ok demo_session"
  by (simp add: session_new_def demo_session_def)

lemma demo_reachable: "session_reachable (connect_sent demo_session)"
  by (blast intro: reach_new [OF demo_new] reach_step st_connect_sent)


text \<open>
  In every reachable session a newly allocated packet identifier is non-zero and belongs to no
  unfinished PUBLISH, SUBSCRIBE or UNSUBSCRIBE exchange, and allocation fails only when all 65535
  identifiers are taken.
\<close>

theorem session_allocate_fresh:
  assumes "session_reachable s"
  shows "case allocate_packet_id s of
       (Some i, s') \<Rightarrow> i \<noteq> 0 \<and> i \<notin> flow_ids (qos_flow s) \<and> i \<notin> sub_ids (subscription_manager s) \<and>
          i \<notin> unsub_ids (subscription_manager s) \<and> fresh_id i s'
     | (None, s') \<Rightarrow> pid_used (packet_id_manager s) = - {0}"
  by (rule session_allocate_fresh_core [OF session_reachable_inv [OF assms]])

theorem session_allocate_fresh_witness:
  "case allocate_packet_id (connect_sent demo_session) of
       (Some i, s') \<Rightarrow> i \<noteq> 0 \<and> fresh_id i s'
     | (None, s') \<Rightarrow> False"
proof -
  have "allocate_packet_id (connect_sent demo_session) = (Some 1,
      (connect_sent demo_session)\<lparr>packet_id_manager := \<lparr>next_id = 2, free_list = [], in_use = [1]\<rparr>\<rparr>)"
    by (simp add: allocate_packet_id_def connect_sent_def reset_connection_state_def demo_session_def
        pid_allocate_new)
  with session_allocate_fresh [OF demo_reachable] show ?thesis by simp
qed

text \<open>
  In every reachable session the number of unacknowledged outgoing PUBLISH packets is at most the
  server's receive maximum and at most the number of handshakes that hold send quota, and while a
  connection is open the number of unacknowledged incoming ones is at most the client's own maximum.
\<close>

theorem session_quota_bounds:
  assumes "session_reachable s"
  shows "fc_outstanding_count (flow_control s) \<le> fc_receive_maximum (flow_control s) \<and>
     unat (fc_outstanding_count (flow_control s)) \<le> card (qf_charged (qos_flow s)) \<and>
     (session_is_active s \<longrightarrow>
        fc_incoming_count (flow_control s) \<le> fc_own_receive_maximum (flow_control s))"
  using session_reachable_inv [OF assms]
  by (auto simp: session_inv_def window_ok_def quota_ok_def session_is_active_def)

theorem session_quota_bounds_witness:
  "session_is_active (connect_sent demo_session) \<and>
   fc_incoming_count (flow_control (connect_sent demo_session))
     \<le> fc_own_receive_maximum (flow_control (connect_sent demo_session))"
  using session_quota_bounds [OF demo_reachable]
  by (simp add: session_is_active_def connect_sent_def reset_connection_state_def)

end
