(* ===== verification/SessionConnect.thy ===== *)
theory SessionConnect
  imports SessionRun
begin

text \<open>
  Opening and keeping a connection: which CONNACK a session accepts and what it makes of it, what
  survives a reconnection, the exact accounting of the send quota within one connection, and the
  behaviour of the handlers for received PUBLISH packets.
\<close>

section \<open>Opening a connection\<close>

text \<open>What a CONNACK has to satisfy to be accepted, as one condition.\<close>

definition connack_acceptable :: "connack_params \<Rightarrow> session \<Rightarrow> bool" where
  "connack_acceptable params s \<longleftrightarrow>
     connection_state s = Connecting \<and>
     p_reason_code params = (if is_v5 s then ReasonV5 Success else ReasonV311 Accepted) \<and>
     (is_v5 s \<or> \<not> has_v5_only_fields params) \<and>
     \<not> (p_session_present params \<and> clean_start s) \<and>
     (is_v311 s \<or> client_id s \<noteq> [] \<or> p_assigned_client_identifier params \<notin> {None, Some []}) \<and>
     p_receive_maximum params \<noteq> Some 0 \<and>
     p_maximum_packet_size params \<noteq> Some 0 \<and>
     p_maximum_qos params \<noteq> Some ExactlyOnce \<and>
     (is_v311 s \<or>
      (if auth_phase (auth_state s) = InitialAuthenticating
       then p_authentication_method params \<noteq> None \<and>
            p_authentication_method params = auth_method (auth_state s)
       else p_authentication_method params = None))"

lemma is_v311_iff: "is_v311 s \<longleftrightarrow> \<not> is_v5 s"
  by (cases "protocol_version s") (auto simp: is_v5_def is_v311_def)

lemma connack_rejected_None_iff:
  "connack_rejected params s = None \<longleftrightarrow>
     connection_state s = Connecting \<and>
     p_reason_code params = (if is_v5 s then ReasonV5 Success else ReasonV311 Accepted) \<and>
     (is_v5 s \<or> \<not> has_v5_only_fields params) \<and>
     \<not> (p_session_present params \<and> clean_start s) \<and>
     (is_v311 s \<or> client_id s \<noteq> [] \<or> p_assigned_client_identifier params \<notin> {None, Some []}) \<and>
     p_receive_maximum params \<noteq> Some 0 \<and> p_maximum_packet_size params \<noteq> Some 0 \<and>
     p_maximum_qos params \<noteq> Some ExactlyOnce"
  by (cases "p_reason_code params"; cases "p_assigned_client_identifier params")
    (auto simp: connack_rejected_def is_v311_iff)

lemma apply_connack_params_Ok:
  assumes "p_receive_maximum params \<noteq> Some 0"
  shows "fst (apply_connack_params params s) = Ok ()"
  using assms
  by (auto simp: apply_connack_params_def Let_def fc_set_receive_maximum_def
      split: option.splits result.splits)

lemma auth_connack_Ok_iff:
  "auth_inv a \<Longrightarrow> (\<exists>a'. auth_connack_received m a = Ok a') \<longleftrightarrow>
     (if auth_phase a = InitialAuthenticating then m \<noteq> None \<and> m = auth_method a else m = None)"
  by (cases m; cases "auth_method a")
    (auto simp: auth_connack_received_def auth_inv_def split: auth_phase.splits)

lemma apply_connack_Ok_iff:
  assumes "auth_inv (auth_state s)"
  shows "fst (apply_connack params s) = Ok () \<longleftrightarrow> connack_acceptable params s"
proof (cases "connack_rejected params s")
  case None
  then have rm: "p_receive_maximum params \<noteq> Some 0" by (simp add: connack_rejected_None_iff)
  show ?thesis
  proof (cases "is_v5 s")
    case True
    have "fst (apply_connack params s) = Ok () \<longleftrightarrow>
        (\<exists>a'. auth_connack_received (p_authentication_method params) (auth_state s) = Ok a')"
      using None True apply_connack_params_Ok [OF rm]
      by (auto simp: apply_connack_def split: result.splits)
    with None True auth_connack_Ok_iff [OF assms] show ?thesis
      by (simp add: connack_acceptable_def connack_rejected_None_iff is_v311_iff)
  next
    case False
    have "fst (apply_connack params s) = Ok ()"
      using None False apply_connack_params_Ok [OF rm] by (simp add: apply_connack_def)
    moreover have "connack_acceptable params s"
      using None False by (simp add: connack_acceptable_def connack_rejected_None_iff is_v311_iff)
    ultimately show ?thesis by simp
  qed
next
  case (Some e)
  then have "\<not> connack_acceptable params s"
    using connack_rejected_None_iff [of params s] by (auto simp: connack_acceptable_def)
  with Some show ?thesis by (simp add: apply_connack_def)
qed

lemma apply_connack_cases:
  assumes "auth_inv (auth_state s)"
  obtains s' where "apply_connack params s = (Ok (), s')"
  | e where "apply_connack params s = (Err e, s)"
proof (cases "connack_rejected params s")
  case (Some e)
  then have "apply_connack params s = (Err e, s)" by (simp add: apply_connack_def)
  then show thesis by (rule that(2))
next
  case None
  then have rm: "p_receive_maximum params \<noteq> Some 0" by (simp add: connack_rejected_None_iff)
  have ok: "apply_connack_params params t = (Ok (), snd (apply_connack_params params t))" for t
    using apply_connack_params_Ok [OF rm, of t] by (metis prod.collapse)
  show thesis
  proof (cases "is_v5 s")
    case True
    show ?thesis
    proof (cases "auth_connack_received (p_authentication_method params) (auth_state s)")
      case (Ok a)
      with None True ok [of "s\<lparr>auth_state := a\<rparr>"] that(1) show ?thesis
        by (simp add: apply_connack_def)
    next
      case (Err e)
      with None True that(2) show ?thesis by (simp add: apply_connack_def)
    next
      case Panic
      with auth_connack_no_panic [OF assms] show ?thesis by blast
    qed
  next
    case False
    with None ok [of s] that(1) show ?thesis by (simp add: apply_connack_def)
  qed
qed


text \<open>What an accepted CONNACK makes of the session that has just sent its CONNECT.\<close>

lemma set_if_simps [simp]: "set_if None f s = s" "set_if (Some v) f s = f v s"
  by (simp_all add: set_if_def)

definition negotiated_capabilities :: "connack_params \<Rightarrow> server_capabilities" where
  "negotiated_capabilities p =
     (let get = (\<lambda>x d. case x of None \<Rightarrow> d | Some v \<Rightarrow> v) in
      \<lparr>cap_maximum_packet_size = p_maximum_packet_size p,
       cap_maximum_qos = (case p_maximum_qos p of None \<Rightarrow> ExactlyOnce | Some q \<Rightarrow> q),
       cap_retain_available = get (p_retain_available p) True,
       cap_wildcard_subscription_available = get (p_wildcard_subscription_available p) True,
       cap_subscription_identifiers_available = get (p_subscription_identifiers_available p) True,
       cap_shared_subscription_available = get (p_shared_subscription_available p) True\<rparr>)"

lemma apply_capabilities_new: "apply_capabilities p capabilities_new = negotiated_capabilities p"
  by (simp add: apply_capabilities_def negotiated_capabilities_def capabilities_new_def set_if_def Let_def
      split: option.splits)

definition params_applied :: "connack_params \<Rightarrow> session \<Rightarrow> session" where
  "params_applied p s =
     s\<lparr>flow_control := (case p_receive_maximum p of None \<Rightarrow> flow_control s
         | Some m \<Rightarrow> (flow_control s)\<lparr>fc_receive_maximum := m, fc_initialized := True\<rparr>),
       session_expiry_interval := (case p_session_expiry_interval p of
           None \<Rightarrow> session_expiry_interval s | Some n \<Rightarrow> n),
       topic_alias_manager := (case p_topic_alias_maximum p of
           None \<Rightarrow> topic_alias_manager s | Some m \<Rightarrow> ta_set_peer_maximum m (topic_alias_manager s)),
       keep_alive := (case p_server_keep_alive p of
           None \<Rightarrow> keep_alive s | Some k \<Rightarrow> ka_set_keep_alive k (keep_alive s)),
       server_capabilities := apply_capabilities p (server_capabilities s),
       client_id := (if client_id s = [] then
           (case p_assigned_client_identifier p of None \<Rightarrow> [] | Some i \<Rightarrow> i) else client_id s)\<rparr>"

lemma apply_connack_params_eq:
  assumes "p_receive_maximum p \<noteq> Some 0"
  shows "snd (apply_connack_params p s) = params_applied p (session_connected (p_session_present p) s)"
proof -
  define t where "t = session_connected (p_session_present p) s"
  show ?thesis
    using assms unfolding apply_connack_params_def params_applied_def t_def [symmetric] Let_def
    by (simp add: fc_set_receive_maximum_def set_session_expiry_interval_def set_if_def
        split: option.split)
qed

lemma apply_connack_Ok_eq:
  assumes "apply_connack p s = (Ok (), s')"
  shows "\<exists>a. s' = params_applied p (session_connected (p_session_present p) (s\<lparr>auth_state := a\<rparr>))"
proof -
  have rej: "connack_rejected p s = None"
    using assms by (auto simp: apply_connack_def split: option.splits)
  then have rm: "p_receive_maximum p \<noteq> Some 0" by (simp add: connack_rejected_None_iff)
  have eq: "apply_connack_params p t = (Ok (), s') \<Longrightarrow>
      s' = params_applied p (session_connected (p_session_present p) t)" for t
    using apply_connack_params_eq [OF rm, of t] by simp
  show ?thesis
  proof (cases "is_v5 s")
    case True
    with assms rej obtain a where "apply_connack_params p (s\<lparr>auth_state := a\<rparr>) = (Ok (), s')"
      by (auto simp: apply_connack_def split: result.splits)
    from eq [OF this] show ?thesis by blast
  next
    case False
    with assms rej have "apply_connack_params p s = (Ok (), s')" by (simp add: apply_connack_def)
    from eq [OF this] have "s' = params_applied p (session_connected (p_session_present p)
        (s\<lparr>auth_state := auth_state s\<rparr>))" by simp
    then show ?thesis by blast
  qed
qed

lemma connect_sent_fields [simp]:
  "connection_state (connect_sent s) = Connecting"
  "clean_start (connect_sent s) = clean_start s" "client_id (connect_sent s) = client_id s"
  "protocol_version (connect_sent s) = protocol_version s"
  "flow_control (connect_sent s) = fc_reset True (flow_control s)"
  "qos_flow (connect_sent s) = qf_clear_quota_charges (qos_flow s)"
  "packet_id_manager (connect_sent s) = packet_id_manager s"
  "subscription_manager (connect_sent s) = subscription_manager s"
  "server_capabilities (connect_sent s) = capabilities_new"
  by (simp_all add: connect_sent_def reset_connection_state_def)

lemma qf_needs_clear: "qf_needs_retransmission (qf_clear_quota_charges q) i = qf_needs_retransmission q i"
  by (simp add: qf_needs_retransmission_def qf_clear_quota_charges_def split: option.splits)

lemma pending_clear: "qf_pending_packet_ids (qf_clear_quota_charges q) = qf_pending_packet_ids q"
  by (simp add: qf_pending_queue qf_queue_clear)

lemma pending_retransmissions_clear:
  "qos_flow s' = qf_clear_quota_charges (qos_flow s) \<Longrightarrow>
   pending_retransmissions s' = pending_retransmissions s"
  by (simp add: pending_retransmissions_def pending_clear qf_needs_clear)

lemma session_connected_fields [simp]:
  "connection_state (session_connected present s) = Connected"
  "flow_control (session_connected present s) = flow_control s"
  "server_capabilities (session_connected present s) = server_capabilities s"
  "client_id (session_connected present s) = client_id s"
  "clean_start (session_connected present s) = clean_start s"
  "qos_flow (session_connected present s) = (if clean_start s \<or> \<not> present then qf_new else qos_flow s)"
  "packet_id_manager (session_connected present s) =
     (if clean_start s \<or> \<not> present then pid_new else packet_id_manager s)"
  "subscription_manager (session_connected present s) =
     (if clean_start s \<or> \<not> present then sm_new else subscription_manager s)"
  by (simp_all add: session_connected_def reset_session_state_def Let_def)

section \<open>Exact accounting within one connection\<close>

definition quota_exact :: "session \<Rightarrow> bool" where
  "quota_exact s \<longleftrightarrow> qf_charged (qos_flow s) = flow_ids (qos_flow s) \<and>
     unat (fc_outstanding_count (flow_control s)) = card (flow_ids (qos_flow s))"

lemma quota_exact_cong:
  "quota_exact s \<Longrightarrow> fc_outstanding_count (flow_control s') = fc_outstanding_count (flow_control s) \<Longrightarrow>
   qf_charged (qos_flow s') = qf_charged (qos_flow s) \<Longrightarrow> flow_ids (qos_flow s') = flow_ids (qos_flow s) \<Longrightarrow>
   quota_exact s'"
  by (simp add: quota_exact_def)

lemma quota_exact_finish:
  assumes "session_inv s" "quota_exact s" "i \<in> flow_ids (qos_flow s)"
  shows "quota_exact (finish_outgoing i (s\<lparr>qos_flow := qf_drop i (qos_flow s)\<rparr>))"
  using assms
  by (auto simp: quota_exact_def finish_outgoing_def fc_publish_acked_def unat_sat_sub
      card_Diff_singleton)

lemma quota_exact_sent:
  assumes "quota_exact s" "fc_publish_sent (flow_control s) = Ok fc" "bt_wf (outgoing (qos_flow s))"
    "i \<notin> flow_ids (qos_flow s)"
  shows "quota_exact (s\<lparr>flow_control := fc, qos_flow := qf_put i st True (qos_flow s)\<rparr>)"
  using assms sending.charge_OkD [OF assms(2)] by (simp add: quota_exact_def)

lemma fc_frame [simp]:
  "fc_outstanding_count (fc_publish_ack_sent fc) = fc_outstanding_count fc"
  "fc_publish_received fc = Ok fc' \<Longrightarrow> fc_outstanding_count fc' = fc_outstanding_count fc"
  "fc_set_receive_maximum m fc = Ok fc' \<Longrightarrow> fc_outstanding_count fc' = fc_outstanding_count fc"
  by (auto simp: fc_publish_ack_sent_def fc_publish_received_def fc_set_receive_maximum_def
      split: if_splits)

lemma quota_exact_pubrec:
  assumes inv: "session_inv s" and ex: "quota_exact s"
  shows "quota_exact (snd (handle_pubrec i rc s))"
proof (cases "bt_get (outgoing (qos_flow s)) i")
  case None
  then show ?thesis using ex by (simp add: handle_pubrec_eq session_invD(2) [OF inv])
next
  case (Some f)
  note wf = session_invD(2) [OF inv]
  have "i \<in> qf_charged (qos_flow s)" using Some ex by (auto simp: quota_exact_def)
  then have "quota_charged f" using Some by (simp add: qf_charged_def qf_is_quota_charged_def)
  moreover have "insert i (flow_ids (qos_flow s)) = flow_ids (qos_flow s)" using Some by auto
  then have "quota_exact (s\<lparr>qos_flow := qf_put i AwaitingPubcomp True (qos_flow s)\<rparr>)"
    using ex qf_wfD(1) [OF wf] by (simp add: quota_exact_def)
  ultimately show ?thesis
    using Some ex quota_exact_finish [OF inv ex, of i] by (auto simp: handle_pubrec_eq wf)
qed

lemma quota_exact_publish_received:
  assumes "quota_exact s"
  shows "quota_exact (snd (handle_publish_qos1 i s))" "quota_exact (snd (handle_publish_qos2 i s))"
proof -
  have "quota_exact (s'\<lparr>qos_flow := (qos_flow s')\<lparr>incoming := m\<rparr>\<rparr>)"
    if "charge_incoming i s = Ok s'" for s' m
    using that assms
    by (auto simp: charge_incoming_def quota_exact_def rbind_Ok_iff split: if_splits)
  then show "quota_exact (snd (handle_publish_qos1 i s))" "quota_exact (snd (handle_publish_qos2 i s))"
    using assms
    by (auto simp: handle_publish_qos1_def handle_publish_qos2_def qf_publish_received_qos1_def
        qf_publish_received_qos2_def Let_def split: result.splits)
qed

lemma quota_exact_resend:
  assumes inv: "session_inv s" and ex: "quota_exact s"
  shows "snd (resend_publish i s) = s"
proof -
  have "qf_is_quota_charged (qos_flow s) i" if "qf_needs_retransmission (qos_flow s) i = Some a" for a
  proof -
    have "i \<in> flow_ids (qos_flow s)"
      using that by (auto simp: qf_needs_retransmission_def split: option.splits)
    with ex show ?thesis by (auto simp: quota_exact_def qf_charged_def)
  qed
  then show ?thesis
    by (auto simp: resend_publish_def Let_def split: option.splits action.splits)
qed

lemma quota_exact_publish_sent:
  assumes inv: "session_inv s" and ex: "quota_exact s" and fresh: "fresh_id i s"
  shows "quota_exact (snd (session_publish_sent q i s))"
proof -
  have i: "i \<noteq> 0" "i \<notin> flow_ids (qos_flow s)"
    using fresh pid.zero_unused [OF session_invD(1) [OF inv]] by (auto simp: fresh_id_def)
  then show ?thesis
    using ex quota_exact_sent [OF ex _ qf_wfD(1) [OF session_invD(2) [OF inv]] i(2)]
    by (auto simp: session_publish_sent_def qf_publish_sent_eq bt_contains_iff Let_def
        split: result.splits qos.splits)
qed

lemma quota_exact_abort_publish:
  assumes "session_inv s" "quota_exact s" "i \<in> flow_ids (qos_flow s)"
  shows "quota_exact (abort_publish i s)"
  by (rule quota_exact_cong [OF quota_exact_finish [OF assms]])
    (use assms(3) in \<open>auto simp: abort_publish_def finish_outgoing_def qf_is_active_def bt_contains_iff
      qf_release_eq Let_def\<close>)

lemma quota_exact_simple:
  assumes "quota_exact s"
  shows "quota_exact (snd (configure_for_connect k e t r m s))"
    "quota_exact (set_session_expiry_interval n s)" "quota_exact (session_pingresp_received s)"
    "quota_exact (session_pingreq_sent now s)" "quota_exact (session_activity now s)"
    "quota_exact (snd (session_reauthenticate_sent s))" "quota_exact (session_pubrec_sent rc s)"
    "quota_exact (session_pubcomp_sent s)" "quota_exact (snd (allocate_packet_id s))"
    "quota_exact (release_packet_id i s)" "quota_exact (session_subscribe_sent i subs s)"
    "quota_exact (session_unsubscribe_sent i fs s)" "quota_exact (abort_subscribe i s)"
    "quota_exact (abort_unsubscribe i s)" "quota_exact (snd (handle_suback i codes s))"
    "quota_exact (snd (handle_unsuback i codes s))" "quota_exact (disconnect_sent s)"
    "quota_exact (disconnect_received s)" "quota_exact (session_disconnected s)"
  using assms
  by (auto simp: quota_exact_def configure_for_connect_def Let_def fc_set_own_receive_maximum_def
      set_session_expiry_interval_def session_pingresp_received_def session_pingreq_sent_def
      session_activity_def session_reauthenticate_sent_def session_pubrec_sent_def
      session_pubcomp_sent_def allocate_packet_id_def release_packet_id_def
      session_subscribe_sent_def session_unsubscribe_sent_def abort_subscribe_def
      abort_unsubscribe_def handle_suback_def handle_unsuback_def disconnect_sent_def
      disconnect_received_def session_disconnected_def split: result.splits prod.splits if_splits)

lemma quota_exact_handlers:
  assumes inv: "session_inv s" and ex: "quota_exact s"
  shows "quota_exact (snd (handle_puback i s))" "quota_exact (snd (handle_pubcomp i s))"
    "quota_exact (snd (handle_pubrel i s))" "quota_exact (session_puback_sent i s)"
proof -
  note wf = session_invD(2) [OF inv]
  show "quota_exact (snd (handle_puback i s))" "quota_exact (snd (handle_pubcomp i s))"
    using ex quota_exact_finish [OF inv ex, of i] by (auto simp: handle_puback_eq handle_pubcomp_eq wf)
  show "quota_exact (snd (handle_pubrel i s))" "quota_exact (session_puback_sent i s)"
    using ex by (auto simp: handle_pubrel_def qf_pubrel_received_eq wf quota_exact_def
        session_puback_sent_def qf_puback_sent_eq split: option.splits flow_state.splits)
qed

text \<open>The clean start flag is a constant of the session; the simple operations keep it by definition.\<close>

lemmas session_op_defs = configure_for_connect_def set_session_expiry_interval_def
  connect_sent_with_auth_def disconnect_sent_def disconnect_received_def session_disconnected_def
  session_pingresp_received_def session_pingreq_sent_def session_activity_def
  session_auth_received_def session_reauthenticate_sent_def finish_outgoing_def handle_puback_def
  handle_pubrec_def handle_pubrel_def handle_pubcomp_def handle_publish_qos1_def
  handle_publish_qos2_def charge_incoming_def session_puback_sent_def session_pubrec_sent_def
  session_pubcomp_sent_def resend_publish_def allocate_packet_id_def session_publish_sent_def
  abort_publish_def release_packet_id_def session_subscribe_sent_def session_unsubscribe_sent_def
  abort_subscribe_def abort_unsubscribe_def handle_suback_def handle_unsuback_def session_reset_def
  apply_connack_def apply_connack_params_def set_if_def Let_def rbind_Ok_iff

lemma session_step_clean_start: "session_step s s' \<Longrightarrow> clean_start s' = clean_start s"
  by (induction rule: session_step.induct)
    (auto simp: session_op_defs
      split: option.split result.split prod.split action.split qos.split if_split)

lemma connect_sent_with_auth_state:
  "connection_state (snd (connect_sent_with_auth m s)) \<noteq> Connected \<or>
   snd (connect_sent_with_auth m s) = s"
  by (simp add: connect_sent_with_auth_def Let_def)

lemma quota_exact_session_connected:
  assumes "session_inv s" "connection_state s = Connecting" "clean_start s \<or> \<not> present"
  shows "quota_exact (session_connected present s)"
  using session_inv_connected(2) [OF assms(1,2), of present] assms(3) by (simp add: quota_exact_def)

lemma quota_exact_apply_connack:
  assumes inv: "session_inv s" and clean: "clean_start s"
    and ex: "connection_state s = Connected \<Longrightarrow> quota_exact s"
    and conn: "connection_state (snd (apply_connack p s)) = Connected"
  shows "quota_exact (snd (apply_connack p s))"
proof (rule apply_connack_cases [OF session_invD(4) [OF inv]])
  fix e assume "apply_connack p s = (Err e, s)"
  with ex conn show ?thesis by simp
next
  fix s' assume r: "apply_connack p s = (Ok (), s')"
  from apply_connack_Ok_eq [OF r] obtain a where
    s': "s' = params_applied p (session_connected (p_session_present p) (s\<lparr>auth_state := a\<rparr>))" by blast
  have "connection_state s = Connecting"
    using r by (auto simp: apply_connack_def connack_rejected_def split: if_splits)
  then have "fc_outstanding_count (flow_control s) = 0"
    using session_invD(8) [OF inv] by (simp add: window_ok_def)
  with clean show ?thesis
    by (auto simp: r s' quota_exact_def params_applied_def split: option.splits)
qed

lemma connection_state_frame:
  "connection_state (snd (configure_for_connect k e t r m s)) = connection_state s"
  "connection_state (set_session_expiry_interval n s) = connection_state s"
  "connection_state (session_pingresp_received s) = connection_state s"
  "connection_state (session_pingreq_sent now s) = connection_state s"
  "connection_state (session_activity now s) = connection_state s"
  "connection_state (snd (session_reauthenticate_sent s)) = connection_state s"
  "connection_state (session_pubrec_sent rc s) = connection_state s"
  "connection_state (session_pubcomp_sent s) = connection_state s"
  "connection_state (snd (allocate_packet_id s)) = connection_state s"
  "connection_state (release_packet_id i s) = connection_state s"
  "connection_state (session_subscribe_sent i subs s) = connection_state s"
  "connection_state (session_unsubscribe_sent i fs s) = connection_state s"
  "connection_state (abort_subscribe i s) = connection_state s"
  "connection_state (abort_unsubscribe i s) = connection_state s"
  "connection_state (snd (handle_suback i codes s)) = connection_state s"
  "connection_state (snd (handle_unsuback i codes s)) = connection_state s"
  "connection_state (snd (handle_puback i s)) = connection_state s"
  "connection_state (snd (handle_pubrec i rc s)) = connection_state s"
  "connection_state (snd (handle_pubrel i s)) = connection_state s"
  "connection_state (snd (handle_pubcomp i s)) = connection_state s"
  "connection_state (session_puback_sent i s) = connection_state s"
  "connection_state (snd (handle_publish_qos1 i s)) = connection_state s"
  "connection_state (snd (handle_publish_qos2 i s)) = connection_state s"
  "connection_state (abort_publish i s) = connection_state s"
  by (auto simp: session_op_defs
      split: option.split result.split prod.split action.split if_split)

lemma connection_state_closed:
  "connection_state (connect_sent s) \<noteq> Connected" "connection_state (disconnect_sent s) \<noteq> Connected"
  "connection_state (disconnect_received s) \<noteq> Connected"
  "connection_state (session_disconnected s) \<noteq> Connected"
  "connection_state (session_reset s) \<noteq> Connected"
  by (simp_all add: disconnect_sent_def disconnect_received_def session_disconnected_def session_reset_def)

lemma quota_exact_step:
  assumes "session_step s s'" "session_inv s" "clean_start s"
    "connection_state s = Connected \<Longrightarrow> quota_exact s" "connection_state s' = Connected"
  shows "quota_exact s'"
  using assms
proof (induction rule: session_step.induct)
  case (st_apply_connack s params)
  then show ?case using quota_exact_apply_connack by blast
next
  case (st_connected s present)
  then show ?case using quota_exact_session_connected by blast
next
  case (st_auth rc am s act s')
  then show ?case by (auto simp: session_auth_received_def rbind_Ok_iff quota_exact_def)
next
  case (st_connect_sent_with_auth s meth)
  then show ?case using connect_sent_with_auth_state by metis
next
  case (st_publish_sent s i q)
  then show ?case using quota_exact_publish_sent by blast
next
  case (st_resend_publish s i)
  then show ?case by (simp add: quota_exact_resend)
qed (simp_all add: connection_state_frame connection_state_closed quota_exact_simple
   quota_exact_handlers quota_exact_pubrec quota_exact_publish_received quota_exact_abort_publish)

section \<open>Properties\<close>

lemma quota_exact_reachable:
  "session_reachable s \<Longrightarrow> clean_start s \<Longrightarrow> connection_state s = Connected \<Longrightarrow> quota_exact s"
proof (induction rule: session_reachable.induct)
  case (reach_new v c clean s)
  then show ?case by (auto simp: session_new_def split: if_splits)
next
  case (reach_step s s')
  note clean = session_step_clean_start [OF reach_step.hyps(2)] reach_step.prems(1)
  show ?case
    using quota_exact_step [OF reach_step.hyps(2) session_reachable_inv [OF reach_step.hyps(1)]]
      reach_step.IH reach_step.prems clean by simp
qed

text \<open>
  C2: While a clean start session is connected, the number of PUBLISH packets counted as
  unacknowledged is exactly the number of unfinished outgoing QoS 1 and QoS 2 handshakes, so that no
  quota leaks and none is given back twice.
\<close>

theorem session_quota_accounting:
  assumes "session_reachable s" "clean_start s" "is_connected s"
  shows "unat (fc_outstanding_count (flow_control s)) = length (outgoing (qos_flow s))"
proof -
  note wf = qf_wfD(1) [OF session_invD(2) [OF session_reachable_inv [OF assms(1)]]]
  from quota_exact_reachable [OF assms(1,2)] assms(3) wf show ?thesis
    by (simp add: quota_exact_def is_connected_def length_bt_dom)
qed

definition demo_connack :: connack_params where
  "demo_connack =
     \<lparr>p_session_present = False, p_reason_code = ReasonV5 Success, p_session_expiry_interval = None,
      p_receive_maximum = Some 2, p_topic_alias_maximum = None, p_server_keep_alive = Some 30,
      p_maximum_packet_size = None, p_maximum_qos = None, p_retain_available = None,
      p_wildcard_subscription_available = None, p_subscription_identifiers_available = None,
      p_shared_subscription_available = None, p_assigned_client_identifier = None,
      p_authentication_method = None\<rparr>"

lemma demo_connected:
  obtains s' where "apply_connack demo_connack (connect_sent demo_session) = (Ok (), s')"
    "session_reachable s'" "is_connected s'" "clean_start s'"
proof -
  note inv = session_invD(4) [OF session_reachable_inv [OF demo_reachable]]
  have "connack_acceptable demo_connack (connect_sent demo_session)"
    by (simp add: connack_acceptable_def demo_connack_def is_v5_def is_v311_def demo_session_def
        connect_sent_def reset_connection_state_def auth_reset_def auth_new_def)
  with apply_connack_Ok_iff [OF inv] obtain s' where
    r: "apply_connack demo_connack (connect_sent demo_session) = (Ok (), s')" by (metis prod.collapse)
  have "session_reachable s'"
    using reach_step [OF demo_reachable st_apply_connack, of demo_connack] by (simp add: r)
  moreover from apply_connack_Ok_eq [OF r] have "is_connected s'" "clean_start s'"
    by (auto simp: is_connected_def params_applied_def demo_session_def)
  ultimately show thesis using that r by blast
qed

theorem session_quota_accounting_witness:
  "\<exists>s. apply_connack demo_connack (connect_sent demo_session) = (Ok (), s) \<and> is_connected s \<and>
     unat (fc_outstanding_count (flow_control s)) = length (outgoing (qos_flow s))"
  by (rule demo_connected) (use session_quota_accounting in blast)

text \<open>
  C16: In every reachable session a CONNACK is accepted exactly when it satisfies the stated condition,
  a rejected one leaves the whole session unchanged, and the call never panics.
\<close>

theorem session_connack_atomic:
  assumes "session_reachable s"
  shows "if connack_acceptable p s then fst (apply_connack p s) = Ok ()
     else \<exists>e. apply_connack p s = (Err e, s)"
proof (rule apply_connack_cases [OF session_invD(4) [OF session_reachable_inv [OF assms]], of p])
  fix s' assume "apply_connack p s = (Ok (), s')"
  with apply_connack_Ok_iff [OF session_invD(4) [OF session_reachable_inv [OF assms]], of p]
  show ?thesis by simp
next
  fix e assume "apply_connack p s = (Err e, s)"
  with apply_connack_Ok_iff [OF session_invD(4) [OF session_reachable_inv [OF assms]], of p]
  show ?thesis by simp
qed

theorem session_connack_atomic_witness:
  "\<not> connack_acceptable (demo_connack\<lparr>p_receive_maximum := Some 0\<rparr>) (connect_sent demo_session) \<and>
   (\<exists>e. apply_connack (demo_connack\<lparr>p_receive_maximum := Some 0\<rparr>) (connect_sent demo_session) =
      (Err e, connect_sent demo_session))"
proof -
  have "\<not> connack_acceptable (demo_connack\<lparr>p_receive_maximum := Some 0\<rparr>) (connect_sent demo_session)"
    by (simp add: connack_acceptable_def)
  with session_connack_atomic [OF demo_reachable, of "demo_connack\<lparr>p_receive_maximum := Some 0\<rparr>"]
  show ?thesis by simp
qed

text \<open>
  C18: When a session has sent its CONNECT and the CONNACK is accepted, it is connected with full quota in
  both directions, the receive maximum and the capabilities are those the CONNACK names or the
  defaults of the protocol, and the handshakes to retransmit are the ones of the previous connection
  if both sides resume the session and none otherwise.
\<close>

theorem session_handshake_effect:
  assumes "apply_connack p (connect_sent s) = (Ok (), s')"
  shows "is_connected s' \<and>
     fc_outstanding_count (flow_control s') = 0 \<and> fc_incoming_count (flow_control s') = 0 \<and>
     fc_receive_maximum (flow_control s') = (case p_receive_maximum p of None \<Rightarrow> 65535 | Some m \<Rightarrow> m) \<and>
     server_capabilities s' = negotiated_capabilities p \<and>
     pending_retransmissions s' =
       (if p_session_present p \<and> \<not> clean_start s then pending_retransmissions s else []) \<and>
     (packet_id_manager s', subscription_manager s') =
       (if p_session_present p \<and> \<not> clean_start s then (packet_id_manager s, subscription_manager s)
        else (pid_new, sm_new))"
proof -
  from apply_connack_Ok_eq [OF assms] obtain a where
    s': "s' = params_applied p (session_connected (p_session_present p) ((connect_sent s)\<lparr>auth_state := a\<rparr>))"
    by blast
  have q: "qos_flow s' = (if clean_start s \<or> \<not> p_session_present p then qf_new
      else qf_clear_quota_charges (qos_flow s))"
    by (simp add: s' params_applied_def)
  have "pending_retransmissions s' =
      (if p_session_present p \<and> \<not> clean_start s then pending_retransmissions s else [])"
  proof (cases "clean_start s \<or> \<not> p_session_present p")
    case True
    with q show ?thesis by (auto simp: pending_retransmissions_def qf_pending_packet_ids_def qf_new_def)
  next
    case False
    with q pending_retransmissions_clear [of s' s] show ?thesis by auto
  qed
  then show ?thesis
    by (auto simp: s' params_applied_def is_connected_def apply_capabilities_new fc_reset_def Let_def
        split: option.splits)
qed

theorem session_handshake_effect_witness:
  "\<exists>s'. apply_connack demo_connack (connect_sent demo_session) = (Ok (), s') \<and> is_connected s' \<and>
     fc_receive_maximum (flow_control s') = 2"
proof (rule demo_connected)
  fix s' assume r: "apply_connack demo_connack (connect_sent demo_session) = (Ok (), s')"
  from session_handshake_effect [OF r] r show ?thesis by (simp add: demo_connack_def)
qed

lemma fc_send_acked: "fc_publish_sent fc = Ok fc' \<Longrightarrow> fc_publish_acked fc' = fc"
  using sending.charge_refund [of fc fc']
  by (cases fc) (auto simp: fc_publish_sent_def fc_publish_acked_def word_unat_eq_iff split: if_splits)

lemma fc_publish_sent_no_panic: "fc_publish_sent fc \<noteq> Panic" "fc_publish_received fc \<noteq> Panic"
  using sending.charge_never_panics receiving.charge_never_panics by auto

lemma qf_put_drop: "bt_wf (outgoing q) \<Longrightarrow> i \<notin> flow_ids q \<Longrightarrow>
   outgoing (qf_drop i (qf_put i st c q)) = outgoing q"
  by (rule bt_eqI) (auto simp: qf_drop_def qf_put_def)

lemma session_publish_sent_Ok:
  assumes "session_inv s" "fresh_id i s" "session_publish_sent q i s = (Ok (), s1)"
  shows "\<exists>fc. fc_publish_sent (flow_control s) = Ok fc \<and> q \<noteq> AtMostOnce \<and>
     s1 = s\<lparr>flow_control := fc,
            qos_flow := qf_put i (if q = ExactlyOnce then AwaitingPubrec else AwaitingPuback) True (qos_flow s)\<rparr>"
proof -
  have "i \<noteq> 0" "\<not> bt_contains i (outgoing (qos_flow s))"
    using assms(2) pid.zero_unused [OF session_invD(1) [OF assms(1)]]
    by (auto simp: fresh_id_def bt_contains_def)
  with assms(3) show ?thesis
    by (cases q; cases "fc_publish_sent (flow_control s)")
      (auto simp: session_publish_sent_def qf_publish_sent_eq Let_def)
qed

lemma fresh_idD:
  "fresh_id i s \<Longrightarrow> i \<notin> flow_ids (qos_flow s)"
  by (simp add: fresh_id_def)

lemma bt_get_put [simp]:
  "bt_wf (outgoing q) \<Longrightarrow> bt_get (outgoing (qf_put i st c q)) i =
     Some \<lparr>flow_seq = next_seq q, flow_st = st, quota_charged = c\<rparr>"
  by (simp add: qf_put_def)

text \<open>
  C3: A QoS 1 or QoS 2 PUBLISH sent in a reachable connected session with a freshly allocated
  identifier, and acknowledged by the peer, runs through the handshake of its level, after which the
  quota, the outgoing handshakes and the identifier pool are those from before except that the
  identifier is free again.
\<close>

theorem session_publish_roundtrip:
  assumes "session_reachable s" "fresh_id i s"
    "session_publish_sent q i s = (Ok (), s1)" "rc < 0x80"
  shows "case q of
      AtLeastOnce \<Rightarrow> (case handle_puback i s1 of (v, s2) \<Rightarrow>
        v = Ok (Some (Complete i)) \<and> flow_control s2 = flow_control s \<and>
        outgoing (qos_flow s2) = outgoing (qos_flow s) \<and>
        pid_used (packet_id_manager s2) = pid_used (packet_id_manager s) - {i})
    | ExactlyOnce \<Rightarrow> (case handle_pubrec i rc s1 of (v, s2) \<Rightarrow> case handle_pubcomp i s2 of (w, s3) \<Rightarrow>
        v = Ok (Some (SendPubrel i)) \<and> resend_pubrel i s2 = Some (ResendPubrel i) \<and>
        w = Ok (Some (Complete i)) \<and> flow_control s3 = flow_control s \<and>
        outgoing (qos_flow s3) = outgoing (qos_flow s) \<and>
        pid_used (packet_id_manager s3) = pid_used (packet_id_manager s) - {i})
    | AtMostOnce \<Rightarrow> False"
proof -
  note inv = session_reachable_inv [OF assms(1)]
  note wf = session_invD(2) [OF inv]
  note bwf = qf_wfD(1) [OF wf]
  have i: "i \<noteq> 0" using assms(2) pid.zero_unused [OF session_invD(1) [OF inv]]
    by (auto simp: fresh_id_def)
  from session_publish_sent_Ok [OF inv assms(2,3)] obtain fc where
    fc: "fc_publish_sent (flow_control s) = Ok fc" and q: "q \<noteq> AtMostOnce" and
    s1: "s1 = s\<lparr>flow_control := fc,
      qos_flow := qf_put i (if q = ExactlyOnce then AwaitingPubrec else AwaitingPuback) True (qos_flow s)\<rparr>"
    by blast
  have put: "qf_wf (qf_put i st True (qos_flow s))"
    if "st \<in> {AwaitingPuback, AwaitingPubrec, AwaitingPubcomp}" for st
    using qf_wf_put [OF wf i that] .
  note acked = fc_send_acked [OF fc]
  have drop_put: "outgoing (qf_drop i (qf_put i st c (qf_put i st' c' (qos_flow s)))) =
      outgoing (qos_flow s)" for st c st' c'
    using bwf fresh_idD [OF assms(2)] by (intro bt_eqI) (auto simp: qf_drop_def qf_put_def)
  note drop = qf_put_drop [OF bwf fresh_idD [OF assms(2)]]
  note released = pid_used_release [OF session_invD(1) [OF inv]]
  have rc: "\<not> 0x80 \<le> rc" using assms(4) by simp
  show ?thesis
  proof (cases q)
    case AtLeastOnce
    have wf1: "qf_wf (qos_flow s1)" using put by (simp add: s1 AtLeastOnce)
    show ?thesis
      using drop released bwf acked
      by (simp add: AtLeastOnce handle_puback_eq [OF wf1]) (simp add: s1 AtLeastOnce finish_outgoing_def)
  next
    case ExactlyOnce
    have wf1: "qf_wf (qos_flow s1)" using put by (simp add: s1 ExactlyOnce)
    define s2 where "s2 = s1\<lparr>qos_flow := qf_put i AwaitingPubcomp True (qos_flow s1)\<rparr>"
    have s2: "handle_pubrec i rc s1 = (Ok (Some (SendPubrel i)), s2)"
      using rc bwf by (simp add: handle_pubrec_eq [OF wf1]) (simp add: s1 s2_def ExactlyOnce)
    have wf2: "qf_wf (qos_flow s2)" using qf_wf_put [OF wf1 i] by (simp add: s2_def)
    have "resend_pubrel i s2 = Some (ResendPubrel i)"
      using qf_wfD(1) [OF wf1] by (simp add: resend_pubrel_def qf_needs_retransmission_def s2_def)
    moreover have "handle_pubcomp i s2 =
        (Ok (Some (Complete i)), finish_outgoing i (s2\<lparr>qos_flow := qf_drop i (qos_flow s2)\<rparr>))"
      using qf_wfD(1) [OF wf1] by (simp add: handle_pubcomp_eq [OF wf2]) (simp add: s2_def)
    ultimately show ?thesis
      using drop_put released acked
      by (simp add: ExactlyOnce s2) (simp add: s2_def s1 ExactlyOnce finish_outgoing_def)
  qed (use q in simp)
qed

lemma demo_allocate:
  assumes "allocate_packet_id (connect_sent demo_session) = r"
  shows "r = (Some 1, (connect_sent demo_session)
      \<lparr>packet_id_manager := \<lparr>next_id = 2, free_list = [], in_use = [1]\<rparr>\<rparr>)"
  using assms by (auto simp: allocate_packet_id_def connect_sent_def reset_connection_state_def
      demo_session_def pid_allocate_new)

definition demo_allocated :: session where
  "demo_allocated = snd (allocate_packet_id (connect_sent demo_session))"

lemma demo_allocated:
  "session_reachable demo_allocated" "fresh_id 1 demo_allocated"
  "outgoing (qos_flow demo_allocated) = []" "incoming (qos_flow demo_allocated) = []"
  "flow_control demo_allocated = fc_new"
proof -
  show "session_reachable demo_allocated"
    unfolding demo_allocated_def by (blast intro: reach_step [OF demo_reachable] st_allocate)
  show "fresh_id 1 demo_allocated"
    using session_allocate_fresh_core [OF session_reachable_inv [OF demo_reachable]]
      demo_allocate [OF refl] by (simp add: demo_allocated_def)
  show "outgoing (qos_flow demo_allocated) = []" "incoming (qos_flow demo_allocated) = []"
    "flow_control demo_allocated = fc_new"
    by (simp_all add: demo_allocated_def demo_allocate [OF refl])
      (simp_all add: demo_session_def qf_clear_quota_charges_def qf_new_def fc_reset_def fc_new_def
        bt_map_values_def Let_def)
qed

theorem session_publish_roundtrip_witness:
  "\<exists>s1. session_publish_sent ExactlyOnce 1 demo_allocated = (Ok (), s1) \<and>
     fst (handle_pubrec 1 0 s1) = Ok (Some (SendPubrel 1)) \<and>
     flow_control (snd (handle_pubcomp 1 (snd (handle_pubrec 1 0 s1)))) = flow_control demo_allocated"
proof -
  have "fst (session_publish_sent ExactlyOnce 1 demo_allocated) = Ok ()"
    by (simp add: session_publish_sent_def demo_allocated fc_publish_sent_def fc_can_send_def
        fc_new_def Let_def)
  then obtain s1 where r: "session_publish_sent ExactlyOnce 1 demo_allocated = (Ok (), s1)"
    by (metis prod.collapse)
  from session_publish_roundtrip [OF demo_allocated(1,2) r, of 0] r show ?thesis
    by (auto split: prod.splits)
qed

lemma charge_incoming_cases:
  "charge_incoming i s =
     (if qf_has_incoming_flow (qos_flow s) i then Ok s
      else if fc_incoming_count (flow_control s) < fc_own_receive_maximum (flow_control s)
      then Ok (s\<lparr>flow_control := (flow_control s)\<lparr>fc_incoming_count :=
             sat_add (fc_incoming_count (flow_control s)) 1\<rparr>\<rparr>)
      else Err ReceiveMaximumExceeded)"
  by (simp add: charge_incoming_def fc_publish_received_def fc_can_receive_def)

lemma handle_publish_qos2_again:
  assumes "qf_wf (qos_flow s)"
    "bt_get (incoming (qos_flow s)) i = Some AwaitingPubrel"
  shows "handle_publish_qos2 i s = (Ok (SendPubrec i True), s)"
proof -
  have "bt_insert i AwaitingPubrel (incoming (qos_flow s)) = incoming (qos_flow s)"
    using qf_wfD(2) [OF assms(1)] assms(2) by (intro bt_eqI) auto
  then show ?thesis
    using assms(2) by (simp add: handle_publish_qos2_def charge_incoming_def qf_has_incoming_flow_def
        bt_contains_def qf_publish_received_qos2_def Let_def)
qed

text \<open>
  C19: In every reachable session a received QoS 2 PUBLISH is answered with a PUBREC that says whether it
  is a duplicate, it takes quota only if it is not, its redelivery changes nothing and is reported as a
  duplicate, and the PUBREL that follows ends the handshake; the packet is refused exactly when it is
  new and the client's receive maximum is reached, and then the session is unchanged.
\<close>

theorem session_incoming_qos2_once:
  assumes "session_reachable s"
  shows "case handle_publish_qos2 i s of
      (Ok a, s1) \<Rightarrow>
        a = SendPubrec i (qf_has_incoming_flow (qos_flow s) i) \<and>
        unat (fc_incoming_count (flow_control s1)) = unat (fc_incoming_count (flow_control s)) +
          (if qf_has_incoming_flow (qos_flow s) i then 0 else 1) \<and>
        handle_publish_qos2 i s1 = (Ok (SendPubrec i True), s1) \<and>
        (case handle_pubrel i s1 of (v, s2) \<Rightarrow>
           v = Ok (Some (SendPubcomp i)) \<and> \<not> qf_has_incoming_flow (qos_flow s2) i)
    | (Err e, s1) \<Rightarrow>
        s1 = s \<and> e = ReceiveMaximumExceeded \<and> \<not> qf_has_incoming_flow (qos_flow s) i \<and>
        fc_own_receive_maximum (flow_control s) \<le> fc_incoming_count (flow_control s)
    | (Panic, s1) \<Rightarrow> False"
proof (cases "charge_incoming i s")
  case (Ok t)
  note wf = session_invD(2) [OF session_reachable_inv [OF assms]]
  define s1 where "s1 = t\<lparr>qos_flow := (qos_flow t)\<lparr>incoming := bt_insert i AwaitingPubrel (incoming (qos_flow t))\<rparr>\<rparr>"
  have t: "qos_flow t = qos_flow s"
    "unat (fc_incoming_count (flow_control t)) = unat (fc_incoming_count (flow_control s)) +
       (if qf_has_incoming_flow (qos_flow s) i then 0 else 1)"
    using Ok by (auto simp: charge_incoming_cases unat_sat_succ split: if_splits)
  have h: "handle_publish_qos2 i s = (Ok (SendPubrec i (qf_has_incoming_flow (qos_flow s) i)), s1)"
    by (simp add: handle_publish_qos2_def Ok qf_publish_received_qos2_def Let_def t(1) s1_def
        qf_has_incoming_flow_def)
  have get1: "bt_get (incoming (qos_flow s1)) i = Some AwaitingPubrel"
    using qf_wfD(2) [OF wf] by (simp add: s1_def t(1))
  have wf1: "qf_wf (qos_flow s1)" using qf_wf_incoming_put [OF wf, of AwaitingPubrel i] by (simp add: s1_def t(1))
  have rel: "handle_pubrel i s1 = (Ok (Some (SendPubcomp i)),
      s1\<lparr>qos_flow := (qos_flow s1)\<lparr>incoming := bt_remove i (incoming (qos_flow s1))\<rparr>\<rparr>)"
    using get1 by (simp add: handle_pubrel_def qf_pubrel_received_def Let_def)
  show ?thesis
    using t(2) qf_wfD(2) [OF wf1]
    by (simp add: h handle_publish_qos2_again [OF wf1 get1] rel qf_has_incoming_flow_def
        bt_contains_def) (simp add: s1_def)
next
  case (Err e)
  then show ?thesis
    by (auto simp: handle_publish_qos2_def charge_incoming_cases not_less split: if_splits)
next
  case Panic
  then show ?thesis by (simp add: charge_incoming_cases split: if_splits)
qed

theorem session_incoming_qos2_once_witness:
  "\<exists>s1. handle_publish_qos2 7 demo_allocated = (Ok (SendPubrec 7 False), s1) \<and>
     handle_publish_qos2 7 s1 = (Ok (SendPubrec 7 True), s1)"
proof -
  have "charge_incoming 7 demo_allocated \<noteq> Err e" for e
    by (simp add: charge_incoming_cases demo_allocated fc_new_def)
  moreover have "\<not> qf_has_incoming_flow (qos_flow demo_allocated) 7"
    by (simp add: qf_has_incoming_flow_def demo_allocated bt_contains_def)
  ultimately show ?thesis
    using session_incoming_qos2_once [OF demo_allocated(1), of 7]
    by (auto simp: demo_allocated fc_new_def split: prod.splits result.splits)
qed

text \<open>
  C20: In a reachable session no fallible operation of the session panics, so that the unreachable branches
  and unwrapped values of the source are never met.
\<close>

theorem session_never_panics:
  assumes "session_reachable s"
  shows "fst (configure_for_connect k e t r m s) \<noteq> Panic \<and> fst (connect_sent_with_auth meth s) \<noteq> Panic \<and>
     fst (apply_connack p s) \<noteq> Panic \<and>
     (session_auth_received rc am s :: (_, unit) result) \<noteq> Panic \<and>
     fst (session_reauthenticate_sent s) \<noteq> Panic \<and>
     fst (handle_puback i s) \<noteq> Panic \<and> fst (handle_pubrec i rc s) \<noteq> Panic \<and>
     fst (handle_pubrel i s) \<noteq> Panic \<and> fst (handle_pubcomp i s) \<noteq> Panic \<and>
     fst (handle_publish_qos1 i s) \<noteq> Panic \<and> fst (handle_publish_qos2 i s) \<noteq> Panic \<and>
     fst (resend_publish i s) \<noteq> Panic \<and> fst (session_publish_sent q i s) \<noteq> Panic \<and>
     fst (handle_suback i codes s) \<noteq> Panic \<and> fst (handle_unsuback i codes s) \<noteq> Panic \<and>
     validate_outgoing_publish q retain n s \<noteq> Panic \<and> validate_outgoing_subscribe es s \<noteq> Panic"
proof -
  note inv = session_reachable_inv [OF assms]
  show ?thesis
  proof (intro conjI)
    show "fst (apply_connack p s) \<noteq> Panic"
      by (rule apply_connack_cases [OF session_invD(4) [OF inv], of p]) simp_all
    from auth_received_returns [OF session_invD(4) [OF inv], of rc am, where 'a = unit]
    show "(session_auth_received rc am s :: (_, unit) result) \<noteq> Panic"
      by (auto simp: session_auth_received_def)
    show "fst (handle_suback i codes s) \<noteq> Panic"
      using suback_returns [of i codes "subscription_manager s", where 'a = handle_suback_error]
      by (auto simp: handle_suback_def split: option.splits)
    show "fst (handle_unsuback i codes s) \<noteq> Panic"
      using unsuback_returns [of i codes "subscription_manager s", where 'a = handle_unsuback_error]
      by (auto simp: handle_unsuback_def split: option.splits)
    show "fst (configure_for_connect k e t r m s) \<noteq> Panic"
      by (simp add: configure_for_connect_def fc_set_own_receive_maximum_def Let_def)
    show "fst (handle_publish_qos1 i s) \<noteq> Panic" "fst (handle_publish_qos2 i s) \<noteq> Panic"
      by (simp_all add: handle_publish_qos1_def handle_publish_qos2_def charge_incoming_cases split_def)
    show "fst (session_publish_sent q i s) \<noteq> Panic"
      using fc_publish_sent_no_panic
      by (cases q) (auto simp: session_publish_sent_def Let_def split: result.splits)
    show "fst (resend_publish i s) \<noteq> Panic"
      using fc_publish_sent_no_panic
      by (auto simp: resend_publish_def Let_def split: result.splits option.splits action.splits)
    show "fst (handle_puback i s) \<noteq> Panic" "fst (handle_pubrec i rc s) \<noteq> Panic"
      "fst (handle_pubrel i s) \<noteq> Panic" "fst (handle_pubcomp i s) \<noteq> Panic"
      using session_invD(2) [OF inv] qf_verdict_no_panic(3) [of i "qos_flow s"]
      by (auto simp: handle_puback_eq handle_pubrec_eq handle_pubcomp_eq qf_unmatched_def
          handle_pubrel_def split: option.splits prod.splits)
    show "validate_outgoing_subscribe es s \<noteq> Panic"
      by (simp add: validate_outgoing_subscribe_def validate_subscribe_no_panic)
    show "fst (session_reauthenticate_sent s) \<noteq> Panic"
      by (auto simp: session_reauthenticate_sent_def auth_reauthenticate_sent_def split: result.splits)
    show "validate_outgoing_publish q retain n s \<noteq> Panic"
      by (simp add: validate_outgoing_publish_def validate_publish_def split: option.splits)
  qed (simp add: connect_sent_with_auth_def Let_def)
qed

theorem session_never_panics_witness:
  "fst (handle_pubrec 1 0 demo_allocated) \<noteq> Panic \<and> fst (apply_connack demo_connack demo_allocated) \<noteq> Panic"
  using session_never_panics [OF demo_allocated(1)] by blast

text \<open>
  C37: Refusing a QoS 2 PUBLISH with an error PUBREC gives its receive quota back but leaves its
  handshake open: a later PUBLISH that reuses the packet identifier is reported as a duplicate of the
  refused one and takes no quota.
\<close>

theorem session_pubrec_error_keeps_flow:
  assumes "session_reachable s" "handle_publish_qos2 i s = (Ok a, s1)" "0x80 \<le> rc"
  shows "unat (fc_incoming_count (flow_control (session_pubrec_sent rc s1))) =
       unat (fc_incoming_count (flow_control s1)) - 1 \<and>
     handle_publish_qos2 i (session_pubrec_sent rc s1) =
       (Ok (SendPubrec i True), session_pubrec_sent rc s1)"
proof -
  have reach: "session_reachable s1"
    using reach_step [OF assms(1) st_publish_qos2 [of s i]] assms(2) by simp
  have "qos_flow (session_pubrec_sent rc s1) = qos_flow s1" by (simp add: session_pubrec_sent_def)
  moreover have "bt_get (incoming (qos_flow s1)) i = Some AwaitingPubrel"
    using assms(2) session_invD(2) [OF session_reachable_inv [OF assms(1)]]
    by (auto simp: handle_publish_qos2_def charge_incoming_cases qf_publish_received_qos2_def Let_def
        split: if_splits)
  ultimately show ?thesis
    using assms(3) handle_publish_qos2_again [of "session_pubrec_sent rc s1" i]
      session_invD(2) [OF session_reachable_inv [OF reach]]
    by (simp add: session_pubrec_sent_def receiving.refund_count)
qed

theorem session_pubrec_error_keeps_flow_witness:
  "\<exists>s1. handle_publish_qos2 7 demo_allocated = (Ok (SendPubrec 7 False), s1) \<and>
     handle_publish_qos2 7 (session_pubrec_sent 0x87 s1) =
       (Ok (SendPubrec 7 True), session_pubrec_sent 0x87 s1)"
proof -
  have "fst (handle_publish_qos2 7 demo_allocated) = Ok (SendPubrec 7 False)"
    by (simp add: handle_publish_qos2_def charge_incoming_cases demo_allocated fc_new_def
        qf_has_incoming_flow_def qf_publish_received_qos2_def bt_contains_def Let_def)
  then obtain s1 where r: "handle_publish_qos2 7 demo_allocated = (Ok (SendPubrec 7 False), s1)"
    by (metis prod.collapse)
  have "(0x80 :: u8) \<le> 0x87" by simp
  from session_pubrec_error_keeps_flow [OF demo_allocated(1) r this] r show ?thesis by simp
qed

text \<open>
  C38: Aborting a PUBLISH under an identifier that only an incoming handshake uses, which the guard on active
  flows lets pass, lowers the count of unacknowledged outgoing packets and closes the incoming
  handshake, while every outgoing handshake stays open.
\<close>

theorem abort_publish_incoming_only:
  assumes "session_reachable s" "qf_has_incoming_flow (qos_flow s) i" "i \<notin> flow_ids (qos_flow s)"
  shows "unat (fc_outstanding_count (flow_control (abort_publish i s))) =
       unat (fc_outstanding_count (flow_control s)) - 1 \<and>
     outgoing (qos_flow (abort_publish i s)) = outgoing (qos_flow s) \<and>
     \<not> qf_has_incoming_flow (qos_flow (abort_publish i s)) i"
proof -
  have wf: "bt_wf (outgoing (qos_flow s))" "bt_wf (incoming (qos_flow s))"
    using session_invD(2) [OF session_reachable_inv [OF assms(1)]] by auto
  have "bt_remove i (outgoing (qos_flow s)) = outgoing (qos_flow s)"
    using assms(3) by (simp add: bt_remove_absent domIff)
  then show ?thesis
    using assms(2) wf
    by (simp add: abort_publish_def Let_def qf_is_active_def qf_has_incoming_flow_def qf_release_def
        sending.refund_count bt_contains_def)
qed

theorem abort_publish_incoming_only_witness:
  "\<exists>s1. handle_publish_qos2 7 demo_allocated = (Ok (SendPubrec 7 False), s1) \<and>
     \<not> qf_has_incoming_flow (qos_flow (abort_publish 7 s1)) 7"
proof -
  define s1 where "s1 = snd (handle_publish_qos2 7 demo_allocated)"
  have r: "handle_publish_qos2 7 demo_allocated = (Ok (SendPubrec 7 False), s1)"
    by (simp add: s1_def handle_publish_qos2_def charge_incoming_cases demo_allocated fc_new_def
        qf_has_incoming_flow_def qf_publish_received_qos2_def bt_contains_def Let_def)
  have "session_reachable s1"
    unfolding s1_def by (rule reach_step [OF demo_allocated(1) st_publish_qos2])
  moreover have "qf_has_incoming_flow (qos_flow s1) 7" "7 \<notin> flow_ids (qos_flow s1)"
    by (simp_all add: s1_def handle_publish_qos2_def charge_incoming_cases demo_allocated fc_new_def
        qf_has_incoming_flow_def qf_publish_received_qos2_def bt_contains_def Let_def)
  ultimately show ?thesis using abort_publish_incoming_only [of s1 7] r by blast
qed

end
