(* ===== verification/Frame.thy ===== *)
theory Frame
  imports Codec
begin

unbundle bit_operations_syntax

text \<open>
  What the packet decoders and encoders share: the fixed header, the reads that move an offset up to
  the end of the frame, and the writes that move an offset through the output. A decoder of the source walks a buffer
  with an \<^verbatim>\<open>offset\<close> and an \<^verbatim>\<open>end\<close>; \<open>reads\<close> relates such a reader to a parser that consumes the
  front of a byte string, with the same verdict in every case.
\<close>

section \<open>Bits of a byte\<close>

text \<open>Two bytes are equal if their eight bits are: flag bytes are taken apart this way.\<close>

lemma bit_cases8: "n < 8 \<Longrightarrow> n = 0 \<or> n = 1 \<or> n = 2 \<or> n = 3 \<or> n = 4 \<or> n = 5 \<or> n = 6 \<or> n = (7::nat)"
  by arith

lemma u8_bit_eqI:
  fixes a b :: u8
  assumes "bit a 0 = bit b 0" "bit a 1 = bit b 1" "bit a 2 = bit b 2" "bit a 3 = bit b 3"
    "bit a 4 = bit b 4" "bit a 5 = bit b 5" "bit a 6 = bit b 6" "bit a 7 = bit b 7"
  shows "a = b"
proof (rule bit_word_eqI)
  fix n assume "n < LENGTH(8)"
  then have "n = 0 \<or> n = 1 \<or> n = 2 \<or> n = 3 \<or> n = 4 \<or> n = 5 \<or> n = 6 \<or> n = 7"
    by (intro bit_cases8) simp
  with assms show "bit a n = bit b n" by blast
qed

lemma bit_double_u8: "bit (b * 2 :: u8) (Suc n) \<longleftrightarrow> n < 7 \<and> bit b n" "\<not> bit (b * 2 :: u8) 0"
  using bit_double_iff [of b "Suc n"] bit_double_iff [of b 0] by (simp_all add: mult.commute)

lemmas byte_bits = bit_simps bit_numeral_rec eval_nat_numeral bit_double_u8

text \<open>Testing one flag.\<close>

lemma u8_flag_tests:
  "(b :: u8) AND 1 = (if bit b 0 then 1 else 0)" "b AND 2 = (if bit b 1 then 2 else 0)"
  "b AND 4 = (if bit b 2 then 4 else 0)" "b AND 8 = (if bit b 3 then 8 else 0)"
  "b AND 0x20 = (if bit b 5 then 0x20 else 0)" "b AND 0x40 = (if bit b 6 then 0x40 else 0)"
  "b AND 0x80 = (if bit b 7 then 0x80 else 0)"
  by (rule u8_bit_eqI; simp add: bit_simps bit_numeral_rec)+

lemma nibbles:
  fixes b :: u8
  assumes "b AND 0xF0 = t" "b AND 0x0F = f"
  shows "b = t OR f"
proof -
  have "(0xF0 OR 0x0F :: u8) = - 1" by simp
  then have "b = b AND (0xF0 OR 0x0F)" by (simp only: and.right_neutral)
  also have "\<dots> = t OR f" using assms by (simp only: bit.conj_disj_distrib)
  finally show ?thesis .
qed

lemma nibbles_iff:
  fixes b :: u8
  assumes "(t OR f) AND 0xF0 = t" "(t OR f) AND 0x0F = f"
  shows "b AND 0xF0 = t \<and> b AND 0x0F = f \<longleftrightarrow> b = t OR f"
  using assms nibbles by blast

section \<open>Reading with an offset\<close>

type_synonym 'a reader = "bytes \<Rightarrow> nat \<Rightarrow> nat \<Rightarrow> ('a \<times> nat, decode_error) result"

text \<open>\<^verbatim>\<open>if offset >= end { return Err(MalformedPacket) }; let b = buf[offset]; offset += 1\<close>\<close>

definition read_u8 :: "u8 reader" where
  "read_u8 buf end offset =
     (if end \<le> offset then Err MalformedPacket
      else rbind (index buf offset) (\<lambda>b. Ok (b, offset + 1)))"

text \<open>
  \<^verbatim>\<open>if offset + 2 > end { return Err(MalformedPacket) }\<close>, then
  \<^verbatim>\<open>u16::from_be_bytes([buf[offset], buf[offset + 1]])\<close> and \<^verbatim>\<open>offset += 2\<close>
\<close>

definition read_u16 :: "u16 reader" where
  "read_u16 buf end offset =
     (if end < offset + 2 then Err MalformedPacket
      else
        rbind (index buf offset) (\<lambda>b0.
        rbind (index buf (offset + 1)) (\<lambda>b1. Ok (u16_from_be_bytes b0 b1, offset + 2))))"

text \<open>
  \<^verbatim>\<open>let (x, n) = T::decode(&buf[offset..end]).map_err(malformed_if_insufficient)?; offset += n\<close>
\<close>

definition read_with :: "'a decoder \<Rightarrow> 'a reader" where
  "read_with dec buf end offset =
     rbind (subslice buf offset end) (\<lambda>s.
     rbind (map_err malformed_if_insufficient (dec s)) (\<lambda>(x, n). Ok (x, offset + n)))"

text \<open>\<^verbatim>\<open>if offset != end { return Err(MalformedPacket) }\<close>, after which the packet is returned\<close>

definition read_end :: "'a \<Rightarrow> 'a reader" where
  "read_end x buf end offset = (if offset \<noteq> end then Err MalformedPacket else Ok (x, offset))"

text \<open>\<^verbatim>\<open>let payload = buf[offset..end].to_vec(); offset = end\<close>\<close>

definition read_rest :: "bytes reader" where
  "read_rest buf end offset = rbind (subslice buf offset end) (\<lambda>s. Ok (s, end))"

section \<open>Parsers of byte strings\<close>

type_synonym 'a parser = "bytes \<Rightarrow> ('a \<times> bytes, decode_error) result"

fun p_u8 :: "u8 parser" where
  "p_u8 [] = Err MalformedPacket"
| "p_u8 (b # s) = Ok (b, s)"

fun p_u16 :: "u16 parser" where
  "p_u16 (b0 # b1 # s) = Ok (u16_from_be_bytes b0 b1, s)"
| "p_u16 s = Err MalformedPacket"

definition p_with :: "'a decoder \<Rightarrow> 'a parser" where
  "p_with dec s =
     rbind (map_err malformed_if_insufficient (dec s)) (\<lambda>(x, n). Ok (x, drop n s))"

definition p_end :: "'a \<Rightarrow> 'a parser" where
  "p_end x s = (if s \<noteq> [] then Err MalformedPacket else Ok (x, s))"

definition p_rest :: "bytes parser" where
  "p_rest s = Ok (s, [])"

lemma p_rest_Ok_iff [wire_simps]: "p_rest s = Ok (x, s') \<longleftrightarrow> s = x \<and> s' = []"
  by (auto simp: p_rest_def)

lemma p_u8_Ok_iff [wire_simps]: "p_u8 s = Ok (b, s') \<longleftrightarrow> s = b # s'"
  by (cases s) auto

lemma p_u16_Ok_iff [wire_simps]: "p_u16 s = Ok (w, s') \<longleftrightarrow> s = u16_to_be_bytes w @ s'"
proof (cases s rule: p_u16.cases)
  case (1 b0 b1 r)
  have "u16_from_be_bytes b0 b1 = w \<longleftrightarrow> [b0, b1] = u16_to_be_bytes w"
    by (metis u16_to_be_bytes_inject u16_to_from_be_bytes)
  moreover have "u16_to_be_bytes w @ s' = [ucast (drop_bit 8 w), ucast w] @ s'"
    by (simp add: u16_to_be_bytes_def)
  ultimately show ?thesis using 1 by (auto simp: u16_to_be_bytes_def)
qed (auto simp: u16_to_be_bytes_def)

lemma p_end_Ok_iff [wire_simps]: "p_end x s = Ok (y, s') \<longleftrightarrow> y = x \<and> s = [] \<and> s' = []"
  by (auto simp: p_end_def)

lemma p_with_utf8_iff [wire_simps]:
  "p_with utf8_decode s = Ok (x, s') \<longleftrightarrow> mqtt_string x \<and> s = binary_bytes x @ s'"
  by (auto simp: p_with_def rbind_Ok_iff utf8.dec_iff)

lemma p_with_binary_iff [wire_simps]:
  "p_with binary_decode s = Ok (x, s') \<longleftrightarrow> length x \<le> 65535 \<and> s = binary_bytes x @ s'"
  by (auto simp: p_with_def rbind_Ok_iff binary.dec_iff)

text \<open>Parsing what was written.\<close>

lemma p_wire [simp]:
  "p_u16 (u16_to_be_bytes w @ s) = Ok (w, s)" "p_u16 (u16_to_be_bytes w) = Ok (w, [])"
  "mqtt_string x \<Longrightarrow> p_with utf8_decode (binary_bytes x @ s) = Ok (x, s)"
  "mqtt_string x \<Longrightarrow> p_with utf8_decode (binary_bytes x) = Ok (x, [])"
  "length x \<le> 65535 \<Longrightarrow> p_with binary_decode (binary_bytes x @ s) = Ok (x, s)"
  "length x \<le> 65535 \<Longrightarrow> p_with binary_decode (binary_bytes x) = Ok (x, [])"
  "p_rest s = Ok (s, [])"
  by (simp_all add: wire_simps)

lemma p_no_panic [no_panic]:
  "p_rest s \<noteq> Panic" "p_u8 s \<noteq> Panic" "p_u16 s \<noteq> Panic" "p_end x s \<noteq> Panic"
  "p_with utf8_decode s \<noteq> Panic" "p_with binary_decode s \<noteq> Panic"
proof -
  show "p_u8 s \<noteq> Panic" by (cases s) auto
  show "p_u16 s \<noteq> Panic" by (cases s rule: p_u16.cases) auto
qed (simp_all add: p_rest_def p_end_def p_with_def rbind_Panic_iff)

section \<open>A reader refines a parser\<close>

text \<open>
  Between two valid positions the reader returns exactly what the parser returns on the bytes in
  between, with the new offset where the unread rest starts.
\<close>

definition reads :: "'a reader \<Rightarrow> 'a parser \<Rightarrow> bool" where
  "reads rd p \<longleftrightarrow>
     (\<forall>buf end offset. offset \<le> end \<and> end \<le> length buf \<longrightarrow>
        rd buf end offset =
          rbind (p (drop offset (take end buf))) (\<lambda>(x, s). Ok (x, end - length s))) \<and>
     (\<forall>s x s'. p s = Ok (x, s') \<longrightarrow> (\<exists>w. s = w @ s'))"

named_theorems reads_intros \<open>composition of readers along the parsers they refine\<close>

lemma readsI:
  assumes "\<And>buf end offset. offset \<le> end \<Longrightarrow> end \<le> length buf \<Longrightarrow>
      rd buf end offset = rbind (p (drop offset (take end buf))) (\<lambda>(x, s). Ok (x, end - length s))"
    and "\<And>s x s'. p s = Ok (x, s') \<Longrightarrow> \<exists>w. s = w @ s'"
  shows "reads rd p"
  using assms by (auto simp: reads_def)

lemma readsD:
  "reads rd p \<Longrightarrow> offset \<le> end \<Longrightarrow> end \<le> length buf \<Longrightarrow>
   rd buf end offset = rbind (p (drop offset (take end buf))) (\<lambda>(x, s). Ok (x, end - length s))"
  "reads rd p \<Longrightarrow> p s = Ok (x, s') \<Longrightarrow> \<exists>w. s = w @ s'"
  by (auto simp: reads_def)

text \<open>The bytes between the new offset and the end are the unread rest.\<close>

lemma region_rest:
  assumes "drop offset (take end buf) = w @ s" "offset \<le> end" "end \<le> length buf"
  shows "end - length s \<le> end" "drop (end - length s) (take end buf) = s"
    "offset + length w = end - length s"
proof -
  have "length (drop offset (take end buf)) = end - offset" using assms(2,3) by simp
  then show eq: "offset + length w = end - length s" using assms(1,2) by simp
  have "drop (end - length s) (take end buf) = drop (length w) (drop offset (take end buf))"
    by (simp add: eq [symmetric] add.commute)
  then show "drop (end - length s) (take end buf) = s" by (simp add: assms(1))
qed simp

lemma reads_bind [reads_intros]:
  assumes "reads rd p" "\<And>x. reads (f x) (g x)"
  shows "reads (\<lambda>buf end offset. rbind (rd buf end offset) (\<lambda>(x, offset'). f x buf end offset'))
     (\<lambda>s. rbind (p s) (\<lambda>(x, s'). g x s'))"
proof (rule readsI)
  fix buf :: bytes and "end" offset :: nat assume le: "offset \<le> end" "end \<le> length buf"
  let ?s = "drop offset (take end buf)"
  have "rbind (rd buf end offset) (\<lambda>(x, offset'). f x buf end offset') =
     rbind (p ?s) (\<lambda>(x, s'). f x buf end (end - length s'))"
    using readsD(1) [OF assms(1) le] by (cases "p ?s") auto
  also have "\<dots> = rbind (p ?s) (\<lambda>(x, s'). rbind (g x s') (\<lambda>(y, s''). Ok (y, end - length s'')))"
  proof (cases "p ?s")
    case (Ok r)
    obtain x s' where r: "r = (x, s')" by fastforce
    with Ok readsD(2) [OF assms(1)] obtain w where "?s = w @ s'" by blast
    from region_rest [OF this le] readsD(1) [OF assms(2), of "end - length s'" "end" buf x] le
    show ?thesis by (simp add: Ok r)
  qed simp_all
  also have "\<dots> = rbind (rbind (p ?s) (\<lambda>(x, s'). g x s')) (\<lambda>(y, s''). Ok (y, end - length s''))"
    by (cases "p ?s") auto
  finally show "rbind (rd buf end offset) (\<lambda>(x, offset'). f x buf end offset') = \<dots>" .
next
  fix s y s'' assume "rbind (p s) (\<lambda>(x, s'). g x s') = Ok (y, s'')"
  then obtain x s' where "p s = Ok (x, s')" "g x s' = Ok (y, s'')" by (auto simp: rbind_Ok_iff)
  with readsD(2) [OF assms(1)] readsD(2) [OF assms(2)] show "\<exists>w. s = w @ s''"
    by (metis append.assoc)
qed

lemma reads_pure_bind [reads_intros]:
  assumes "\<And>x. reads (f x) (g x)"
  shows "reads (\<lambda>buf end offset. rbind m (\<lambda>x. f x buf end offset)) (\<lambda>s. rbind m (\<lambda>x. g x s))"
  using assms by (cases m) (auto simp: reads_def)

lemma reads_if [reads_intros]:
  assumes "reads f p" "reads g q"
  shows "reads (\<lambda>buf end offset. if c then f buf end offset else g buf end offset)
    (\<lambda>s. if c then p s else q s)"
  using assms by (cases c) simp_all

lemma reads_return [reads_intros]: "reads (\<lambda>buf end offset. Ok (x, offset)) (\<lambda>s. Ok (x, s))"
  by (rule readsI) auto

lemma reads_err [reads_intros]: "reads (\<lambda>buf end offset. Err e) (\<lambda>s. Err e)"
  by (rule readsI) auto

lemma drop_take_Cons:
  "offset < end \<Longrightarrow> end \<le> length buf \<Longrightarrow>
   drop offset (take end buf) = buf ! offset # drop (Suc offset) (take end buf)"
  by (simp add: Cons_nth_drop_Suc [symmetric])

lemma reads_u8 [reads_intros]: "reads read_u8 p_u8"
proof (rule readsI)
  fix buf :: bytes and "end" offset :: nat assume le: "offset \<le> end" "end \<le> length buf"
  show "read_u8 buf end offset =
      rbind (p_u8 (drop offset (take end buf))) (\<lambda>(x, s). Ok (x, end - length s))"
  proof (cases "offset < end")
    case True
    with le show ?thesis by (simp add: read_u8_def drop_take_Cons)
  qed (use le in \<open>simp add: read_u8_def\<close>)
qed (auto simp: wire_simps)

lemma reads_u16 [reads_intros]: "reads read_u16 p_u16"
proof (rule readsI)
  fix buf :: bytes and "end" offset :: nat assume le: "offset \<le> end" "end \<le> length buf"
  show "read_u16 buf end offset =
      rbind (p_u16 (drop offset (take end buf))) (\<lambda>(x, s). Ok (x, end - length s))"
  proof (cases "offset + 2 \<le> end")
    case True
    with le show ?thesis by (simp add: read_u16_def drop_take_Cons)
  next
    case False
    then have "length (drop offset (take end buf)) < 2" using le by simp
    then have "p_u16 (drop offset (take end buf)) = Err MalformedPacket"
      by (cases "drop offset (take end buf)" rule: p_u16.cases) simp_all
    with False show ?thesis by (simp add: read_u16_def)
  qed
qed (auto simp: wire_simps)

lemma reads_rest [reads_intros]: "reads read_rest p_rest"
  by (rule readsI) (auto simp: read_rest_def p_rest_def)

lemma reads_end [reads_intros]: "reads (read_end x) (p_end x)"
  by (rule readsI) (auto simp: read_end_def p_end_def split: if_splits)

lemma reads_with:
  assumes "\<And>s x n. dec s = Ok (x, n) \<Longrightarrow> n \<le> length s"
  shows "reads (read_with dec) (p_with dec)"
proof (rule readsI)
  fix buf :: bytes and "end" offset :: nat assume le: "offset \<le> end" "end \<le> length buf"
  show "read_with dec buf end offset =
      rbind (p_with dec (drop offset (take end buf))) (\<lambda>(x, s). Ok (x, end - length s))"
  proof (cases "dec (drop offset (take end buf))")
    case (Ok r)
    obtain x n where "r = (x, n)" by fastforce
    with Ok assms [of "drop offset (take end buf)" x n] le show ?thesis
      by (simp add: read_with_def p_with_def)
  qed (use le in \<open>simp_all add: read_with_def p_with_def\<close>)
next
  fix s x s' assume "p_with dec s = Ok (x, s')"
  then show "\<exists>w. s = w @ s'"
    by (auto simp: p_with_def rbind_Ok_iff) (metis append_take_drop_id)
qed

lemma reads_utf8 [reads_intros]: "reads (read_with utf8_decode) (p_with utf8_decode)"
  by (rule reads_with) (auto simp: utf8.dec_iff)

lemma reads_binary [reads_intros]: "reads (read_with binary_decode) (p_with binary_decode)"
  by (rule reads_with) (auto simp: binary.dec_iff)

section \<open>The fixed header\<close>

text \<open>
  The prologue all decoders share after the first byte:
  \<^verbatim>\<open>let (remaining_len, vbi_len) = VariableByteInteger::decode(&buf[1..])?\<close>, the check that the
  frame is complete, and the start and the end of what follows the header.
\<close>

definition read_frame_header :: "bytes \<Rightarrow> (nat \<times> nat, decode_error) result" where
  "read_frame_header buf =
     rbind (subslice_from buf 1) (\<lambda>s.
     rbind (vbi_decode s) (\<lambda>(remaining_len, vbi_len).
     let header_len = 1 + vbi_len in
     if length buf < header_len + unat remaining_len then Err InsufficientData
     else Ok (header_len, header_len + unat remaining_len)))"

text \<open>
  The prologue of the encoders: \<^verbatim>\<open>check_remaining_len\<close> is the size check of those packets whose
  length varies, \<^verbatim>\<open>begin_frame\<close> the check of the buffer and the two writes of the fixed header.
\<close>

abbreviation max_remaining :: nat where
  "max_remaining \<equiv> 268435455"

definition check_remaining_len :: "nat \<Rightarrow> (unit, encode_error) result" where
  "check_remaining_len remaining_len =
     (if unat vbi_MAX < remaining_len then Err (PacketTooLarge remaining_len (unat vbi_MAX))
      else Ok ())"

definition begin_frame :: "u8 \<Rightarrow> nat \<Rightarrow> bytes \<Rightarrow> (writer, encode_error) result" where
  "begin_frame first_byte remaining_len buf =
     (let vbi = word_of_nat remaining_len;
          total_len = 1 + vbi_encoded_len vbi + remaining_len
      in if length buf < total_len then Err BufferTooSmall
         else rbind (put_u8 first_byte (buf, 0)) (put_with (vbi_encode vbi)))"

text \<open>The encoding of a packet with the first byte \<open>b\<close> and what follows the fixed header.\<close>

definition frame_wire :: "u8 \<Rightarrow> bytes \<Rightarrow> bytes" where
  "frame_wire b body = b # vbi_wire (word_of_nat (length body)) @ body"

lemma remaining_word:
  "n \<le> max_remaining \<Longrightarrow> unat (word_of_nat n :: u32) = n"
  "n \<le> max_remaining \<Longrightarrow> (word_of_nat n :: u32) \<le> vbi_MAX"
  by (simp_all add: word_le_nat_alt vbi_MAX_unat unat_word_of_nat_small)

lemma read_frame_header_Ok_iff:
  "read_frame_header (b # r) = Ok (offset, end) \<longleftrightarrow>
     (\<exists>body rest. length body \<le> max_remaining \<and> b # r = frame_wire b body @ rest \<and>
        end = length (frame_wire b body) \<and> offset + length body = end)"
proof
  assume "read_frame_header (b # r) = Ok (offset, end)"
  then obtain v n where v: "vbi_decode r = Ok (v, n)" "1 + n + unat v \<le> length (b # r)"
    "offset = 1 + n" "end = 1 + n + unat v"
    by (auto simp: read_frame_header_def rbind_Ok_iff Let_def split: if_splits)
  then obtain s where s: "v \<le> vbi_MAX" "n = length (vbi_wire v)" "r = vbi_wire v @ s"
    by (auto simp: vbi.dec_iff)
  with v have "length (take (unat v) s) = unat v" by simp
  then show "\<exists>body rest. length body \<le> max_remaining \<and> b # r = frame_wire b body @ rest \<and>
      end = length (frame_wire b body) \<and> offset + length body = end"
    using v s by (intro exI [of _ "take (unat v) s"] exI [of _ "drop (unat v) s"])
      (simp add: frame_wire_def word_le_nat_alt vbi_MAX_unat)
next
  assume "\<exists>body rest. length body \<le> max_remaining \<and> b # r = frame_wire b body @ rest \<and>
      end = length (frame_wire b body) \<and> offset + length body = end"
  then obtain body rest where *: "length body \<le> max_remaining" "b # r = frame_wire b body @ rest"
    "end = length (frame_wire b body)" "offset + length body = end" by blast
  then have "vbi_decode r = Ok (word_of_nat (length body), length (vbi_wire (word_of_nat (length body))))"
    by (simp add: frame_wire_def vbi.dec_wire remaining_word)
  with * show "read_frame_header (b # r) = Ok (offset, end)"
    by (simp add: read_frame_header_def frame_wire_def remaining_word Let_def)
qed

lemma read_frame_header_no_panic [no_panic]: "read_frame_header (b # r) \<noteq> Panic"
  by (auto simp: read_frame_header_def rbind_Panic_iff Let_def)

lemma frame_region:
  assumes "buf = frame_wire b body @ rest" "end = length (frame_wire b body)"
    "offset + length body = end"
  shows "offset \<le> end" "end \<le> length buf" "drop offset (take end buf) = body"
proof -
  have "take end buf = (b # vbi_wire (word_of_nat (length body))) @ body"
    using assms by (simp add: frame_wire_def)
  moreover have "offset = length (b # vbi_wire (word_of_nat (length body)))"
    using assms by (simp add: frame_wire_def)
  ultimately show "drop offset (take end buf) = body" by simp
qed (use assms in auto)

text \<open>
  A complete frame is decoded by parsing its body; the parser has to consume all of it.
\<close>

lemma frame_decode_iff:
  assumes "reads rd p" "\<And>s x s'. p s = Ok (x, s') \<Longrightarrow> s' = []"
  shows "rbind (read_frame_header (b # r)) (\<lambda>(offset, end). rd (b # r) end offset) = Ok (x, n) \<longleftrightarrow>
    (\<exists>s rest. p s = Ok (x, []) \<and> length s \<le> max_remaining \<and> b # r = frame_wire b s @ rest \<and>
       n = length (frame_wire b s))"
proof
  assume "rbind (read_frame_header (b # r)) (\<lambda>(offset, end). rd (b # r) end offset) = Ok (x, n)"
  then obtain offset "end" where h: "read_frame_header (b # r) = Ok (offset, end)"
    and rd: "rd (b # r) end offset = Ok (x, n)" by (auto simp: rbind_Ok_iff)
  from h obtain s rest where f: "length s \<le> max_remaining" "b # r = frame_wire b s @ rest"
    "end = length (frame_wire b s)" "offset + length s = end" by (auto simp: read_frame_header_Ok_iff)
  note reg = frame_region [OF f(2-4)]
  from rd readsD(1) [OF assms(1) reg(1,2)] reg(3) obtain s' where "p s = Ok (x, s')" "n = end - length s'"
    by (auto simp: rbind_Ok_iff)
  moreover from assms(2) [OF this(1)] have "s' = []" .
  ultimately have "p s = Ok (x, [])" "n = end" by simp_all
  with f show "\<exists>s rest. p s = Ok (x, []) \<and> length s \<le> max_remaining \<and> b # r = frame_wire b s @ rest \<and>
      n = length (frame_wire b s)" by blast
next
  assume "\<exists>s rest. p s = Ok (x, []) \<and> length s \<le> max_remaining \<and> b # r = frame_wire b s @ rest \<and>
      n = length (frame_wire b s)"
  then obtain s rest where f: "p s = Ok (x, [])" "length s \<le> max_remaining"
    "b # r = frame_wire b s @ rest" "n = length (frame_wire b s)" by blast
  have h: "read_frame_header (b # r) = Ok (length (frame_wire b s) - length s, length (frame_wire b s))"
    using f by (auto simp: read_frame_header_Ok_iff frame_wire_def)
  have "length (frame_wire b s) - length s + length s = length (frame_wire b s)"
    by (simp add: frame_wire_def)
  note reg = frame_region [OF f(3) refl this]
  show "rbind (read_frame_header (b # r)) (\<lambda>(offset, end). rd (b # r) end offset) = Ok (x, n)"
    using readsD(1) [OF assms(1) reg(1,2)] reg(3) f(1,4) by (simp add: h)
qed

text \<open>The usual case: the parser accepts exactly the bodies of the acceptable packets.\<close>

lemma frame_decode_packet:
  assumes "reads rd p" "\<And>s x s'. p s = Ok (x, s') \<longleftrightarrow> ok x \<and> s = body x \<and> s' = []"
  shows "rbind (read_frame_header (b # r)) (\<lambda>(offset, end). rd (b # r) end offset) = Ok (x, n) \<longleftrightarrow>
    ok x \<and> length (body x) \<le> max_remaining \<and> n = length (frame_wire b (body x)) \<and>
    (\<exists>rest. b # r = frame_wire b (body x) @ rest)"
  using frame_decode_iff [OF assms(1), of b r x n] assms(2) by auto

lemma Cons_frame_wire:
  "b # r = frame_wire c s @ rest \<longleftrightarrow> b = c \<and> r = vbi_wire (word_of_nat (length s)) @ s @ rest"
  by (auto simp: frame_wire_def)

lemma Nil_frame_wire [simp]: "[] \<noteq> frame_wire c s @ rest" "frame_wire c s \<noteq> []"
  by (simp_all add: frame_wire_def)

lemma frame_decode_no_panic:
  assumes "reads rd p" "\<And>s. p s \<noteq> Panic"
  shows "rbind (read_frame_header (b # r)) (\<lambda>(offset, end). rd (b # r) end offset) \<noteq> Panic"
proof
  assume "rbind (read_frame_header (b # r)) (\<lambda>(offset, end). rd (b # r) end offset) = Panic"
  then obtain offset "end" where "read_frame_header (b # r) = Ok (offset, end)"
    and rd: "rd (b # r) end offset = Panic"
    using read_frame_header_no_panic by (auto simp: rbind_Panic_iff)
  then obtain s rest where f: "b # r = frame_wire b s @ rest"
    "end = length (frame_wire b s)" "offset + length s = end" by (auto simp: read_frame_header_Ok_iff)
  note reg = frame_region [OF f]
  from rd readsD(1) [OF assms(1) reg(1,2)] reg(3) assms(2) show False
    by (auto simp: rbind_Panic_iff)
qed

section \<open>Writing a frame\<close>

lemma begin_frame_eq:
  assumes "n \<le> max_remaining"
  shows "begin_frame b n buf =
     (if length buf < 1 + length (vbi_wire (word_of_nat n)) + n then Err BufferTooSmall
      else Ok (cursor buf (b # vbi_wire (word_of_nat n))))"
proof -
  note v = remaining_word(2) [OF assms]
  have "put_with (vbi_encode (word_of_nat n)) (cursor buf [b]) =
      Ok (cursor buf ([b] @ vbi_wire (word_of_nat n)))"
    if "1 + length (vbi_wire (word_of_nat n)) + n \<le> length buf"
    using that by (intro put_with_cursor vbi.enc_emits v) simp
  moreover have "put_u8 b (buf, 0) = Ok (cursor buf [b])" if "1 \<le> length buf"
    unfolding cursor_start using that by (subst put_u8_cursor) auto
  ultimately show ?thesis
    by (simp add: begin_frame_def length_vbi_wire [OF v, symmetric] Let_def)
qed

lemma put_utf8_cursor:
  assumes "length bs + (2 + length s) \<le> length buf"
  shows "put_with (utf8_encode_str s) (cursor buf bs) =
     (if 0 \<in> set s then Err (InvalidField NullInUtf8String)
      else if 65535 < length s then Err (PacketTooLarge (length s) 65535)
      else Ok (cursor buf (bs @ binary_bytes s)))"
proof (cases "0 \<in> set s \<or> 65535 < length s")
  case True
  then show ?thesis using assms by (auto simp: cursor_def utf8_encode_str_def unat_u16_max Let_def)
next
  case False
  then have "emits (utf8_encode_str s) (binary_bytes s)"
    using binary_encode_emits [of s] by (simp add: emits_def utf8_encode_eq_binary)
  with False assms put_with_cursor [of _ "binary_bytes s" bs buf] show ?thesis by simp
qed

lemma put_binary_cursor:
  assumes "length bs + (2 + length s) \<le> length buf"
  shows "put_with (binary_encode_slice s) (cursor buf bs) =
     (if 65535 < length s then Err (PacketTooLarge (length s) 65535)
      else Ok (cursor buf (bs @ binary_bytes s)))"
proof (cases "65535 < length s")
  case True
  then show ?thesis using assms by (auto simp: cursor_def binary_encode_slice_def unat_u16_max Let_def)
next
  case False
  with assms put_with_cursor [OF binary_encode_emits, of s bs buf] show ?thesis by simp
qed

lemmas put_cursor = put_u8_cursor put_bytes_cursor put_utf8_cursor put_binary_cursor finish_cursor

lemma length_frame_wire:
  "length (frame_wire b body) = 1 + length (vbi_wire (word_of_nat (length body))) + length body"
  by (simp add: frame_wire_def)

end
