(* ===== verification/Packet.thy ===== *)
theory Packet
  imports Frame
begin

unbundle bit_operations_syntax

text \<open>
  From the pieces of theory \<open>Frame\<close> to whole packets: the loops over repeated fields, writers with
  the bytes they produce, and the contract \<open>framed_packet\<close> of a packet's encoder and decoder, an
  instance of the codec contract of theory \<open>Wire\<close>. The lemmas \<open>framed_encoder\<close> and
  \<open>framed_decoder\<close> reduce the contract to the body of the packet.
\<close>

section \<open>Reading repeated fields\<close>

text \<open>
  \<^verbatim>\<open>while offset < end { ...; xs.push(x) }\<close>. An iteration that does not advance the offset would
  make the loop run forever; that outcome is \<open>Panic\<close> here, so that a proof that the loop never
  panics is also a proof that it ends.
\<close>

function read_each :: "'a reader \<Rightarrow> 'a list \<Rightarrow> 'a list reader" where
  "read_each rd acc buf end offset =
     (if offset < end then
        (case rd buf end offset of
           Ok (x, offset') \<Rightarrow>
             if offset < offset' then read_each rd (acc @ [x]) buf end offset' else Panic
         | Err e \<Rightarrow> Err e
         | Panic \<Rightarrow> Panic)
      else Ok (acc, offset))"
  by pat_completeness auto
termination
  by (relation "measure (\<lambda>(rd, acc, buf, end, offset). end - offset)") auto

declare read_each.simps [simp del]

function p_each :: "'a parser \<Rightarrow> 'a list parser" where
  "p_each p s =
     (if s = [] then Ok ([], [])
      else
        (case p s of
           Ok (x, s') \<Rightarrow>
             if length s' < length s then rbind (p_each p s') (\<lambda>(xs, r). Ok (x # xs, r)) else Panic
         | Err e \<Rightarrow> Err e
         | Panic \<Rightarrow> Panic))"
  by pat_completeness auto
termination
  by (relation "measure (\<lambda>(p, s). length s)") auto

declare p_each.simps [simp del]

lemma p_each_Nil [simp]: "p_each p [] = Ok ([], [])"
  by (simp add: p_each.simps)

lemma p_each_rest: "p_each p s = Ok (xs, s') \<Longrightarrow> s' = []"
proof (induction p s arbitrary: xs s' rule: p_each.induct)
  case (1 p s)
  then show ?case
    by (subst (asm) (2) p_each.simps)
      (auto simp: rbind_Ok_iff split: if_splits result.splits)
qed

lemma read_each_eq:
  assumes "reads rd p" "offset \<le> end" "end \<le> length buf"
  shows "read_each rd acc buf end offset =
    rbind (p_each p (drop offset (take end buf))) (\<lambda>(xs, s). Ok (acc @ xs, end - length s))"
  using assms(2)
proof (induction "end - offset" arbitrary: offset acc rule: less_induct)
  case less
  let ?s = "drop offset (take end buf)"
  show ?case
  proof (cases "offset < end")
    case True
    then have ne: "?s \<noteq> []" using assms(3) by simp
    note rd = readsD(1) [OF assms(1) less.prems assms(3)]
    show ?thesis
    proof (cases "p ?s")
      case (Ok r)
      obtain x s' where r: "r = (x, s')" by fastforce
      with Ok readsD(2) [OF assms(1)] obtain w where w: "?s = w @ s'" by blast
      note reg = region_rest [OF w less.prems assms(3)]
      show ?thesis
      proof (cases "w = []")
        case True
        with w reg have "p_each p ?s = Panic" using Ok r ne by (subst p_each.simps) simp
        moreover have "read_each rd acc buf end offset = Panic"
          using True w reg rd \<open>offset < end\<close> Ok r by (subst read_each.simps) simp
        ultimately show ?thesis by simp
      next
        case False
        then have "0 < length w" by simp
        then have lt: "length s' < length ?s" "offset < end - length s'"
          unfolding w using reg(3) by (simp, linarith)
        have "p_each p ?s = rbind (p_each p s') (\<lambda>(xs, r). Ok (x # xs, r))"
          using Ok r ne lt(1) by (subst p_each.simps) simp
        moreover have "read_each rd acc buf end offset =
            read_each rd (acc @ [x]) buf end (end - length s')"
          using rd \<open>offset < end\<close> Ok r lt(2) by (subst read_each.simps) simp
        moreover have "read_each rd (acc @ [x]) buf end (end - length s') =
            rbind (p_each p s') (\<lambda>(xs, s). Ok ((acc @ [x]) @ xs, end - length s))"
          using less.hyps [of "end - length s'" "acc @ [x]"] reg(1,2) lt(2) True by auto
        ultimately show ?thesis by (cases "p_each p s'") auto
      qed
    qed (use rd True ne in \<open>simp_all add: p_each.simps [of p ?s] read_each.simps [of rd acc]\<close>)
  next
    case False
    with less.prems show ?thesis by (simp add: read_each.simps [of rd acc])
  qed
qed

lemma reads_each [reads_intros]:
  assumes "reads rd p"
  shows "reads (read_each rd []) (p_each p)"
proof (rule readsI)
  fix s xs s' assume "p_each p s = Ok (xs, s')"
  then have "s' = []" by (rule p_each_rest)
  then show "\<exists>w. s = w @ s'" by simp
qed (use read_each_eq [OF assms] in simp)

lemma p_each_Ok_iff:
  assumes "\<And>s x s'. p s = Ok (x, s') \<longleftrightarrow> ok x \<and> s = w x @ s'" "\<And>x. w x \<noteq> []"
  shows "p_each p s = Ok (xs, s') \<longleftrightarrow> (\<forall>x \<in> set xs. ok x) \<and> s = concat (map w xs) \<and> s' = []"
proof (induction p\<equiv>p s arbitrary: xs s' rule: p_each.induct)
  case (1 s)
  show ?case
  proof (cases "s = []")
    case True
    then show ?thesis using assms(2) by (cases xs) auto
  next
    case False
    show ?thesis
    proof (cases "\<exists>x s1. p s = Ok (x, s1)")
      case True
      then obtain x s1 where p: "p s = Ok (x, s1)" by blast
      with assms have s: "ok x" "s = w x @ s1" "length s1 < length s" by auto
      have each: "p_each p s = rbind (p_each p s1) (\<lambda>(xs, r). Ok (x # xs, r))"
        using False p s(3) by (subst p_each.simps) simp
      note IH = "1" [OF False p refl s(3)]
      show ?thesis
      proof (cases xs)
        case Nil
        with False show ?thesis by (auto simp: each rbind_Ok_iff)
      next
        case (Cons y ys)
        have "ok y \<and> s = w y @ concat (map w ys) \<longleftrightarrow> y = x \<and> s1 = concat (map w ys)"
          using assms(1) [of s y "concat (map w ys)"] p s(1,2) by auto
        with IH [of ys s'] show ?thesis by (auto simp: Cons each rbind_Ok_iff)
      qed
    next
      case no: False
      with False have "p_each p s \<noteq> Ok (xs, s')"
        by (subst p_each.simps) (auto split: result.splits)
      moreover have "\<not> ((\<forall>x \<in> set xs. ok x) \<and> s = concat (map w xs))"
        using no False assms(1) by (cases xs) auto
      ultimately show ?thesis by blast
    qed
  qed
qed

lemma p_each_no_panic:
  assumes "\<And>s. p s \<noteq> Panic" "\<And>s x s'. p s = Ok (x, s') \<Longrightarrow> length s' < length s"
  shows "p_each p s \<noteq> Panic"
proof (induction p\<equiv>p s rule: p_each.induct)
  case (1 s)
  show ?case
  proof
    assume "p_each p s = Panic"
    then obtain x s' where "s \<noteq> []" "p s = Ok (x, s')" "p_each p s' = Panic"
      using assms by (subst (asm) p_each.simps)
        (auto simp: rbind_Panic_iff split: result.splits if_splits)
    with "1" assms(2) show False by blast
  qed
qed

section \<open>Optional fields\<close>

text \<open>\<^verbatim>\<open>let x = if present { ...; Some(x) } else { None }\<close>\<close>

definition read_opt :: "bool \<Rightarrow> 'a reader \<Rightarrow> 'a option reader" where
  "read_opt present rd buf end offset =
     (if present then rbind (rd buf end offset) (\<lambda>(x, offset). Ok (Some x, offset))
      else Ok (None, offset))"

definition p_opt :: "bool \<Rightarrow> 'a parser \<Rightarrow> 'a option parser" where
  "p_opt present p s =
     (if present then rbind (p s) (\<lambda>(x, s). Ok (Some x, s)) else Ok (None, s))"

definition opt_bytes :: "('a \<Rightarrow> bytes) \<Rightarrow> 'a option \<Rightarrow> bytes" where
  "opt_bytes w x = (case x of None \<Rightarrow> [] | Some y \<Rightarrow> w y)"

lemma opt_bytes_simps [simp]: "opt_bytes w None = []" "opt_bytes w (Some y) = w y"
  by (simp_all add: opt_bytes_def)

lemma reads_opt [reads_intros]: "reads rd p \<Longrightarrow> reads (read_opt present rd) (p_opt present p)"
  unfolding read_opt_def [abs_def] p_opt_def [abs_def] by (intro reads_intros)

lemma p_opt_Ok_iff:
  assumes "\<And>s x s'. p s = Ok (x, s') \<longleftrightarrow> ok x \<and> s = w x @ s'"
  shows "p_opt present p s = Ok (x, s') \<longleftrightarrow>
    present = (x \<noteq> None) \<and> pred_option ok x \<and> s = opt_bytes w x @ s'"
  by (cases x) (auto simp: p_opt_def rbind_Ok_iff assms)

lemma p_opt_no_panic: "(\<And>s. p s \<noteq> Panic) \<Longrightarrow> p_opt present p s \<noteq> Panic"
  by (auto simp: p_opt_def rbind_Panic_iff)

lemmas p_opt_strings_no_panic [no_panic] =
  p_opt_no_panic [OF p_no_panic(5)] p_opt_no_panic [OF p_no_panic(6)]

lemmas p_opt_strings [wire_simps] = p_opt_Ok_iff [OF p_with_utf8_iff] p_opt_Ok_iff [OF p_with_binary_iff]

section \<open>Writers and the bytes they produce\<close>

text \<open>
  Given enough room, the writer appends exactly \<open>w\<close> if \<open>ok\<close> holds and reports an error otherwise;
  either way it does not panic.
\<close>

definition writes :: "(writer \<Rightarrow> (writer, encode_error) result) \<Rightarrow> bytes \<Rightarrow> bool \<Rightarrow> bool" where
  "writes f w ok \<longleftrightarrow>
     (\<forall>buf bs. length bs + length w \<le> length buf \<longrightarrow>
        (if ok then f (cursor buf bs) = Ok (cursor buf (bs @ w))
         else \<exists>e. f (cursor buf bs) = Err e))"

named_theorems writes_intros \<open>composition of writers\<close>

lemma writes_bind [writes_intros]:
  assumes "writes f v a" "writes g w b"
  shows "writes (\<lambda>x. rbind (f x) g) (v @ w) (a \<and> b)"
  unfolding writes_def
proof (intro allI impI)
  fix buf bs :: bytes assume le: "length bs + length (v @ w) \<le> length buf"
  show "if a \<and> b then rbind (f (cursor buf bs)) g = Ok (cursor buf (bs @ v @ w))
      else \<exists>e. rbind (f (cursor buf bs)) g = Err e"
  proof (cases a)
    case True
    then have "f (cursor buf bs) = Ok (cursor buf (bs @ v))" using assms(1) le by (simp add: writes_def)
    moreover have "if b then g (cursor buf (bs @ v)) = Ok (cursor buf ((bs @ v) @ w))
        else \<exists>e. g (cursor buf (bs @ v)) = Err e"
      using assms(2) le unfolding writes_def by (metis add.assoc length_append)
    ultimately show ?thesis using True by (simp split: if_splits)
  next
    case False
    then obtain e where "f (cursor buf bs) = Err e" using assms(1) le by (fastforce simp: writes_def)
    with False show ?thesis by simp
  qed
qed

lemma writes_cong: "writes f w ok \<Longrightarrow> w = w' \<Longrightarrow> ok = ok' \<Longrightarrow> writes f w' ok'"
  by simp

lemma writes_u8 [writes_intros]: "writes (put_u8 b) [b] True"
  by (simp add: writes_def)

lemma writes_bytes [writes_intros]: "writes (put_bytes w) w True"
  by (simp add: writes_def)

lemma writes_utf8 [writes_intros]:
  "writes (put_with (utf8_encode_str s)) (binary_bytes s) (0 \<notin> set s \<and> length s \<le> 65535)"
  by (simp add: writes_def put_utf8_cursor)

lemma writes_binary [writes_intros]:
  "writes (put_with (binary_encode_slice s)) (binary_bytes s) (length s \<le> 65535)"
  by (simp add: writes_def put_binary_cursor)

lemma writes_skip [writes_intros]: "writes (\<lambda>w. Ok w) [] True"
  by (simp add: writes_def)

lemma writes_err [writes_intros]: "writes (\<lambda>w. Err e) [] False"
  by (simp add: writes_def)

lemma writes_if [writes_intros]:
  "writes f v a \<Longrightarrow> writes g w b \<Longrightarrow>
   writes (\<lambda>x. if c then f x else g x) (if c then v else w) (if c then a else b)"
  by (cases c) simp_all

lemma writes_option [writes_intros]:
  "writes f v a \<Longrightarrow> (\<And>y. writes (g y) (w y) (b y)) \<Longrightarrow>
   writes (\<lambda>x. case m of None \<Rightarrow> f x | Some y \<Rightarrow> g y x)
     (case m of None \<Rightarrow> v | Some y \<Rightarrow> w y) (case m of None \<Rightarrow> a | Some y \<Rightarrow> b y)"
  by (cases m) simp_all

text \<open>\<^verbatim>\<open>for x in &xs { ... }\<close>\<close>

fun put_each :: "('a \<Rightarrow> writer \<Rightarrow> (writer, encode_error) result) \<Rightarrow> 'a list \<Rightarrow> writer \<Rightarrow>
    (writer, encode_error) result" where
  "put_each f [] w = Ok w"
| "put_each f (x # xs) w = rbind (f x w) (put_each f xs)"

lemma writes_each [writes_intros]:
  assumes "\<And>x. writes (f x) (w x) (ok x)"
  shows "writes (put_each f xs) (concat (map w xs)) (\<forall>x \<in> set xs. ok x)"
proof (induction xs)
  case Nil
  show ?case by (simp add: writes_def)
next
  case (Cons x xs)
  have "put_each f (x # xs) = (\<lambda>v. rbind (f x v) (put_each f xs))" by auto
  then show ?case using writes_bind [OF assms Cons.IH, of x] by simp
qed

section \<open>The body of an encoder\<close>

text \<open>The header, the body and the final offset of an encoder whose validation has passed.\<close>

lemma begin_frame_writes:
  assumes "writes f w ok" "length w \<le> max_remaining"
  shows "length (frame_wire b w) \<le> length buf \<Longrightarrow> ok \<Longrightarrow>
     rbind (begin_frame b (length w) buf) (\<lambda>x. rbind (f x) finish) =
       Ok (length (frame_wire b w), frame_wire b w @ drop (length (frame_wire b w)) buf)"
    "length buf < length (frame_wire b w) \<Longrightarrow>
     rbind (begin_frame b (length w) buf) (\<lambda>x. rbind (f x) finish) = Err BufferTooSmall"
    "rbind (begin_frame b (length w) buf) (\<lambda>x. rbind (f x) finish) \<noteq> Panic"
    "rbind (begin_frame b (length w) buf) (\<lambda>x. rbind (f x) finish) = Ok r \<Longrightarrow> ok"
proof -
  let ?h = "b # vbi_wire (word_of_nat (length w))"
  have h: "?h @ w = frame_wire b w" "length ?h + length w = length (frame_wire b w)"
    by (simp_all add: frame_wire_def)
  have f: "if ok then f (cursor buf ?h) = Ok (cursor buf (?h @ w)) else \<exists>e. f (cursor buf ?h) = Err e"
    if "length (frame_wire b w) \<le> length buf"
    using assms(1) that h(2) unfolding writes_def by metis
  note begin_frame = begin_frame_eq [OF assms(2), of b buf]
  show "rbind (begin_frame b (length w) buf) (\<lambda>x. rbind (f x) finish) =
       Ok (length (frame_wire b w), frame_wire b w @ drop (length (frame_wire b w)) buf)"
    if "length (frame_wire b w) \<le> length buf" ok
    using f that by (simp add: begin_frame length_frame_wire) (simp add: frame_wire_def)
  show "rbind (begin_frame b (length w) buf) (\<lambda>x. rbind (f x) finish) = Err BufferTooSmall"
    if "length buf < length (frame_wire b w)"
    using that by (simp add: begin_frame length_frame_wire)
  show "rbind (begin_frame b (length w) buf) (\<lambda>x. rbind (f x) finish) \<noteq> Panic"
    using f by (cases ok) (auto simp: begin_frame length_frame_wire rbind_Panic_iff not_less)
  show ok if "rbind (begin_frame b (length w) buf) (\<lambda>x. rbind (f x) finish) = Ok r"
    using f that
    by (cases ok) (auto simp: begin_frame length_frame_wire rbind_Ok_iff not_less split: if_splits)
qed

section \<open>The packet contract\<close>

text \<open>
  \<open>ok\<close> is what the decoder accepts; \<open>typed\<close> is what the Rust types alone guarantee (a \<^verbatim>\<open>String\<close> is
  valid UTF-8). On typed packets the encoder accepts nothing but what is \<open>ok\<close>.
\<close>

locale framed_packet =
  fixes enc :: "'a \<Rightarrow> encoder"
    and dec :: "'a decoder"
    and first :: "'a \<Rightarrow> u8"
    and body :: "'a \<Rightarrow> bytes"
    and ok :: "'a \<Rightarrow> bool"
    and typed :: "'a \<Rightarrow> bool"
  assumes enc_body: "ok x \<Longrightarrow> length (body x) \<le> max_remaining \<Longrightarrow> emits (enc x) (frame_wire (first x) (body x))"
    and enc_ok: "typed x \<Longrightarrow> enc x buf = Ok r \<Longrightarrow> ok x \<and> length (body x) \<le> max_remaining"
    and enc_no_panic: "enc x buf \<noteq> Panic"
    and dec_body: "dec buf = Ok (x, n) \<longleftrightarrow>
      ok x \<and> length (body x) \<le> max_remaining \<and> n = length (frame_wire (first x) (body x)) \<and>
      (\<exists>rest. buf = frame_wire (first x) (body x) @ rest)"
    and dec_no_panic: "dec buf \<noteq> Panic"

sublocale framed_packet \<subseteq> canonical_codec enc dec "\<lambda>x. frame_wire (first x) (body x)"
  "\<lambda>x. ok x \<and> length (body x) \<le> max_remaining"
proof unfold_locales
  fix bs x n assume "dec bs = Ok (x, n)"
  then show "(ok x \<and> length (body x) \<le> max_remaining) \<and> n \<le> length bs \<and>
      take n bs = frame_wire (first x) (body x)"
    by (auto simp: dec_body)
qed (auto simp: dec_body enc_body dec_no_panic)

context framed_packet
begin

lemma enc_Ok_iff:
  "typed x \<Longrightarrow> enc x buf = Ok (n, buf') \<longleftrightarrow>
    ok x \<and> length (body x) \<le> max_remaining \<and> n = length (frame_wire (first x) (body x)) \<and>
    n \<le> length buf \<and> buf' = frame_wire (first x) (body x) @ drop n buf"
  using enc_ok [of x buf "(n, buf')"] enc_body [of x]
  by (auto simp: emits_def split: if_splits)

text \<open>Whatever encodes is decoded again, from the buffer as the encoder left it.\<close>

lemma encode_decode:
  "typed x \<Longrightarrow> enc x buf = Ok (n, buf') \<Longrightarrow> dec buf' = Ok (x, n)"
  by (auto simp: enc_Ok_iff dec_body)

lemma dec_first:
  "dec buf = Ok (x, n) \<Longrightarrow> \<exists>r. buf = first x # r"
  by (auto simp: dec_body frame_wire_def)

end

section \<open>Reducing the contract to the body\<close>

lemma framed_encoder_len:
  assumes enc: "\<And>buf. enc x buf =
      rbind validate (\<lambda>_. rbind (check_remaining_len n) (\<lambda>_.
      rbind (begin_frame b n buf) (\<lambda>w. rbind (f w) finish)))"
    and f: "writes f w ok"
    and n: "validate = Ok () \<Longrightarrow> n \<le> max_remaining \<or> length w \<le> max_remaining \<Longrightarrow> n = length w"
    and validate: "validate \<noteq> Panic"
  shows "validate = Ok () \<Longrightarrow> ok \<Longrightarrow> length w \<le> max_remaining \<Longrightarrow> emits (enc x) (frame_wire b w)"
    "enc x buf \<noteq> Panic"
    "enc x buf = Ok r \<Longrightarrow> validate = Ok () \<and> ok \<and> length w \<le> max_remaining"
proof -
  show "emits (enc x) (frame_wire b w)" if "validate = Ok ()" ok "length w \<le> max_remaining"
  proof -
    have "n = length w" using n that by simp
    with that show ?thesis
      using begin_frame_writes(1,2) [OF f that(3), where b = b]
      by (intro emitsI) (simp_all add: enc check_remaining_len_def vbi_MAX_unat)
  qed
  show "enc x buf \<noteq> Panic"
  proof
    assume "enc x buf = Panic"
    then have v: "validate = Ok ()" "n \<le> max_remaining"
      and p: "rbind (begin_frame b n buf) (\<lambda>w. rbind (f w) finish) = Panic"
      using validate
      by (auto simp: enc rbind_Panic_iff check_remaining_len_def vbi_MAX_unat split: if_splits)
    from begin_frame_writes(3) [OF f, where b = b and buf = buf] p n v show False by simp
  qed
  show "validate = Ok () \<and> ok \<and> length w \<le> max_remaining" if "enc x buf = Ok r"
  proof -
    from that have v: "validate = Ok ()" "n \<le> max_remaining"
      and p: "rbind (begin_frame b n buf) (\<lambda>w. rbind (f w) finish) = Ok r"
      by (auto simp: enc rbind_Ok_iff check_remaining_len_def vbi_MAX_unat split: if_splits)
    from n v have "n = length w" by simp
    with v p begin_frame_writes(4) [OF f, where b = b and buf = buf] show ?thesis by simp
  qed
qed

text \<open>The length is computed with saturation, or without where it cannot overflow.\<close>

lemma framed_encoder:
  assumes "\<And>buf. enc x buf =
      rbind validate (\<lambda>_. rbind (check_remaining_len n) (\<lambda>_.
      rbind (begin_frame b n buf) (\<lambda>w. rbind (f w) finish)))"
    and "writes f w ok" and n: "validate = Ok () \<Longrightarrow> n = min (length w) usize_max"
    and "validate \<noteq> Panic"
  shows "validate = Ok () \<Longrightarrow> ok \<Longrightarrow> length w \<le> max_remaining \<Longrightarrow> emits (enc x) (frame_wire b w)"
    "enc x buf \<noteq> Panic"
    "enc x buf = Ok r \<Longrightarrow> validate = Ok () \<and> ok \<and> length w \<le> max_remaining"
proof -
  have n': "n = length w" if "validate = Ok ()" "n \<le> max_remaining \<or> length w \<le> max_remaining"
    using n that by (auto simp: usize_max_def)
  note enc = framed_encoder_len [of enc x, OF assms(1,2) n' assms(4)]
  show "validate = Ok () \<Longrightarrow> ok \<Longrightarrow> length w \<le> max_remaining \<Longrightarrow> emits (enc x) (frame_wire b w)"
    by (rule enc(1))
  show "enc x buf \<noteq> Panic" by (rule enc(2))
  show "enc x buf = Ok r \<Longrightarrow> validate = Ok () \<and> ok \<and> length w \<le> max_remaining" by (rule enc(3))
qed



text \<open>
  A decoder that checks the type and the flags of the first byte, reads the header and then the body.
\<close>

lemma framed_decoder:
  assumes dec: "dec [] = Err InsufficientData"
    "\<And>b r. dec (b # r) =
      (if b AND 0xF0 \<noteq> t then Err InvalidPacketType
       else if b AND 0x0F \<noteq> f then Err InvalidPacketFlags
       else rbind (read_frame_header (b # r)) (\<lambda>(offset, end). rd (b # r) end offset))"
    and rd: "reads rd p" "\<And>s x s'. p s = Ok (x, s') \<longleftrightarrow> ok x \<and> s = body x \<and> s' = []" "\<And>s. p s \<noteq> Panic"
    and byte: "(t OR f) AND 0xF0 = t" "(t OR f) AND 0x0F = f"
  shows "dec buf = Ok (x, n) \<longleftrightarrow> ok x \<and> length (body x) \<le> max_remaining \<and>
      n = length (frame_wire (t OR f) (body x)) \<and> (\<exists>rest. buf = frame_wire (t OR f) (body x) @ rest)"
    "dec buf \<noteq> Panic"
proof -
  show "dec buf = Ok (x, n) \<longleftrightarrow> ok x \<and> length (body x) \<le> max_remaining \<and>
      n = length (frame_wire (t OR f) (body x)) \<and> (\<exists>rest. buf = frame_wire (t OR f) (body x) @ rest)"
  proof (cases buf)
    case (Cons b r)
    have "dec buf = Ok (x, n) \<longleftrightarrow> b = t OR f \<and>
        rbind (read_frame_header (b # r)) (\<lambda>(offset, end). rd (b # r) end offset) = Ok (x, n)"
      using nibbles_iff [OF byte, of b] by (auto simp: dec(2) Cons)
    then show ?thesis
      unfolding frame_decode_packet [OF rd(1,2)] by (auto simp: Cons Cons_frame_wire)
  qed (simp add: dec(1))
  show "dec buf \<noteq> Panic"
    using frame_decode_no_panic [OF rd(1,3)] by (cases buf) (auto simp: dec)
qed

lemma usize_saturating_min [simp]:
  "usize_saturating_add (min a usize_max) b = min (a + b) usize_max"
  "usize_saturating_add (numeral k) b = min (numeral k + b) usize_max"
  by (auto simp: usize_saturating_add_def)

text \<open>A decoder that compares the whole first byte.\<close>

lemma framed_decoder_byte:
  assumes dec: "dec [] = Err InsufficientData"
    "\<And>b r. dec (b # r) =
      (if b \<noteq> t then Err e
       else rbind (read_frame_header (b # r)) (\<lambda>(offset, end). rd (b # r) end offset))"
    and rd: "reads rd p" "\<And>s x s'. p s = Ok (x, s') \<longleftrightarrow> ok x \<and> s = body x \<and> s' = []" "\<And>s. p s \<noteq> Panic"
  shows "dec buf = Ok (x, n) \<longleftrightarrow> ok x \<and> length (body x) \<le> max_remaining \<and>
      n = length (frame_wire t (body x)) \<and> (\<exists>rest. buf = frame_wire t (body x) @ rest)"
    "dec buf \<noteq> Panic"
proof -
  show "dec buf = Ok (x, n) \<longleftrightarrow> ok x \<and> length (body x) \<le> max_remaining \<and>
      n = length (frame_wire t (body x)) \<and> (\<exists>rest. buf = frame_wire t (body x) @ rest)"
  proof (cases buf)
    case (Cons b r)
    have "dec buf = Ok (x, n) \<longleftrightarrow> b = t \<and>
        rbind (read_frame_header (b # r)) (\<lambda>(offset, end). rd (b # r) end offset) = Ok (x, n)"
      by (auto simp: dec(2) Cons)
    then show ?thesis
      unfolding frame_decode_packet [OF rd(1,2)] by (auto simp: Cons Cons_frame_wire)
  qed (simp add: dec(1))
  show "dec buf \<noteq> Panic"
    using frame_decode_no_panic [OF rd(1,3)] by (cases buf) (auto simp: dec)
qed

section \<open>Dispatch\<close>

text \<open>\<^verbatim>\<open>let (p, n) = T::decode(buf)?; Ok((Packet::T(p), n))\<close>\<close>

definition decode_as :: "('a \<Rightarrow> 'p) \<Rightarrow> 'a decoder \<Rightarrow> 'p decoder" where
  "decode_as mk dec buf = rbind (dec buf) (\<lambda>(p, n). Ok (mk p, n))"

lemma decode_as_Ok_iff: "decode_as mk dec buf = Ok (y, n) \<longleftrightarrow> (\<exists>p. dec buf = Ok (p, n) \<and> y = mk p)"
  by (auto simp: decode_as_def rbind_Ok_iff)

lemma decode_as_Panic_iff [simp]: "decode_as mk dec buf = Panic \<longleftrightarrow> dec buf = Panic"
  by (auto simp: decode_as_def rbind_Panic_iff)

lemma map_decode_as: "map_result (apfst f) id (decode_as mk dec buf) = decode_as (\<lambda>p. f (mk p)) dec buf"
  by (cases "dec buf") (auto simp: decode_as_def)

section \<open>Codecs as parsers and writers\<close>

context canonical_codec
begin

lemma p_with_iff: "p_with dec s = Ok (x, s') \<longleftrightarrow> valid x \<and> s = wire x @ s'"
  by (auto simp: p_with_def rbind_Ok_iff dec_iff)

lemma p_with_no_panic: "p_with dec s \<noteq> Panic"
  using dec_total by (auto simp: p_with_def rbind_Panic_iff)

lemma reads_p_with: "reads (read_with dec) (p_with dec)"
  by (rule reads_with) (auto simp: dec_iff)

end

text \<open>An encoder that appends \<open>w\<close> where there is room and \<open>ok\<close> holds, and reports an error otherwise.\<close>

definition encodes :: "encoder \<Rightarrow> bytes \<Rightarrow> bool \<Rightarrow> bool" where
  "encodes enc w ok \<longleftrightarrow>
     (\<forall>buf. if ok \<and> length w \<le> length buf then enc buf = Ok (length w, w @ drop (length w) buf)
            else \<exists>e. enc buf = Err e)"

lemma encodesI:
  assumes "\<And>buf. ok \<Longrightarrow> length w \<le> length buf \<Longrightarrow> enc buf = Ok (length w, w @ drop (length w) buf)"
    and "\<And>buf. \<not> ok \<or> length buf < length w \<Longrightarrow> \<exists>e. enc buf = Err e"
  shows "encodes enc w ok"
  using assms by (auto simp: encodes_def not_le)

lemma encodes_cong: "encodes enc w ok \<Longrightarrow> w = w' \<Longrightarrow> ok = ok' \<Longrightarrow> encodes enc w' ok'"
  by simp

lemma writes_with:
  assumes "encodes enc w ok"
  shows "writes (put_with enc) w ok"
  unfolding writes_def
proof (intro allI impI)
  fix buf bs :: bytes assume le: "length bs + length w \<le> length buf"
  let ?sub = "drop (length bs) buf"
  have sub: "subslice_from (bs @ ?sub) (length bs) = Ok ?sub" using le by simp
  show "if ok then put_with enc (cursor buf bs) = Ok (cursor buf (bs @ w))
      else \<exists>e. put_with enc (cursor buf bs) = Err e"
  proof (cases ok)
    case True
    then have "enc ?sub = Ok (length w, w @ drop (length w) ?sub)"
      using assms le by (simp add: encodes_def)
    with True sub show ?thesis by (simp add: cursor_def add.commute)
  next
    case False
    then obtain e where "enc ?sub = Err e" using assms unfolding encodes_def by meson
    with False sub show ?thesis by (simp add: cursor_def)
  qed
qed

lemma encodes_emits: "encodes enc w ok \<Longrightarrow> ok \<Longrightarrow> length w \<le> length buf \<Longrightarrow>
  enc buf = Ok (length w, w @ drop (length w) buf)"
  by (simp add: encodes_def)

lemma encodes_fails: "encodes enc w ok \<Longrightarrow> \<not> (ok \<and> length w \<le> length buf) \<Longrightarrow> \<exists>e. enc buf = Err e"
  unfolding encodes_def by meson

lemma encodes_no_panic: "encodes enc w ok \<Longrightarrow> enc buf \<noteq> Panic"
  unfolding encodes_def by (metis result.distinct(3,5))

lemma encodes_utf8:
  "encodes (utf8_encode_str s) (binary_bytes s) (0 \<notin> set s \<and> length s \<le> 65535)"
  by (rule encodesI)
    (auto simp: utf8_encode_str_def unat_u16_max copy_from_slice_def binary_bytes_def Let_def)

lemma encodes_binary: "encodes (binary_encode_slice s) (binary_bytes s) (length s \<le> 65535)"
  by (rule encodesI)
    (auto simp: binary_encode_slice_def unat_u16_max copy_from_slice_def binary_bytes_def Let_def)

lemma encodes_vbi: "encodes (vbi_encode v) (vbi_wire v) (v \<le> vbi_MAX)"
  using vbi.encode_fits [of v] vbi.encode_too_small [of v]
  by (intro encodesI) (auto simp: vbi_encode_def not_le)

end
