(* ===== verification/V5Value.thy ===== *)
theory V5Value
  imports Packet
begin

unbundle bit_operations_syntax

text \<open>
  The values inside MQTT 5 properties: the helper encoders and decoders at the end of
  \<^verbatim>\<open>src/v5/property/mod.rs\<close>, each as an interpretation of the canonical codec contract.
\<close>

section \<open>Big-endian 32-bit values\<close>

definition u32_to_be_bytes :: "u32 \<Rightarrow> bytes" where
  "u32_to_be_bytes w = [ucast (drop_bit 24 w), ucast (drop_bit 16 w), ucast (drop_bit 8 w), ucast w]"

definition u32_from_be_bytes :: "u8 \<Rightarrow> u8 \<Rightarrow> u8 \<Rightarrow> u8 \<Rightarrow> u32" where
  "u32_from_be_bytes b0 b1 b2 b3 =
     push_bit 24 (ucast b0) OR push_bit 16 (ucast b1) OR push_bit 8 (ucast b2) OR ucast b3"

lemma length_u32_to_be_bytes [simp]: "length (u32_to_be_bytes w) = 4"
  by (simp add: u32_to_be_bytes_def)

lemma u8_bit_bound: "bit (x :: u8) n \<Longrightarrow> n < 8"
  using bit_imp_le_length [of x n] by simp

lemma u8_bit_far [simp]: "\<not> bit (x :: u8) (16 + n)" "\<not> bit (x :: u8) (24 + n)"
  using u8_bit_bound [of x "16 + n"] u8_bit_bound [of x "24 + n"] by auto

lemma u32_from_to_be_bytes [simp]:
  "u32_from_be_bytes (ucast (drop_bit 24 w)) (ucast (drop_bit 16 w)) (ucast (drop_bit 8 w)) (ucast w) = w"
proof (rule bit_word_eqI)
  fix n assume "n < LENGTH(32)"
  then consider "n < 8" | "8 \<le> n" "n < 16" | "16 \<le> n" "n < 24" | "24 \<le> n" "n < 32" by fastforce
  then show "bit (u32_from_be_bytes (ucast (drop_bit 24 w)) (ucast (drop_bit 16 w))
      (ucast (drop_bit 8 w)) (ucast w)) n = bit w n"
    by cases (auto simp: u32_from_be_bytes_def bit_simps)
qed

lemma u32_to_from_be_bytes [simp]:
  "u32_to_be_bytes (u32_from_be_bytes b0 b1 b2 b3) = [b0, b1, b2, b3]"
  unfolding u32_from_be_bytes_def u32_to_be_bytes_def
  by (auto intro!: bit_word_eqI simp: bit_simps dest: u8_bit_bound)

section \<open>Fixed-width values\<close>

definition encode_u8 :: "u8 \<Rightarrow> encoder" where
  "encode_u8 value buf =
     (if buf = [] then Err BufferTooSmall
      else rbind (index_set buf 0 value) (\<lambda>buf. Ok (1, buf)))"

definition encode_u16 :: "u16 \<Rightarrow> encoder" where
  "encode_u16 value buf =
     (if length buf < 2 then Err BufferTooSmall
      else rbind (copy_from_slice buf 0 (u16_to_be_bytes value)) (\<lambda>buf. Ok (2, buf)))"

definition encode_u32 :: "u32 \<Rightarrow> encoder" where
  "encode_u32 value buf =
     (if length buf < 4 then Err BufferTooSmall
      else rbind (copy_from_slice buf 0 (u32_to_be_bytes value)) (\<lambda>buf. Ok (4, buf)))"

definition decode_u8 :: "u8 decoder" where
  "decode_u8 buf =
     (if buf = [] then Err InsufficientData else rbind (index buf 0) (\<lambda>b. Ok (b, 1)))"

definition decode_u16 :: "u16 decoder" where
  "decode_u16 buf =
     (if length buf < 2 then Err InsufficientData
      else rbind (index buf 0) (\<lambda>b0. rbind (index buf 1) (\<lambda>b1. Ok (u16_from_be_bytes b0 b1, 2))))"

definition decode_u32 :: "u32 decoder" where
  "decode_u32 buf =
     (if length buf < 4 then Err InsufficientData
      else
        rbind (index buf 0) (\<lambda>b0.
        rbind (index buf 1) (\<lambda>b1.
        rbind (index buf 2) (\<lambda>b2.
        rbind (index buf 3) (\<lambda>b3. Ok (u32_from_be_bytes b0 b1 b2 b3, 4))))))"

lemma encodes_u8: "encodes (encode_u8 v) [v] True"
proof (rule encodesI)
  fix buf :: bytes assume "length [v] \<le> length buf"
  then show "encode_u8 v buf = Ok (length [v], [v] @ drop (length [v]) buf)"
    by (cases buf) (simp_all add: encode_u8_def index_set_def)
qed (simp add: encode_u8_def)

lemma encodes_u16: "encodes (encode_u16 v) (u16_to_be_bytes v) True"
  by (rule encodesI) (auto simp: encode_u16_def copy_from_slice_def simp flip: numeral_2_eq_2)

lemma encodes_u32: "encodes (encode_u32 v) (u32_to_be_bytes v) True"
  by (rule encodesI) (auto simp: encode_u32_def copy_from_slice_def)

lemma list2_cases: "2 \<le> length xs \<Longrightarrow> \<exists>a b r. xs = a # b # r"
  by (cases xs; cases "tl xs") auto

lemma list4_cases: "4 \<le> length xs \<Longrightarrow> \<exists>a b c d r. xs = a # b # c # d # r"
  using list2_cases [of xs] list2_cases [of "tl (tl xs)"] by fastforce

lemma u16_be_Cons: "u16_to_be_bytes w @ r = a # b # s \<longleftrightarrow> w = u16_from_be_bytes a b \<and> r = s"
proof -
  have "u16_to_be_bytes w = [a, b] \<longleftrightarrow> w = u16_from_be_bytes a b"
    by (metis u16_to_be_bytes_inject u16_to_from_be_bytes)
  then show ?thesis by (auto simp: u16_to_be_bytes_def)
qed

lemma u32_be_Cons:
  "u32_to_be_bytes w @ r = a # b # c # d # s \<longleftrightarrow> w = u32_from_be_bytes a b c d \<and> r = s"
proof -
  have "u32_to_be_bytes w = [a, b, c, d] \<longleftrightarrow> w = u32_from_be_bytes a b c d"
  proof
    assume "u32_to_be_bytes w = [a, b, c, d]"
    then show "w = u32_from_be_bytes a b c d"
      using u32_from_to_be_bytes [of w] by (simp add: u32_to_be_bytes_def)
  qed simp
  then show ?thesis by (auto simp: u32_to_be_bytes_def)
qed

lemma decode_u8_iff: "decode_u8 buf = Ok (v, n) \<longleftrightarrow> n = 1 \<and> (\<exists>r. buf = [v] @ r)"
  by (cases buf) (auto simp: decode_u8_def)

lemma decode_u16_iff: "decode_u16 buf = Ok (v, n) \<longleftrightarrow> n = 2 \<and> (\<exists>r. buf = u16_to_be_bytes v @ r)"
proof (cases "2 \<le> length buf")
  case True
  with list2_cases obtain a b s where "buf = a # b # s" by blast
  then show ?thesis using u16_be_Cons [of v _ a b s] by (auto simp: decode_u16_def eq_commute)
qed (auto simp: decode_u16_def)

lemma decode_u32_iff: "decode_u32 buf = Ok (v, n) \<longleftrightarrow> n = 4 \<and> (\<exists>r. buf = u32_to_be_bytes v @ r)"
proof (cases "4 \<le> length buf")
  case True
  with list4_cases obtain a b c d s where "buf = a # b # c # d # s" by blast
  then show ?thesis
    using u32_be_Cons [of v _ a b c d s] by (auto simp: decode_u32_def eq_commute numeral_2_eq_2 numeral_3_eq_3)
qed (auto simp: decode_u32_def)

text \<open>A codec given by what its encoder emits and what its decoder accepts.\<close>

lemma canonical_codecI:
  assumes "\<And>x. encodes (enc x) (wire x) (fits x)" "\<And>x. valid x \<Longrightarrow> fits x"
    and "\<And>bs x n. dec bs = Ok (x, n) \<longleftrightarrow> valid x \<and> n = length (wire x) \<and> (\<exists>r. bs = wire x @ r)"
    and "\<And>bs. dec bs \<noteq> Panic"
    and "\<And>x buf. length buf < length (wire x) \<Longrightarrow> valid x \<Longrightarrow> enc x buf = Err BufferTooSmall"
  shows "canonical_codec enc dec wire valid"
proof unfold_locales
  show "emits (enc x) (wire x)" if "valid x" for x
    using that assms(1,2) [of x] assms(5) by (intro emitsI) (auto simp: encodes_def)
  show "dec (wire x @ rest) = Ok (x, length (wire x))" if "valid x" for x rest
    using that by (simp add: assms(3))
  show "dec bs \<noteq> Panic" for bs by (rule assms(4))
  show "valid x \<and> n \<le> length bs \<and> take n bs = wire x" if "dec bs = Ok (x, n)" for bs x n
    using that by (auto simp: assms(3))
qed

interpretation value_u8: canonical_codec encode_u8 decode_u8 "\<lambda>v. [v]" "\<lambda>_. True"
proof (rule canonical_codecI [OF encodes_u8])
  show "decode_u8 bs = Ok (x, n) \<longleftrightarrow> True \<and> n = length ([x]) \<and> (\<exists>r. bs = [x] @ r)" for bs x n
    by (simp add: decode_u8_iff)
qed (auto simp: decode_u8_def encode_u8_def)

interpretation value_u16: canonical_codec encode_u16 decode_u16 u16_to_be_bytes "\<lambda>_. True"
proof (rule canonical_codecI [OF encodes_u16])
  show "decode_u16 bs = Ok (x, n) \<longleftrightarrow> True \<and> n = length (u16_to_be_bytes x) \<and> (\<exists>r. bs = u16_to_be_bytes x @ r)" for bs x n
    by (simp add: decode_u16_iff)
qed (auto simp: decode_u16_def encode_u16_def)

interpretation value_u32: canonical_codec encode_u32 decode_u32 u32_to_be_bytes "\<lambda>_. True"
proof (rule canonical_codecI [OF encodes_u32])
  show "decode_u32 bs = Ok (x, n) \<longleftrightarrow> True \<and> n = length (u32_to_be_bytes x) \<and> (\<exists>r. bs = u32_to_be_bytes x @ r)" for bs x n
    by (simp add: decode_u32_iff)
qed (auto simp: decode_u32_def encode_u32_def)

section \<open>User properties\<close>

definition encode_user_property :: "rstring \<Rightarrow> rstring \<Rightarrow> encoder" where
  "encode_user_property key value buf =
     (if length buf < 2 + length key + 2 + length value then Err BufferTooSmall
      else
        rbind (utf8_encode_str key buf) (\<lambda>(offset, buf).
        rbind (put_with (utf8_encode_str value) (buf, offset)) (\<lambda>(buf, offset). Ok (offset, buf))))"

text \<open>\<^verbatim>\<open>let (k, n1) = decode_string(buf)?; let (v, n2) = decode_string(&buf[n1..])?\<close>\<close>

definition decode_user_property :: "(rstring \<times> rstring) decoder" where
  "decode_user_property buf =
     rbind (utf8_decode buf) (\<lambda>(k, n1).
     rbind (subslice_from buf n1) (\<lambda>s.
     rbind (utf8_decode s) (\<lambda>(v, n2). Ok ((k, v), n1 + n2))))"

lemma encodes_user_property:
  "encodes (encode_user_property k v) (binary_bytes k @ binary_bytes v)
     ((0 \<notin> set k \<and> length k \<le> 65535) \<and> (0 \<notin> set v \<and> length v \<le> 65535))"
proof (rule encodesI)
  fix buf :: bytes
  let ?w = "binary_bytes k @ binary_bytes v"
  note k = encodes_utf8 [of k] and v = writes_utf8 [of v]
  show "encode_user_property k v buf = Ok (length ?w, ?w @ drop (length ?w) buf)"
    if "(0 \<notin> set k \<and> length k \<le> 65535) \<and> (0 \<notin> set v \<and> length v \<le> 65535)" "length ?w \<le> length buf"
  proof -
    have "utf8_encode_str k buf = Ok (length (binary_bytes k), binary_bytes k @ drop (length (binary_bytes k)) buf)"
      using encodes_emits [OF k] that by simp
    moreover have "put_with (utf8_encode_str v) (cursor buf (binary_bytes k)) = Ok (cursor buf ?w)"
      using v that unfolding writes_def by simp
    ultimately show ?thesis
      using that by (simp add: encode_user_property_def cursor_def)
  qed
  show "\<exists>e. encode_user_property k v buf = Err e"
    if no: "\<not> ((0 \<notin> set k \<and> length k \<le> 65535) \<and> (0 \<notin> set v \<and> length v \<le> 65535)) \<or> length buf < length ?w"
  proof (cases "length buf < length ?w")
    case fits: False
    show ?thesis
    proof (cases "0 \<notin> set k \<and> length k \<le> 65535")
      case True
      then have "utf8_encode_str k buf = Ok (length (binary_bytes k), binary_bytes k @ drop (length (binary_bytes k)) buf)"
        using encodes_emits [OF k] fits by simp
      moreover have "length (binary_bytes k) + length (binary_bytes v) \<le> length buf" using fits by simp
      then obtain e where "put_with (utf8_encode_str v) (cursor buf (binary_bytes k)) = Err e"
        using v no True fits unfolding writes_def by (metis (no_types, lifting))
      ultimately show ?thesis using fits by (simp add: encode_user_property_def cursor_def)
    next
      case False
      then obtain e where "utf8_encode_str k buf = Err e" using encodes_fails [OF k] by blast
      with fits show ?thesis by (simp add: encode_user_property_def)
    qed
  qed (simp add: encode_user_property_def)
qed

lemma decode_user_property_iff:
  "decode_user_property buf = Ok (x, n) \<longleftrightarrow>
     (mqtt_string (fst x) \<and> mqtt_string (snd x)) \<and>
     n = length (binary_bytes (fst x) @ binary_bytes (snd x)) \<and>
     (\<exists>r. buf = (binary_bytes (fst x) @ binary_bytes (snd x)) @ r)"
proof
  assume "decode_user_property buf = Ok (x, n)"
  then show "(mqtt_string (fst x) \<and> mqtt_string (snd x)) \<and>
     n = length (binary_bytes (fst x) @ binary_bytes (snd x)) \<and>
     (\<exists>r. buf = (binary_bytes (fst x) @ binary_bytes (snd x)) @ r)"
    by (auto simp: decode_user_property_def rbind_Ok_iff utf8.dec_iff)
next
  assume "(mqtt_string (fst x) \<and> mqtt_string (snd x)) \<and>
     n = length (binary_bytes (fst x) @ binary_bytes (snd x)) \<and>
     (\<exists>r. buf = (binary_bytes (fst x) @ binary_bytes (snd x)) @ r)"
  then show "decode_user_property buf = Ok (x, n)"
    by (cases x) (auto simp: decode_user_property_def utf8.dec_wire)
qed

lemma decode_user_property_no_panic: "decode_user_property buf \<noteq> Panic"
  by (auto simp: decode_user_property_def rbind_Panic_iff utf8.dec_iff)

end
