(* ===== verification/V5Property.thy ===== *)
theory V5Property
  imports V5Value TopicFilter BTree
begin

unbundle bit_operations_syntax

text \<open>
  The properties of MQTT 5, \<^verbatim>\<open>src/v5/property/mod.rs\<close> and \<^verbatim>\<open>src/v5/property/validate.rs\<close>:
  single properties, property lists with their duplicate check, and the lists of the properties each
  packet may carry. Single properties and property lists are canonical codecs.
\<close>

section \<open>One property\<close>

datatype property =
    PayloadFormatIndicator u8
  | MessageExpiryInterval u32
  | ContentType rstring
  | ResponseTopic rstring
  | CorrelationData bytes
  | SubscriptionIdentifier u32
  | SessionExpiryInterval u32
  | AssignedClientIdentifier rstring
  | ServerKeepAlive u16
  | AuthenticationMethod rstring
  | AuthenticationData bytes
  | RequestProblemInformation u8
  | WillDelayInterval u32
  | RequestResponseInformation u8
  | ResponseInformation rstring
  | ServerReference rstring
  | ReasonString rstring
  | ReceiveMaximum u16
  | TopicAliasMaximum u16
  | TopicAlias u16
  | MaximumQoS u8
  | RetainAvailable u8
  | UserProperty rstring rstring
  | MaximumPacketSize u32
  | WildcardSubscriptionAvailable u8
  | SubscriptionIdentifierAvailable u8
  | SharedSubscriptionAvailable u8

fun property_identifier :: "property \<Rightarrow> u8" where
  "property_identifier (PayloadFormatIndicator v) = 0x01"
| "property_identifier (MessageExpiryInterval v) = 0x02"
| "property_identifier (ContentType v) = 0x03"
| "property_identifier (ResponseTopic v) = 0x08"
| "property_identifier (CorrelationData v) = 0x09"
| "property_identifier (SubscriptionIdentifier v) = 0x0B"
| "property_identifier (SessionExpiryInterval v) = 0x11"
| "property_identifier (AssignedClientIdentifier v) = 0x12"
| "property_identifier (ServerKeepAlive v) = 0x13"
| "property_identifier (AuthenticationMethod v) = 0x15"
| "property_identifier (AuthenticationData v) = 0x16"
| "property_identifier (RequestProblemInformation v) = 0x17"
| "property_identifier (WillDelayInterval v) = 0x18"
| "property_identifier (RequestResponseInformation v) = 0x19"
| "property_identifier (ResponseInformation v) = 0x1A"
| "property_identifier (ServerReference v) = 0x1C"
| "property_identifier (ReasonString v) = 0x1F"
| "property_identifier (ReceiveMaximum v) = 0x21"
| "property_identifier (TopicAliasMaximum v) = 0x22"
| "property_identifier (TopicAlias v) = 0x23"
| "property_identifier (MaximumQoS v) = 0x24"
| "property_identifier (RetainAvailable v) = 0x25"
| "property_identifier (UserProperty k v) = 0x26"
| "property_identifier (MaximumPacketSize v) = 0x27"
| "property_identifier (WildcardSubscriptionAvailable v) = 0x28"
| "property_identifier (SubscriptionIdentifierAvailable v) = 0x29"
| "property_identifier (SharedSubscriptionAvailable v) = 0x2A"

text \<open>The \<^verbatim>\<open>value_len\<close> of \<^verbatim>\<open>encoded_len\<close>, and the identifier in front of it.\<close>

fun property_value_len :: "property \<Rightarrow> nat" where
  "property_value_len (PayloadFormatIndicator v) = 1"
| "property_value_len (MessageExpiryInterval v) = 4"
| "property_value_len (ContentType v) = usize_saturating_add 2 (length v)"
| "property_value_len (ResponseTopic v) = usize_saturating_add 2 (length v)"
| "property_value_len (CorrelationData v) = usize_saturating_add 2 (length v)"
| "property_value_len (SubscriptionIdentifier v) = vbi_encoded_len v"
| "property_value_len (SessionExpiryInterval v) = 4"
| "property_value_len (AssignedClientIdentifier v) = usize_saturating_add 2 (length v)"
| "property_value_len (ServerKeepAlive v) = 2"
| "property_value_len (AuthenticationMethod v) = usize_saturating_add 2 (length v)"
| "property_value_len (AuthenticationData v) = usize_saturating_add 2 (length v)"
| "property_value_len (RequestProblemInformation v) = 1"
| "property_value_len (WillDelayInterval v) = 4"
| "property_value_len (RequestResponseInformation v) = 1"
| "property_value_len (ResponseInformation v) = usize_saturating_add 2 (length v)"
| "property_value_len (ServerReference v) = usize_saturating_add 2 (length v)"
| "property_value_len (ReasonString v) = usize_saturating_add 2 (length v)"
| "property_value_len (ReceiveMaximum v) = 2"
| "property_value_len (TopicAliasMaximum v) = 2"
| "property_value_len (TopicAlias v) = 2"
| "property_value_len (MaximumQoS v) = 1"
| "property_value_len (RetainAvailable v) = 1"
| "property_value_len (UserProperty k v) = usize_saturating_add (usize_saturating_add (usize_saturating_add 2 (length k)) 2) (length v)"
| "property_value_len (MaximumPacketSize v) = 4"
| "property_value_len (WildcardSubscriptionAvailable v) = 1"
| "property_value_len (SubscriptionIdentifierAvailable v) = 1"
| "property_value_len (SharedSubscriptionAvailable v) = 1"

definition property_encoded_len :: "property \<Rightarrow> nat" where
  "property_encoded_len p = usize_saturating_add 1 (property_value_len p)"

fun property_validate_value :: "property \<Rightarrow> (unit, encode_error) result" where
  "property_validate_value (PayloadFormatIndicator v) =
     (if 1 < v then Err (InvalidField InvalidPropertyValue) else Ok ())"
| "property_validate_value (RequestProblemInformation v) =
     (if 1 < v then Err (InvalidField InvalidPropertyValue) else Ok ())"
| "property_validate_value (RequestResponseInformation v) =
     (if 1 < v then Err (InvalidField InvalidPropertyValue) else Ok ())"
| "property_validate_value (RetainAvailable v) =
     (if 1 < v then Err (InvalidField InvalidPropertyValue) else Ok ())"
| "property_validate_value (WildcardSubscriptionAvailable v) =
     (if 1 < v then Err (InvalidField InvalidPropertyValue) else Ok ())"
| "property_validate_value (SubscriptionIdentifierAvailable v) =
     (if 1 < v then Err (InvalidField InvalidPropertyValue) else Ok ())"
| "property_validate_value (SharedSubscriptionAvailable v) =
     (if 1 < v then Err (InvalidField InvalidPropertyValue) else Ok ())"
| "property_validate_value (MaximumQoS v) =
     (if 1 < v then Err (InvalidField InvalidPropertyValue) else Ok ())"
| "property_validate_value (ReceiveMaximum v) =
     (if v = 0 then Err (InvalidField InvalidPropertyValue) else Ok ())"
| "property_validate_value (TopicAlias v) =
     (if v = 0 then Err (InvalidField InvalidPropertyValue) else Ok ())"
| "property_validate_value (TopicAliasMaximum v) = Ok ()"
| "property_validate_value (MaximumPacketSize v) =
     (if v = 0 then Err (InvalidField InvalidPropertyValue) else Ok ())"
| "property_validate_value (SubscriptionIdentifier v) =
     (if v = 0 then Err (InvalidField InvalidPropertyValue) else Ok ())"
| "property_validate_value (ResponseTopic topic) =
     (if topic = [] then Err (InvalidField EmptyTopicName)
      else if str_contains plus_byte topic \<or> str_contains hash_byte topic
      then Err (InvalidField WildcardInTopicName)
      else Ok ())"
| "property_validate_value _ = Ok ()"

text \<open>The arms of the match in \<^verbatim>\<open>encode\<close>: the identifier and the writer of the value.\<close>

fun property_writer :: "property \<Rightarrow> u8 \<times> encoder" where
  "property_writer (PayloadFormatIndicator v) = (0x01, encode_u8 v)"
| "property_writer (MessageExpiryInterval v) = (0x02, encode_u32 v)"
| "property_writer (ContentType v) = (0x03, utf8_encode_str v)"
| "property_writer (ResponseTopic v) = (0x08, utf8_encode_str v)"
| "property_writer (CorrelationData v) = (0x09, binary_encode_slice v)"
| "property_writer (SubscriptionIdentifier v) = (0x0B, vbi_encode v)"
| "property_writer (SessionExpiryInterval v) = (0x11, encode_u32 v)"
| "property_writer (AssignedClientIdentifier v) = (0x12, utf8_encode_str v)"
| "property_writer (ServerKeepAlive v) = (0x13, encode_u16 v)"
| "property_writer (AuthenticationMethod v) = (0x15, utf8_encode_str v)"
| "property_writer (AuthenticationData v) = (0x16, binary_encode_slice v)"
| "property_writer (RequestProblemInformation v) = (0x17, encode_u8 v)"
| "property_writer (WillDelayInterval v) = (0x18, encode_u32 v)"
| "property_writer (RequestResponseInformation v) = (0x19, encode_u8 v)"
| "property_writer (ResponseInformation v) = (0x1A, utf8_encode_str v)"
| "property_writer (ServerReference v) = (0x1C, utf8_encode_str v)"
| "property_writer (ReasonString v) = (0x1F, utf8_encode_str v)"
| "property_writer (ReceiveMaximum v) = (0x21, encode_u16 v)"
| "property_writer (TopicAliasMaximum v) = (0x22, encode_u16 v)"
| "property_writer (TopicAlias v) = (0x23, encode_u16 v)"
| "property_writer (MaximumQoS v) = (0x24, encode_u8 v)"
| "property_writer (RetainAvailable v) = (0x25, encode_u8 v)"
| "property_writer (UserProperty k v) = (0x26, encode_user_property k v)"
| "property_writer (MaximumPacketSize v) = (0x27, encode_u32 v)"
| "property_writer (WildcardSubscriptionAvailable v) = (0x28, encode_u8 v)"
| "property_writer (SubscriptionIdentifierAvailable v) = (0x29, encode_u8 v)"
| "property_writer (SharedSubscriptionAvailable v) = (0x2A, encode_u8 v)"

definition property_encode :: "property \<Rightarrow> encoder" where
  "property_encode p buf =
     rbind (property_validate_value p) (\<lambda>_.
     if length buf < property_encoded_len p then Err BufferTooSmall
     else
       (case property_writer p of (identifier, enc) \<Rightarrow>
        rbind (subslice_from buf 1) (\<lambda>sub.
        rbind (enc sub) (\<lambda>(written, sub).
        rbind (index_set (take 1 buf @ sub) 0 identifier) (\<lambda>buf. Ok (1 + written, buf))))))"

text \<open>The match in \<^verbatim>\<open>decode_value\<close>.\<close>

definition property_read_value :: "u8 \<Rightarrow> property decoder" where
  "property_read_value identifier buf =
     (if identifier = 0x01 then decode_as PayloadFormatIndicator decode_u8 buf
      else if identifier = 0x02 then decode_as MessageExpiryInterval decode_u32 buf
      else if identifier = 0x03 then decode_as ContentType utf8_decode buf
      else if identifier = 0x08 then decode_as ResponseTopic utf8_decode buf
      else if identifier = 0x09 then decode_as CorrelationData binary_decode buf
      else if identifier = 0x0B then decode_as SubscriptionIdentifier vbi_decode buf
      else if identifier = 0x11 then decode_as SessionExpiryInterval decode_u32 buf
      else if identifier = 0x12 then decode_as AssignedClientIdentifier utf8_decode buf
      else if identifier = 0x13 then decode_as ServerKeepAlive decode_u16 buf
      else if identifier = 0x15 then decode_as AuthenticationMethod utf8_decode buf
      else if identifier = 0x16 then decode_as AuthenticationData binary_decode buf
      else if identifier = 0x17 then decode_as RequestProblemInformation decode_u8 buf
      else if identifier = 0x18 then decode_as WillDelayInterval decode_u32 buf
      else if identifier = 0x19 then decode_as RequestResponseInformation decode_u8 buf
      else if identifier = 0x1A then decode_as ResponseInformation utf8_decode buf
      else if identifier = 0x1C then decode_as ServerReference utf8_decode buf
      else if identifier = 0x1F then decode_as ReasonString utf8_decode buf
      else if identifier = 0x21 then decode_as ReceiveMaximum decode_u16 buf
      else if identifier = 0x22 then decode_as TopicAliasMaximum decode_u16 buf
      else if identifier = 0x23 then decode_as TopicAlias decode_u16 buf
      else if identifier = 0x24 then decode_as MaximumQoS decode_u8 buf
      else if identifier = 0x25 then decode_as RetainAvailable decode_u8 buf
      else if identifier = 0x26 then decode_as (\<lambda>(k, v). UserProperty k v) decode_user_property buf
      else if identifier = 0x27 then decode_as MaximumPacketSize decode_u32 buf
      else if identifier = 0x28 then decode_as WildcardSubscriptionAvailable decode_u8 buf
      else if identifier = 0x29 then decode_as SubscriptionIdentifierAvailable decode_u8 buf
      else if identifier = 0x2A then decode_as SharedSubscriptionAvailable decode_u8 buf
      else Err MalformedPacket)"

definition property_decode_value :: "u8 \<Rightarrow> property decoder" where
  "property_decode_value identifier buf =
     rbind (property_read_value identifier buf) (\<lambda>(property, consumed).
     rbind (map_err (\<lambda>_. MalformedPacket) (property_validate_value property)) (\<lambda>_.
     Ok (property, consumed)))"

definition property_decode :: "property decoder" where
  "property_decode buf =
     rbind (vbi_decode buf) (\<lambda>(identifier, id_len).
     if 0x2A < identifier then Err MalformedPacket
     else
       rbind (subslice_from buf id_len) (\<lambda>s.
       rbind (property_decode_value (ucast identifier) s) (\<lambda>(property, consumed).
       Ok (property, id_len + consumed))))"

subsection \<open>Its encoding\<close>

fun property_value_bytes :: "property \<Rightarrow> bytes" where
  "property_value_bytes (PayloadFormatIndicator v) = [v]"
| "property_value_bytes (MessageExpiryInterval v) = u32_to_be_bytes v"
| "property_value_bytes (ContentType v) = binary_bytes v"
| "property_value_bytes (ResponseTopic v) = binary_bytes v"
| "property_value_bytes (CorrelationData v) = binary_bytes v"
| "property_value_bytes (SubscriptionIdentifier v) = vbi_wire v"
| "property_value_bytes (SessionExpiryInterval v) = u32_to_be_bytes v"
| "property_value_bytes (AssignedClientIdentifier v) = binary_bytes v"
| "property_value_bytes (ServerKeepAlive v) = u16_to_be_bytes v"
| "property_value_bytes (AuthenticationMethod v) = binary_bytes v"
| "property_value_bytes (AuthenticationData v) = binary_bytes v"
| "property_value_bytes (RequestProblemInformation v) = [v]"
| "property_value_bytes (WillDelayInterval v) = u32_to_be_bytes v"
| "property_value_bytes (RequestResponseInformation v) = [v]"
| "property_value_bytes (ResponseInformation v) = binary_bytes v"
| "property_value_bytes (ServerReference v) = binary_bytes v"
| "property_value_bytes (ReasonString v) = binary_bytes v"
| "property_value_bytes (ReceiveMaximum v) = u16_to_be_bytes v"
| "property_value_bytes (TopicAliasMaximum v) = u16_to_be_bytes v"
| "property_value_bytes (TopicAlias v) = u16_to_be_bytes v"
| "property_value_bytes (MaximumQoS v) = [v]"
| "property_value_bytes (RetainAvailable v) = [v]"
| "property_value_bytes (UserProperty k v) = binary_bytes k @ binary_bytes v"
| "property_value_bytes (MaximumPacketSize v) = u32_to_be_bytes v"
| "property_value_bytes (WildcardSubscriptionAvailable v) = [v]"
| "property_value_bytes (SubscriptionIdentifierAvailable v) = [v]"
| "property_value_bytes (SharedSubscriptionAvailable v) = [v]"

definition property_bytes :: "property \<Rightarrow> bytes" where
  "property_bytes p = property_identifier p # property_value_bytes p"

text \<open>What the value encoders require, and what the Rust types guarantee.\<close>

fun property_strings :: "property \<Rightarrow> rstring list" where
  "property_strings (ContentType v) = [v]"
| "property_strings (ResponseTopic v) = [v]"
| "property_strings (AssignedClientIdentifier v) = [v]"
| "property_strings (AuthenticationMethod v) = [v]"
| "property_strings (ResponseInformation v) = [v]"
| "property_strings (ServerReference v) = [v]"
| "property_strings (ReasonString v) = [v]"
| "property_strings (UserProperty k v) = [k, v]"
| "property_strings _ = []"

fun property_fits :: "property \<Rightarrow> bool" where
  "property_fits (CorrelationData v) \<longleftrightarrow> length v \<le> 65535"
| "property_fits (AuthenticationData v) \<longleftrightarrow> length v \<le> 65535"
| "property_fits (SubscriptionIdentifier v) \<longleftrightarrow> v \<le> vbi_MAX"
| "property_fits p \<longleftrightarrow> (\<forall>s \<in> set (property_strings p). 0 \<notin> set s \<and> length s \<le> 65535)"

definition property_typed :: "property \<Rightarrow> bool" where
  "property_typed p \<longleftrightarrow> (\<forall>s \<in> set (property_strings p). utf8_valid s)"

definition property_ok :: "property \<Rightarrow> bool" where
  "property_ok p \<longleftrightarrow> property_typed p \<and> property_fits p \<and> property_validate_value p = Ok ()"

lemma property_writer_identifier: "fst (property_writer p) = property_identifier p"
  by (cases p) simp_all

lemma encodes_property_value:
  "encodes (snd (property_writer p)) (property_value_bytes p) (property_fits p)"
proof (cases p)
  case (UserProperty k v)
  then show ?thesis using encodes_user_property [of k v] by (auto elim!: encodes_cong)
qed (use encodes_u8 encodes_u16 encodes_u32 encodes_utf8 encodes_binary encodes_vbi in simp_all)

lemma property_encoded_len_eq:
  "property_fits p \<Longrightarrow> property_encoded_len p = min (length (property_bytes p)) usize_max"
  by (cases p) (simp_all add: property_encoded_len_def property_bytes_def usize_saturating_add_def
      length_vbi_wire usize_max_def)

lemma property_encoded_len_le: "property_encoded_len p \<le> length (property_bytes p) \<or> \<not> property_fits p"
  using property_encoded_len_eq [of p] by auto

lemma property_encoded_len_pos: "1 \<le> property_encoded_len p"
  by (simp add: property_encoded_len_def usize_saturating_add_def usize_max_def)

lemma property_validate_no_panic [simp]: "property_validate_value p \<noteq> Panic"
  by (cases p) simp_all

lemma property_validate_cases:
  "property_validate_value p = Ok () \<or> (\<exists>e. property_validate_value p = Err e)"
  by (cases "property_validate_value p") auto

lemma encodes_property:
  "encodes (property_encode p) (property_bytes p) (property_fits p \<and> property_validate_value p = Ok ())"
proof (rule encodesI)
  fix buf :: bytes
  let ?w = "property_value_bytes p"
  obtain enc where wr: "property_writer p = (property_identifier p, enc)"
    using property_writer_identifier [of p] by (metis prod.collapse)
  then have enc: "encodes enc ?w (property_fits p)" using encodes_property_value [of p] by simp
  show "property_encode p buf = Ok (length (property_bytes p), property_bytes p @ drop (length (property_bytes p)) buf)"
    if ok: "property_fits p \<and> property_validate_value p = Ok ()" and le: "length (property_bytes p) \<le> length buf"
  proof -
    obtain b sub where buf: "buf = b # sub" using le by (cases buf) (simp_all add: property_bytes_def)
    have "enc sub = Ok (length ?w, ?w @ drop (length ?w) sub)"
      using encodes_emits [OF enc] ok le by (simp add: buf property_bytes_def)
    then show ?thesis
      using ok le property_encoded_len_le [of p]
      by (simp add: property_encode_def wr buf index_set_def property_bytes_def)
  qed
  show "\<exists>e. property_encode p buf = Err e"
    if no: "\<not> (property_fits p \<and> property_validate_value p = Ok ()) \<or> length buf < length (property_bytes p)"
  proof (cases "property_validate_value p = Ok () \<and> \<not> length buf < property_encoded_len p")
    case True
    then obtain b sub where buf: "buf = b # sub"
      using property_encoded_len_pos [of p] by (cases buf) auto
    have "\<not> (property_fits p \<and> length ?w \<le> length sub)"
      using no True by (auto simp: buf property_bytes_def)
    then obtain e where "enc sub = Err e" using encodes_fails [OF enc] by blast
    with True show ?thesis by (simp add: property_encode_def wr buf)
  next
    case False
    then show ?thesis
      using property_validate_cases [of p] by (auto simp: property_encode_def)
  qed
qed

subsection \<open>A canonical codec\<close>

lemma vbi_wire_small: "v < 128 \<Longrightarrow> vbi_wire v = [ucast v]"
  unfolding vbi_wire_def by (subst vbi_bytes.simps) (simp add: word_less_nat_alt)

lemma property_identifier_range: "property_identifier p \<le> 0x2A"
  by (cases p) simp_all

lemma property_identifier_ucast [simp]: "ucast (ucast (property_identifier p) :: u32) = property_identifier p"
  by (cases p) simp_all

lemmas value_dec_iffs = value_u8.dec_iff value_u16.dec_iff value_u32.dec_iff utf8.dec_iff
  binary.dec_iff vbi.dec_iff decode_user_property_iff

lemma property_read_value_Ok:
  "property_read_value i buf = Ok (p, n) \<Longrightarrow>
   property_identifier p = i \<and> property_typed p \<and> property_fits p \<and>
   n = length (property_value_bytes p) \<and> (\<exists>r. buf = property_value_bytes p @ r)"
  unfolding property_read_value_def
  by (auto simp: decode_as_Ok_iff value_dec_iffs property_typed_def mqtt_string_def split: if_splits)

lemma property_read_value_bytes:
  "property_typed p \<Longrightarrow> property_fits p \<Longrightarrow>
   property_read_value (property_identifier p) (property_value_bytes p @ r) =
     Ok (p, length (property_value_bytes p))"
  by (cases p) (auto simp: property_read_value_def decode_as_Ok_iff value_dec_iffs property_typed_def
      mqtt_string_def)

lemma property_read_value_no_panic [simp]: "property_read_value i buf \<noteq> Panic"
  by (simp add: property_read_value_def decode_user_property_no_panic value_u8.dec_total
      value_u16.dec_total value_u32.dec_total)

lemma property_decode_value_iff:
  "property_decode_value i buf = Ok (p, n) \<longleftrightarrow>
     property_identifier p = i \<and> property_ok p \<and>
     n = length (property_value_bytes p) \<and> (\<exists>r. buf = property_value_bytes p @ r)"
  using property_read_value_Ok [of i buf p n] property_read_value_bytes [of p]
  by (auto simp: property_decode_value_def rbind_Ok_iff property_ok_def)

lemma property_decode_iff:
  "property_decode buf = Ok (p, n) \<longleftrightarrow>
     property_ok p \<and> n = length (property_bytes p) \<and> (\<exists>r. buf = property_bytes p @ r)"
proof
  assume "property_decode buf = Ok (p, n)"
  then obtain v k c where v: "vbi_decode buf = Ok (v, k)" "v \<le> 0x2A" "n = k + c"
    and p: "property_decode_value (ucast v) (drop k buf) = Ok (p, c)"
    by (auto simp: property_decode_def rbind_Ok_iff not_less subslice_from_def subslice_def
        split: if_splits)
  from v(1) obtain r where "buf = vbi_wire v @ r" "k = length (vbi_wire v)" by (auto simp: vbi.dec_iff)
  moreover have "vbi_wire v = [ucast v]" using v(2) by (intro vbi_wire_small) (auto simp: word_less_nat_alt word_le_nat_alt)
  ultimately show "property_ok p \<and> n = length (property_bytes p) \<and> (\<exists>r. buf = property_bytes p @ r)"
    using p v(3) by (auto simp: property_decode_value_iff property_bytes_def)
next
  assume "property_ok p \<and> n = length (property_bytes p) \<and> (\<exists>r. buf = property_bytes p @ r)"
  then obtain r where p: "property_ok p" "n = length (property_bytes p)" "buf = property_bytes p @ r" by blast
  let ?v = "ucast (property_identifier p) :: u32"
  have le: "?v \<le> 0x2A" using property_identifier_range [of p] by (cases p) simp_all
  then have "vbi_wire ?v = [property_identifier p]"
    by (subst vbi_wire_small; cases p) simp_all
  then have "vbi_decode buf = Ok (?v, 1)"
    using vbi.dec_wire [of ?v "property_value_bytes p @ r"] le
    by (simp add: p(3) property_bytes_def vbi_MAX_def word_le_nat_alt)
  moreover have "property_decode_value (ucast ?v) (property_value_bytes p @ r) =
      Ok (p, length (property_value_bytes p))"
    using p(1) by (simp add: property_decode_value_iff)
  ultimately show "property_decode buf = Ok (p, n)"
    using le p by (simp add: property_decode_def property_bytes_def)
qed

lemma property_decode_no_panic: "property_decode buf \<noteq> Panic"
  by (auto simp: property_decode_def property_decode_value_def rbind_Panic_iff vbi.dec_iff)

interpretation property: canonical_codec property_encode property_decode property_bytes property_ok
proof (rule canonical_codecI [OF encodes_property])
  show "property_encode p buf = Err BufferTooSmall"
    if "length buf < length (property_bytes p)" "property_ok p" for p buf
  proof -
    have "length (property_bytes p) \<le> usize_max"
      using that(2) by (cases p) (simp_all add: property_ok_def property_bytes_def length_vbi_wire
          vbi_encoded_len_def usize_max_def)
    then show ?thesis
      using that property_encoded_len_eq [of p]
      by (simp add: property_encode_def property_ok_def)
  qed
qed (simp_all add: property_ok_def property_decode_iff property_decode_no_panic)

lemma property_bytes_not_Nil: "property_bytes p \<noteq> []"
  by (simp add: property_bytes_def)

section \<open>Property lists\<close>

type_synonym properties = "property list"

definition has_identifier :: "properties \<Rightarrow> u8 \<Rightarrow> bool" where
  "has_identifier ps identifier = list_ex (\<lambda>p. property_identifier p = identifier) ps"

definition property_payload_len :: "properties \<Rightarrow> nat" where
  "property_payload_len ps = fold (\<lambda>len acc. usize_saturating_add acc len) (map property_encoded_len ps) 0"

definition properties_encoded_len :: "properties \<Rightarrow> nat" where
  "properties_encoded_len ps =
     (let properties_len = property_payload_len ps in
      if unat vbi_MAX < properties_len then usize_max
      else usize_saturating_add (vbi_encoded_len (word_of_nat properties_len)) properties_len)"

definition properties_encode :: "properties \<Rightarrow> encoder" where
  "properties_encode ps buf =
     (let properties_len = property_payload_len ps in
      if unat vbi_MAX < properties_len then Err (PacketTooLarge properties_len (unat vbi_MAX))
      else
        let vbi = word_of_nat properties_len in
        if length buf < properties_encoded_len ps then Err BufferTooSmall
        else
          rbind (vbi_encode vbi buf) (\<lambda>(offset, buf).
          rbind (put_each (\<lambda>p. put_with (property_encode p)) ps (buf, offset)) finish))"

text \<open>The loop of \<^verbatim>\<open>validate_duplicate_identifiers\<close>; \<open>seen\<close> is its \<^verbatim>\<open>BTreeSet\<close>.\<close>

fun duplicate_loop :: "bool \<Rightarrow> u8 btset \<Rightarrow> properties \<Rightarrow> (unit, encode_error) result" where
  "duplicate_loop allow seen [] = Ok ()"
| "duplicate_loop allow seen (p # ps) =
     (let identifier = property_identifier p in
      if identifier \<noteq> 0x26 \<and> \<not> (allow \<and> identifier = 0x0B) then
        if bs_contains identifier seen then Err (InvalidField DuplicatePropertyIdentifier)
        else duplicate_loop allow (bs_insert identifier seen) ps
      else duplicate_loop allow seen ps)"

definition validate_duplicate_identifiers :: "bool \<Rightarrow> properties \<Rightarrow> (unit, encode_error) result" where
  "validate_duplicate_identifiers allow ps = duplicate_loop allow [] ps"

definition properties_decode_with :: "bool \<Rightarrow> properties decoder" where
  "properties_decode_with allow buf =
     rbind (map_err malformed_if_insufficient (vbi_decode buf)) (\<lambda>(properties_len, vbi_len).
     let offset = vbi_len; end = offset + unat properties_len in
     if length buf < end then Err MalformedPacket
     else
       rbind (read_each (read_with property_decode) [] buf end offset) (\<lambda>(ps, offset).
       rbind (map_err (\<lambda>_. MalformedPacket) (validate_duplicate_identifiers allow ps)) (\<lambda>_.
       Ok (ps, offset))))"

definition properties_decode :: "properties decoder" where
  "properties_decode buf = properties_decode_with False buf"

definition properties_decode_for_publish :: "properties decoder" where
  "properties_decode_for_publish buf = properties_decode_with True buf"

subsection \<open>Duplicates\<close>

definition no_duplicates :: "bool \<Rightarrow> properties \<Rightarrow> bool" where
  "no_duplicates allow ps \<longleftrightarrow>
     distinct (filter (\<lambda>i. i \<noteq> 0x26 \<and> \<not> (allow \<and> i = 0x0B)) (map property_identifier ps))"

lemma duplicate_loop_iff:
  "duplicate_loop allow seen ps = Ok () \<longleftrightarrow>
     distinct (filter (\<lambda>i. i \<noteq> 0x26 \<and> \<not> (allow \<and> i = 0x0B)) (map property_identifier ps)) \<and>
     set (filter (\<lambda>i. i \<noteq> 0x26 \<and> \<not> (allow \<and> i = 0x0B)) (map property_identifier ps)) \<inter> set seen = {}"
proof (induction ps arbitrary: seen)
  case (Cons p ps)
  let ?i = "property_identifier p"
  show ?case
  proof (cases "?i \<noteq> 0x26 \<and> \<not> (allow \<and> ?i = 0x0B)")
    case True
    then show ?thesis
      using Cons.IH [of "bs_insert ?i seen"] by (simp add: Let_def del: set_filter de_Morgan_conj) blast
  next
    case False
    then have "duplicate_loop allow seen (p # ps) = duplicate_loop allow seen ps"
      "filter (\<lambda>i. i \<noteq> 0x26 \<and> \<not> (allow \<and> i = 0x0B)) (map property_identifier (p # ps)) =
       filter (\<lambda>i. i \<noteq> 0x26 \<and> \<not> (allow \<and> i = 0x0B)) (map property_identifier ps)"
      by (auto simp: Let_def)
    with Cons.IH [of seen] show ?thesis by simp
  qed
qed simp

lemma duplicate_loop_no_panic [simp]: "duplicate_loop allow seen ps \<noteq> Panic"
  by (induction allow seen ps rule: duplicate_loop.induct) (auto simp: Let_def)

lemma validate_duplicates_iff [simp]:
  "validate_duplicate_identifiers allow ps = Ok () \<longleftrightarrow> no_duplicates allow ps"
  "validate_duplicate_identifiers allow ps \<noteq> Panic"
  by (simp_all add: validate_duplicate_identifiers_def duplicate_loop_iff no_duplicates_def)

subsection \<open>Encoding\<close>

definition properties_body :: "properties \<Rightarrow> bytes" where
  "properties_body ps = concat (map property_bytes ps)"

definition properties_bytes :: "properties \<Rightarrow> bytes" where
  "properties_bytes ps = vbi_wire (word_of_nat (length (properties_body ps))) @ properties_body ps"

definition properties_fit :: "properties \<Rightarrow> bool" where
  "properties_fit ps \<longleftrightarrow>
     (\<forall>p \<in> set ps. property_fits p \<and> property_validate_value p = Ok ()) \<and>
     length (properties_body ps) \<le> max_remaining"

definition properties_ok :: "bool \<Rightarrow> properties \<Rightarrow> bool" where
  "properties_ok allow ps \<longleftrightarrow>
     (\<forall>p \<in> set ps. property_ok p) \<and> length (properties_body ps) \<le> max_remaining \<and> no_duplicates allow ps"

definition properties_typed :: "properties \<Rightarrow> bool" where
  "properties_typed ps \<longleftrightarrow> (\<forall>p \<in> set ps. property_typed p)"

lemma properties_ok_iff:
  "properties_ok allow ps \<longleftrightarrow> properties_typed ps \<and> properties_fit ps \<and> no_duplicates allow ps"
  by (auto simp: properties_ok_def properties_typed_def properties_fit_def property_ok_def)

lemma property_payload_len_eq:
  assumes "\<forall>p \<in> set ps. property_fits p"
  shows "property_payload_len ps = min (length (properties_body ps)) usize_max"
proof -
  have "fold (\<lambda>len acc. usize_saturating_add acc len) (map property_encoded_len ps) (min n usize_max) =
      min (n + length (concat (map property_bytes ps))) usize_max" for n
    using assms
  proof (induction ps arbitrary: n)
    case (Cons p ps)
    have "usize_saturating_add (min n usize_max) (property_encoded_len p) =
        min (n + length (property_bytes p)) usize_max"
      using Cons.prems property_encoded_len_eq [of p] by simp
    with Cons show ?case by (simp add: add.assoc)
  qed simp
  from this [of 0] show ?thesis by (simp add: property_payload_len_def properties_body_def)
qed

text \<open>Writing the properties one after the other, in any room.\<close>

lemma put_properties:
  assumes "length bs \<le> length buf"
  shows "if (\<forall>p \<in> set ps. property_fits p \<and> property_validate_value p = Ok ()) \<and>
        length bs + length (properties_body ps) \<le> length buf
      then put_each (\<lambda>p. put_with (property_encode p)) ps (cursor buf bs) =
        Ok (cursor buf (bs @ properties_body ps))
      else \<exists>e. put_each (\<lambda>p. put_with (property_encode p)) ps (cursor buf bs) = Err e"
  using assms
proof (induction ps arbitrary: bs)
  case Nil
  then show ?case by (simp add: properties_body_def)
next
  case (Cons p ps)
  let ?sub = "drop (length bs) buf"
  have sub: "subslice_from (bs @ ?sub) (length bs) = Ok ?sub" using Cons.prems by simp
  show ?case
  proof (cases "(property_fits p \<and> property_validate_value p = Ok ()) \<and> length (property_bytes p) \<le> length ?sub")
    case True
    then have le: "length (bs @ property_bytes p) \<le> length buf" using Cons.prems by auto
    have "put_with (property_encode p) (cursor buf bs) = Ok (cursor buf (bs @ property_bytes p))"
      using encodes_emits [OF encodes_property [of p], of ?sub] True sub
      by (simp add: cursor_def add.commute)
    with Cons.IH [OF le] True show ?thesis by (auto simp: properties_body_def)
  next
    case False
    then obtain e where "property_encode p ?sub = Err e"
      using encodes_fails [OF encodes_property [of p]] by blast
    with sub have "put_with (property_encode p) (cursor buf bs) = Err e" by (simp add: cursor_def)
    then have fails: "\<exists>e. put_each (\<lambda>p. put_with (property_encode p)) (p # ps) (cursor buf bs) = Err e" by simp
    have no: "\<not> ((\<forall>q \<in> set (p # ps). property_fits q \<and> property_validate_value q = Ok ()) \<and>
        length bs + length (properties_body (p # ps)) \<le> length buf)"
      using False Cons.prems by (auto simp: properties_body_def)
    from fails show ?thesis unfolding if_not_P [OF no] .
  qed
qed

lemma put_properties_fail:
  assumes "length bs \<le> length buf"
    "\<not> ((\<forall>p \<in> set ps. property_fits p \<and> property_validate_value p = Ok ()) \<and>
      length bs + length (properties_body ps) \<le> length buf)"
  shows "\<exists>e. put_each (\<lambda>p. put_with (property_encode p)) ps (cursor buf bs) = Err e"
  using put_properties [OF assms(1), of ps] unfolding if_not_P [OF assms(2)] .

lemma properties_encoded_len_fit:
  assumes "properties_fit ps"
  shows "property_payload_len ps = length (properties_body ps)"
    "properties_encoded_len ps = length (properties_bytes ps)"
proof -
  show pl: "property_payload_len ps = length (properties_body ps)"
    using assms property_payload_len_eq [of ps] by (auto simp: properties_fit_def usize_max_def)
  note v = remaining_word [of "length (properties_body ps)"]
  show "properties_encoded_len ps = length (properties_bytes ps)"
    using assms v length_vbi_wire [of "word_of_nat (length (properties_body ps))"]
    by (auto simp: properties_encoded_len_def pl properties_fit_def properties_bytes_def
        vbi_MAX_unat usize_saturating_add_def usize_max_def vbi_encoded_len_def)
qed

lemma encodes_properties: "encodes (properties_encode ps) (properties_bytes ps) (properties_fit ps)"
proof (rule encodesI)
  fix buf :: bytes
  let ?n = "property_payload_len ps"
  let ?v = "vbi_wire (word_of_nat ?n)"
  show "properties_encode ps buf =
      Ok (length (properties_bytes ps), properties_bytes ps @ drop (length (properties_bytes ps)) buf)"
    if fit: "properties_fit ps" and le: "length (properties_bytes ps) \<le> length buf"
  proof -
    note len = properties_encoded_len_fit [OF fit]
    have n: "?n \<le> max_remaining" using fit by (simp add: len properties_fit_def)
    have "vbi_encode (word_of_nat ?n) buf = Ok (length ?v, ?v @ drop (length ?v) buf)"
      using encodes_emits [OF encodes_vbi remaining_word(2) [OF n]] le
      by (simp add: len properties_bytes_def)
    moreover have "put_each (\<lambda>p. put_with (property_encode p)) ps (cursor buf ?v) =
        Ok (cursor buf (?v @ properties_body ps))"
      using put_properties [of ?v buf ps] fit le
      by (simp add: properties_fit_def properties_bytes_def len)
    ultimately show ?thesis
      using le n by (simp add: properties_encode_def len vbi_MAX_unat properties_bytes_def cursor_def Let_def)
  qed
  show "\<exists>e. properties_encode ps buf = Err e"
    if no: "\<not> properties_fit ps \<or> length buf < length (properties_bytes ps)"
  proof (cases "?n \<le> max_remaining \<and> \<not> length buf < properties_encoded_len ps")
    case True
    note n = remaining_word(2) [of ?n]
    have nofit: "\<not> properties_fit ps" using no True properties_encoded_len_fit by auto
    show ?thesis
    proof (cases "length ?v \<le> length buf")
      case v: True
      have "\<not> ((\<forall>p \<in> set ps. property_fits p \<and> property_validate_value p = Ok ()) \<and>
          length ?v + length (properties_body ps) \<le> length buf)"
        using nofit True property_payload_len_eq [of ps] by (auto simp: properties_fit_def usize_max_def)
      then obtain e where "put_each (\<lambda>p. put_with (property_encode p)) ps (cursor buf ?v) = Err e"
        using put_properties_fail [OF v] by blast
      moreover have "vbi_encode (word_of_nat ?n) buf = Ok (length ?v, ?v @ drop (length ?v) buf)"
        using encodes_emits [OF encodes_vbi n v] True by simp
      ultimately show ?thesis using True
        by (simp add: properties_encode_def vbi_MAX_unat cursor_def Let_def)
    next
      case False
      then obtain e where "vbi_encode (word_of_nat ?n) buf = Err e"
        using encodes_fails [OF encodes_vbi] by blast
      then show ?thesis using True by (simp add: properties_encode_def vbi_MAX_unat Let_def)
    qed
  next
    case False
    then show ?thesis by (auto simp: properties_encode_def vbi_MAX_unat not_le Let_def)
  qed
qed


subsection \<open>Decoding\<close>

lemma properties_decode_iff:
  "properties_decode_with allow buf = Ok (ps, n) \<longleftrightarrow>
     properties_ok allow ps \<and> n = length (properties_bytes ps) \<and> (\<exists>r. buf = properties_bytes ps @ r)"
proof -
  note each = p_each_Ok_iff [OF property.p_with_iff property_bytes_not_Nil]
  have region: "read_each (read_with property_decode) [] buf end offset = Ok (ps, m) \<longleftrightarrow>
      (\<forall>p \<in> set ps. property_ok p) \<and> drop offset (take end buf) = properties_body ps \<and> m = end"
    if "offset \<le> end" "end \<le> length buf" for offset "end" m
    using read_each_eq [OF property.reads_p_with that, of "[]"]
    by (auto simp: rbind_Ok_iff each properties_body_def)
  show ?thesis
  proof
    assume "properties_decode_with allow buf = Ok (ps, n)"
    then obtain v k where v: "vbi_decode buf = Ok (v, k)" "k + unat v \<le> length buf"
      and ps: "read_each (read_with property_decode) [] buf (k + unat v) k = Ok (ps, n)"
      and dup: "no_duplicates allow ps"
      by (auto simp: properties_decode_with_def rbind_Ok_iff Let_def not_less split: if_splits)
    from ps v(2) have b: "\<forall>p \<in> set ps. property_ok p" "drop k (take (k + unat v) buf) = properties_body ps"
      "n = k + unat v" by (auto simp: region)
    from v(1) obtain r where r: "v \<le> vbi_MAX" "k = length (vbi_wire v)" "buf = vbi_wire v @ r"
      by (auto simp: vbi.dec_iff)
    with b(2) v(2) have take: "take (unat v) r = properties_body ps" "unat v \<le> length r" by auto
    then have body: "properties_body ps = take (unat v) r" "length (properties_body ps) = unat v"
      by (metis, metis length_take min.absorb2)
    then have "buf = properties_bytes ps @ drop (unat v) r" by (simp add: properties_bytes_def r(3))
    then have "\<exists>r. buf = properties_bytes ps @ r" by blast
    with b dup r(1,2) body(2) show "properties_ok allow ps \<and> n = length (properties_bytes ps) \<and>
        (\<exists>r. buf = properties_bytes ps @ r)"
      by (auto simp: properties_ok_def properties_bytes_def word_le_nat_alt vbi_MAX_unat)
  next
    assume "properties_ok allow ps \<and> n = length (properties_bytes ps) \<and> (\<exists>r. buf = properties_bytes ps @ r)"
    then obtain r where ps: "properties_ok allow ps" "n = length (properties_bytes ps)"
      "buf = properties_bytes ps @ r" by blast
    let ?v = "word_of_nat (length (properties_body ps)) :: u32"
    have le: "length (properties_body ps) \<le> max_remaining" using ps(1) by (simp add: properties_ok_def)
    note w = remaining_word [OF le]
    have "vbi_decode buf = Ok (?v, length (vbi_wire ?v))"
      using w(2) by (simp add: ps(3) properties_bytes_def vbi.dec_wire)
    moreover have "read_each (read_with property_decode) [] buf
        (length (vbi_wire ?v) + length (properties_body ps)) (length (vbi_wire ?v)) = Ok (ps, n)"
      using ps by (subst region) (auto simp: properties_bytes_def properties_ok_def)
    ultimately show "properties_decode_with allow buf = Ok (ps, n)"
      using ps w(1) by (simp add: properties_decode_with_def properties_bytes_def properties_ok_def rbind_Ok_iff Let_def)
  qed
qed

lemma properties_decode_no_panic: "properties_decode_with allow buf \<noteq> Panic"
proof -
  have "read_each (read_with property_decode) [] buf end offset \<noteq> Panic"
    if "offset \<le> end" "end \<le> length buf" for offset "end"
    using read_each_eq [OF property.reads_p_with that, of "[]"]
      p_each_no_panic [OF property.p_with_no_panic] property_bytes_not_Nil
    by (auto simp: rbind_Panic_iff property.p_with_iff)
  then show ?thesis
    by (auto simp: properties_decode_with_def rbind_Panic_iff Let_def split: if_splits)
qed

interpretation properties: canonical_codec properties_encode "properties_decode_with allow"
  properties_bytes "properties_ok allow" for allow
proof (rule canonical_codecI [OF encodes_properties])
  show "properties_encode ps buf = Err BufferTooSmall"
    if "length buf < length (properties_bytes ps)" "properties_ok allow ps" for ps buf
    using that properties_encoded_len_fit [of ps]
    by (simp add: properties_encode_def properties_ok_iff properties_fit_def vbi_MAX_unat Let_def)
qed (simp_all add: properties_ok_iff properties_decode_iff properties_decode_no_panic)

section \<open>Properties inside a packet\<close>

text \<open>\<^verbatim>\<open>let (properties, n) = Properties::decode(&buf[offset..end])?; offset += n\<close>\<close>

definition read_sub :: "'a decoder \<Rightarrow> 'a reader" where
  "read_sub dec buf end offset =
     rbind (subslice buf offset end) (\<lambda>s.
     rbind (dec s) (\<lambda>(x, n). Ok (x, offset + n)))"

definition p_sub :: "'a decoder \<Rightarrow> 'a parser" where
  "p_sub dec s = rbind (dec s) (\<lambda>(x, n). Ok (x, drop n s))"

lemma reads_sub:
  assumes "\<And>s x n. dec s = Ok (x, n) \<Longrightarrow> n \<le> length s"
  shows "reads (read_sub dec) (p_sub dec)"
proof (rule readsI)
  fix buf :: bytes and "end" offset :: nat assume le: "offset \<le> end" "end \<le> length buf"
  show "read_sub dec buf end offset =
      rbind (p_sub dec (drop offset (take end buf))) (\<lambda>(x, s). Ok (x, end - length s))"
  proof (cases "dec (drop offset (take end buf))")
    case (Ok r)
    obtain x n where "r = (x, n)" by fastforce
    with Ok assms [of "drop offset (take end buf)" x n] le show ?thesis
      by (simp add: read_sub_def p_sub_def)
  qed (use le in \<open>simp_all add: read_sub_def p_sub_def\<close>)
next
  fix s x s' assume "p_sub dec s = Ok (x, s')"
  then show "\<exists>w. s = w @ s'"
    by (auto simp: p_sub_def rbind_Ok_iff) (metis append_take_drop_id)
qed

lemma reads_properties [reads_intros]:
  "reads (read_sub (properties_decode_with allow)) (p_sub (properties_decode_with allow))"
  "reads (read_sub properties_decode) (p_sub properties_decode)"
  "reads (read_sub properties_decode_for_publish) (p_sub properties_decode_for_publish)"
  by (rule reads_sub; auto simp: properties_decode_iff properties_decode_def properties_decode_for_publish_def)+

lemma p_sub_properties_iff [wire_simps]:
  "p_sub properties_decode s = Ok (ps, s') \<longleftrightarrow> properties_ok False ps \<and> s = properties_bytes ps @ s'"
  "p_sub properties_decode_for_publish s = Ok (ps, s') \<longleftrightarrow>
     properties_ok True ps \<and> s = properties_bytes ps @ s'"
  by (auto simp: p_sub_def rbind_Ok_iff properties_decode_iff properties_decode_def
      properties_decode_for_publish_def)

lemma p_sub_properties_no_panic [no_panic]:
  "p_sub properties_decode s \<noteq> Panic" "p_sub properties_decode_for_publish s \<noteq> Panic"
  by (auto simp: p_sub_def rbind_Panic_iff properties_decode_no_panic properties_decode_def
      properties_decode_for_publish_def)

lemma p_sub_wire [simp]:
  "properties_ok False ps \<Longrightarrow> p_sub properties_decode (properties_bytes ps @ s) = Ok (ps, s)"
  "properties_ok False ps \<Longrightarrow> p_sub properties_decode (properties_bytes ps) = Ok (ps, [])"
  "properties_ok True ps \<Longrightarrow> p_sub properties_decode_for_publish (properties_bytes ps @ s) = Ok (ps, s)"
  "properties_ok True ps \<Longrightarrow> p_sub properties_decode_for_publish (properties_bytes ps) = Ok (ps, [])"
  by (simp_all add: p_sub_properties_iff)

text \<open>
  Properties that do not fit have no encoding; their image only has the length that
  \<^verbatim>\<open>encoded_len\<close> reports for them.
\<close>

definition properties_image :: "properties \<Rightarrow> bytes" where
  "properties_image ps =
     (if properties_fit ps then properties_bytes ps else replicate (properties_encoded_len ps) 0)"

lemma length_properties_image: "length (properties_image ps) = properties_encoded_len ps"
  by (simp add: properties_image_def properties_encoded_len_fit)

lemma properties_image_fit [simp]: "properties_fit ps \<Longrightarrow> properties_image ps = properties_bytes ps"
  by (simp add: properties_image_def)

lemma writes_properties [writes_intros]:
  "writes (put_with (properties_encode ps)) (properties_image ps) (properties_fit ps)"
proof (rule writes_with, rule encodesI)
  show "properties_encode ps buf =
      Ok (length (properties_image ps), properties_image ps @ drop (length (properties_image ps)) buf)"
    if "properties_fit ps" "length (properties_image ps) \<le> length buf" for buf
    using that encodes_emits [OF encodes_properties] by simp
  show "\<exists>e. properties_encode ps buf = Err e"
    if "\<not> properties_fit ps \<or> length buf < length (properties_image ps)" for buf
    using that encodes_fails [OF encodes_properties, of ps buf]
    by (auto simp: properties_image_def split: if_splits)
qed

section \<open>The properties each packet may carry\<close>

datatype packet_direction = ClientToServer | ServerToClient

definition validate_against :: "u8 list \<Rightarrow> properties \<Rightarrow> (unit, decode_error) result" where
  "validate_against allowed ps =
     (if list_ex (\<lambda>p. \<not> List.member allowed (property_identifier p)) ps then Err MalformedPacket
      else Ok ())"

definition validate_for_connect :: "properties \<Rightarrow> (unit, decode_error) result" where
  "validate_for_connect ps =
     rbind (validate_against [0x11, 0x21, 0x27, 0x22, 0x19, 0x17, 0x26, 0x15, 0x16] ps) (\<lambda>_.
     if has_identifier ps 0x16 \<and> \<not> has_identifier ps 0x15 then Err MalformedPacket else Ok ())"

definition validate_for_connack :: "properties \<Rightarrow> (unit, decode_error) result" where
  "validate_for_connack ps =
     validate_against [0x11, 0x21, 0x24, 0x25, 0x27, 0x12, 0x22, 0x1F, 0x26, 0x28, 0x29, 0x2A, 0x13, 0x1A, 0x1C, 0x15, 0x16] ps"

definition validate_for_publish :: "properties \<Rightarrow> (unit, decode_error) result" where
  "validate_for_publish ps =
     validate_against [0x01, 0x02, 0x03, 0x08, 0x09, 0x0B, 0x23, 0x26] ps"

definition validate_for_publish_with_direction ::
    "packet_direction \<Rightarrow> properties \<Rightarrow> (unit, decode_error) result" where
  "validate_for_publish_with_direction direction ps =
     rbind (validate_for_publish ps) (\<lambda>_.
     if direction = ClientToServer \<and> has_identifier ps 0x0B then Err MalformedPacket else Ok ())"

definition validate_for_puback :: "properties \<Rightarrow> (unit, decode_error) result" where
  "validate_for_puback ps = validate_against [0x1F, 0x26] ps"

definition validate_for_pubrec :: "properties \<Rightarrow> (unit, decode_error) result" where
  "validate_for_pubrec ps = validate_against [0x1F, 0x26] ps"

definition validate_for_pubrel :: "properties \<Rightarrow> (unit, decode_error) result" where
  "validate_for_pubrel ps = validate_against [0x1F, 0x26] ps"

definition validate_for_pubcomp :: "properties \<Rightarrow> (unit, decode_error) result" where
  "validate_for_pubcomp ps = validate_against [0x1F, 0x26] ps"

definition validate_for_subscribe :: "properties \<Rightarrow> (unit, decode_error) result" where
  "validate_for_subscribe ps = validate_against [0x0B, 0x26] ps"

definition validate_for_suback :: "properties \<Rightarrow> (unit, decode_error) result" where
  "validate_for_suback ps = validate_against [0x1F, 0x26] ps"

definition validate_for_unsubscribe :: "properties \<Rightarrow> (unit, decode_error) result" where
  "validate_for_unsubscribe ps = validate_against [0x26] ps"

definition validate_for_unsuback :: "properties \<Rightarrow> (unit, decode_error) result" where
  "validate_for_unsuback ps = validate_against [0x1F, 0x26] ps"

definition validate_for_disconnect :: "properties \<Rightarrow> (unit, decode_error) result" where
  "validate_for_disconnect ps = validate_against [0x11, 0x1C, 0x1F, 0x26] ps"

definition validate_for_disconnect_with_direction ::
    "packet_direction \<Rightarrow> properties \<Rightarrow> (unit, decode_error) result" where
  "validate_for_disconnect_with_direction direction ps =
     rbind (validate_for_disconnect ps) (\<lambda>_.
     if direction = ServerToClient \<and> has_identifier ps 0x11 then Err MalformedPacket else Ok ())"

definition validate_for_auth :: "properties \<Rightarrow> (unit, decode_error) result" where
  "validate_for_auth ps =
     rbind (validate_against [0x15, 0x16, 0x1F, 0x26] ps) (\<lambda>_.
     if \<not> has_identifier ps 0x15 then Err MalformedPacket else Ok ())"

definition validate_for_will :: "properties \<Rightarrow> (unit, decode_error) result" where
  "validate_for_will ps = validate_against [0x18, 0x01, 0x02, 0x03, 0x08, 0x09, 0x26] ps"

definition carries_only :: "u8 set \<Rightarrow> properties \<Rightarrow> bool" where
  "carries_only allowed ps \<longleftrightarrow> property_identifier ` set ps \<subseteq> allowed"

lemma validate_against_iff [simp]:
  "validate_against allowed ps = Ok () \<longleftrightarrow> carries_only (set allowed) ps"
  "validate_against allowed ps \<noteq> Panic"
  by (auto simp: validate_against_def carries_only_def list_ex_iff)

lemma has_identifier_iff [simp]: "has_identifier ps i \<longleftrightarrow> i \<in> property_identifier ` set ps"
  by (auto simp: has_identifier_def list_ex_iff)

lemma validate_for_iffs [simp]:
  "validate_for_connack ps = Ok () \<longleftrightarrow> carries_only {0x11, 0x21, 0x24, 0x25, 0x27, 0x12, 0x22, 0x1F, 0x26, 0x28, 0x29, 0x2A, 0x13, 0x1A, 0x1C, 0x15, 0x16} ps"
  "validate_for_publish ps = Ok () \<longleftrightarrow> carries_only {0x01, 0x02, 0x03, 0x08, 0x09, 0x0B, 0x23, 0x26} ps"
  "validate_for_puback ps = Ok () \<longleftrightarrow> carries_only {0x1F, 0x26} ps"
  "validate_for_pubrec ps = Ok () \<longleftrightarrow> carries_only {0x1F, 0x26} ps"
  "validate_for_pubrel ps = Ok () \<longleftrightarrow> carries_only {0x1F, 0x26} ps"
  "validate_for_pubcomp ps = Ok () \<longleftrightarrow> carries_only {0x1F, 0x26} ps"
  "validate_for_subscribe ps = Ok () \<longleftrightarrow> carries_only {0x0B, 0x26} ps"
  "validate_for_suback ps = Ok () \<longleftrightarrow> carries_only {0x1F, 0x26} ps"
  "validate_for_unsubscribe ps = Ok () \<longleftrightarrow> carries_only {0x26} ps"
  "validate_for_unsuback ps = Ok () \<longleftrightarrow> carries_only {0x1F, 0x26} ps"
  "validate_for_disconnect ps = Ok () \<longleftrightarrow> carries_only {0x11, 0x1C, 0x1F, 0x26} ps"
  "validate_for_will ps = Ok () \<longleftrightarrow> carries_only {0x18, 0x01, 0x02, 0x03, 0x08, 0x09, 0x26} ps"
  by (simp_all add: validate_for_connack_def validate_for_publish_def validate_for_puback_def validate_for_pubrec_def validate_for_pubrel_def validate_for_pubcomp_def validate_for_subscribe_def validate_for_suback_def validate_for_unsubscribe_def validate_for_unsuback_def validate_for_disconnect_def validate_for_will_def)

lemma validate_no_panic [simp]:
  "validate_for_connect ps \<noteq> Panic"
  "validate_for_connack ps \<noteq> Panic"
  "validate_for_publish ps \<noteq> Panic"
  "validate_for_puback ps \<noteq> Panic"
  "validate_for_pubrec ps \<noteq> Panic"
  "validate_for_pubrel ps \<noteq> Panic"
  "validate_for_pubcomp ps \<noteq> Panic"
  "validate_for_subscribe ps \<noteq> Panic"
  "validate_for_suback ps \<noteq> Panic"
  "validate_for_unsubscribe ps \<noteq> Panic"
  "validate_for_unsuback ps \<noteq> Panic"
  "validate_for_disconnect ps \<noteq> Panic"
  "validate_for_auth ps \<noteq> Panic"
  "validate_for_will ps \<noteq> Panic"
  "validate_for_publish_with_direction d ps \<noteq> Panic" "validate_for_disconnect_with_direction d ps \<noteq> Panic"
  by (auto simp: rbind_Panic_iff validate_for_connect_def validate_for_connack_def validate_for_publish_def validate_for_puback_def validate_for_pubrec_def validate_for_pubrel_def validate_for_pubcomp_def validate_for_subscribe_def validate_for_suback_def validate_for_unsubscribe_def validate_for_unsuback_def validate_for_disconnect_def validate_for_auth_def validate_for_will_def
      validate_for_publish_with_direction_def validate_for_disconnect_with_direction_def)

lemma rbind_unit_Ok_iff: "rbind m (\<lambda>_ :: unit. if c then Err e else Ok ()) = Ok () \<longleftrightarrow> m = Ok () \<and> \<not> c"
  by (cases m) auto

lemma validate_for_combined_iffs [simp]:
  "validate_for_connect ps = Ok () \<longleftrightarrow>
     carries_only {0x11, 0x21, 0x27, 0x22, 0x19, 0x17, 0x26, 0x15, 0x16} ps \<and>
     (0x16 \<in> property_identifier ` set ps \<longrightarrow> 0x15 \<in> property_identifier ` set ps)"
  "validate_for_auth ps = Ok () \<longleftrightarrow>
     carries_only {0x15, 0x16, 0x1F, 0x26} ps \<and> 0x15 \<in> property_identifier ` set ps"
  "validate_for_publish_with_direction d ps = Ok () \<longleftrightarrow>
     carries_only {0x01, 0x02, 0x03, 0x08, 0x09, 0x0B, 0x23, 0x26} ps \<and>
     (d = ClientToServer \<longrightarrow> 0x0B \<notin> property_identifier ` set ps)"
  "validate_for_disconnect_with_direction d ps = Ok () \<longleftrightarrow>
     carries_only {0x11, 0x1C, 0x1F, 0x26} ps \<and>
     (d = ServerToClient \<longrightarrow> 0x11 \<notin> property_identifier ` set ps)"
  unfolding validate_for_connect_def validate_for_auth_def validate_for_publish_with_direction_def
    validate_for_disconnect_with_direction_def rbind_unit_Ok_iff
  by (simp_all del: insert_iff)

text \<open>\<^verbatim>\<open>Result::is_err\<close>\<close>

fun is_err :: "('a, 'e) result \<Rightarrow> bool" where
  "is_err (Err e) = True"
| "is_err _ = False"

lemma is_err_unit [simp]: "is_err (m :: (unit, 'e) result) \<longleftrightarrow> m \<noteq> Ok () \<and> m \<noteq> Panic"
  by (cases m) auto

section \<open>Property\<close>



end
