(* ===== verification/V5Frame.thy ===== *)
theory V5Frame
  imports V5Property ReasonCodes
begin

unbundle bit_operations_syntax

text \<open>
  What the packets of MQTT 5 share: the helpers of \<^verbatim>\<open>src/v5/ack_helper.rs\<close> and the contract
  \<open>duplex_packet\<close>. MQTT 5 packets are not symmetric: a client encodes only what a client may
  send and decodes only what a server may send, and some packets have shorter forms that are decoded
  but never written. The symmetric contract \<open>framed_packet\<close> is the special case without that.
\<close>

section \<open>The packet contract\<close>

locale duplex_packet =
  fixes enc :: "'a \<Rightarrow> encoder"
    and dec :: "'a decoder"
    and first :: "'a \<Rightarrow> u8"
    and body :: "'a \<Rightarrow> bytes"
    and sendable :: "'a \<Rightarrow> bool"
    and accepts :: "'a \<Rightarrow> bytes \<Rightarrow> bool"
    and typed :: "'a \<Rightarrow> bool"
  assumes enc_body: "sendable x \<Longrightarrow> length (body x) \<le> max_remaining \<Longrightarrow>
      emits (enc x) (frame_wire (first x) (body x))"
    and enc_ok: "typed x \<Longrightarrow> enc x buf = Ok r \<Longrightarrow> sendable x \<and> length (body x) \<le> max_remaining"
    and enc_no_panic: "enc x buf \<noteq> Panic"
    and dec_iff: "dec buf = Ok (x, n) \<longleftrightarrow>
      (\<exists>s rest. accepts x s \<and> length s \<le> max_remaining \<and> n = length (frame_wire (first x) s) \<and>
        buf = frame_wire (first x) s @ rest)"
    and dec_no_panic: "dec buf \<noteq> Panic"
begin

lemma enc_Ok_iff:
  "typed x \<Longrightarrow> enc x buf = Ok (n, buf') \<longleftrightarrow>
    sendable x \<and> length (body x) \<le> max_remaining \<and> n = length (frame_wire (first x) (body x)) \<and>
    n \<le> length buf \<and> buf' = frame_wire (first x) (body x) @ drop n buf"
  using enc_ok [of x buf "(n, buf')"] enc_body [of x]
  by (auto simp: emits_def split: if_splits)

lemma encode_decode:
  "typed x \<Longrightarrow> enc x buf = Ok (n, buf') \<Longrightarrow> accepts x (body x) \<Longrightarrow> dec buf' = Ok (x, n)"
  by (auto simp: enc_Ok_iff dec_iff)

lemma dec_first: "dec buf = Ok (x, n) \<Longrightarrow> \<exists>r. buf = first x # r"
  by (auto simp: dec_iff frame_wire_def)

end

sublocale framed_packet \<subseteq> duplex: duplex_packet enc dec first body ok "\<lambda>x s. ok x \<and> s = body x" typed
  by unfold_locales (use enc_body enc_ok enc_no_panic dec_no_panic in \<open>auto simp: dec_body\<close>)

section \<open>Encoding\<close>

text \<open>The prologue of the MQTT 5 encoders, with the checked additions of the source.\<close>

definition open_frame :: "u8 \<Rightarrow> nat \<Rightarrow> bytes \<Rightarrow> (writer, encode_error) result" where
  "open_frame first_byte remaining_len buf =
     (if unat vbi_MAX < remaining_len then Err (PacketTooLarge remaining_len (unat vbi_MAX))
      else
        let vbi = word_of_nat remaining_len in
        rbind (ok_or (PacketTooLarge remaining_len (unat vbi_MAX))
            (Option.bind (usize_checked_add 1 (vbi_encoded_len vbi)) (\<lambda>x. usize_checked_add x remaining_len)))
          (\<lambda>total_len.
        if length buf < total_len then Err BufferTooSmall
        else rbind (put_u8 first_byte (buf, 0)) (put_with (vbi_encode vbi))))"

lemma open_frame_eq:
  "open_frame b n buf = rbind (check_remaining_len n) (\<lambda>_. begin_frame b n buf)"
proof (cases "n \<le> max_remaining")
  case True
  have "1 + vbi_encoded_len v \<le> 5" for v by (simp add: vbi_encoded_len_def)
  then have "1 + vbi_encoded_len (word_of_nat n) \<le> usize_max"
    "1 + vbi_encoded_len (word_of_nat n) + n \<le> usize_max"
    using True by (simp_all add: usize_max_def vbi_encoded_len_def)
  with True show ?thesis
    by (simp add: open_frame_def check_remaining_len_def begin_frame_def usize_checked_add_def
        vbi_MAX_unat Let_def)
qed (simp add: open_frame_def check_remaining_len_def vbi_MAX_unat)

lemma duplex_encoder:
  assumes enc: "\<And>buf. enc x buf =
      rbind validate (\<lambda>_. rbind (open_frame b n buf) (\<lambda>w. rbind (f w) finish))"
    and f: "writes f img ok" and n: "validate = Ok () \<Longrightarrow> n = min (length img) usize_max"
    and v: "validate \<noteq> Panic" and img: "ok \<Longrightarrow> img = body"
  shows "validate = Ok () \<Longrightarrow> ok \<Longrightarrow> length body \<le> max_remaining \<Longrightarrow> emits (enc x) (frame_wire b body)"
    "enc x buf \<noteq> Panic"
    "enc x buf = Ok r \<Longrightarrow> validate = Ok () \<and> ok \<and> length body \<le> max_remaining"
proof -
  have "enc x buf = rbind validate (\<lambda>_. rbind (check_remaining_len n) (\<lambda>_.
      rbind (begin_frame b n buf) (\<lambda>w. rbind (f w) finish)))" for buf
    by (simp add: enc open_frame_eq rbind_assoc)
  note fe = framed_encoder [of enc x, OF this f n v]
  show "validate = Ok () \<Longrightarrow> ok \<Longrightarrow> length body \<le> max_remaining \<Longrightarrow> emits (enc x) (frame_wire b body)"
    using fe(1) img by simp
  show "enc x buf \<noteq> Panic" by (rule fe(2))
  show "enc x buf = Ok r \<Longrightarrow> validate = Ok () \<and> ok \<and> length body \<le> max_remaining"
    using fe(3) img by auto
qed

section \<open>Decoding\<close>

definition decode_fixed_header ::
    "bytes \<Rightarrow> u8 \<Rightarrow> u8 \<Rightarrow> (nat \<times> nat \<times> nat, decode_error) result" where
  "decode_fixed_header buf packet_type flags =
     (if buf = [] then Err InsufficientData
      else
        rbind (index buf 0) (\<lambda>b0.
        if b0 AND 0xF0 \<noteq> packet_type then Err InvalidPacketType
        else if b0 AND 0x0F \<noteq> flags then Err InvalidPacketFlags
        else
          rbind (subslice_from buf 1) (\<lambda>s.
          rbind (vbi_decode s) (\<lambda>(remaining_len, vbi_len).
          let remaining_len = unat remaining_len; header_len = 1 + vbi_len in
          if length buf < header_len + remaining_len then Err InsufficientData
          else Ok (remaining_len, header_len, header_len + remaining_len)))))"

lemma decode_fixed_header_Cons:
  "decode_fixed_header (b # r) t f =
     (if b AND 0xF0 \<noteq> t then Err InvalidPacketType
      else if b AND 0x0F \<noteq> f then Err InvalidPacketFlags
      else rbind (read_frame_header (b # r)) (\<lambda>(offset, end). Ok (end - offset, offset, end)))"
  by (cases "vbi_decode r") (auto simp: decode_fixed_header_def read_frame_header_def Let_def)

lemma decode_fixed_header_Nil [simp]: "decode_fixed_header [] t f = Err InsufficientData"
  by (simp add: decode_fixed_header_def)

text \<open>A reader may look at how many bytes are left.\<close>

lemma reads_len:
  assumes "\<And>n. reads (f n) (g n)"
  shows "reads (\<lambda>buf end offset. f (end - offset) buf end offset) (\<lambda>s. g (length s) s)"
proof (rule readsI)
  fix buf :: bytes and "end" offset :: nat assume le: "offset \<le> end" "end \<le> length buf"
  then have "length (drop offset (take end buf)) = end - offset" by simp
  then show "f (end - offset) buf end offset = rbind (g (length (drop offset (take end buf)))
      (drop offset (take end buf))) (\<lambda>(x, s). Ok (x, end - length s))"
    using readsD(1) [OF assms le] by simp
next
  show "g (length s) s = Ok (x, s') \<Longrightarrow> \<exists>w. s = w @ s'" for s x s'
    using readsD(2) [OF assms] .
qed

lemma reads_more [reads_intros]:
  assumes "reads f p" "reads g q"
  shows "reads (\<lambda>buf end offset. if offset < end then f buf end offset else g buf end offset)
    (\<lambda>s. if s \<noteq> [] then p s else q s)"
proof (rule readsI)
  fix buf :: bytes and "end" offset :: nat assume le: "offset \<le> end" "end \<le> length buf"
  then have "drop offset (take end buf) \<noteq> [] \<longleftrightarrow> offset < end" by auto
  then show "(if offset < end then f buf end offset else g buf end offset) =
      rbind (if drop offset (take end buf) \<noteq> [] then p (drop offset (take end buf))
        else q (drop offset (take end buf))) (\<lambda>(x, s). Ok (x, end - length s))"
    using readsD(1) [OF assms(1) le] readsD(1) [OF assms(2) le] by simp
next
  show "(if s \<noteq> [] then p s else q s) = Ok (x, s') \<Longrightarrow> \<exists>w. s = w @ s'" for s x s'
    using readsD(2) [OF assms(1), of s x s'] readsD(2) [OF assms(2), of s x s']
    by (cases "s = []") simp_all
qed

lemma reads_at_end [reads_intros]:
  assumes "reads f p" "reads g q"
  shows "reads (\<lambda>buf end offset. if offset = end then f buf end offset else g buf end offset)
    (\<lambda>s. if s = [] then p s else q s)"
proof -
  have "(if s = [] then p s else q s) = (if s \<noteq> [] then q s else p s)" for s by simp
  moreover have "(if offset = end then f buf end offset else g buf end offset) =
      (if offset < end then g buf end offset else f buf end offset)" if "offset \<le> end" for buf "end" offset
    using that by auto
  ultimately show ?thesis
    using reads_more [OF assms(2,1)] unfolding reads_def by simp
qed

lemma reads_to_end [reads_intros]: "reads (\<lambda>buf end offset. Ok (x, end)) (\<lambda>s. Ok (x, []))"
  by (rule readsI) auto

lemma reads_cong:
  assumes "reads rd p" "\<And>buf end offset. offset \<le> end \<Longrightarrow> end \<le> length buf \<Longrightarrow>
      rd' buf end offset = rd buf end offset"
  shows "reads rd' p"
  using assms by (simp add: reads_def)

lemma duplex_decoder:
  assumes dec: "dec [] = Err InsufficientData"
    "\<And>b r. dec (b # r) =
      (if b AND 0xF0 \<noteq> t then Err InvalidPacketType
       else if b AND 0x0F \<noteq> f then Err InvalidPacketFlags
       else rbind (read_frame_header (b # r)) (\<lambda>(offset, end). rd (b # r) end offset))"
    and rd: "reads rd p" "\<And>s x s'. p s = Ok (x, s') \<longleftrightarrow> accepts x s \<and> s' = []" "\<And>s. p s \<noteq> Panic"
    and byte: "(t OR f) AND 0xF0 = t" "(t OR f) AND 0x0F = f"
  shows "dec buf = Ok (x, n) \<longleftrightarrow>
      (\<exists>s rest. accepts x s \<and> length s \<le> max_remaining \<and> n = length (frame_wire (t OR f) s) \<and>
        buf = frame_wire (t OR f) s @ rest)"
    "dec buf \<noteq> Panic"
proof -
  show "dec buf = Ok (x, n) \<longleftrightarrow>
      (\<exists>s rest. accepts x s \<and> length s \<le> max_remaining \<and> n = length (frame_wire (t OR f) s) \<and>
        buf = frame_wire (t OR f) s @ rest)"
  proof (cases buf)
    case (Cons b r)
    have "dec buf = Ok (x, n) \<longleftrightarrow> b = t OR f \<and>
        rbind (read_frame_header (b # r)) (\<lambda>(offset, end). rd (b # r) end offset) = Ok (x, n)"
      using nibbles_iff [OF byte, of b] by (auto simp: dec(2) Cons)
    also have "\<dots> \<longleftrightarrow> b = t OR f \<and> (\<exists>s rest. accepts x s \<and> length s \<le> max_remaining \<and>
        b # r = frame_wire b s @ rest \<and> n = length (frame_wire b s))"
      using frame_decode_iff [OF rd(1), of b r x n] rd(2) by auto
    finally show ?thesis by (auto simp: Cons Cons_frame_wire)
  qed (simp add: dec(1))
  show "dec buf \<noteq> Panic"
    using frame_decode_no_panic [OF rd(1,3)] by (cases buf) (auto simp: dec)
qed

section \<open>Packets without a body\<close>

definition v5_encode_empty :: "u8 \<Rightarrow> u8 \<Rightarrow> encoder" where
  "v5_encode_empty packet_type flags buf = rbind (open_frame (packet_type OR flags) 0 buf) finish"

definition v5_decode_empty :: "u8 \<Rightarrow> u8 \<Rightarrow> bytes \<Rightarrow> (nat, decode_error) result" where
  "v5_decode_empty packet_type flags buf =
     rbind (decode_fixed_header buf packet_type flags) (\<lambda>(remaining_len, header_len, end).
     if remaining_len \<noteq> 0 then Err MalformedPacket else Ok header_len)"

lemma v5_framed_empty:
  assumes enc: "\<And>x buf. enc x buf = v5_encode_empty t f buf"
    and dec: "\<And>buf. dec buf = rbind (v5_decode_empty t f buf) (\<lambda>n. Ok (mk, n))"
    and mk: "\<And>x. x = mk" and byte: "(t OR f) AND 0xF0 = t" "(t OR f) AND 0x0F = f"
  shows "framed_packet enc dec (\<lambda>_. t OR f) (\<lambda>_. []) (\<lambda>_. True) (\<lambda>_. True)"
proof -
  have e: "enc x buf = rbind (Ok ()) (\<lambda>_. rbind (open_frame (t OR f) 0 buf) (\<lambda>w. rbind (Ok w) finish))"
    for x buf by (simp add: enc v5_encode_empty_def)
  note fe = duplex_encoder [where enc = enc, OF e writes_skip, of "[]"]
  have p: "reads (read_end mk) (p_end mk)" by (rule reads_end)
  have d: "dec (b # r) = (if b AND 0xF0 \<noteq> t then Err InvalidPacketType
       else if b AND 0x0F \<noteq> f then Err InvalidPacketFlags
       else rbind (read_frame_header (b # r)) (\<lambda>(offset, end). read_end mk (b # r) end offset))" for b r
  proof -
    have "offset \<le> end" if "read_frame_header (b # r) = Ok (offset, end)" for offset "end"
      using that by (auto simp: read_frame_header_Ok_iff)
    then show ?thesis
      by (cases "read_frame_header (b # r)")
        (auto simp: dec v5_decode_empty_def decode_fixed_header_Cons read_end_def)
  qed
  have d0: "dec [] = Err InsufficientData" by (simp add: dec v5_decode_empty_def)
  note fd = framed_decoder [where dec = dec and body = "\<lambda>_. []" and ok = "\<lambda>_. True", OF d0 d p _ _ byte]
  show ?thesis
  proof
    fix x buf n
    show "emits (enc x) (frame_wire (t OR f) [])" by (rule fe(1)) simp_all
    show "enc x buf \<noteq> Panic" by (rule fe(2)) simp_all
    show "True \<and> length ([] :: bytes) \<le> max_remaining" by simp
    show "dec buf = Ok (x, n) \<longleftrightarrow> True \<and> length ([] :: bytes) \<le> max_remaining \<and>
        n = length (frame_wire (t OR f) []) \<and> (\<exists>rest. buf = frame_wire (t OR f) [] @ rest)"
      by (rule fd(1)) (use mk [of x] in \<open>auto simp: wire_simps no_panic intro: mk\<close>)
    show "dec buf \<noteq> Panic" by (rule fd(2)) (auto simp: wire_simps no_panic intro: mk)
  qed
qed

end
