(* ===== verification/V311Publish.thy ===== *)
theory V311Publish
  imports Packet TopicFilter
begin

unbundle bit_operations_syntax

text \<open>
  The PUBLISH packet of MQTT 3.1.1, \<^verbatim>\<open>src/v311/publish.rs\<close>: its validation, its flags in the
  first byte, encoding and decoding, as an interpretation of the packet contract.
\<close>

section \<open>The packet\<close>

record v3_publish =
  v3p_dup :: bool
  v3p_qos :: qos
  v3p_retain :: bool
  v3p_topic :: rstring
  v3p_packet_id :: "u16 option"
  v3p_payload :: bytes

definition v3_publish_encoded_len :: "v3_publish \<Rightarrow> nat" where
  "v3_publish_encoded_len p =
     (let len = usize_saturating_add 2 (length (v3p_topic p));
          len = (if v3p_qos p \<noteq> AtMostOnce then usize_saturating_add len 2 else len)
      in usize_saturating_add len (length (v3p_payload p)))"

definition v3_publish_validate :: "v3_publish \<Rightarrow> (unit, encode_error) result" where
  "v3_publish_validate p =
     (if v3p_topic p = [] then Err (InvalidField EmptyTopicName)
      else if str_contains plus_byte (v3p_topic p) \<or> str_contains hash_byte (v3p_topic p)
      then Err (InvalidField WildcardInTopicName)
      else if v3p_qos p \<noteq> AtMostOnce \<and> v3p_packet_id p = Some 0 then Err (InvalidField ZeroPacketId)
      else if v3p_qos p \<noteq> AtMostOnce \<and> v3p_packet_id p = None
      then Err (InvalidField MissingPacketId)
      else if v3p_qos p = AtMostOnce \<and> v3p_packet_id p \<noteq> None
      then Err (InvalidField UnexpectedPacketId)
      else if v3p_qos p = AtMostOnce \<and> v3p_dup p then Err (InvalidField DupWithQos0)
      else Ok ())"

definition v3_publish_flags :: "v3_publish \<Rightarrow> u8" where
  "v3_publish_flags p =
     (let flags = 0;
          flags = (if v3p_dup p then flags OR 0x08 else flags);
          flags = flags OR push_bit 1 (qos_as_u8 (v3p_qos p))
      in if v3p_retain p then flags OR 0x01 else flags)"

text \<open>The writes of \<^verbatim>\<open>encode\<close> after the fixed header.\<close>

definition v3_publish_put :: "v3_publish \<Rightarrow> writer \<Rightarrow> (writer, encode_error) result" where
  "v3_publish_put p w =
     rbind (put_with (utf8_encode_str (v3p_topic p)) w) (\<lambda>w.
     rbind (if v3p_qos p \<noteq> AtMostOnce
            then (case v3p_packet_id p of
                    None \<Rightarrow> Err (InvalidField MissingPacketId)
                  | Some packet_id \<Rightarrow> put_bytes (u16_to_be_bytes packet_id) w)
            else Ok w) (\<lambda>w.
     put_bytes (v3p_payload p) w))"

definition v3_publish_encode :: "v3_publish \<Rightarrow> encoder" where
  "v3_publish_encode p buf =
     rbind (v3_publish_validate p) (\<lambda>_.
     let remaining_len = v3_publish_encoded_len p in
     rbind (check_remaining_len remaining_len) (\<lambda>_.
     rbind (begin_frame (0x30 OR v3_publish_flags p) remaining_len buf) (\<lambda>w.
     rbind (v3_publish_put p w) finish)))"

text \<open>The variable header and the payload, given the flags of the first byte.\<close>

definition v3_publish_body :: "bool \<Rightarrow> qos \<Rightarrow> bool \<Rightarrow> v3_publish reader" where
  "v3_publish_body dup q retain buf end offset =
     rbind (read_with utf8_decode buf end offset) (\<lambda>(topic, offset).
     if topic = [] then Err MalformedPacket
     else if str_contains plus_byte topic \<or> str_contains hash_byte topic then Err MalformedPacket
     else
       rbind (if q \<noteq> AtMostOnce
              then rbind (read_u16 buf end offset) (\<lambda>(packet_id, offset).
                   if packet_id = 0 then Err MalformedPacket else Ok (Some packet_id, offset))
              else Ok (None, offset)) (\<lambda>(packet_id, offset).
       rbind (read_rest buf end offset) (\<lambda>(payload, offset).
       Ok (\<lparr>v3p_dup = dup, v3p_qos = q, v3p_retain = retain, v3p_topic = topic,
            v3p_packet_id = packet_id, v3p_payload = payload\<rparr>, offset))))"

definition v3_publish_decode :: "v3_publish decoder" where
  "v3_publish_decode buf =
     (if buf = [] then Err InsufficientData
      else
        rbind (index buf 0) (\<lambda>b0.
        let packet_type = b0 AND 0xF0 in
        if packet_type \<noteq> 0x30 then Err InvalidPacketType
        else
          let flags = b0 AND 0x0F;
              dup = flags AND 0x08 \<noteq> 0
          in
          rbind (ok_or InvalidPacketFlags (qos_from_u8 (drop_bit 1 flags AND 0x03))) (\<lambda>q.
          let retain = flags AND 0x01 \<noteq> 0 in
          if q = AtMostOnce \<and> dup then Err InvalidPacketFlags
          else
            rbind (read_frame_header buf) (\<lambda>(offset, end).
            v3_publish_body dup q retain buf end offset))))"

section \<open>The first byte\<close>

text \<open>The first byte of a PUBLISH packet, in both versions of the protocol.\<close>

definition publish_first :: "bool \<Rightarrow> qos \<Rightarrow> bool \<Rightarrow> u8" where
  "publish_first dup q retain =
     0x30 OR (if dup then 0x08 else 0) OR push_bit 1 (qos_as_u8 q) OR (if retain then 0x01 else 0)"

definition v3_publish_first :: "v3_publish \<Rightarrow> u8" where
  "v3_publish_first p = publish_first (v3p_dup p) (v3p_qos p) (v3p_retain p)"

lemma v3_publish_first_eq: "0x30 OR v3_publish_flags p = v3_publish_first p"
  by (simp add: v3_publish_first_def publish_first_def v3_publish_flags_def or.assoc Let_def)

lemma publish_nibble:
  "(b :: u8) AND 0x0F = (b AND 8) OR push_bit 1 (drop_bit 1 (b AND 0x0F) AND 3) OR (b AND 1)"
  by (rule u8_bit_eqI) (simp_all add: byte_bits)

lemma publish_first_iff:
  "b AND 0xF0 = 0x30 \<and> ((b AND 0x0F) AND 0x08 \<noteq> 0) = dup \<and>
   qos_from_u8 (drop_bit 1 (b AND 0x0F) AND 0x03) = Some q \<and>
   ((b AND 0x0F) AND 0x01 \<noteq> 0) = retain \<longleftrightarrow> b = publish_first dup q retain"
proof
  assume "b = publish_first dup q retain"
  then show "b AND 0xF0 = 0x30 \<and> ((b AND 0x0F) AND 0x08 \<noteq> 0) = dup \<and>
     qos_from_u8 (drop_bit 1 (b AND 0x0F) AND 0x03) = Some q \<and>
     ((b AND 0x0F) AND 0x01 \<noteq> 0) = retain"
    by (cases dup; cases q; cases retain) (simp_all add: publish_first_def qos_from_u8_def)
next
  assume *: "b AND 0xF0 = 0x30 \<and> ((b AND 0x0F) AND 0x08 \<noteq> 0) = dup \<and>
     qos_from_u8 (drop_bit 1 (b AND 0x0F) AND 0x03) = Some q \<and>
     ((b AND 0x0F) AND 0x01 \<noteq> 0) = retain"
  have "(b AND 0x0F) AND 8 = b AND 8" "(b AND 0x0F) AND 1 = b AND 1" by (simp_all add: and.assoc)
  then have d: "b AND 8 = (if dup then 8 else 0)" and r: "b AND 1 = (if retain then 1 else 0)"
    using * u8_flag_tests(1,4) [of b] by (auto split: if_splits)
  have q: "drop_bit 1 (b AND 0x0F) AND 3 = qos_as_u8 q"
    using * by (simp add: qos_from_u8_Some_iff)
  have "b AND 0x0F = (if dup then 8 else 0) OR push_bit 1 (qos_as_u8 q) OR (if retain then 1 else 0)"
    by (subst publish_nibble) (simp only: d r q or.assoc)
  with * nibbles [of b "0x30"] show "b = publish_first dup q retain"
    by (simp add: publish_first_def or.assoc)
qed

text \<open>
  A decoder that reads the flags of a PUBLISH packet from its first byte, rejects a duplicate at
  QoS 0, and reads the header and the body.
\<close>

lemma publish_decoder:
  fixes dup :: "'a \<Rightarrow> bool"
  assumes dec: "dec [] = Err InsufficientData"
    "\<And>b r. dec (b # r) =
      (if b AND 0xF0 \<noteq> 0x30 then Err InvalidPacketType
       else rbind (ok_or InvalidPacketFlags (qos_from_u8 (drop_bit 1 (b AND 0x0F) AND 0x03))) (\<lambda>q.
         if q = AtMostOnce \<and> (b AND 0x0F) AND 0x08 \<noteq> 0 then Err InvalidPacketFlags
         else rbind (read_frame_header (b # r)) (\<lambda>(offset, end).
           rd ((b AND 0x0F) AND 0x08 \<noteq> 0) q ((b AND 0x0F) AND 0x01 \<noteq> 0) (b # r) end offset)))"
    and rd: "\<And>d q r. reads (rd d q r) (p d q r)"
    and p: "\<And>d q r s x s'. \<not> (q = AtMostOnce \<and> d) \<Longrightarrow> p d q r s = Ok (x, s') \<longleftrightarrow>
      (ok x \<and> dup x = d \<and> level x = q \<and> retain x = r) \<and> s = body x \<and> s' = []"
    and np: "\<And>d q r s. p d q r s \<noteq> Panic"
    and ok: "\<And>x. ok x \<Longrightarrow> \<not> (level x = AtMostOnce \<and> dup x)"
  shows "dec buf = Ok (x, n) \<longleftrightarrow> ok x \<and> length (body x) \<le> max_remaining \<and>
      n = length (frame_wire (publish_first (dup x) (level x) (retain x)) (body x)) \<and>
      (\<exists>rest. buf = frame_wire (publish_first (dup x) (level x) (retain x)) (body x) @ rest)"
    "dec buf \<noteq> Panic"
proof -
  show "dec buf \<noteq> Panic"
    using frame_decode_no_panic [OF rd np]
    by (cases buf) (auto simp: dec rbind_Panic_iff split: if_splits)
  show "dec buf = Ok (x, n) \<longleftrightarrow> ok x \<and> length (body x) \<le> max_remaining \<and>
      n = length (frame_wire (publish_first (dup x) (level x) (retain x)) (body x)) \<and>
      (\<exists>rest. buf = frame_wire (publish_first (dup x) (level x) (retain x)) (body x) @ rest)"
  proof (cases buf)
    case (Cons b r)
    let ?d = "(b AND 0x0F) AND 0x08 \<noteq> 0" and ?r = "(b AND 0x0F) AND 0x01 \<noteq> 0"
    have "dec buf = Ok (x, n) \<longleftrightarrow>
        (\<exists>q. b AND 0xF0 = 0x30 \<and> qos_from_u8 (drop_bit 1 (b AND 0x0F) AND 0x03) = Some q \<and>
          \<not> (q = AtMostOnce \<and> ?d) \<and>
          rbind (read_frame_header (b # r)) (\<lambda>(offset, end). rd ?d q ?r (b # r) end offset) = Ok (x, n))"
      by (auto simp: dec Cons rbind_Ok_iff split: if_splits)
    also have "\<dots> \<longleftrightarrow> (\<exists>q. b AND 0xF0 = 0x30 \<and>
          qos_from_u8 (drop_bit 1 (b AND 0x0F) AND 0x03) = Some q \<and> \<not> (q = AtMostOnce \<and> ?d) \<and>
          (ok x \<and> dup x = ?d \<and> level x = q \<and> retain x = ?r) \<and>
          length (body x) \<le> max_remaining \<and> n = length (frame_wire b (body x)) \<and>
          (\<exists>rest. b # r = frame_wire b (body x) @ rest))"
      by (intro ex_cong1 conj_cong refl) (rule frame_decode_packet [OF rd p])
    also have "\<dots> \<longleftrightarrow> b = publish_first (dup x) (level x) (retain x) \<and> ok x \<and>
        length (body x) \<le> max_remaining \<and> n = length (frame_wire b (body x)) \<and>
        (\<exists>rest. b # r = frame_wire b (body x) @ rest)"
      using publish_first_iff [of b "dup x" "level x" "retain x"] ok [of x] by auto
    finally show ?thesis by (auto simp: Cons Cons_frame_wire)
  qed (simp add: dec)
qed

section \<open>The body\<close>

definition v3_publish_parser :: "bool \<Rightarrow> qos \<Rightarrow> bool \<Rightarrow> v3_publish parser" where
  "v3_publish_parser dup q retain s =
     rbind (p_with utf8_decode s) (\<lambda>(topic, s).
     if topic = [] then Err MalformedPacket
     else if str_contains plus_byte topic \<or> str_contains hash_byte topic then Err MalformedPacket
     else
       rbind (if q \<noteq> AtMostOnce
              then rbind (p_u16 s) (\<lambda>(packet_id, s).
                   if packet_id = 0 then Err MalformedPacket else Ok (Some packet_id, s))
              else Ok (None, s)) (\<lambda>(packet_id, s).
       rbind (p_rest s) (\<lambda>(payload, s).
       Ok (\<lparr>v3p_dup = dup, v3p_qos = q, v3p_retain = retain, v3p_topic = topic,
            v3p_packet_id = packet_id, v3p_payload = payload\<rparr>, s))))"

lemma reads_v3_publish: "reads (v3_publish_body dup q retain) (v3_publish_parser dup q retain)"
  unfolding v3_publish_body_def [abs_def] v3_publish_parser_def [abs_def] by (intro reads_intros)

definition topic_name_ok :: "rstring \<Rightarrow> bool" where
  "topic_name_ok t \<longleftrightarrow> t \<noteq> [] \<and> plus_byte \<notin> set t \<and> hash_byte \<notin> set t"

definition v3_publish_ok :: "v3_publish \<Rightarrow> bool" where
  "v3_publish_ok p \<longleftrightarrow>
     mqtt_string (v3p_topic p) \<and> topic_name_ok (v3p_topic p) \<and>
     (if v3p_qos p = AtMostOnce then v3p_packet_id p = None \<and> \<not> v3p_dup p
      else v3p_packet_id p \<notin> {None, Some 0})"

definition v3_publish_bytes :: "v3_publish \<Rightarrow> bytes" where
  "v3_publish_bytes p =
     binary_bytes (v3p_topic p) @
     (case v3p_packet_id p of None \<Rightarrow> [] | Some i \<Rightarrow> u16_to_be_bytes i) @ v3p_payload p"

lemma v3_publish_parser_Ok_iff:
  assumes "\<not> (q = AtMostOnce \<and> dup)"
  shows "v3_publish_parser dup q retain s = Ok (p, s') \<longleftrightarrow>
    (v3_publish_ok p \<and> v3p_dup p = dup \<and> v3p_qos p = q \<and> v3p_retain p = retain) \<and>
    s = v3_publish_bytes p \<and> s' = []"
proof
  assume "v3_publish_parser dup q retain s = Ok (p, s')"
  with assms show "(v3_publish_ok p \<and> v3p_dup p = dup \<and> v3p_qos p = q \<and> v3p_retain p = retain) \<and>
      s = v3_publish_bytes p \<and> s' = []"
    by (auto simp: v3_publish_parser_def v3_publish_ok_def v3_publish_bytes_def topic_name_ok_def
        rbind_Ok_iff wire_simps split: if_splits)
next
  assume "(v3_publish_ok p \<and> v3p_dup p = dup \<and> v3p_qos p = q \<and> v3p_retain p = retain) \<and>
      s = v3_publish_bytes p \<and> s' = []"
  then show "v3_publish_parser dup q retain s = Ok (p, s')"
    by (cases p) (auto simp: v3_publish_parser_def v3_publish_ok_def v3_publish_bytes_def
        topic_name_ok_def split: if_splits)
qed

lemma v3_publish_parser_no_panic: "v3_publish_parser dup q retain s \<noteq> Panic"
  by (auto simp: v3_publish_parser_def rbind_Panic_iff no_panic split: if_splits)

section \<open>Encoding\<close>

lemma v3_publish_validate_Ok_iff:
  "v3_publish_validate p = Ok () \<longleftrightarrow>
     topic_name_ok (v3p_topic p) \<and>
     (if v3p_qos p = AtMostOnce then v3p_packet_id p = None \<and> \<not> v3p_dup p
      else v3p_packet_id p \<notin> {None, Some 0})"
  by (auto simp: v3_publish_validate_def topic_name_ok_def)

lemma writes_v3_publish:
  "writes (v3_publish_put p)
     (binary_bytes (v3p_topic p) @
        (if v3p_qos p \<noteq> AtMostOnce
         then case v3p_packet_id p of None \<Rightarrow> [] | Some i \<Rightarrow> u16_to_be_bytes i else []) @ v3p_payload p)
     (0 \<notin> set (v3p_topic p) \<and> length (v3p_topic p) \<le> 65535 \<and>
        (v3p_qos p = AtMostOnce \<or> v3p_packet_id p \<noteq> None))"
  unfolding v3_publish_put_def [abs_def]
  by (rule writes_cong, (rule writes_intros)+) (auto split: option.splits)

lemma v3_publish_encoded:
  assumes "v3_publish_validate p = Ok ()"
  shows "binary_bytes (v3p_topic p) @
        (if v3p_qos p \<noteq> AtMostOnce
         then case v3p_packet_id p of None \<Rightarrow> [] | Some i \<Rightarrow> u16_to_be_bytes i else []) @ v3p_payload p =
      v3_publish_bytes p"
    "v3_publish_encoded_len p = min (length (v3_publish_bytes p)) usize_max"
  using assms
  by (auto simp: v3_publish_validate_Ok_iff v3_publish_encoded_len_def v3_publish_bytes_def Let_def
      split: if_splits option.splits)

lemma v3_publish_encoder:
  "v3_publish_ok p \<Longrightarrow> length (v3_publish_bytes p) \<le> max_remaining \<Longrightarrow>
   emits (v3_publish_encode p) (frame_wire (v3_publish_first p) (v3_publish_bytes p))"
  "v3_publish_encode p buf \<noteq> Panic"
proof -
  note enc = framed_encoder [of v3_publish_encode p, OF v3_publish_encode_def [unfolded Let_def]
    writes_v3_publish]
  have ok: "v3_publish_validate p \<noteq> Panic" by (simp add: v3_publish_validate_def)
  show "v3_publish_encode p buf \<noteq> Panic"
    by (rule enc(2)) (use ok v3_publish_encoded [of p] in simp_all)
  assume p: "v3_publish_ok p" "length (v3_publish_bytes p) \<le> max_remaining"
  then have v: "v3_publish_validate p = Ok ()"
    by (auto simp: v3_publish_ok_def v3_publish_validate_Ok_iff split: if_splits)
  show "emits (v3_publish_encode p) (frame_wire (v3_publish_first p) (v3_publish_bytes p))"
    unfolding v3_publish_first_eq [symmetric] v3_publish_encoded(1) [OF v, symmetric]
    by (rule enc(1))
      (use p v ok v3_publish_encoded [OF v] in
        \<open>auto simp: v3_publish_ok_def mqtt_string_def split: if_splits\<close>)
qed

section \<open>The packet contract\<close>

definition v3_publish_typed :: "v3_publish \<Rightarrow> bool" where
  "v3_publish_typed p \<longleftrightarrow> utf8_valid (v3p_topic p)"

lemma v3_publish_encode_ok:
  assumes "v3_publish_typed p" "v3_publish_encode p buf = Ok r"
  shows "v3_publish_ok p \<and> length (v3_publish_bytes p) \<le> max_remaining"
proof -
  have ok: "v3_publish_validate p \<noteq> Panic" by (simp add: v3_publish_validate_def)
  have v: "v3_publish_validate p = Ok ()"
    using assms(2) ok by (auto simp: v3_publish_encode_def rbind_Ok_iff)
  note enc = framed_encoder [of v3_publish_encode p, OF v3_publish_encode_def [unfolded Let_def]
    writes_v3_publish _ ok]
  from enc(3) [OF _ assms(2)] v3_publish_encoded [OF v] v assms(1)
  show ?thesis
    by (auto simp: v3_publish_validate_Ok_iff v3_publish_ok_def v3_publish_typed_def mqtt_string_def)
qed

interpretation v3_publish: framed_packet v3_publish_encode v3_publish_decode v3_publish_first
  v3_publish_bytes v3_publish_ok v3_publish_typed
proof
  fix x buf n
  show "v3_publish_typed x \<Longrightarrow> v3_publish_encode x buf = Ok r \<Longrightarrow>
      v3_publish_ok x \<and> length (v3_publish_bytes x) \<le> max_remaining" for r
    by (rule v3_publish_encode_ok)
  show "emits (v3_publish_encode x) (frame_wire (v3_publish_first x) (v3_publish_bytes x))"
    if "v3_publish_ok x" "length (v3_publish_bytes x) \<le> max_remaining"
    using that by (rule v3_publish_encoder)
  show "v3_publish_encode x buf \<noteq> Panic" by (rule v3_publish_encoder)
  have d: "v3_publish_decode (b # r) =
      (if b AND 0xF0 \<noteq> 0x30 then Err InvalidPacketType
       else rbind (ok_or InvalidPacketFlags (qos_from_u8 (drop_bit 1 (b AND 0x0F) AND 0x03))) (\<lambda>q.
         if q = AtMostOnce \<and> (b AND 0x0F) AND 0x08 \<noteq> 0 then Err InvalidPacketFlags
         else rbind (read_frame_header (b # r)) (\<lambda>(offset, end).
           v3_publish_body ((b AND 0x0F) AND 0x08 \<noteq> 0) q ((b AND 0x0F) AND 0x01 \<noteq> 0) (b # r) end offset)))"
    for b r by (simp add: v3_publish_decode_def Let_def)
  have d0: "v3_publish_decode [] = Err InsufficientData" by (simp add: v3_publish_decode_def)
  have dup: "\<not> (v3p_qos p = AtMostOnce \<and> v3p_dup p)" if "v3_publish_ok p" for p
    using that by (auto simp: v3_publish_ok_def)
  note dec = publish_decoder [OF d0 d reads_v3_publish v3_publish_parser_Ok_iff
      v3_publish_parser_no_panic dup]
  show "v3_publish_decode buf \<noteq> Panic" by (rule dec(2))
  show "v3_publish_decode buf = Ok (x, n) \<longleftrightarrow> v3_publish_ok x \<and>
      length (v3_publish_bytes x) \<le> max_remaining \<and>
      n = length (frame_wire (v3_publish_first x) (v3_publish_bytes x)) \<and>
      (\<exists>rest. buf = frame_wire (v3_publish_first x) (v3_publish_bytes x) @ rest)"
    unfolding v3_publish_first_def by (rule dec(1))
qed

end
