(* ===== verification/V5Publish.thy ===== *)
theory V5Publish
  imports V5Frame V311Publish
begin

unbundle bit_operations_syntax

text \<open>
  The PUBLISH packet of MQTT 5, \<^verbatim>\<open>src/v5/publish.rs\<close>. The topic may be empty when a Topic Alias
  stands for it; the encoder rejects what only a server may send (a Subscription Identifier) and a
  payload that is declared to be UTF-8 and is not.
\<close>

section \<open>The packet\<close>

record v5_publish =
  v5p_dup :: bool
  v5p_qos :: qos
  v5p_retain :: bool
  v5p_topic :: rstring
  v5p_packet_id :: "u16 option"
  v5p_properties :: properties
  v5p_payload :: bytes

definition v5_publish_encoded_len :: "v5_publish \<Rightarrow> nat" where
  "v5_publish_encoded_len p =
     (let len = usize_saturating_add 2 (length (v5p_topic p));
          len = (if v5p_qos p \<noteq> AtMostOnce then usize_saturating_add len 2 else len);
          len = usize_saturating_add len (properties_encoded_len (v5p_properties p))
      in usize_saturating_add len (length (v5p_payload p)))"

text \<open>\<^verbatim>\<open>matches!(p, Property::TopicAlias(_))\<close> and \<^verbatim>\<open>matches!(p, Property::PayloadFormatIndicator(1))\<close>\<close>

fun is_topic_alias :: "property \<Rightarrow> bool" where
  "is_topic_alias (TopicAlias _) = True"
| "is_topic_alias _ = False"

fun is_utf8_payload :: "property \<Rightarrow> bool" where
  "is_utf8_payload (PayloadFormatIndicator v) = (v = 1)"
| "is_utf8_payload _ = False"

definition v5_publish_validate :: "v5_publish \<Rightarrow> (unit, encode_error) result" where
  "v5_publish_validate p =
     (if v5p_topic p = [] \<and> \<not> list_ex is_topic_alias (v5p_properties p)
      then Err (InvalidField EmptyTopicName)
      else if str_contains plus_byte (v5p_topic p) \<or> str_contains hash_byte (v5p_topic p)
      then Err (InvalidField WildcardInTopicName)
      else if v5p_qos p \<noteq> AtMostOnce \<and> v5p_packet_id p = None then Err (InvalidField MissingPacketId)
      else if v5p_qos p = AtMostOnce \<and> v5p_packet_id p \<noteq> None
      then Err (InvalidField UnexpectedPacketId)
      else if v5p_packet_id p = Some 0 then Err (InvalidField ZeroPacketId)
      else if v5p_qos p = AtMostOnce \<and> v5p_dup p then Err (InvalidField DupWithQos0)
      else if is_err (validate_for_publish_with_direction ClientToServer (v5p_properties p))
      then Err (InvalidField PropertyValidationFailed)
      else if is_err (validate_duplicate_identifiers True (v5p_properties p))
      then Err (InvalidField DuplicatePropertyIdentifier)
      else if list_ex is_utf8_payload (v5p_properties p) \<and> \<not> utf8_valid (v5p_payload p)
      then Err (InvalidField InvalidPayloadUtf8)
      else Ok ())"

definition v5_publish_flags :: "v5_publish \<Rightarrow> u8" where
  "v5_publish_flags p =
     (let flags = push_bit 1 (qos_as_u8 (v5p_qos p));
          flags = (if v5p_dup p then flags OR 0x08 else flags)
      in if v5p_retain p then flags OR 0x01 else flags)"

definition v5_publish_put :: "v5_publish \<Rightarrow> writer \<Rightarrow> (writer, encode_error) result" where
  "v5_publish_put p w =
     rbind (put_with (utf8_encode_str (v5p_topic p)) w) (\<lambda>w.
     rbind (case v5p_packet_id p of
              None \<Rightarrow> Ok w
            | Some packet_id \<Rightarrow> put_bytes (u16_to_be_bytes packet_id) w) (\<lambda>w.
     rbind (put_with (properties_encode (v5p_properties p)) w) (\<lambda>w.
     put_bytes (v5p_payload p) w)))"

definition v5_publish_encode :: "v5_publish \<Rightarrow> encoder" where
  "v5_publish_encode p buf =
     rbind (v5_publish_validate p) (\<lambda>_.
     let remaining_len = v5_publish_encoded_len p in
     rbind (open_frame (0x30 OR v5_publish_flags p) remaining_len buf) (\<lambda>w.
     rbind (v5_publish_put p w) finish))"

definition v5_publish_body :: "bool \<Rightarrow> qos \<Rightarrow> bool \<Rightarrow> v5_publish reader" where
  "v5_publish_body dup q retain buf end offset =
     rbind (read_with utf8_decode buf end offset) (\<lambda>(topic, offset).
     rbind (if q \<noteq> AtMostOnce
            then rbind (read_u16 buf end offset) (\<lambda>(packet_id, offset).
                 if packet_id = 0 then Err MalformedPacket else Ok (Some packet_id, offset))
            else Ok (None, offset)) (\<lambda>(packet_id, offset).
     rbind (read_sub properties_decode_for_publish buf end offset) (\<lambda>(properties, offset).
     if topic = [] \<and> \<not> list_ex is_topic_alias properties then Err MalformedPacket
     else if str_contains plus_byte topic \<or> str_contains hash_byte topic then Err MalformedPacket
     else
       rbind (validate_for_publish_with_direction ServerToClient properties) (\<lambda>_.
       rbind (read_rest buf end offset) (\<lambda>(payload, offset).
       Ok (\<lparr>v5p_dup = dup, v5p_qos = q, v5p_retain = retain, v5p_topic = topic,
            v5p_packet_id = packet_id, v5p_properties = properties, v5p_payload = payload\<rparr>, offset))))))"

definition v5_publish_decode :: "v5_publish decoder" where
  "v5_publish_decode buf =
     (if buf = [] then Err InsufficientData
      else
        rbind (index buf 0) (\<lambda>b0.
        if b0 AND 0xF0 \<noteq> 0x30 then Err InvalidPacketType
        else
          let flags = b0 AND 0x0F in
          rbind (ok_or InvalidPacketFlags (qos_from_u8 (drop_bit 1 flags AND 0x03))) (\<lambda>q.
          let dup = flags AND 0x08 \<noteq> 0;
              retain = flags AND 0x01 \<noteq> 0
          in
          if q = AtMostOnce \<and> dup then Err InvalidPacketFlags
          else
            rbind (read_frame_header buf) (\<lambda>(offset, end).
            v5_publish_body dup q retain buf end offset))))"

section \<open>The body\<close>

definition v5_publish_parser :: "bool \<Rightarrow> qos \<Rightarrow> bool \<Rightarrow> v5_publish parser" where
  "v5_publish_parser dup q retain s =
     rbind (p_with utf8_decode s) (\<lambda>(topic, s).
     rbind (if q \<noteq> AtMostOnce
            then rbind (p_u16 s) (\<lambda>(packet_id, s).
                 if packet_id = 0 then Err MalformedPacket else Ok (Some packet_id, s))
            else Ok (None, s)) (\<lambda>(packet_id, s).
     rbind (p_sub properties_decode_for_publish s) (\<lambda>(properties, s).
     if topic = [] \<and> \<not> list_ex is_topic_alias properties then Err MalformedPacket
     else if str_contains plus_byte topic \<or> str_contains hash_byte topic then Err MalformedPacket
     else
       rbind (validate_for_publish_with_direction ServerToClient properties) (\<lambda>_.
       rbind (p_rest s) (\<lambda>(payload, s).
       Ok (\<lparr>v5p_dup = dup, v5p_qos = q, v5p_retain = retain, v5p_topic = topic,
            v5p_packet_id = packet_id, v5p_properties = properties, v5p_payload = payload\<rparr>, s))))))"

lemma reads_v5_publish: "reads (v5_publish_body dup q retain) (v5_publish_parser dup q retain)"
  unfolding v5_publish_body_def [abs_def] v5_publish_parser_def [abs_def] by (intro reads_intros)

text \<open>An empty topic needs a Topic Alias; no topic has a wildcard.\<close>

definition v5_topic_ok :: "rstring \<Rightarrow> properties \<Rightarrow> bool" where
  "v5_topic_ok t ps \<longleftrightarrow>
     (t = [] \<longrightarrow> list_ex is_topic_alias ps) \<and> plus_byte \<notin> set t \<and> hash_byte \<notin> set t"

definition publish_id_ok :: "qos \<Rightarrow> bool \<Rightarrow> u16 option \<Rightarrow> bool" where
  "publish_id_ok q dup i \<longleftrightarrow> (if q = AtMostOnce then i = None \<and> \<not> dup else i \<notin> {None, Some 0})"

definition v5_publish_ok :: "v5_publish \<Rightarrow> bool" where
  "v5_publish_ok p \<longleftrightarrow>
     mqtt_string (v5p_topic p) \<and> v5_topic_ok (v5p_topic p) (v5p_properties p) \<and>
     publish_id_ok (v5p_qos p) (v5p_dup p) (v5p_packet_id p) \<and>
     carries_only {0x01, 0x02, 0x03, 0x08, 0x09, 0x0B, 0x23, 0x26} (v5p_properties p) \<and>
     properties_ok True (v5p_properties p)"

definition v5_publish_sendable :: "v5_publish \<Rightarrow> bool" where
  "v5_publish_sendable p \<longleftrightarrow>
     v5_publish_ok p \<and> 0x0B \<notin> property_identifier ` set (v5p_properties p) \<and>
     (list_ex is_utf8_payload (v5p_properties p) \<longrightarrow> utf8_valid (v5p_payload p))"

definition v5_publish_bytes :: "v5_publish \<Rightarrow> bytes" where
  "v5_publish_bytes p =
     binary_bytes (v5p_topic p) @ opt_bytes u16_to_be_bytes (v5p_packet_id p) @
     properties_bytes (v5p_properties p) @ v5p_payload p"

definition v5_publish_first :: "v5_publish \<Rightarrow> u8" where
  "v5_publish_first p = publish_first (v5p_dup p) (v5p_qos p) (v5p_retain p)"

lemma v5_publish_first_eq: "0x30 OR v5_publish_flags p = v5_publish_first p"
  by (cases "v5p_dup p"; cases "v5p_qos p"; cases "v5p_retain p")
    (simp_all add: v5_publish_first_def publish_first_def v5_publish_flags_def Let_def)

lemma v5_publish_parser_iff:
  assumes "\<not> (q = AtMostOnce \<and> dup)"
  shows "v5_publish_parser dup q retain s = Ok (p, s') \<longleftrightarrow>
    (v5_publish_ok p \<and> v5p_dup p = dup \<and> v5p_qos p = q \<and> v5p_retain p = retain) \<and>
    s = v5_publish_bytes p \<and> s' = []"
proof
  assume "v5_publish_parser dup q retain s = Ok (p, s')"
  with assms show "(v5_publish_ok p \<and> v5p_dup p = dup \<and> v5p_qos p = q \<and> v5p_retain p = retain) \<and>
      s = v5_publish_bytes p \<and> s' = []"
    by (auto simp: v5_publish_parser_def v5_publish_ok_def v5_publish_bytes_def v5_topic_ok_def
        publish_id_ok_def rbind_Ok_iff wire_simps split: if_splits)
next
  assume "(v5_publish_ok p \<and> v5p_dup p = dup \<and> v5p_qos p = q \<and> v5p_retain p = retain) \<and>
      s = v5_publish_bytes p \<and> s' = []"
  then show "v5_publish_parser dup q retain s = Ok (p, s')"
    by (cases p; cases "v5p_packet_id p") (auto simp: v5_publish_parser_def v5_publish_ok_def
        v5_publish_bytes_def v5_topic_ok_def publish_id_ok_def rbind_Ok_iff p_rest_def split: if_splits)
qed

lemma v5_publish_parser_no_panic: "v5_publish_parser dup q retain s \<noteq> Panic"
  by (auto simp: v5_publish_parser_def rbind_Panic_iff no_panic split: if_splits)

section \<open>Encoding\<close>

lemma v5_publish_validate_iff:
  "v5_publish_validate p = Ok () \<longleftrightarrow>
     v5_topic_ok (v5p_topic p) (v5p_properties p) \<and>
     publish_id_ok (v5p_qos p) (v5p_dup p) (v5p_packet_id p) \<and>
     carries_only {0x01, 0x02, 0x03, 0x08, 0x09, 0x0B, 0x23, 0x26} (v5p_properties p) \<and>
     0x0B \<notin> property_identifier ` set (v5p_properties p) \<and>
     no_duplicates True (v5p_properties p) \<and>
     (list_ex is_utf8_payload (v5p_properties p) \<longrightarrow> utf8_valid (v5p_payload p))"
  by (auto simp: v5_publish_validate_def v5_topic_ok_def publish_id_ok_def)

lemma v5_publish_validate_no_panic: "v5_publish_validate p \<noteq> Panic"
  by (simp add: v5_publish_validate_def)

lemma writes_v5_publish:
  "writes (v5_publish_put p)
     (binary_bytes (v5p_topic p) @ opt_bytes u16_to_be_bytes (v5p_packet_id p) @
      properties_image (v5p_properties p) @ v5p_payload p)
     (0 \<notin> set (v5p_topic p) \<and> length (v5p_topic p) \<le> 65535 \<and> properties_fit (v5p_properties p))"
  unfolding v5_publish_put_def [abs_def]
  by (rule writes_cong, (rule writes_intros)+) (auto simp: opt_bytes_def split: option.splits)

lemma v5_publish_encoded_len:
  assumes "v5_publish_validate p = Ok ()"
  shows "v5_publish_encoded_len p =
    min (length (binary_bytes (v5p_topic p) @ opt_bytes u16_to_be_bytes (v5p_packet_id p) @
      properties_image (v5p_properties p) @ v5p_payload p)) usize_max"
  using assms
  by (auto simp: v5_publish_validate_iff publish_id_ok_def v5_publish_encoded_len_def
      length_properties_image Let_def split: if_splits option.splits)

lemma v5_publish_encoder:
  "v5_publish_validate p = Ok () \<Longrightarrow>
   0 \<notin> set (v5p_topic p) \<and> length (v5p_topic p) \<le> 65535 \<and> properties_fit (v5p_properties p) \<Longrightarrow>
   length (v5_publish_bytes p) \<le> max_remaining \<Longrightarrow>
   emits (v5_publish_encode p) (frame_wire (v5_publish_first p) (v5_publish_bytes p))"
  "v5_publish_encode p buf \<noteq> Panic"
  "v5_publish_encode p buf = Ok r \<Longrightarrow> v5_publish_validate p = Ok () \<and>
   (0 \<notin> set (v5p_topic p) \<and> length (v5p_topic p) \<le> 65535 \<and> properties_fit (v5p_properties p)) \<and>
   length (v5_publish_bytes p) \<le> max_remaining"
proof -
  have e: "v5_publish_encode p buf = rbind (v5_publish_validate p) (\<lambda>_.
      rbind (open_frame (v5_publish_first p) (v5_publish_encoded_len p) buf) (\<lambda>w.
      rbind (v5_publish_put p w) finish))" for buf
    by (simp add: v5_publish_encode_def v5_publish_first_eq)
  have img: "binary_bytes (v5p_topic p) @ opt_bytes u16_to_be_bytes (v5p_packet_id p) @
      properties_image (v5p_properties p) @ v5p_payload p = v5_publish_bytes p"
    if "0 \<notin> set (v5p_topic p) \<and> length (v5p_topic p) \<le> 65535 \<and> properties_fit (v5p_properties p)"
    using that by (simp add: v5_publish_bytes_def)
  note enc = duplex_encoder [of v5_publish_encode, OF e writes_v5_publish v5_publish_encoded_len
      v5_publish_validate_no_panic img]
  show "v5_publish_validate p = Ok () \<Longrightarrow>
     0 \<notin> set (v5p_topic p) \<and> length (v5p_topic p) \<le> 65535 \<and> properties_fit (v5p_properties p) \<Longrightarrow>
     length (v5_publish_bytes p) \<le> max_remaining \<Longrightarrow>
     emits (v5_publish_encode p) (frame_wire (v5_publish_first p) (v5_publish_bytes p))"
    by (rule enc(1))
  show "v5_publish_encode p buf \<noteq> Panic" by (rule enc(2))
  show "v5_publish_encode p buf = Ok r \<Longrightarrow> v5_publish_validate p = Ok () \<and>
     (0 \<notin> set (v5p_topic p) \<and> length (v5p_topic p) \<le> 65535 \<and> properties_fit (v5p_properties p)) \<and>
     length (v5_publish_bytes p) \<le> max_remaining" by (rule enc(3))
qed

section \<open>The packet contract\<close>

interpretation v5_publish: duplex_packet v5_publish_encode v5_publish_decode v5_publish_first
  v5_publish_bytes v5_publish_sendable "\<lambda>p s. v5_publish_ok p \<and> s = v5_publish_bytes p"
  "\<lambda>p. utf8_valid (v5p_topic p) \<and> properties_typed (v5p_properties p)"
proof
  fix x buf n
  show "emits (v5_publish_encode x) (frame_wire (v5_publish_first x) (v5_publish_bytes x))"
    if "v5_publish_sendable x" "length (v5_publish_bytes x) \<le> max_remaining"
    using that by (intro v5_publish_encoder) (auto simp: v5_publish_sendable_def v5_publish_ok_def
        v5_publish_validate_iff properties_ok_iff mqtt_string_def)
  show "v5_publish_encode x buf \<noteq> Panic" by (rule v5_publish_encoder)
  show "v5_publish_sendable x \<and> length (v5_publish_bytes x) \<le> max_remaining"
    if "utf8_valid (v5p_topic x) \<and> properties_typed (v5p_properties x)" "v5_publish_encode x buf = Ok r" for r
    using v5_publish_encoder(3) [OF that(2)] that(1)
    by (auto simp: v5_publish_sendable_def v5_publish_ok_def v5_publish_validate_iff
        properties_ok_iff mqtt_string_def)
  have d: "v5_publish_decode (b # r) =
      (if b AND 0xF0 \<noteq> 0x30 then Err InvalidPacketType
       else rbind (ok_or InvalidPacketFlags (qos_from_u8 (drop_bit 1 (b AND 0x0F) AND 0x03))) (\<lambda>q.
         if q = AtMostOnce \<and> (b AND 0x0F) AND 0x08 \<noteq> 0 then Err InvalidPacketFlags
         else rbind (read_frame_header (b # r)) (\<lambda>(offset, end).
           v5_publish_body ((b AND 0x0F) AND 0x08 \<noteq> 0) q ((b AND 0x0F) AND 0x01 \<noteq> 0) (b # r) end offset)))"
    for b r by (simp add: v5_publish_decode_def Let_def)
  have d0: "v5_publish_decode [] = Err InsufficientData" by (simp add: v5_publish_decode_def)
  have dup: "\<not> (v5p_qos p = AtMostOnce \<and> v5p_dup p)" if "v5_publish_ok p" for p
    using that by (auto simp: v5_publish_ok_def publish_id_ok_def)
  note dec = publish_decoder [OF d0 d reads_v5_publish v5_publish_parser_iff
      v5_publish_parser_no_panic dup]
  show "v5_publish_decode buf \<noteq> Panic" by (rule dec(2))
  show "v5_publish_decode buf = Ok (x, n) \<longleftrightarrow>
      (\<exists>s rest. (v5_publish_ok x \<and> s = v5_publish_bytes x) \<and> length s \<le> max_remaining \<and>
        n = length (frame_wire (v5_publish_first x) s) \<and> buf = frame_wire (v5_publish_first x) s @ rest)"
    using dec(1) [of buf x n] by (auto simp: v5_publish_first_def)
qed

end
