(* ===== verification/V311Connect.thy ===== *)
theory V311Connect
  imports V311Publish
begin

unbundle bit_operations_syntax

text \<open>
  The CONNECT packet of MQTT 3.1.1, \<^verbatim>\<open>src/v311/connect.rs\<close>: the connect flags and the fields
  they announce, validation, encoding and decoding, as an interpretation of the packet contract.
\<close>

section \<open>The packet\<close>

record v3_will =
  v3w_topic :: rstring
  v3w_payload :: bytes
  v3w_qos :: qos
  v3w_retain :: bool

record v3_connect =
  v3c_client_id :: rstring
  v3c_clean_session :: bool
  v3c_keep_alive :: u16
  v3c_will :: "v3_will option"
  v3c_username :: "rstring option"
  v3c_password :: "bytes option"

definition v3_connect_encoded_len :: "v3_connect \<Rightarrow> nat" where
  "v3_connect_encoded_len c =
     (let len = 2 + 4 + 1 + 1 + 2;
          len = usize_saturating_add (usize_saturating_add len 2) (length (v3c_client_id c));
          len = (case v3c_will c of None \<Rightarrow> len
                 | Some will \<Rightarrow>
                     let len = usize_saturating_add (usize_saturating_add len 2) (length (v3w_topic will))
                     in usize_saturating_add (usize_saturating_add len 2) (length (v3w_payload will)));
          len = (case v3c_username c of None \<Rightarrow> len
                 | Some username \<Rightarrow>
                     usize_saturating_add (usize_saturating_add len 2) (length username))
      in case v3c_password c of None \<Rightarrow> len
         | Some password \<Rightarrow>
             usize_saturating_add (usize_saturating_add len 2) (length password))"

definition v3_connect_validate :: "v3_connect \<Rightarrow> (unit, encode_error) result" where
  "v3_connect_validate c =
     (if v3c_password c \<noteq> None \<and> v3c_username c = None
      then Err (InvalidField PasswordWithoutUsername)
      else if v3c_client_id c = [] \<and> \<not> v3c_clean_session c
      then Err (InvalidField EmptyClientIdWithoutCleanSession)
      else
        case v3c_will c of
          None \<Rightarrow> Ok ()
        | Some will \<Rightarrow>
            if v3w_topic will = [] then Err (InvalidField EmptyTopicName)
            else if str_contains plus_byte (v3w_topic will) \<or> str_contains hash_byte (v3w_topic will)
            then Err (InvalidField WildcardInTopicName)
            else Ok ())"

definition v3_connect_flags :: "v3_connect \<Rightarrow> u8" where
  "v3_connect_flags c =
     (let flags = 0;
          flags = (if v3c_clean_session c then flags OR 0x02 else flags);
          flags = (case v3c_will c of None \<Rightarrow> flags
                   | Some will \<Rightarrow>
                       let flags = flags OR 0x04;
                           flags = flags OR push_bit 3 (qos_as_u8 (v3w_qos will))
                       in if v3w_retain will then flags OR 0x20 else flags);
          flags = (if v3c_password c \<noteq> None then flags OR 0x40 else flags)
      in if v3c_username c \<noteq> None then flags OR 0x80 else flags)"

text \<open>The bytes of \<^verbatim>\<open>"MQTT"\<close>.\<close>

definition mqtt_name :: rstring where
  "mqtt_name = [0x4D, 0x51, 0x54, 0x54]"

definition v3_connect_put :: "v3_connect \<Rightarrow> writer \<Rightarrow> (writer, encode_error) result" where
  "v3_connect_put c w =
     rbind (put_with (utf8_encode_str mqtt_name) w) (\<lambda>w.
     rbind (put_u8 0x04 w) (\<lambda>w.
     rbind (put_u8 (v3_connect_flags c) w) (\<lambda>w.
     rbind (put_bytes (u16_to_be_bytes (v3c_keep_alive c)) w) (\<lambda>w.
     rbind (put_with (utf8_encode_str (v3c_client_id c)) w) (\<lambda>w.
     rbind (case v3c_will c of None \<Rightarrow> Ok w
            | Some will \<Rightarrow>
                rbind (put_with (utf8_encode_str (v3w_topic will)) w) (\<lambda>w.
                put_with (binary_encode_slice (v3w_payload will)) w)) (\<lambda>w.
     rbind (case v3c_username c of None \<Rightarrow> Ok w
            | Some username \<Rightarrow> put_with (utf8_encode_str username) w) (\<lambda>w.
     case v3c_password c of None \<Rightarrow> Ok w
     | Some password \<Rightarrow> put_with (binary_encode_slice password) w)))))))"

definition v3_connect_encode :: "v3_connect \<Rightarrow> encoder" where
  "v3_connect_encode c buf =
     rbind (v3_connect_validate c) (\<lambda>_.
     let remaining_len = v3_connect_encoded_len c in
     rbind (check_remaining_len remaining_len) (\<lambda>_.
     rbind (begin_frame 0x10 remaining_len buf) (\<lambda>w.
     rbind (v3_connect_put c w) finish)))"

definition v3_will_body :: "u8 \<Rightarrow> v3_will option reader" where
  "v3_will_body flags buf end offset =
     (if flags AND 0x04 \<noteq> 0 then
        rbind (read_with utf8_decode buf end offset) (\<lambda>(topic, offset).
        if str_contains plus_byte topic \<or> str_contains hash_byte topic then Err MalformedPacket
        else if topic = [] then Err MalformedPacket
        else
          rbind (read_with binary_decode buf end offset) (\<lambda>(payload, offset).
          rbind (ok_or MalformedPacket (qos_from_u8 (drop_bit 3 flags AND 0x03))) (\<lambda>q.
          Ok (Some \<lparr>v3w_topic = topic, v3w_payload = payload, v3w_qos = q,
                    v3w_retain = flags AND 0x20 \<noteq> 0\<rparr>, offset))))
      else Ok (None, offset))"

definition v3_connect_body :: "v3_connect reader" where
  "v3_connect_body buf end offset =
     rbind (read_with utf8_decode buf end offset) (\<lambda>(protocol_name, offset).
     if protocol_name \<noteq> mqtt_name then Err MalformedPacket
     else
       rbind (read_u8 buf end offset) (\<lambda>(level, offset).
       if level \<noteq> 0x04 then Err MalformedPacket
       else
         rbind (read_u8 buf end offset) (\<lambda>(flags, offset).
         rbind (read_u16 buf end offset) (\<lambda>(keep_alive, offset).
         rbind (read_with utf8_decode buf end offset) (\<lambda>(client_id, offset).
         if flags AND 0x01 \<noteq> 0 then Err MalformedPacket
         else
           rbind (v3_will_body flags buf end offset) (\<lambda>(will, offset).
           rbind (read_opt (flags AND 0x80 \<noteq> 0) (read_with utf8_decode) buf end offset)
             (\<lambda>(username, offset).
           rbind (read_opt (flags AND 0x40 \<noteq> 0) (read_with binary_decode) buf end offset)
             (\<lambda>(password, offset).
           if password \<noteq> None \<and> username = None then Err MalformedPacket
           else if will = None \<and> flags AND 0x38 \<noteq> 0 then Err MalformedPacket
           else if client_id = [] \<and> flags AND 0x02 = 0 then Err MalformedPacket
           else
             read_end \<lparr>v3c_client_id = client_id, v3c_clean_session = flags AND 0x02 \<noteq> 0,
               v3c_keep_alive = keep_alive, v3c_will = will, v3c_username = username,
               v3c_password = password\<rparr> buf end offset))))))))"

definition v3_connect_decode :: "v3_connect decoder" where
  "v3_connect_decode buf =
     (if buf = [] then Err InsufficientData
      else
        rbind (index buf 0) (\<lambda>b0.
        if b0 AND 0xF0 \<noteq> 0x10 then Err InvalidPacketType
        else if b0 AND 0x0F \<noteq> 0 then Err InvalidPacketFlags
        else
          rbind (read_frame_header buf) (\<lambda>(offset, end). v3_connect_body buf end offset)))"

section \<open>The connect flags\<close>

lemma bit_times_8: "bit (b * 8 :: u8) n \<longleftrightarrow> 3 \<le> n \<and> n < 8 \<and> bit b (n - 3)"
  "bit (8 * b :: u8) n \<longleftrightarrow> 3 \<le> n \<and> n < 8 \<and> bit b (n - 3)"
proof -
  have "b * 8 = push_bit 3 b" by (simp add: push_bit_eq_mult)
  then show *: "bit (b * 8 :: u8) n \<longleftrightarrow> 3 \<le> n \<and> n < 8 \<and> bit b (n - 3)"
    by (simp only: bit_push_bit_iff) simp
  then show "bit (8 * b :: u8) n \<longleftrightarrow> 3 \<le> n \<and> n < 8 \<and> bit b (n - 3)"
    by (simp add: mult.commute)
qed

lemma connect_flags_split:
  "(f :: u8) = (f AND 1) OR (f AND 2) OR (f AND 4) OR push_bit 3 (drop_bit 3 f AND 3) OR
     (f AND 0x20) OR (f AND 0x40) OR (f AND 0x80)"
  by (rule u8_bit_eqI) (simp_all add: byte_bits bit_times_8)

lemma connect_flags_no_will:
  assumes "(f :: u8) AND 0x38 = 0"
  shows "push_bit 3 (drop_bit 3 f AND 3) = 0" "f AND 0x20 = 0"
proof -
  have "push_bit 3 (drop_bit 3 f AND 3) = (f AND 0x38) AND 0x18"
    by (rule u8_bit_eqI) (simp_all add: byte_bits bit_times_8)
  then show "push_bit 3 (drop_bit 3 f AND 3) = 0" using assms by simp
  have "f AND 0x20 = (f AND 0x38) AND 0x20" by (simp add: and.assoc)
  then show "f AND 0x20 = 0" using assms by simp
qed

text \<open>
  The flags byte in both versions of the protocol; the Will contributes its QoS and Retain bits.
\<close>

definition connect_flag_byte :: "bool \<Rightarrow> (qos \<times> bool) option \<Rightarrow> bool \<Rightarrow> bool \<Rightarrow> u8" where
  "connect_flag_byte clean will pw us =
     (if clean then 0x02 else 0) OR
     (case will of None \<Rightarrow> 0
      | Some (q, retain) \<Rightarrow> 0x04 OR push_bit 3 (qos_as_u8 q) OR (if retain then 0x20 else 0)) OR
     (if pw then 0x40 else 0) OR (if us then 0x80 else 0)"

definition will_flags :: "u8 \<Rightarrow> (qos \<times> bool) option \<Rightarrow> bool" where
  "will_flags f will \<longleftrightarrow>
     (case will of
        None \<Rightarrow> f AND 0x04 = 0
      | Some (q, retain) \<Rightarrow> f AND 0x04 \<noteq> 0 \<and> qos_from_u8 (drop_bit 3 f AND 0x03) = Some q \<and>
          (f AND 0x20 \<noteq> 0) = retain)"

lemma will_flags_simps [simp]:
  "will_flags f None \<longleftrightarrow> f AND 0x04 = 0"
  "will_flags f (Some (q, retain)) \<longleftrightarrow> f AND 0x04 \<noteq> 0 \<and>
     qos_from_u8 (drop_bit 3 f AND 0x03) = Some q \<and> (f AND 0x20 \<noteq> 0) = retain"
  by (simp_all add: will_flags_def)

lemma connect_flags_iff:
  "f AND 0x01 = 0 \<and> (f AND 0x02 \<noteq> 0) = clean \<and> will_flags f will \<and>
   (will = None \<longrightarrow> f AND 0x38 = 0) \<and> (f AND 0x80 \<noteq> 0) = us \<and> (f AND 0x40 \<noteq> 0) = pw \<longleftrightarrow>
   f = connect_flag_byte clean will pw us"
proof
  assume f: "f = connect_flag_byte clean will pw us"
  show "f AND 0x01 = 0 \<and> (f AND 0x02 \<noteq> 0) = clean \<and> will_flags f will \<and>
    (will = None \<longrightarrow> f AND 0x38 = 0) \<and> (f AND 0x80 \<noteq> 0) = us \<and> (f AND 0x40 \<noteq> 0) = pw"
  proof (cases will)
    case None
    then show ?thesis unfolding f
      by (cases clean; cases pw; cases us) (simp_all add: connect_flag_byte_def)
  next
    case (Some w)
    obtain q r where w: "w = (q, r)" by fastforce
    show ?thesis unfolding f Some w
      by (cases clean; cases pw; cases us; cases q; cases r)
        (simp_all add: connect_flag_byte_def qos_from_u8_def)
  qed
next
  assume *: "f AND 0x01 = 0 \<and> (f AND 0x02 \<noteq> 0) = clean \<and> will_flags f will \<and>
    (will = None \<longrightarrow> f AND 0x38 = 0) \<and> (f AND 0x80 \<noteq> 0) = us \<and> (f AND 0x40 \<noteq> 0) = pw"
  then have p: "f AND 1 = 0" "f AND 2 = (if clean then 2 else 0)"
    "f AND 0x40 = (if pw then 0x40 else 0)" "f AND 0x80 = (if us then 0x80 else 0)"
    using u8_flag_tests(2,6,7) [of f] by (auto split: if_splits)
  show "f = connect_flag_byte clean will pw us"
  proof (cases will)
    case None
    with * have "f AND 4 = 0" "f AND 0x38 = 0" by auto
    note q = this(1) connect_flags_no_will [OF this(2)]
    show ?thesis
      by (subst connect_flags_split, simp only: p q) (simp add: None connect_flag_byte_def or.assoc)
  next
    case (Some w)
    obtain l r where w: "w = (l, r)" by fastforce
    with Some * have q: "drop_bit 3 f AND 3 = qos_as_u8 l" "f AND 4 = 4"
      "f AND 0x20 = (if r then 0x20 else 0)"
      using u8_flag_tests(3,5) [of f] by (auto simp: qos_from_u8_Some_iff split: if_splits)
    show ?thesis
      by (subst connect_flags_split, simp only: p q) (simp add: Some w connect_flag_byte_def or.assoc)
  qed
qed

definition v3_will_flags :: "v3_will option \<Rightarrow> (qos \<times> bool) option" where
  "v3_will_flags = map_option (\<lambda>w. (v3w_qos w, v3w_retain w))"

lemma v3_will_flags_simps [simp]:
  "v3_will_flags None = None" "v3_will_flags (Some w) = Some (v3w_qos w, v3w_retain w)"
  "v3_will_flags will = None \<longleftrightarrow> will = None"
  by (simp_all add: v3_will_flags_def)

lemma v3_connect_flags_eq:
  "v3_connect_flags c =
     connect_flag_byte (v3c_clean_session c) (v3_will_flags (v3c_will c))
       (v3c_password c \<noteq> None) (v3c_username c \<noteq> None)"
  by (cases "v3c_will c")
    (simp_all add: v3_connect_flags_def connect_flag_byte_def Let_def or.assoc)

lemma v3_connect_flags_iff:
  "f AND 0x01 = 0 \<and> (f AND 0x02 \<noteq> 0) = v3c_clean_session c \<and>
   will_flags f (v3_will_flags (v3c_will c)) \<and> (v3c_will c = None \<longrightarrow> f AND 0x38 = 0) \<and>
   (f AND 0x80 \<noteq> 0) = (v3c_username c \<noteq> None) \<and> (f AND 0x40 \<noteq> 0) = (v3c_password c \<noteq> None) \<longleftrightarrow>
   f = v3_connect_flags c"
  using connect_flags_iff [of f "v3c_clean_session c" "v3_will_flags (v3c_will c)"]
  by (simp add: v3_connect_flags_eq)

section \<open>The body\<close>

definition v3_will_parser :: "u8 \<Rightarrow> v3_will option parser" where
  "v3_will_parser flags s =
     (if flags AND 0x04 \<noteq> 0 then
        rbind (p_with utf8_decode s) (\<lambda>(topic, s).
        if str_contains plus_byte topic \<or> str_contains hash_byte topic then Err MalformedPacket
        else if topic = [] then Err MalformedPacket
        else
          rbind (p_with binary_decode s) (\<lambda>(payload, s).
          rbind (ok_or MalformedPacket (qos_from_u8 (drop_bit 3 flags AND 0x03))) (\<lambda>q.
          Ok (Some \<lparr>v3w_topic = topic, v3w_payload = payload, v3w_qos = q,
                    v3w_retain = flags AND 0x20 \<noteq> 0\<rparr>, s))))
      else Ok (None, s))"

definition v3_connect_parser :: "v3_connect parser" where
  "v3_connect_parser s =
     rbind (p_with utf8_decode s) (\<lambda>(protocol_name, s).
     if protocol_name \<noteq> mqtt_name then Err MalformedPacket
     else
       rbind (p_u8 s) (\<lambda>(level, s).
       if level \<noteq> 0x04 then Err MalformedPacket
       else
         rbind (p_u8 s) (\<lambda>(flags, s).
         rbind (p_u16 s) (\<lambda>(keep_alive, s).
         rbind (p_with utf8_decode s) (\<lambda>(client_id, s).
         if flags AND 0x01 \<noteq> 0 then Err MalformedPacket
         else
           rbind (v3_will_parser flags s) (\<lambda>(will, s).
           rbind (p_opt (flags AND 0x80 \<noteq> 0) (p_with utf8_decode) s) (\<lambda>(username, s).
           rbind (p_opt (flags AND 0x40 \<noteq> 0) (p_with binary_decode) s) (\<lambda>(password, s).
           if password \<noteq> None \<and> username = None then Err MalformedPacket
           else if will = None \<and> flags AND 0x38 \<noteq> 0 then Err MalformedPacket
           else if client_id = [] \<and> flags AND 0x02 = 0 then Err MalformedPacket
           else
             p_end \<lparr>v3c_client_id = client_id, v3c_clean_session = flags AND 0x02 \<noteq> 0,
               v3c_keep_alive = keep_alive, v3c_will = will, v3c_username = username,
               v3c_password = password\<rparr> s))))))))"

lemma reads_v3_will [reads_intros]: "reads (v3_will_body flags) (v3_will_parser flags)"
  unfolding v3_will_body_def [abs_def] v3_will_parser_def [abs_def] by (intro reads_intros)

lemma reads_v3_connect: "reads v3_connect_body v3_connect_parser"
  unfolding v3_connect_body_def [abs_def] v3_connect_parser_def [abs_def] by (intro reads_intros)

definition v3_will_ok :: "v3_will \<Rightarrow> bool" where
  "v3_will_ok w \<longleftrightarrow>
     mqtt_string (v3w_topic w) \<and> topic_name_ok (v3w_topic w) \<and> length (v3w_payload w) \<le> 65535"

definition v3_will_bytes :: "v3_will \<Rightarrow> bytes" where
  "v3_will_bytes w = binary_bytes (v3w_topic w) @ binary_bytes (v3w_payload w)"

definition v3_connect_ok :: "v3_connect \<Rightarrow> bool" where
  "v3_connect_ok c \<longleftrightarrow>
     mqtt_string (v3c_client_id c) \<and> (v3c_client_id c = [] \<longrightarrow> v3c_clean_session c) \<and>
     pred_option v3_will_ok (v3c_will c) \<and> pred_option mqtt_string (v3c_username c) \<and>
     pred_option (\<lambda>pw. length pw \<le> 65535) (v3c_password c) \<and>
     (v3c_password c \<noteq> None \<longrightarrow> v3c_username c \<noteq> None)"

definition v3_connect_bytes :: "v3_connect \<Rightarrow> bytes" where
  "v3_connect_bytes c =
     binary_bytes mqtt_name @ [0x04, v3_connect_flags c] @ u16_to_be_bytes (v3c_keep_alive c) @
     binary_bytes (v3c_client_id c) @ opt_bytes v3_will_bytes (v3c_will c) @
     opt_bytes binary_bytes (v3c_username c) @ opt_bytes binary_bytes (v3c_password c)"

lemma v3_will_parser_Ok_iff:
  "v3_will_parser f s = Ok (will, s') \<longleftrightarrow>
     will_flags f (v3_will_flags will) \<and> pred_option v3_will_ok will \<and> s = opt_bytes v3_will_bytes will @ s'"
proof
  assume "v3_will_parser f s = Ok (will, s')"
  then show "will_flags f (v3_will_flags will) \<and> pred_option v3_will_ok will \<and> s = opt_bytes v3_will_bytes will @ s'"
    by (auto simp: v3_will_parser_def v3_will_ok_def v3_will_bytes_def topic_name_ok_def
        rbind_Ok_iff wire_simps split: if_splits)
next
  assume "will_flags f (v3_will_flags will) \<and> pred_option v3_will_ok will \<and> s = opt_bytes v3_will_bytes will @ s'"
  then show "v3_will_parser f s = Ok (will, s')"
    by (cases will; cases "the will")
      (auto simp: v3_will_parser_def v3_will_ok_def v3_will_bytes_def topic_name_ok_def)
qed

lemma mqtt_name_string [simp]: "mqtt_string mqtt_name"
  by (simp add: mqtt_string_def mqtt_name_def)

lemma v3_connect_parser_sound:
  assumes "v3_connect_parser s = Ok (c, s')"
  shows "v3_connect_ok c \<and> s = v3_connect_bytes c \<and> s' = []"
  using assms
  by (auto simp: v3_connect_parser_def v3_connect_ok_def v3_connect_bytes_def rbind_Ok_iff wire_simps
      v3_will_parser_Ok_iff v3_connect_flags_iff [symmetric] split: if_splits)

lemma v3_connect_parser_wire:
  assumes "v3_connect_ok c"
  shows "v3_connect_parser (v3_connect_bytes c) = Ok (c, [])"
proof -
  define f where "f = v3_connect_flags c"
  have f: "f AND 0x01 = 0" "(f AND 0x02 \<noteq> 0) = v3c_clean_session c" "will_flags f (v3_will_flags (v3c_will c))"
     "v3c_will c = None \<longrightarrow> f AND 0x38 = 0"
     "(f AND 0x80 \<noteq> 0) = (v3c_username c \<noteq> None)" "(f AND 0x40 \<noteq> 0) = (v3c_password c \<noteq> None)"
    using v3_connect_flags_iff [of f c] f_def by blast+
  obtain cid cl ka will us pw where c: "c = \<lparr>v3c_client_id = cid, v3c_clean_session = cl,
      v3c_keep_alive = ka, v3c_will = will, v3c_username = us, v3c_password = pw\<rparr>" by (cases c)
  have bytes: "v3_connect_bytes c = binary_bytes mqtt_name @ [0x04, f] @ u16_to_be_bytes ka @
      binary_bytes cid @ opt_bytes v3_will_bytes will @ opt_bytes binary_bytes us @ opt_bytes binary_bytes pw"
    by (simp add: v3_connect_bytes_def f_def c)
  have opts: "v3_will_parser f (opt_bytes v3_will_bytes will @ r) = Ok (will, r)"
    "p_opt (f AND 0x80 \<noteq> 0) (p_with utf8_decode) (opt_bytes binary_bytes us @ r) = Ok (us, r)"
    "p_opt (f AND 0x40 \<noteq> 0) (p_with binary_decode) (opt_bytes binary_bytes pw) = Ok (pw, [])" for r
    using assms f by (simp_all add: p_opt_strings v3_will_parser_Ok_iff v3_connect_ok_def c)
  have "mqtt_string cid" "cid = [] \<longrightarrow> f AND 2 \<noteq> 0" "pw \<noteq> None \<longrightarrow> us \<noteq> None" "(f AND 2 \<noteq> 0) = cl"
    using assms f by (simp_all add: v3_connect_ok_def c)
  with opts f(1,4) show ?thesis
    unfolding bytes by (auto simp: v3_connect_parser_def c p_end_def)
qed

lemma v3_connect_parser_Ok_iff:
  "v3_connect_parser s = Ok (c, s') \<longleftrightarrow> v3_connect_ok c \<and> s = v3_connect_bytes c \<and> s' = []"
  using v3_connect_parser_sound v3_connect_parser_wire by blast

lemma v3_connect_parser_no_panic: "v3_connect_parser s \<noteq> Panic"
  unfolding v3_connect_parser_def v3_will_parser_def
  by (auto simp: rbind_Panic_iff no_panic split: if_splits)

section \<open>Encoding\<close>

lemma v3_connect_validate_Ok_iff:
  "v3_connect_validate c = Ok () \<longleftrightarrow>
     (v3c_password c \<noteq> None \<longrightarrow> v3c_username c \<noteq> None) \<and>
     (v3c_client_id c = [] \<longrightarrow> v3c_clean_session c) \<and>
     pred_option (\<lambda>w. topic_name_ok (v3w_topic w)) (v3c_will c)"
  by (auto simp: v3_connect_validate_def topic_name_ok_def split: option.splits)

lemma writes_v3_connect:
  "writes (v3_connect_put c) (v3_connect_bytes c)
     (0 \<notin> set (v3c_client_id c) \<and> length (v3c_client_id c) \<le> 65535 \<and>
      pred_option (\<lambda>w. 0 \<notin> set (v3w_topic w) \<and> length (v3w_topic w) \<le> 65535 \<and>
        length (v3w_payload w) \<le> 65535) (v3c_will c) \<and>
      pred_option (\<lambda>s. 0 \<notin> set s \<and> length s \<le> 65535) (v3c_username c) \<and>
      pred_option (\<lambda>s. length s \<le> 65535) (v3c_password c))"
  unfolding v3_connect_put_def [abs_def]
  by (rule writes_cong, (rule writes_intros)+)
    (simp_all add: v3_connect_bytes_def v3_will_bytes_def opt_bytes_def mqtt_name_def split: option.split)

lemma v3_connect_encoded_len_eq:
  "v3_connect_encoded_len c = min (length (v3_connect_bytes c)) usize_max"
  by (cases "v3c_will c"; cases "v3c_username c"; cases "v3c_password c")
    (simp_all add: v3_connect_encoded_len_def v3_connect_bytes_def v3_will_bytes_def mqtt_name_def
      Let_def)

definition v3_connect_typed :: "v3_connect \<Rightarrow> bool" where
  "v3_connect_typed c \<longleftrightarrow> utf8_valid (v3c_client_id c) \<and>
     pred_option (\<lambda>w. utf8_valid (v3w_topic w)) (v3c_will c) \<and>
     pred_option utf8_valid (v3c_username c)"

lemma v3_connect_encoder:
  "v3_connect_ok c \<Longrightarrow> length (v3_connect_bytes c) \<le> max_remaining \<Longrightarrow>
   emits (v3_connect_encode c) (frame_wire 0x10 (v3_connect_bytes c))"
  "v3_connect_encode c buf \<noteq> Panic"
  "v3_connect_typed c \<Longrightarrow> v3_connect_encode c buf = Ok r \<Longrightarrow>
   v3_connect_ok c \<and> length (v3_connect_bytes c) \<le> max_remaining"
proof -
  have ok: "v3_connect_validate c \<noteq> Panic"
    by (simp add: v3_connect_validate_def split: option.split)
  note enc = framed_encoder [of v3_connect_encode c, OF v3_connect_encode_def [unfolded Let_def]
    writes_v3_connect v3_connect_encoded_len_eq ok]
  show "v3_connect_encode c buf \<noteq> Panic" by (rule enc(2))
  show "v3_connect_ok c \<and> length (v3_connect_bytes c) \<le> max_remaining"
    if "v3_connect_typed c" "v3_connect_encode c buf = Ok r"
    using enc(3) [OF that(2)] that(1)
    by (cases "v3c_will c"; cases "v3c_username c"; cases "v3c_password c")
      (auto simp: v3_connect_ok_def v3_connect_validate_Ok_iff v3_connect_typed_def v3_will_ok_def
        mqtt_string_def)
  assume c: "v3_connect_ok c" "length (v3_connect_bytes c) \<le> max_remaining"
  then show "emits (v3_connect_encode c) (frame_wire 0x10 (v3_connect_bytes c))"
    by (intro enc(1)) (auto simp: v3_connect_ok_def v3_connect_validate_Ok_iff v3_will_ok_def
        mqtt_string_def pred_option_def elim: option.pred_mono_strong)
qed

section \<open>The packet contract\<close>

interpretation v3_connect: framed_packet v3_connect_encode v3_connect_decode "\<lambda>_. 0x10"
  v3_connect_bytes v3_connect_ok v3_connect_typed
proof
  note dec = framed_decoder [where dec = v3_connect_decode and t = "0x10" and f = 0,
    OF _ _ reads_v3_connect v3_connect_parser_Ok_iff v3_connect_parser_no_panic]
  fix x buf n
  show "v3_connect_ok x \<Longrightarrow> length (v3_connect_bytes x) \<le> max_remaining \<Longrightarrow>
      emits (v3_connect_encode x) (frame_wire 0x10 (v3_connect_bytes x))"
    "v3_connect_encode x buf \<noteq> Panic"
    "v3_connect_typed x \<Longrightarrow> v3_connect_encode x buf = Ok r \<Longrightarrow>
      v3_connect_ok x \<and> length (v3_connect_bytes x) \<le> max_remaining" for r
    by (rule v3_connect_encoder; assumption)+
  show "v3_connect_decode buf = Ok (x, n) \<longleftrightarrow> v3_connect_ok x \<and>
      length (v3_connect_bytes x) \<le> max_remaining \<and> n = length (frame_wire 0x10 (v3_connect_bytes x)) \<and>
      (\<exists>rest. buf = frame_wire 0x10 (v3_connect_bytes x) @ rest)"
    using dec(1) [of buf x n] by (simp add: v3_connect_decode_def)
  show "v3_connect_decode buf \<noteq> Panic"
    using dec(2) [of buf] by (simp add: v3_connect_decode_def)
qed

end
