(* ===== verification/V5Connect.thy ===== *)
theory V5Connect
  imports V5Publish V311Connect
begin

unbundle bit_operations_syntax

text \<open>
  The CONNECT packet of MQTT 5, \<^verbatim>\<open>src/v5/connect.rs\<close>: it carries properties, also for the Will,
  allows a password without a user name and an empty client identifier.
\<close>

section \<open>The packet\<close>

record v5_will =
  v5w_topic :: rstring
  v5w_payload :: bytes
  v5w_qos :: qos
  v5w_retain :: bool
  v5w_properties :: properties

record v5_connect =
  v5c_client_id :: rstring
  v5c_clean_start :: bool
  v5c_keep_alive :: u16
  v5c_properties :: properties
  v5c_will :: "v5_will option"
  v5c_username :: "rstring option"
  v5c_password :: "bytes option"

definition v5_connect_encoded_len :: "v5_connect \<Rightarrow> nat" where
  "v5_connect_encoded_len c =
     (let len = 2 + 4 + 1 + 1 + 2;
          len = usize_saturating_add len (properties_encoded_len (v5c_properties c));
          len = usize_saturating_add (usize_saturating_add len 2) (length (v5c_client_id c));
          len = (case v5c_will c of None \<Rightarrow> len
                 | Some will \<Rightarrow>
                     let len = usize_saturating_add len (properties_encoded_len (v5w_properties will));
                         len = usize_saturating_add (usize_saturating_add len 2) (length (v5w_topic will))
                     in usize_saturating_add (usize_saturating_add len 2) (length (v5w_payload will)));
          len = (case v5c_username c of None \<Rightarrow> len
                 | Some username \<Rightarrow>
                     usize_saturating_add (usize_saturating_add len 2) (length username))
      in case v5c_password c of None \<Rightarrow> len
         | Some password \<Rightarrow>
             usize_saturating_add (usize_saturating_add len 2) (length password))"

text \<open>\<^verbatim>\<open>if let Some(will) = &self.will && check(will)\<close>\<close>

definition will_fails :: "(v5_will \<Rightarrow> bool) \<Rightarrow> v5_connect \<Rightarrow> bool" where
  "will_fails check c = (case v5c_will c of None \<Rightarrow> False | Some will \<Rightarrow> check will)"

definition v5_connect_validate :: "v5_connect \<Rightarrow> (unit, encode_error) result" where
  "v5_connect_validate c =
     (if will_fails (\<lambda>will. v5w_topic will = []) c then Err (InvalidField EmptyTopicName)
      else if will_fails (\<lambda>will. str_contains plus_byte (v5w_topic will) \<or>
        str_contains hash_byte (v5w_topic will)) c
      then Err (InvalidField WildcardInTopicName)
      else if is_err (validate_for_connect (v5c_properties c))
      then Err (InvalidField PropertyValidationFailed)
      else if is_err (validate_duplicate_identifiers False (v5c_properties c))
      then Err (InvalidField DuplicatePropertyIdentifier)
      else if will_fails (\<lambda>will. is_err (validate_for_will (v5w_properties will))) c
      then Err (InvalidField PropertyValidationFailed)
      else if will_fails (\<lambda>will. is_err (validate_duplicate_identifiers False (v5w_properties will))) c
      then Err (InvalidField DuplicatePropertyIdentifier)
      else if will_fails (\<lambda>will. list_ex is_utf8_payload (v5w_properties will) \<and>
        \<not> utf8_valid (v5w_payload will)) c
      then Err (InvalidField InvalidPayloadUtf8)
      else Ok ())"

definition v5_connect_flags :: "v5_connect \<Rightarrow> u8" where
  "v5_connect_flags c =
     (let flags = 0;
          flags = (if v5c_clean_start c then flags OR 0x02 else flags);
          flags = (case v5c_will c of None \<Rightarrow> flags
                   | Some will \<Rightarrow>
                       let flags = flags OR 0x04;
                           flags = flags OR push_bit 3 (qos_as_u8 (v5w_qos will))
                       in if v5w_retain will then flags OR 0x20 else flags);
          flags = (if v5c_password c \<noteq> None then flags OR 0x40 else flags)
      in if v5c_username c \<noteq> None then flags OR 0x80 else flags)"

definition v5_connect_put :: "v5_connect \<Rightarrow> writer \<Rightarrow> (writer, encode_error) result" where
  "v5_connect_put c w =
     rbind (put_with (utf8_encode_str mqtt_name) w) (\<lambda>w.
     rbind (put_u8 0x05 w) (\<lambda>w.
     rbind (put_u8 (v5_connect_flags c) w) (\<lambda>w.
     rbind (put_bytes (u16_to_be_bytes (v5c_keep_alive c)) w) (\<lambda>w.
     rbind (put_with (properties_encode (v5c_properties c)) w) (\<lambda>w.
     rbind (put_with (utf8_encode_str (v5c_client_id c)) w) (\<lambda>w.
     rbind (case v5c_will c of None \<Rightarrow> Ok w
            | Some will \<Rightarrow>
                rbind (put_with (properties_encode (v5w_properties will)) w) (\<lambda>w.
                rbind (put_with (utf8_encode_str (v5w_topic will)) w) (\<lambda>w.
                put_with (binary_encode_slice (v5w_payload will)) w))) (\<lambda>w.
     rbind (case v5c_username c of None \<Rightarrow> Ok w
            | Some username \<Rightarrow> put_with (utf8_encode_str username) w) (\<lambda>w.
     case v5c_password c of None \<Rightarrow> Ok w
     | Some password \<Rightarrow> put_with (binary_encode_slice password) w))))))))"

definition v5_connect_encode :: "v5_connect \<Rightarrow> encoder" where
  "v5_connect_encode c buf =
     rbind (v5_connect_validate c) (\<lambda>_.
     let remaining_len = v5_connect_encoded_len c in
     rbind (open_frame 0x10 remaining_len buf) (\<lambda>w.
     rbind (v5_connect_put c w) finish))"

definition v5_will_body :: "u8 \<Rightarrow> v5_will option reader" where
  "v5_will_body flags buf end offset =
     (if flags AND 0x04 \<noteq> 0 then
        rbind (read_sub properties_decode buf end offset) (\<lambda>(will_properties, offset).
        rbind (validate_for_will will_properties) (\<lambda>_.
        rbind (read_with utf8_decode buf end offset) (\<lambda>(topic, offset).
        if str_contains plus_byte topic \<or> str_contains hash_byte topic then Err MalformedPacket
        else if topic = [] then Err MalformedPacket
        else
          rbind (read_with binary_decode buf end offset) (\<lambda>(payload, offset).
          rbind (ok_or MalformedPacket (qos_from_u8 (drop_bit 3 flags AND 0x03))) (\<lambda>q.
          Ok (Some \<lparr>v5w_topic = topic, v5w_payload = payload, v5w_qos = q,
                    v5w_retain = flags AND 0x20 \<noteq> 0, v5w_properties = will_properties\<rparr>, offset))))))
      else Ok (None, offset))"

definition v5_connect_body :: "v5_connect reader" where
  "v5_connect_body buf end offset =
     rbind (read_with utf8_decode buf end offset) (\<lambda>(protocol_name, offset).
     if protocol_name \<noteq> mqtt_name then Err MalformedPacket
     else
       rbind (read_u8 buf end offset) (\<lambda>(level, offset).
       if level \<noteq> 0x05 then Err MalformedPacket
       else
         rbind (read_u8 buf end offset) (\<lambda>(flags, offset).
         rbind (read_u16 buf end offset) (\<lambda>(keep_alive, offset).
         rbind (read_sub properties_decode buf end offset) (\<lambda>(properties, offset).
         rbind (validate_for_connect properties) (\<lambda>_.
         rbind (read_with utf8_decode buf end offset) (\<lambda>(client_id, offset).
         rbind (v5_will_body flags buf end offset) (\<lambda>(will, offset).
         rbind (read_opt (flags AND 0x80 \<noteq> 0) (read_with utf8_decode) buf end offset)
           (\<lambda>(username, offset).
         rbind (read_opt (flags AND 0x40 \<noteq> 0) (read_with binary_decode) buf end offset)
           (\<lambda>(password, offset).
         if flags AND 0x01 \<noteq> 0 then Err MalformedPacket
         else if will = None \<and> flags AND 0x38 \<noteq> 0 then Err MalformedPacket
         else
           read_end \<lparr>v5c_client_id = client_id, v5c_clean_start = flags AND 0x02 \<noteq> 0,
             v5c_keep_alive = keep_alive, v5c_properties = properties, v5c_will = will,
             v5c_username = username, v5c_password = password\<rparr> buf end offset))))))))))"

definition v5_connect_decode :: "v5_connect decoder" where
  "v5_connect_decode buf =
     (if buf = [] then Err InsufficientData
      else
        rbind (index buf 0) (\<lambda>b0.
        if b0 AND 0xF0 \<noteq> 0x10 then Err InvalidPacketType
        else if b0 AND 0x0F \<noteq> 0 then Err InvalidPacketFlags
        else
          rbind (read_frame_header buf) (\<lambda>(offset, end). v5_connect_body buf end offset)))"

section \<open>The body\<close>

definition v5_will_parser :: "u8 \<Rightarrow> v5_will option parser" where
  "v5_will_parser flags s =
     (if flags AND 0x04 \<noteq> 0 then
        rbind (p_sub properties_decode s) (\<lambda>(will_properties, s).
        rbind (validate_for_will will_properties) (\<lambda>_.
        rbind (p_with utf8_decode s) (\<lambda>(topic, s).
        if str_contains plus_byte topic \<or> str_contains hash_byte topic then Err MalformedPacket
        else if topic = [] then Err MalformedPacket
        else
          rbind (p_with binary_decode s) (\<lambda>(payload, s).
          rbind (ok_or MalformedPacket (qos_from_u8 (drop_bit 3 flags AND 0x03))) (\<lambda>q.
          Ok (Some \<lparr>v5w_topic = topic, v5w_payload = payload, v5w_qos = q,
                    v5w_retain = flags AND 0x20 \<noteq> 0, v5w_properties = will_properties\<rparr>, s))))))
      else Ok (None, s))"

text \<open>The last fields and the checks that the source makes after them.\<close>

definition v5_connect_tail :: "u8 \<Rightarrow> u16 \<Rightarrow> properties \<Rightarrow> rstring \<Rightarrow> v5_connect parser" where
  "v5_connect_tail flags keep_alive properties client_id s =
     rbind (v5_will_parser flags s) (\<lambda>(will, s).
     rbind (p_opt (flags AND 0x80 \<noteq> 0) (p_with utf8_decode) s) (\<lambda>(username, s).
     rbind (p_opt (flags AND 0x40 \<noteq> 0) (p_with binary_decode) s) (\<lambda>(password, s).
     if flags AND 0x01 \<noteq> 0 then Err MalformedPacket
     else if will = None \<and> flags AND 0x38 \<noteq> 0 then Err MalformedPacket
     else
       p_end \<lparr>v5c_client_id = client_id, v5c_clean_start = flags AND 0x02 \<noteq> 0,
         v5c_keep_alive = keep_alive, v5c_properties = properties, v5c_will = will,
         v5c_username = username, v5c_password = password\<rparr> s)))"

definition v5_connect_parser :: "v5_connect parser" where
  "v5_connect_parser s =
     rbind (p_with utf8_decode s) (\<lambda>(protocol_name, s).
     if protocol_name \<noteq> mqtt_name then Err MalformedPacket
     else
       rbind (p_u8 s) (\<lambda>(level, s).
       if level \<noteq> 0x05 then Err MalformedPacket
       else
         rbind (p_u8 s) (\<lambda>(flags, s).
         rbind (p_u16 s) (\<lambda>(keep_alive, s).
         rbind (p_sub properties_decode s) (\<lambda>(properties, s).
         rbind (validate_for_connect properties) (\<lambda>_.
         rbind (p_with utf8_decode s) (\<lambda>(client_id, s).
         v5_connect_tail flags keep_alive properties client_id s)))))))"

lemma reads_v5_will [reads_intros]: "reads (v5_will_body flags) (v5_will_parser flags)"
  unfolding v5_will_body_def [abs_def] v5_will_parser_def [abs_def] by (intro reads_intros)

lemma reads_v5_connect: "reads v5_connect_body v5_connect_parser"
  unfolding v5_connect_body_def [abs_def] v5_connect_parser_def [abs_def] v5_connect_tail_def
  by (intro reads_intros)

definition will_props :: "properties \<Rightarrow> bool" where
  "will_props ps \<longleftrightarrow> validate_for_will ps = Ok ()"

definition connect_props :: "properties \<Rightarrow> bool" where
  "connect_props ps \<longleftrightarrow> validate_for_connect ps = Ok ()"

definition v5_will_ok :: "v5_will \<Rightarrow> bool" where
  "v5_will_ok w \<longleftrightarrow>
     will_props (v5w_properties w) \<and> properties_ok False (v5w_properties w) \<and>
     mqtt_string (v5w_topic w) \<and> topic_name_ok (v5w_topic w) \<and> length (v5w_payload w) \<le> 65535"

definition v5_will_bytes :: "v5_will \<Rightarrow> bytes" where
  "v5_will_bytes w =
     properties_bytes (v5w_properties w) @ binary_bytes (v5w_topic w) @ binary_bytes (v5w_payload w)"

definition v5_will_bits :: "v5_will option \<Rightarrow> (qos \<times> bool) option" where
  "v5_will_bits = map_option (\<lambda>w. (v5w_qos w, v5w_retain w))"

lemma v5_will_bits_simps [simp]:
  "v5_will_bits None = None" "v5_will_bits (Some w) = Some (v5w_qos w, v5w_retain w)"
  "v5_will_bits will = None \<longleftrightarrow> will = None"
  by (simp_all add: v5_will_bits_def)

lemma v5_connect_flags_eq:
  "v5_connect_flags c =
     connect_flag_byte (v5c_clean_start c) (v5_will_bits (v5c_will c))
       (v5c_password c \<noteq> None) (v5c_username c \<noteq> None)"
  by (cases "v5c_will c")
    (simp_all add: v5_connect_flags_def connect_flag_byte_def Let_def or.assoc)

lemma v5_connect_flags_iff:
  "f AND 0x01 = 0 \<and> (f AND 0x02 \<noteq> 0) = v5c_clean_start c \<and>
   will_flags f (v5_will_bits (v5c_will c)) \<and> (v5c_will c = None \<longrightarrow> f AND 0x38 = 0) \<and>
   (f AND 0x80 \<noteq> 0) = (v5c_username c \<noteq> None) \<and> (f AND 0x40 \<noteq> 0) = (v5c_password c \<noteq> None) \<longleftrightarrow>
   f = v5_connect_flags c"
  using connect_flags_iff [of f "v5c_clean_start c" "v5_will_bits (v5c_will c)"]
  by (simp add: v5_connect_flags_eq)

text \<open>What the encoder accepts and what the decoder accepts.\<close>

definition v5_connect_ok :: "v5_connect \<Rightarrow> bool" where
  "v5_connect_ok c \<longleftrightarrow>
     connect_props (v5c_properties c) \<and> properties_ok False (v5c_properties c) \<and>
     mqtt_string (v5c_client_id c) \<and> pred_option v5_will_ok (v5c_will c) \<and>
     pred_option mqtt_string (v5c_username c) \<and> pred_option (\<lambda>pw. length pw \<le> 65535) (v5c_password c)"

definition v5_will_payload_ok :: "v5_will \<Rightarrow> bool" where
  "v5_will_payload_ok w \<longleftrightarrow> (list_ex is_utf8_payload (v5w_properties w) \<longrightarrow> utf8_valid (v5w_payload w))"

definition v5_connect_sendable :: "v5_connect \<Rightarrow> bool" where
  "v5_connect_sendable c \<longleftrightarrow> v5_connect_ok c \<and> pred_option v5_will_payload_ok (v5c_will c)"

definition v5_connect_tail_bytes :: "v5_connect \<Rightarrow> bytes" where
  "v5_connect_tail_bytes c =
     opt_bytes v5_will_bytes (v5c_will c) @ opt_bytes binary_bytes (v5c_username c) @
     opt_bytes binary_bytes (v5c_password c)"

definition v5_connect_bytes :: "v5_connect \<Rightarrow> bytes" where
  "v5_connect_bytes c =
     binary_bytes mqtt_name @ [0x05, v5_connect_flags c] @ u16_to_be_bytes (v5c_keep_alive c) @
     properties_bytes (v5c_properties c) @ binary_bytes (v5c_client_id c) @ v5_connect_tail_bytes c"

lemma v5_will_parser_iff:
  "v5_will_parser f s = Ok (will, s') \<longleftrightarrow>
     will_flags f (v5_will_bits will) \<and> pred_option v5_will_ok will \<and> s = opt_bytes v5_will_bytes will @ s'"
proof
  assume "v5_will_parser f s = Ok (will, s')"
  then show "will_flags f (v5_will_bits will) \<and> pred_option v5_will_ok will \<and> s = opt_bytes v5_will_bytes will @ s'"
    by (auto simp: v5_will_parser_def v5_will_ok_def v5_will_bytes_def topic_name_ok_def will_props_def
        rbind_Ok_iff wire_simps split: if_splits simp del: validate_for_iffs)
next
  assume "will_flags f (v5_will_bits will) \<and> pred_option v5_will_ok will \<and> s = opt_bytes v5_will_bytes will @ s'"
  then show "v5_will_parser f s = Ok (will, s')"
    by (cases will; cases "the will")
      (auto simp: v5_will_parser_def v5_will_ok_def v5_will_bytes_def topic_name_ok_def will_props_def
        rbind_Ok_iff simp del: validate_for_iffs)
qed

lemma v5_connect_tail_iff:
  "v5_connect_tail f ka ps cid s = Ok (c, s') \<longleftrightarrow>
     f = v5_connect_flags c \<and> v5c_keep_alive c = ka \<and> v5c_properties c = ps \<and> v5c_client_id c = cid \<and>
     pred_option v5_will_ok (v5c_will c) \<and> pred_option mqtt_string (v5c_username c) \<and>
     pred_option (\<lambda>pw. length pw \<le> 65535) (v5c_password c) \<and> s = v5_connect_tail_bytes c \<and> s' = []"
  (is "?l \<longleftrightarrow> ?r")
proof
  assume ?l
  then show ?r
    unfolding v5_connect_tail_def v5_connect_tail_bytes_def v5_connect_flags_iff [symmetric]
    by (auto simp: rbind_Ok_iff v5_will_parser_iff p_opt_strings p_end_Ok_iff split: if_splits)
next
  assume r: ?r
  obtain cid' cl ka' ps' will us pw where c: "c = \<lparr>v5c_client_id = cid', v5c_clean_start = cl,
      v5c_keep_alive = ka', v5c_properties = ps', v5c_will = will, v5c_username = us, v5c_password = pw\<rparr>"
    by (cases c)
  from r have f: "f AND 0x01 = 0" "(f AND 0x02 \<noteq> 0) = cl" "will_flags f (v5_will_bits will)"
     "will = None \<longrightarrow> f AND 0x38 = 0" "(f AND 0x80 \<noteq> 0) = (us \<noteq> None)" "(f AND 0x40 \<noteq> 0) = (pw \<noteq> None)"
    using v5_connect_flags_iff [of f c] by (simp_all add: c)
  have "v5_will_parser f (opt_bytes v5_will_bytes will @ r) = Ok (will, r)"
    "p_opt (f AND 0x80 \<noteq> 0) (p_with utf8_decode) (opt_bytes binary_bytes us @ r) = Ok (us, r)"
    "p_opt (f AND 0x40 \<noteq> 0) (p_with binary_decode) (opt_bytes binary_bytes pw) = Ok (pw, [])" for r
    using r f by (simp_all add: p_opt_strings v5_will_parser_iff c)
  moreover have "s = opt_bytes v5_will_bytes will @ opt_bytes binary_bytes us @ opt_bytes binary_bytes pw"
    "s' = []" using r by (simp_all add: v5_connect_tail_bytes_def c)
  ultimately show ?l
    using f(1,2,4) r by (cases will) (simp_all add: v5_connect_tail_def c p_end_def del: p_opt_strings)
qed

lemma v5_connect_parser_iff:
  "v5_connect_parser s = Ok (c, s') \<longleftrightarrow> v5_connect_ok c \<and> s = v5_connect_bytes c \<and> s' = []"
proof
  assume "v5_connect_parser s = Ok (c, s')"
  then show "v5_connect_ok c \<and> s = v5_connect_bytes c \<and> s' = []"
    by (auto simp: v5_connect_parser_def v5_connect_ok_def v5_connect_bytes_def connect_props_def
        rbind_Ok_iff wire_simps v5_connect_tail_iff split: if_splits simp del: validate_for_combined_iffs)
next
  assume c: "v5_connect_ok c \<and> s = v5_connect_bytes c \<and> s' = []"
  then have "v5_connect_tail (v5_connect_flags c) (v5c_keep_alive c) (v5c_properties c) (v5c_client_id c)
      (v5_connect_tail_bytes c) = Ok (c, [])"
    by (simp add: v5_connect_tail_iff v5_connect_ok_def)
  with c show "v5_connect_parser s = Ok (c, s')"
    by (simp add: v5_connect_parser_def v5_connect_bytes_def v5_connect_ok_def connect_props_def
        del: validate_for_combined_iffs)
qed

lemma v5_connect_parser_no_panic: "v5_connect_parser s \<noteq> Panic"
  unfolding v5_connect_parser_def v5_connect_tail_def v5_will_parser_def
  by (auto simp: rbind_Panic_iff no_panic split: if_splits)

section \<open>Encoding\<close>

definition v5_connect_valid :: "v5_connect \<Rightarrow> bool" where
  "v5_connect_valid c \<longleftrightarrow>
     connect_props (v5c_properties c) \<and> no_duplicates False (v5c_properties c) \<and>
     pred_option (\<lambda>w. topic_name_ok (v5w_topic w) \<and> will_props (v5w_properties w) \<and>
       no_duplicates False (v5w_properties w) \<and> v5_will_payload_ok w) (v5c_will c)"

lemma v5_connect_validate_iff: "v5_connect_validate c = Ok () \<longleftrightarrow> v5_connect_valid c"
  by (cases "v5c_will c")
    (auto simp: v5_connect_validate_def v5_connect_valid_def will_fails_def topic_name_ok_def
      connect_props_def will_props_def v5_will_payload_ok_def
      simp del: validate_for_iffs validate_for_combined_iffs)

lemma v5_connect_validate_no_panic: "v5_connect_validate c \<noteq> Panic"
  by (simp add: v5_connect_validate_def)

definition v5_will_image :: "v5_will \<Rightarrow> bytes" where
  "v5_will_image w =
     properties_image (v5w_properties w) @ binary_bytes (v5w_topic w) @ binary_bytes (v5w_payload w)"

definition v5_connect_image :: "v5_connect \<Rightarrow> bytes" where
  "v5_connect_image c =
     binary_bytes mqtt_name @ [0x05, v5_connect_flags c] @ u16_to_be_bytes (v5c_keep_alive c) @
     properties_image (v5c_properties c) @ binary_bytes (v5c_client_id c) @
     opt_bytes v5_will_image (v5c_will c) @ opt_bytes binary_bytes (v5c_username c) @
     opt_bytes binary_bytes (v5c_password c)"

definition v5_will_fits :: "v5_will \<Rightarrow> bool" where
  "v5_will_fits w \<longleftrightarrow> properties_fit (v5w_properties w) \<and> 0 \<notin> set (v5w_topic w) \<and>
     length (v5w_topic w) \<le> 65535 \<and> length (v5w_payload w) \<le> 65535"

definition v5_connect_fits :: "v5_connect \<Rightarrow> bool" where
  "v5_connect_fits c \<longleftrightarrow>
     properties_fit (v5c_properties c) \<and> 0 \<notin> set (v5c_client_id c) \<and> length (v5c_client_id c) \<le> 65535 \<and>
     pred_option v5_will_fits (v5c_will c) \<and>
     pred_option (\<lambda>s. 0 \<notin> set s \<and> length s \<le> 65535) (v5c_username c) \<and>
     pred_option (\<lambda>s. length s \<le> 65535) (v5c_password c)"

lemma writes_v5_connect: "writes (v5_connect_put c) (v5_connect_image c) (v5_connect_fits c)"
  unfolding v5_connect_put_def [abs_def]
  by (rule writes_cong, (rule writes_intros)+)
    (simp_all add: v5_connect_image_def v5_will_image_def v5_connect_fits_def v5_will_fits_def
      opt_bytes_def mqtt_name_def split: option.split)

lemma v5_connect_encoded_len_eq:
  "v5_connect_encoded_len c = min (length (v5_connect_image c)) usize_max"
  by (cases "v5c_will c"; cases "v5c_username c"; cases "v5c_password c")
    (simp_all add: v5_connect_encoded_len_def v5_connect_image_def v5_will_image_def mqtt_name_def
      length_properties_image Let_def)

lemma v5_connect_image_fits: "v5_connect_fits c \<Longrightarrow> v5_connect_image c = v5_connect_bytes c"
  by (cases "v5c_will c")
    (simp_all add: v5_connect_fits_def v5_connect_image_def v5_connect_bytes_def v5_will_image_def
      v5_will_bytes_def v5_will_fits_def v5_connect_tail_bytes_def)

definition v5_connect_typed :: "v5_connect \<Rightarrow> bool" where
  "v5_connect_typed c \<longleftrightarrow> utf8_valid (v5c_client_id c) \<and> properties_typed (v5c_properties c) \<and>
     pred_option (\<lambda>w. utf8_valid (v5w_topic w) \<and> properties_typed (v5w_properties w)) (v5c_will c) \<and>
     pred_option utf8_valid (v5c_username c)"

lemma v5_connect_sendable_iff:
  "v5_connect_sendable c \<longleftrightarrow> v5_connect_valid c \<and> v5_connect_fits c \<and> v5_connect_typed c"
  by (cases "v5c_will c"; cases "v5c_username c"; cases "v5c_password c")
    (auto simp: v5_connect_sendable_def v5_connect_ok_def v5_connect_valid_def v5_connect_fits_def
      v5_connect_typed_def v5_will_ok_def v5_will_fits_def properties_ok_iff mqtt_string_def)

section \<open>The packet contract\<close>

interpretation v5_connect: duplex_packet v5_connect_encode v5_connect_decode "\<lambda>_. 0x10 OR 0"
  v5_connect_bytes v5_connect_sendable "\<lambda>c s. v5_connect_ok c \<and> s = v5_connect_bytes c" v5_connect_typed
proof
  fix x buf n
  have e: "v5_connect_encode x buf = rbind (v5_connect_validate x) (\<lambda>_.
      rbind (open_frame (0x10 OR 0) (v5_connect_encoded_len x) buf) (\<lambda>w. rbind (v5_connect_put x w) finish))"
    for buf by (simp add: v5_connect_encode_def)
  note enc = duplex_encoder [of v5_connect_encode, OF e writes_v5_connect v5_connect_encoded_len_eq
      v5_connect_validate_no_panic v5_connect_image_fits]
  note dec = framed_decoder [where dec = v5_connect_decode and t = "0x10" and f = 0,
    OF _ _ reads_v5_connect v5_connect_parser_iff v5_connect_parser_no_panic]
  show "emits (v5_connect_encode x) (frame_wire (0x10 OR 0) (v5_connect_bytes x))"
    if "v5_connect_sendable x" "length (v5_connect_bytes x) \<le> max_remaining"
    using that by (intro enc(1)) (simp_all add: v5_connect_sendable_iff v5_connect_validate_iff)
  show "v5_connect_encode x buf \<noteq> Panic" by (rule enc(2))
  show "v5_connect_sendable x \<and> length (v5_connect_bytes x) \<le> max_remaining"
    if "v5_connect_typed x" "v5_connect_encode x buf = Ok r" for r
    using enc(3) [OF _ that(2)] that(1) by (simp add: v5_connect_sendable_iff v5_connect_validate_iff)
  show "v5_connect_decode buf = Ok (x, n) \<longleftrightarrow>
      (\<exists>s rest. (v5_connect_ok x \<and> s = v5_connect_bytes x) \<and> length s \<le> max_remaining \<and>
        n = length (frame_wire (0x10 OR 0) s) \<and> buf = frame_wire (0x10 OR 0) s @ rest)"
    using dec(1) [of buf x n] by (auto simp: v5_connect_decode_def)
  show "v5_connect_decode buf \<noteq> Panic"
    using dec(2) [of buf] by (simp add: v5_connect_decode_def)
qed

end
