(* ===== verification/V5Acks.thy ===== *)
theory V5Acks
  imports V5Frame
begin

unbundle bit_operations_syntax

text \<open>
  The acknowledgements of MQTT 5, PUBACK, PUBREC, PUBREL and PUBCOMP (\<^verbatim>\<open>src/v5/puback.rs\<close>,
  \<^verbatim>\<open>pubrec.rs\<close>, \<^verbatim>\<open>pubrel.rs\<close>, \<^verbatim>\<open>pubcomp.rs\<close>) over their helpers in
  \<^verbatim>\<open>src/v5/ack_helper.rs\<close>, and PINGREQ and PINGRESP. The decoders also accept the forms that
  leave out the properties, or the reason code and the properties.
\<close>

section \<open>Packet identifier, reason code and properties\<close>

definition reason_code_packet_encoded_len :: "properties \<Rightarrow> nat" where
  "reason_code_packet_encoded_len properties =
     usize_saturating_add (usize_saturating_add 2 1) (properties_encoded_len properties)"

definition encode_reason_code_packet :: "u8 \<Rightarrow> u8 \<Rightarrow> u16 \<Rightarrow> u8 \<Rightarrow> properties \<Rightarrow> encoder" where
  "encode_reason_code_packet packet_type flags packet_id reason_code properties buf =
     (let remaining_len = reason_code_packet_encoded_len properties in
      rbind (open_frame (packet_type OR flags) remaining_len buf) (\<lambda>w.
      rbind (put_bytes (u16_to_be_bytes packet_id) w) (\<lambda>w.
      rbind (put_u8 reason_code w) (\<lambda>w.
      rbind (put_with (properties_encode properties) w) finish))))"

definition read_packet_id :: "u16 reader" where
  "read_packet_id buf end offset =
     rbind (read_u16 buf end offset) (\<lambda>(packet_id, offset).
     if packet_id = 0 then Err MalformedPacket else Ok (packet_id, offset))"

text \<open>What \<^verbatim>\<open>decode_reason_code_packet\<close> does after the fixed header.\<close>

definition reason_code_body :: "u8 \<Rightarrow> nat \<Rightarrow> (u16 \<times> u8 \<times> properties) reader" where
  "reason_code_body default_reason_code remaining_len buf end offset =
     rbind (read_packet_id buf end offset) (\<lambda>(packet_id, offset).
     rbind (if remaining_len = 2 then Ok ((default_reason_code, []), offset)
            else
              rbind (read_u8 buf end offset) (\<lambda>(reason_code, offset).
              rbind (if offset < end then read_sub properties_decode buf end offset
                     else Ok ([], offset)) (\<lambda>(properties, offset).
              Ok ((reason_code, properties), offset)))) (\<lambda>((reason_code, properties), offset).
     read_end (packet_id, reason_code, properties) buf end offset))"

definition decode_reason_code_packet ::
    "u8 \<Rightarrow> u8 \<Rightarrow> u8 \<Rightarrow> (u16 \<times> u8 \<times> properties) decoder" where
  "decode_reason_code_packet packet_type flags default_reason_code buf =
     rbind (decode_fixed_header buf packet_type flags) (\<lambda>(remaining_len, header_len, end).
     reason_code_body default_reason_code remaining_len buf end header_len)"

definition p_packet_id :: "u16 parser" where
  "p_packet_id s =
     rbind (p_u16 s) (\<lambda>(packet_id, s). if packet_id = 0 then Err MalformedPacket else Ok (packet_id, s))"

lemma reads_packet_id [reads_intros]: "reads read_packet_id p_packet_id"
  unfolding read_packet_id_def [abs_def] p_packet_id_def [abs_def] by (intro reads_intros)

lemma p_packet_id_iff [wire_simps]:
  "p_packet_id s = Ok (i, s') \<longleftrightarrow> i \<noteq> 0 \<and> s = u16_to_be_bytes i @ s'"
  by (auto simp: p_packet_id_def rbind_Ok_iff wire_simps split: if_splits)

lemma p_packet_id_no_panic [no_panic]: "p_packet_id s \<noteq> Panic"
  by (auto simp: p_packet_id_def rbind_Panic_iff no_panic)

definition reason_code_parser :: "u8 \<Rightarrow> nat \<Rightarrow> (u16 \<times> u8 \<times> properties) parser" where
  "reason_code_parser default_reason_code remaining_len s =
     rbind (p_packet_id s) (\<lambda>(packet_id, s).
     rbind (if remaining_len = 2 then Ok ((default_reason_code, []), s)
            else
              rbind (p_u8 s) (\<lambda>(reason_code, s).
              rbind (if s \<noteq> [] then p_sub properties_decode s else Ok ([], s)) (\<lambda>(properties, s).
              Ok ((reason_code, properties), s)))) (\<lambda>((reason_code, properties), s).
     p_end (packet_id, reason_code, properties) s))"

text \<open>The three forms of the body.\<close>

definition reason_code_forms :: "u8 \<Rightarrow> u16 \<Rightarrow> u8 \<Rightarrow> properties \<Rightarrow> bytes \<Rightarrow> bool" where
  "reason_code_forms d i c ps s \<longleftrightarrow>
     s = u16_to_be_bytes i @ [c] @ properties_bytes ps \<or>
     ps = [] \<and> (s = u16_to_be_bytes i @ [c] \<or> c = d \<and> s = u16_to_be_bytes i)"

lemma properties_bytes_not_Nil [simp]: "properties_bytes ps \<noteq> []"
  by (simp add: properties_bytes_def vbi_wire_def vbi_bytes.simps)

lemma properties_ok_Nil [simp]: "properties_ok allow []"
  by (simp add: properties_ok_def no_duplicates_def properties_body_def)

lemma reads_bind_pair:
  assumes "reads rd p" "\<And>a b. reads (f a b) (g a b)"
  shows "reads (\<lambda>buf end offset. rbind (rd buf end offset) (\<lambda>((a, b), offset). f a b buf end offset))
    (\<lambda>s. rbind (p s) (\<lambda>((a, b), s). g a b s))"
proof -
  have "(\<lambda>((a, b), offset). f a b buf end offset) =
      (\<lambda>(x, offset). (case x of (a, b) \<Rightarrow> f a b) buf end offset)" for buf "end"
    by (auto simp: fun_eq_iff split: prod.split)
  moreover have "(\<lambda>((a, b), s). g a b s) = (\<lambda>(x, s). (case x of (a, b) \<Rightarrow> g a b) s)"
    by (auto simp: fun_eq_iff split: prod.split)
  moreover have "reads (case x of (a, b) \<Rightarrow> f a b) (case x of (a, b) \<Rightarrow> g a b)" for x
    using assms(2) by (cases x) simp
  ultimately show ?thesis using reads_bind [OF assms(1), of "\<lambda>(a, b). f a b" "\<lambda>(a, b). g a b"] by simp
qed

lemma reads_reason_code:
  "reads (\<lambda>buf end offset. reason_code_body d (end - offset) buf end offset)
     (\<lambda>s. reason_code_parser d (length s) s)"
proof -
  have "reads (reason_code_body d n) (reason_code_parser d n)" for n
    unfolding reason_code_body_def [abs_def] reason_code_parser_def [abs_def]
    by (rule reads_bind [OF reads_packet_id], rule reads_bind_pair) (intro reads_intros)+
  then show ?thesis by (rule reads_len)
qed

lemma reason_code_parser_iff:
  "reason_code_parser d (length s) s = Ok ((i, c, ps), s') \<longleftrightarrow>
     (i \<noteq> 0 \<and> properties_ok False ps \<and> reason_code_forms d i c ps s) \<and> s' = []"
proof
  assume "reason_code_parser d (length s) s = Ok ((i, c, ps), s')"
  then show "(i \<noteq> 0 \<and> properties_ok False ps \<and> reason_code_forms d i c ps s) \<and> s' = []"
    by (auto simp: reason_code_parser_def reason_code_forms_def rbind_Ok_iff wire_simps split: if_splits)
next
  assume "(i \<noteq> 0 \<and> properties_ok False ps \<and> reason_code_forms d i c ps s) \<and> s' = []"
  then show "reason_code_parser d (length s) s = Ok ((i, c, ps), s')"
    by (auto simp: reason_code_parser_def reason_code_forms_def p_packet_id_def p_end_def)
qed

lemma reason_code_parser_no_panic: "reason_code_parser d n s \<noteq> Panic"
  by (auto simp: reason_code_parser_def rbind_Panic_iff no_panic split: if_splits)

subsection \<open>The contract of the four acknowledgements\<close>

definition ack_sendable :: "('r \<Rightarrow> bool) \<Rightarrow> u16 \<Rightarrow> 'r \<Rightarrow> properties \<Rightarrow> bool" where
  "ack_sendable codes i c ps \<longleftrightarrow>
     i \<noteq> 0 \<and> codes c \<and> carries_only {0x1F, 0x26} ps \<and> no_duplicates False ps \<and> properties_fit ps"

definition ack_body :: "u16 \<Rightarrow> u8 \<Rightarrow> properties \<Rightarrow> bytes" where
  "ack_body i c ps = u16_to_be_bytes i @ [c] @ properties_bytes ps"

definition ack_accepts :: "u16 \<Rightarrow> u8 \<Rightarrow> properties \<Rightarrow> bytes \<Rightarrow> bool" where
  "ack_accepts i c ps s \<longleftrightarrow>
     i \<noteq> 0 \<and> carries_only {0x1F, 0x26} ps \<and> properties_ok False ps \<and> reason_code_forms 0 i c ps s"

lemma duplex_reason_code:
  fixes from_byte :: "u8 \<Rightarrow> 'r option" and as_byte :: "'r \<Rightarrow> u8"
  assumes enc: "\<And>x buf. enc x buf =
      rbind (validate x) (\<lambda>_. encode_reason_code_packet t f (pid x) (as_byte (rc x)) (ps x) buf)"
    and val: "\<And>x. validate x = Ok () \<longleftrightarrow> pid x \<noteq> 0 \<and> codes (rc x) \<and>
      carries_only {0x1F, 0x26} (ps x) \<and> no_duplicates False (ps x)" "\<And>x. validate x \<noteq> Panic"
    and dec: "\<And>buf. dec buf = rbind (decode_reason_code_packet t f 0 buf) (\<lambda>((i, c, q), n).
      rbind (check q) (\<lambda>_. rbind (ok_or MalformedPacket (from_byte c)) (\<lambda>r. Ok (mk i r q, n))))"
    and check: "\<And>q. check q = Ok () \<longleftrightarrow> carries_only {0x1F, 0x26} q" "\<And>q. check q \<noteq> Panic"
    and enum: "byte_enum from_byte as_byte"
    and mk: "\<And>x. mk (pid x) (rc x) (ps x) = x" "\<And>i r q. pid (mk i r q) = i \<and> rc (mk i r q) = r \<and> ps (mk i r q) = q"
    and byte: "(t OR f) AND 0xF0 = t" "(t OR f) AND 0x0F = f"
  shows "duplex_packet enc dec (\<lambda>_. t OR f) (\<lambda>x. ack_body (pid x) (as_byte (rc x)) (ps x))
    (\<lambda>x. ack_sendable codes (pid x) (rc x) (ps x))
    (\<lambda>x. ack_accepts (pid x) (as_byte (rc x)) (ps x)) (\<lambda>x. properties_typed (ps x))"
proof
  fix x buf n
  let ?put = "\<lambda>w. rbind (put_bytes (u16_to_be_bytes (pid x)) w) (\<lambda>w.
      rbind (put_u8 (as_byte (rc x)) w) (put_with (properties_encode (ps x))))"
  have e: "enc x buf = rbind (validate x) (\<lambda>_. rbind (open_frame (t OR f)
      (reason_code_packet_encoded_len (ps x)) buf) (\<lambda>w. rbind (?put w) finish))" for buf
    by (simp add: enc encode_reason_code_packet_def rbind_assoc Let_def)
  have w: "writes ?put (u16_to_be_bytes (pid x) @ [as_byte (rc x)] @ properties_image (ps x)) (properties_fit (ps x))"
    by (rule writes_cong, (rule writes_intros)+) simp_all
  have n: "reason_code_packet_encoded_len (ps x) =
      min (length (u16_to_be_bytes (pid x) @ [as_byte (rc x)] @ properties_image (ps x))) usize_max"
    by (simp add: reason_code_packet_encoded_len_def length_properties_image)
  note enc' = duplex_encoder [of enc x, OF e w n val(2), of "ack_body (pid x) (as_byte (rc x)) (ps x)"]
  show "emits (enc x) (frame_wire (t OR f) (ack_body (pid x) (as_byte (rc x)) (ps x)))"
    if "ack_sendable codes (pid x) (rc x) (ps x)" "length (ack_body (pid x) (as_byte (rc x)) (ps x)) \<le> max_remaining"
    by (rule enc'(1)) (use that val(1) in \<open>auto simp: ack_sendable_def ack_body_def\<close>)
  show "enc x buf \<noteq> Panic" by (rule enc'(2)) (simp add: ack_body_def)
  show "ack_sendable codes (pid x) (rc x) (ps x) \<and> length (ack_body (pid x) (as_byte (rc x)) (ps x)) \<le> max_remaining"
    if "enc x buf = Ok r" for r
    using enc'(3) [OF _ that] val(1) [of x] by (auto simp: ack_sendable_def ack_body_def)
  let ?dec = "decode_reason_code_packet t f 0"
  have d: "?dec (b # r) = (if b AND 0xF0 \<noteq> t then Err InvalidPacketType
       else if b AND 0x0F \<noteq> f then Err InvalidPacketFlags
       else rbind (read_frame_header (b # r)) (\<lambda>(offset, end).
         reason_code_body 0 (end - offset) (b # r) end offset))" for b r
    by (cases "read_frame_header (b # r)") (auto simp: decode_reason_code_packet_def decode_fixed_header_Cons)
  have d0: "?dec [] = Err InsufficientData" by (simp add: decode_reason_code_packet_def)
  have iff: "reason_code_parser 0 (length s) s = Ok (y, s') \<longleftrightarrow>
      (case y of (i, c, q) \<Rightarrow> i \<noteq> 0 \<and> properties_ok False q \<and> reason_code_forms 0 i c q s) \<and> s' = []" for s y s'
    by (cases y) (simp add: reason_code_parser_iff)
  note dec' = duplex_decoder [OF d0 d reads_reason_code iff reason_code_parser_no_panic byte]
  show "dec buf = Ok (x, n) \<longleftrightarrow>
      (\<exists>s rest. ack_accepts (pid x) (as_byte (rc x)) (ps x) s \<and> length s \<le> max_remaining \<and>
        n = length (frame_wire (t OR f) s) \<and> buf = frame_wire (t OR f) s @ rest)"
  proof -
    have "from_byte c = Some r \<longleftrightarrow> c = as_byte r" for c r by (rule byte_enum.from_u8_iff [OF enum])
    moreover have "mk i r q = x \<longleftrightarrow> i = pid x \<and> r = rc x \<and> q = ps x" for i r q
      using mk(1) [of x] mk(2) [of i r q] by auto
    ultimately have "dec buf = Ok (x, n) \<longleftrightarrow> ?dec buf = Ok ((pid x, as_byte (rc x), ps x), n) \<and>
        carries_only {0x1F, 0x26} (ps x)"
      by (auto simp: dec rbind_Ok_iff check)
    then show ?thesis using dec'(1) [of buf "(pid x, as_byte (rc x), ps x)" n] by (auto simp: ack_accepts_def)
  qed
  show "dec buf \<noteq> Panic" using dec'(2) check(2) by (auto simp: dec rbind_Panic_iff)
qed

section \<open>PUBACK\<close>

datatype puback_reason_code =
    PaSuccess
  | PaNoMatchingSubscribers
  | PaUnspecifiedError
  | PaImplementationSpecificError
  | PaNotAuthorized
  | PaTopicNameInvalid
  | PaPacketIdentifierInUse
  | PaQuotaExceeded
  | PaPayloadFormatInvalid

definition puback_reason_from_u8 :: "u8 \<Rightarrow> puback_reason_code option" where
  "puback_reason_from_u8 value =
     (if value = 0x00 then Some PaSuccess
      else if value = 0x10 then Some PaNoMatchingSubscribers
      else if value = 0x80 then Some PaUnspecifiedError
      else if value = 0x83 then Some PaImplementationSpecificError
      else if value = 0x87 then Some PaNotAuthorized
      else if value = 0x90 then Some PaTopicNameInvalid
      else if value = 0x91 then Some PaPacketIdentifierInUse
      else if value = 0x97 then Some PaQuotaExceeded
      else if value = 0x99 then Some PaPayloadFormatInvalid
      else None)"

fun puback_reason_as_u8 :: "puback_reason_code \<Rightarrow> u8" where
  "puback_reason_as_u8 PaSuccess = 0x00"
| "puback_reason_as_u8 PaNoMatchingSubscribers = 0x10"
| "puback_reason_as_u8 PaUnspecifiedError = 0x80"
| "puback_reason_as_u8 PaImplementationSpecificError = 0x83"
| "puback_reason_as_u8 PaNotAuthorized = 0x87"
| "puback_reason_as_u8 PaTopicNameInvalid = 0x90"
| "puback_reason_as_u8 PaPacketIdentifierInUse = 0x91"
| "puback_reason_as_u8 PaQuotaExceeded = 0x97"
| "puback_reason_as_u8 PaPayloadFormatInvalid = 0x99"

interpretation puback_reason: byte_enum puback_reason_from_u8 puback_reason_as_u8
proof unfold_locales
  show "puback_reason_from_u8 (puback_reason_as_u8 c) = Some c" for c
    by (cases c) (simp_all add: puback_reason_from_u8_def)
  show "puback_reason_from_u8 v = Some c \<Longrightarrow> puback_reason_as_u8 c = v" for v c
    unfolding puback_reason_from_u8_def by (auto split: if_splits)
qed

record v5_puback =
  v5_puback_packet_id :: u16
  v5_puback_reason_code :: puback_reason_code
  v5_puback_properties :: properties

definition v5_puback_encoded_len :: "v5_puback \<Rightarrow> nat" where
  "v5_puback_encoded_len p = reason_code_packet_encoded_len (v5_puback_properties p)"

definition v5_puback_validate :: "v5_puback \<Rightarrow> (unit, encode_error) result" where
  "v5_puback_validate p =
     (if v5_puback_packet_id p = 0 then Err (InvalidField ZeroPacketId)
      else if v5_puback_reason_code p = PaNoMatchingSubscribers then Err (InvalidField InvalidReasonCode)
      else if is_err (validate_for_puback (v5_puback_properties p))
      then Err (InvalidField PropertyValidationFailed)
      else if is_err (validate_duplicate_identifiers False (v5_puback_properties p))
      then Err (InvalidField DuplicatePropertyIdentifier)
      else Ok ())"

definition v5_puback_encode :: "v5_puback \<Rightarrow> encoder" where
  "v5_puback_encode p buf =
     rbind (v5_puback_validate p) (\<lambda>_.
     encode_reason_code_packet 0x40 0 (v5_puback_packet_id p)
       (puback_reason_as_u8 (v5_puback_reason_code p)) (v5_puback_properties p) buf)"

definition v5_puback_decode :: "v5_puback decoder" where
  "v5_puback_decode buf =
     rbind (decode_reason_code_packet 0x40 0 (puback_reason_as_u8 PaSuccess) buf)
       (\<lambda>((packet_id, reason_code, properties), consumed).
     rbind (validate_for_puback properties) (\<lambda>_.
     rbind (ok_or MalformedPacket (puback_reason_from_u8 reason_code)) (\<lambda>reason_code.
     Ok (\<lparr>v5_puback_packet_id = packet_id, v5_puback_reason_code = reason_code,
          v5_puback_properties = properties\<rparr>, consumed))))"

interpretation v5_puback: duplex_packet v5_puback_encode v5_puback_decode "\<lambda>_. 0x40 OR 0"
  "\<lambda>p. ack_body (v5_puback_packet_id p) (puback_reason_as_u8 (v5_puback_reason_code p)) (v5_puback_properties p)"
  "\<lambda>p. ack_sendable (\<lambda>c. c \<noteq> PaNoMatchingSubscribers) (v5_puback_packet_id p) (v5_puback_reason_code p)
     (v5_puback_properties p)"
  "\<lambda>p. ack_accepts (v5_puback_packet_id p) (puback_reason_as_u8 (v5_puback_reason_code p))
     (v5_puback_properties p)"
  "\<lambda>p. properties_typed (v5_puback_properties p)"
  by (rule duplex_reason_code [where validate = v5_puback_validate and check = validate_for_puback
      and from_byte = puback_reason_from_u8 and
      mk = "\<lambda>i c ps. \<lparr>v5_puback_packet_id = i, v5_puback_reason_code = c, v5_puback_properties = ps\<rparr>"])
    (simp_all add: v5_puback_encode_def v5_puback_decode_def v5_puback_validate_def puback_reason.byte_enum_axioms)

section \<open>PUBREC\<close>

datatype pubrec_reason_code =
    PrSuccess
  | PrNoMatchingSubscribers
  | PrUnspecifiedError
  | PrImplementationSpecificError
  | PrNotAuthorized
  | PrTopicNameInvalid
  | PrPacketIdentifierInUse
  | PrQuotaExceeded
  | PrPayloadFormatInvalid

definition pubrec_reason_from_u8 :: "u8 \<Rightarrow> pubrec_reason_code option" where
  "pubrec_reason_from_u8 value =
     (if value = 0x00 then Some PrSuccess
      else if value = 0x10 then Some PrNoMatchingSubscribers
      else if value = 0x80 then Some PrUnspecifiedError
      else if value = 0x83 then Some PrImplementationSpecificError
      else if value = 0x87 then Some PrNotAuthorized
      else if value = 0x90 then Some PrTopicNameInvalid
      else if value = 0x91 then Some PrPacketIdentifierInUse
      else if value = 0x97 then Some PrQuotaExceeded
      else if value = 0x99 then Some PrPayloadFormatInvalid
      else None)"

fun pubrec_reason_as_u8 :: "pubrec_reason_code \<Rightarrow> u8" where
  "pubrec_reason_as_u8 PrSuccess = 0x00"
| "pubrec_reason_as_u8 PrNoMatchingSubscribers = 0x10"
| "pubrec_reason_as_u8 PrUnspecifiedError = 0x80"
| "pubrec_reason_as_u8 PrImplementationSpecificError = 0x83"
| "pubrec_reason_as_u8 PrNotAuthorized = 0x87"
| "pubrec_reason_as_u8 PrTopicNameInvalid = 0x90"
| "pubrec_reason_as_u8 PrPacketIdentifierInUse = 0x91"
| "pubrec_reason_as_u8 PrQuotaExceeded = 0x97"
| "pubrec_reason_as_u8 PrPayloadFormatInvalid = 0x99"

interpretation pubrec_reason: byte_enum pubrec_reason_from_u8 pubrec_reason_as_u8
proof unfold_locales
  show "pubrec_reason_from_u8 (pubrec_reason_as_u8 c) = Some c" for c
    by (cases c) (simp_all add: pubrec_reason_from_u8_def)
  show "pubrec_reason_from_u8 v = Some c \<Longrightarrow> pubrec_reason_as_u8 c = v" for v c
    unfolding pubrec_reason_from_u8_def by (auto split: if_splits)
qed

record v5_pubrec =
  v5_pubrec_packet_id :: u16
  v5_pubrec_reason_code :: pubrec_reason_code
  v5_pubrec_properties :: properties

definition v5_pubrec_encoded_len :: "v5_pubrec \<Rightarrow> nat" where
  "v5_pubrec_encoded_len p = reason_code_packet_encoded_len (v5_pubrec_properties p)"

definition v5_pubrec_validate :: "v5_pubrec \<Rightarrow> (unit, encode_error) result" where
  "v5_pubrec_validate p =
     (if v5_pubrec_packet_id p = 0 then Err (InvalidField ZeroPacketId)
      else if v5_pubrec_reason_code p = PrNoMatchingSubscribers then Err (InvalidField InvalidReasonCode)
      else if is_err (validate_for_pubrec (v5_pubrec_properties p))
      then Err (InvalidField PropertyValidationFailed)
      else if is_err (validate_duplicate_identifiers False (v5_pubrec_properties p))
      then Err (InvalidField DuplicatePropertyIdentifier)
      else Ok ())"

definition v5_pubrec_encode :: "v5_pubrec \<Rightarrow> encoder" where
  "v5_pubrec_encode p buf =
     rbind (v5_pubrec_validate p) (\<lambda>_.
     encode_reason_code_packet 0x50 0 (v5_pubrec_packet_id p)
       (pubrec_reason_as_u8 (v5_pubrec_reason_code p)) (v5_pubrec_properties p) buf)"

definition v5_pubrec_decode :: "v5_pubrec decoder" where
  "v5_pubrec_decode buf =
     rbind (decode_reason_code_packet 0x50 0 (pubrec_reason_as_u8 PrSuccess) buf)
       (\<lambda>((packet_id, reason_code, properties), consumed).
     rbind (validate_for_pubrec properties) (\<lambda>_.
     rbind (ok_or MalformedPacket (pubrec_reason_from_u8 reason_code)) (\<lambda>reason_code.
     Ok (\<lparr>v5_pubrec_packet_id = packet_id, v5_pubrec_reason_code = reason_code,
          v5_pubrec_properties = properties\<rparr>, consumed))))"

interpretation v5_pubrec: duplex_packet v5_pubrec_encode v5_pubrec_decode "\<lambda>_. 0x50 OR 0"
  "\<lambda>p. ack_body (v5_pubrec_packet_id p) (pubrec_reason_as_u8 (v5_pubrec_reason_code p)) (v5_pubrec_properties p)"
  "\<lambda>p. ack_sendable (\<lambda>c. c \<noteq> PrNoMatchingSubscribers) (v5_pubrec_packet_id p) (v5_pubrec_reason_code p)
     (v5_pubrec_properties p)"
  "\<lambda>p. ack_accepts (v5_pubrec_packet_id p) (pubrec_reason_as_u8 (v5_pubrec_reason_code p))
     (v5_pubrec_properties p)"
  "\<lambda>p. properties_typed (v5_pubrec_properties p)"
  by (rule duplex_reason_code [where validate = v5_pubrec_validate and check = validate_for_pubrec
      and from_byte = pubrec_reason_from_u8 and
      mk = "\<lambda>i c ps. \<lparr>v5_pubrec_packet_id = i, v5_pubrec_reason_code = c, v5_pubrec_properties = ps\<rparr>"])
    (simp_all add: v5_pubrec_encode_def v5_pubrec_decode_def v5_pubrec_validate_def pubrec_reason.byte_enum_axioms)

section \<open>PUBREL\<close>

datatype pubrel_reason_code =
    PlSuccess
  | PlPacketIdentifierNotFound

definition pubrel_reason_from_u8 :: "u8 \<Rightarrow> pubrel_reason_code option" where
  "pubrel_reason_from_u8 value =
     (if value = 0x00 then Some PlSuccess
      else if value = 0x92 then Some PlPacketIdentifierNotFound
      else None)"

fun pubrel_reason_as_u8 :: "pubrel_reason_code \<Rightarrow> u8" where
  "pubrel_reason_as_u8 PlSuccess = 0x00"
| "pubrel_reason_as_u8 PlPacketIdentifierNotFound = 0x92"

interpretation pubrel_reason: byte_enum pubrel_reason_from_u8 pubrel_reason_as_u8
proof unfold_locales
  show "pubrel_reason_from_u8 (pubrel_reason_as_u8 c) = Some c" for c
    by (cases c) (simp_all add: pubrel_reason_from_u8_def)
  show "pubrel_reason_from_u8 v = Some c \<Longrightarrow> pubrel_reason_as_u8 c = v" for v c
    unfolding pubrel_reason_from_u8_def by (auto split: if_splits)
qed

record v5_pubrel =
  v5_pubrel_packet_id :: u16
  v5_pubrel_reason_code :: pubrel_reason_code
  v5_pubrel_properties :: properties

definition v5_pubrel_encoded_len :: "v5_pubrel \<Rightarrow> nat" where
  "v5_pubrel_encoded_len p = reason_code_packet_encoded_len (v5_pubrel_properties p)"

definition v5_pubrel_validate :: "v5_pubrel \<Rightarrow> (unit, encode_error) result" where
  "v5_pubrel_validate p =
     (if v5_pubrel_packet_id p = 0 then Err (InvalidField ZeroPacketId)
      else if is_err (validate_for_pubrel (v5_pubrel_properties p))
      then Err (InvalidField PropertyValidationFailed)
      else if is_err (validate_duplicate_identifiers False (v5_pubrel_properties p))
      then Err (InvalidField DuplicatePropertyIdentifier)
      else Ok ())"

definition v5_pubrel_encode :: "v5_pubrel \<Rightarrow> encoder" where
  "v5_pubrel_encode p buf =
     rbind (v5_pubrel_validate p) (\<lambda>_.
     encode_reason_code_packet 0x60 0x02 (v5_pubrel_packet_id p)
       (pubrel_reason_as_u8 (v5_pubrel_reason_code p)) (v5_pubrel_properties p) buf)"

definition v5_pubrel_decode :: "v5_pubrel decoder" where
  "v5_pubrel_decode buf =
     rbind (decode_reason_code_packet 0x60 0x02 (pubrel_reason_as_u8 PlSuccess) buf)
       (\<lambda>((packet_id, reason_code, properties), consumed).
     rbind (validate_for_pubrel properties) (\<lambda>_.
     rbind (ok_or MalformedPacket (pubrel_reason_from_u8 reason_code)) (\<lambda>reason_code.
     Ok (\<lparr>v5_pubrel_packet_id = packet_id, v5_pubrel_reason_code = reason_code,
          v5_pubrel_properties = properties\<rparr>, consumed))))"

interpretation v5_pubrel: duplex_packet v5_pubrel_encode v5_pubrel_decode "\<lambda>_. 0x60 OR 0x02"
  "\<lambda>p. ack_body (v5_pubrel_packet_id p) (pubrel_reason_as_u8 (v5_pubrel_reason_code p)) (v5_pubrel_properties p)"
  "\<lambda>p. ack_sendable (\<lambda>_. True) (v5_pubrel_packet_id p) (v5_pubrel_reason_code p)
     (v5_pubrel_properties p)"
  "\<lambda>p. ack_accepts (v5_pubrel_packet_id p) (pubrel_reason_as_u8 (v5_pubrel_reason_code p))
     (v5_pubrel_properties p)"
  "\<lambda>p. properties_typed (v5_pubrel_properties p)"
  by (rule duplex_reason_code [where validate = v5_pubrel_validate and check = validate_for_pubrel
      and from_byte = pubrel_reason_from_u8 and
      mk = "\<lambda>i c ps. \<lparr>v5_pubrel_packet_id = i, v5_pubrel_reason_code = c, v5_pubrel_properties = ps\<rparr>"])
    (simp_all add: v5_pubrel_encode_def v5_pubrel_decode_def v5_pubrel_validate_def pubrel_reason.byte_enum_axioms)

section \<open>PUBCOMP\<close>

datatype pubcomp_reason_code =
    PcSuccess
  | PcPacketIdentifierNotFound

definition pubcomp_reason_from_u8 :: "u8 \<Rightarrow> pubcomp_reason_code option" where
  "pubcomp_reason_from_u8 value =
     (if value = 0x00 then Some PcSuccess
      else if value = 0x92 then Some PcPacketIdentifierNotFound
      else None)"

fun pubcomp_reason_as_u8 :: "pubcomp_reason_code \<Rightarrow> u8" where
  "pubcomp_reason_as_u8 PcSuccess = 0x00"
| "pubcomp_reason_as_u8 PcPacketIdentifierNotFound = 0x92"

interpretation pubcomp_reason: byte_enum pubcomp_reason_from_u8 pubcomp_reason_as_u8
proof unfold_locales
  show "pubcomp_reason_from_u8 (pubcomp_reason_as_u8 c) = Some c" for c
    by (cases c) (simp_all add: pubcomp_reason_from_u8_def)
  show "pubcomp_reason_from_u8 v = Some c \<Longrightarrow> pubcomp_reason_as_u8 c = v" for v c
    unfolding pubcomp_reason_from_u8_def by (auto split: if_splits)
qed

record v5_pubcomp =
  v5_pubcomp_packet_id :: u16
  v5_pubcomp_reason_code :: pubcomp_reason_code
  v5_pubcomp_properties :: properties

definition v5_pubcomp_encoded_len :: "v5_pubcomp \<Rightarrow> nat" where
  "v5_pubcomp_encoded_len p = reason_code_packet_encoded_len (v5_pubcomp_properties p)"

definition v5_pubcomp_validate :: "v5_pubcomp \<Rightarrow> (unit, encode_error) result" where
  "v5_pubcomp_validate p =
     (if v5_pubcomp_packet_id p = 0 then Err (InvalidField ZeroPacketId)
      else if is_err (validate_for_pubcomp (v5_pubcomp_properties p))
      then Err (InvalidField PropertyValidationFailed)
      else if is_err (validate_duplicate_identifiers False (v5_pubcomp_properties p))
      then Err (InvalidField DuplicatePropertyIdentifier)
      else Ok ())"

definition v5_pubcomp_encode :: "v5_pubcomp \<Rightarrow> encoder" where
  "v5_pubcomp_encode p buf =
     rbind (v5_pubcomp_validate p) (\<lambda>_.
     encode_reason_code_packet 0x70 0 (v5_pubcomp_packet_id p)
       (pubcomp_reason_as_u8 (v5_pubcomp_reason_code p)) (v5_pubcomp_properties p) buf)"

definition v5_pubcomp_decode :: "v5_pubcomp decoder" where
  "v5_pubcomp_decode buf =
     rbind (decode_reason_code_packet 0x70 0 (pubcomp_reason_as_u8 PcSuccess) buf)
       (\<lambda>((packet_id, reason_code, properties), consumed).
     rbind (validate_for_pubcomp properties) (\<lambda>_.
     rbind (ok_or MalformedPacket (pubcomp_reason_from_u8 reason_code)) (\<lambda>reason_code.
     Ok (\<lparr>v5_pubcomp_packet_id = packet_id, v5_pubcomp_reason_code = reason_code,
          v5_pubcomp_properties = properties\<rparr>, consumed))))"

interpretation v5_pubcomp: duplex_packet v5_pubcomp_encode v5_pubcomp_decode "\<lambda>_. 0x70 OR 0"
  "\<lambda>p. ack_body (v5_pubcomp_packet_id p) (pubcomp_reason_as_u8 (v5_pubcomp_reason_code p)) (v5_pubcomp_properties p)"
  "\<lambda>p. ack_sendable (\<lambda>_. True) (v5_pubcomp_packet_id p) (v5_pubcomp_reason_code p)
     (v5_pubcomp_properties p)"
  "\<lambda>p. ack_accepts (v5_pubcomp_packet_id p) (pubcomp_reason_as_u8 (v5_pubcomp_reason_code p))
     (v5_pubcomp_properties p)"
  "\<lambda>p. properties_typed (v5_pubcomp_properties p)"
  by (rule duplex_reason_code [where validate = v5_pubcomp_validate and check = validate_for_pubcomp
      and from_byte = pubcomp_reason_from_u8 and
      mk = "\<lambda>i c ps. \<lparr>v5_pubcomp_packet_id = i, v5_pubcomp_reason_code = c, v5_pubcomp_properties = ps\<rparr>"])
    (simp_all add: v5_pubcomp_encode_def v5_pubcomp_decode_def v5_pubcomp_validate_def pubcomp_reason.byte_enum_axioms)

section \<open>PINGREQ and PINGRESP\<close>

datatype v5_pingreq = V5PingReq

definition v5_pingreq_encoded_len :: "v5_pingreq \<Rightarrow> nat" where
  "v5_pingreq_encoded_len p = 0"

definition v5_pingreq_encode :: "v5_pingreq \<Rightarrow> encoder" where
  "v5_pingreq_encode p buf = v5_encode_empty 0xC0 0 buf"

definition v5_pingreq_decode :: "v5_pingreq decoder" where
  "v5_pingreq_decode buf = rbind (v5_decode_empty 0xC0 0 buf) (\<lambda>offset. Ok (V5PingReq, offset))"

interpretation v5_pingreq: framed_packet v5_pingreq_encode v5_pingreq_decode "\<lambda>_. 0xC0 OR 0"
  "\<lambda>_. []" "\<lambda>_. True" "\<lambda>_. True"
  by (rule v5_framed_empty [where mk = V5PingReq])
    (auto simp: v5_pingreq_encode_def v5_pingreq_decode_def intro: v5_pingreq.exhaust)

datatype v5_pingresp = V5PingResp

definition v5_pingresp_encoded_len :: "v5_pingresp \<Rightarrow> nat" where
  "v5_pingresp_encoded_len p = 0"

definition v5_pingresp_encode :: "v5_pingresp \<Rightarrow> encoder" where
  "v5_pingresp_encode p buf = v5_encode_empty 0xD0 0 buf"

definition v5_pingresp_decode :: "v5_pingresp decoder" where
  "v5_pingresp_decode buf = rbind (v5_decode_empty 0xD0 0 buf) (\<lambda>offset. Ok (V5PingResp, offset))"

interpretation v5_pingresp: framed_packet v5_pingresp_encode v5_pingresp_decode "\<lambda>_. 0xD0 OR 0"
  "\<lambda>_. []" "\<lambda>_. True" "\<lambda>_. True"
  by (rule v5_framed_empty [where mk = V5PingResp])
    (auto simp: v5_pingresp_encode_def v5_pingresp_decode_def intro: v5_pingresp.exhaust)

end
