(* ===== verification/V5Control.thy ===== *)
theory V5Control
  imports V5Acks
begin

unbundle bit_operations_syntax

text \<open>
  DISCONNECT (\<^verbatim>\<open>src/v5/disconnect.rs\<close>), AUTH (\<^verbatim>\<open>src/v5/auth.rs\<close>) and CONNACK
  (\<^verbatim>\<open>src/v5/connack.rs\<close>) of MQTT 5. A client sends other reason codes in DISCONNECT and AUTH
  than it accepts, and both have short forms that are accepted but not sent.
\<close>

section \<open>Reason code and properties\<close>

definition reason_code_only_packet_encoded_len :: "properties \<Rightarrow> nat" where
  "reason_code_only_packet_encoded_len properties =
     usize_saturating_add 1 (properties_encoded_len properties)"

definition encode_reason_code_only_packet :: "u8 \<Rightarrow> u8 \<Rightarrow> u8 \<Rightarrow> properties \<Rightarrow> encoder" where
  "encode_reason_code_only_packet packet_type flags reason_code properties buf =
     (let remaining_len = reason_code_only_packet_encoded_len properties in
      rbind (open_frame (packet_type OR flags) remaining_len buf) (\<lambda>w.
      rbind (put_u8 reason_code w) (\<lambda>w.
      rbind (put_with (properties_encode properties) w) finish)))"

definition reason_code_only_body :: "nat \<Rightarrow> (u8 \<times> properties) reader" where
  "reason_code_only_body remaining_len buf end offset =
     (if remaining_len = 0 then Ok ((0x00, []), end)
      else
        rbind (read_u8 buf end offset) (\<lambda>(reason_code, offset).
        rbind (if offset = end then Ok ([], offset)
               else read_sub properties_decode buf end offset) (\<lambda>(properties, offset).
        read_end (reason_code, properties) buf end offset)))"

definition decode_reason_code_only_packet :: "u8 \<Rightarrow> u8 \<Rightarrow> (u8 \<times> properties) decoder" where
  "decode_reason_code_only_packet packet_type flags buf =
     rbind (decode_fixed_header buf packet_type flags) (\<lambda>(remaining_len, header_len, end).
     reason_code_only_body remaining_len buf end header_len)"

definition reason_code_only_parser :: "nat \<Rightarrow> (u8 \<times> properties) parser" where
  "reason_code_only_parser remaining_len s =
     (if remaining_len = 0 then Ok ((0x00, []), [])
      else
        rbind (p_u8 s) (\<lambda>(reason_code, s).
        rbind (if s = [] then Ok ([], s) else p_sub properties_decode s) (\<lambda>(properties, s).
        p_end (reason_code, properties) s)))"

definition reason_code_only_forms :: "u8 \<Rightarrow> properties \<Rightarrow> bytes \<Rightarrow> bool" where
  "reason_code_only_forms c ps s \<longleftrightarrow>
     s = [c] @ properties_bytes ps \<or> ps = [] \<and> (s = [c] \<or> c = 0 \<and> s = [])"

definition reason_code_only_bytes :: "u8 \<Rightarrow> properties \<Rightarrow> bytes" where
  "reason_code_only_bytes c ps = [c] @ properties_bytes ps"

lemma reads_reason_code_only:
  "reads (\<lambda>buf end offset. reason_code_only_body (end - offset) buf end offset)
     (\<lambda>s. reason_code_only_parser (length s) s)"
proof -
  have "reads (reason_code_only_body n) (reason_code_only_parser n)" for n
    unfolding reason_code_only_body_def [abs_def] reason_code_only_parser_def [abs_def]
    by (intro reads_intros)
  then show ?thesis by (rule reads_len)
qed

lemma reason_code_only_parser_iff:
  "reason_code_only_parser (length s) s = Ok ((c, ps), s') \<longleftrightarrow>
     (properties_ok False ps \<and> reason_code_only_forms c ps s) \<and> s' = []"
proof
  assume "reason_code_only_parser (length s) s = Ok ((c, ps), s')"
  then show "(properties_ok False ps \<and> reason_code_only_forms c ps s) \<and> s' = []"
    by (auto simp: reason_code_only_parser_def reason_code_only_forms_def rbind_Ok_iff wire_simps
        split: if_splits)
next
  assume "(properties_ok False ps \<and> reason_code_only_forms c ps s) \<and> s' = []"
  then show "reason_code_only_parser (length s) s = Ok ((c, ps), s')"
    by (auto simp: reason_code_only_parser_def reason_code_only_forms_def p_end_def)
qed

lemma reason_code_only_parser_no_panic: "reason_code_only_parser n s \<noteq> Panic"
  by (auto simp: reason_code_only_parser_def rbind_Panic_iff no_panic split: if_splits)

lemma reason_code_only_decoder:
  assumes "(t OR f) AND 0xF0 = t" "(t OR f) AND 0x0F = f"
  shows "decode_reason_code_only_packet t f buf = Ok ((c, ps), n) \<longleftrightarrow>
      (\<exists>s rest. (properties_ok False ps \<and> reason_code_only_forms c ps s) \<and> length s \<le> max_remaining \<and>
        n = length (frame_wire (t OR f) s) \<and> buf = frame_wire (t OR f) s @ rest)"
    "decode_reason_code_only_packet t f buf \<noteq> Panic"
proof -
  let ?dec = "decode_reason_code_only_packet t f"
  have d: "?dec (b # r) = (if b AND 0xF0 \<noteq> t then Err InvalidPacketType
       else if b AND 0x0F \<noteq> f then Err InvalidPacketFlags
       else rbind (read_frame_header (b # r)) (\<lambda>(offset, end).
         reason_code_only_body (end - offset) (b # r) end offset))" for b r
    by (cases "read_frame_header (b # r)")
      (auto simp: decode_reason_code_only_packet_def decode_fixed_header_Cons)
  have d0: "?dec [] = Err InsufficientData" by (simp add: decode_reason_code_only_packet_def)
  have iff: "reason_code_only_parser (length s) s = Ok (y, s') \<longleftrightarrow>
      (case y of (c, q) \<Rightarrow> properties_ok False q \<and> reason_code_only_forms c q s) \<and> s' = []" for s y s'
    by (cases y) (simp add: reason_code_only_parser_iff)
  note dec = duplex_decoder [OF d0 d reads_reason_code_only iff reason_code_only_parser_no_panic assms]
  show "?dec buf = Ok ((c, ps), n) \<longleftrightarrow>
      (\<exists>s rest. (properties_ok False ps \<and> reason_code_only_forms c ps s) \<and> length s \<le> max_remaining \<and>
        n = length (frame_wire (t OR f) s) \<and> buf = frame_wire (t OR f) s @ rest)"
    using dec(1) [of buf "(c, ps)" n] by simp
  show "?dec buf \<noteq> Panic" by (rule dec(2))
qed

lemma reason_code_only_encoder:
  assumes enc: "\<And>buf. enc x buf = rbind validate (\<lambda>_. encode_reason_code_only_packet t f c ps buf)"
    and v: "validate \<noteq> Panic"
  shows "validate = Ok () \<Longrightarrow> properties_fit ps \<Longrightarrow> length (reason_code_only_bytes c ps) \<le> max_remaining \<Longrightarrow>
      emits (enc x) (frame_wire (t OR f) (reason_code_only_bytes c ps))"
    "enc x buf \<noteq> Panic"
    "enc x buf = Ok r \<Longrightarrow> validate = Ok () \<and> properties_fit ps \<and> length (reason_code_only_bytes c ps) \<le> max_remaining"
proof -
  let ?put = "\<lambda>w. rbind (put_u8 c w) (put_with (properties_encode ps))"
  have e: "enc x buf = rbind validate (\<lambda>_. rbind (open_frame (t OR f)
      (reason_code_only_packet_encoded_len ps) buf) (\<lambda>w. rbind (?put w) finish))" for buf
    by (simp add: enc encode_reason_code_only_packet_def rbind_assoc Let_def)
  have w: "writes ?put ([c] @ properties_image ps) (properties_fit ps)"
    by (rule writes_cong, (rule writes_intros)+) simp_all
  have n: "reason_code_only_packet_encoded_len ps = min (length ([c] @ properties_image ps)) usize_max"
    by (simp add: reason_code_only_packet_encoded_len_def length_properties_image usize_saturating_add_def)
  have b: "properties_fit ps \<Longrightarrow> [c] @ properties_image ps = reason_code_only_bytes c ps"
    by (simp add: reason_code_only_bytes_def)
  note enc' = duplex_encoder [of enc x, OF e w n v b]
  show "validate = Ok () \<Longrightarrow> properties_fit ps \<Longrightarrow> length (reason_code_only_bytes c ps) \<le> max_remaining \<Longrightarrow>
      emits (enc x) (frame_wire (t OR f) (reason_code_only_bytes c ps))" by (rule enc'(1))
  show "enc x buf \<noteq> Panic" by (rule enc'(2))
  show "enc x buf = Ok r \<Longrightarrow> validate = Ok () \<and> properties_fit ps \<and>
      length (reason_code_only_bytes c ps) \<le> max_remaining" by (rule enc'(3))
qed

section \<open>DISCONNECT\<close>

datatype disconnect_reason_code =
    DcNormalDisconnection
  | DcDisconnectWithWillMessage
  | DcUnspecifiedError
  | DcMalformedPacket
  | DcProtocolError
  | DcImplementationSpecificError
  | DcNotAuthorized
  | DcServerBusy
  | DcServerShuttingDown
  | DcBadAuthenticationMethod
  | DcKeepAliveTimeout
  | DcSessionTakenOver
  | DcTopicFilterInvalid
  | DcTopicNameInvalid
  | DcReceiveMaximumExceeded
  | DcTopicAliasInvalid
  | DcPacketTooLarge
  | DcMessageRateTooHigh
  | DcQuotaExceeded
  | DcAdministrativeAction
  | DcPayloadFormatInvalid
  | DcRetainNotSupported
  | DcQoSNotSupported
  | DcUseAnotherServer
  | DcServerMoved
  | DcSharedSubscriptionsNotSupported
  | DcConnectionRateExceeded
  | DcMaximumConnectTime
  | DcSubscriptionIdentifiersNotSupported
  | DcWildcardSubscriptionsNotSupported

definition disconnect_reason_from_u8 :: "u8 \<Rightarrow> disconnect_reason_code option" where
  "disconnect_reason_from_u8 value =
     (if value = 0x00 then Some DcNormalDisconnection
      else if value = 0x04 then Some DcDisconnectWithWillMessage
      else if value = 0x80 then Some DcUnspecifiedError
      else if value = 0x81 then Some DcMalformedPacket
      else if value = 0x82 then Some DcProtocolError
      else if value = 0x83 then Some DcImplementationSpecificError
      else if value = 0x87 then Some DcNotAuthorized
      else if value = 0x89 then Some DcServerBusy
      else if value = 0x8B then Some DcServerShuttingDown
      else if value = 0x8C then Some DcBadAuthenticationMethod
      else if value = 0x8D then Some DcKeepAliveTimeout
      else if value = 0x8E then Some DcSessionTakenOver
      else if value = 0x8F then Some DcTopicFilterInvalid
      else if value = 0x90 then Some DcTopicNameInvalid
      else if value = 0x93 then Some DcReceiveMaximumExceeded
      else if value = 0x94 then Some DcTopicAliasInvalid
      else if value = 0x95 then Some DcPacketTooLarge
      else if value = 0x96 then Some DcMessageRateTooHigh
      else if value = 0x97 then Some DcQuotaExceeded
      else if value = 0x98 then Some DcAdministrativeAction
      else if value = 0x99 then Some DcPayloadFormatInvalid
      else if value = 0x9A then Some DcRetainNotSupported
      else if value = 0x9B then Some DcQoSNotSupported
      else if value = 0x9C then Some DcUseAnotherServer
      else if value = 0x9D then Some DcServerMoved
      else if value = 0x9E then Some DcSharedSubscriptionsNotSupported
      else if value = 0x9F then Some DcConnectionRateExceeded
      else if value = 0xA0 then Some DcMaximumConnectTime
      else if value = 0xA1 then Some DcSubscriptionIdentifiersNotSupported
      else if value = 0xA2 then Some DcWildcardSubscriptionsNotSupported
      else None)"

fun disconnect_reason_as_u8 :: "disconnect_reason_code \<Rightarrow> u8" where
  "disconnect_reason_as_u8 DcNormalDisconnection = 0x00"
| "disconnect_reason_as_u8 DcDisconnectWithWillMessage = 0x04"
| "disconnect_reason_as_u8 DcUnspecifiedError = 0x80"
| "disconnect_reason_as_u8 DcMalformedPacket = 0x81"
| "disconnect_reason_as_u8 DcProtocolError = 0x82"
| "disconnect_reason_as_u8 DcImplementationSpecificError = 0x83"
| "disconnect_reason_as_u8 DcNotAuthorized = 0x87"
| "disconnect_reason_as_u8 DcServerBusy = 0x89"
| "disconnect_reason_as_u8 DcServerShuttingDown = 0x8B"
| "disconnect_reason_as_u8 DcBadAuthenticationMethod = 0x8C"
| "disconnect_reason_as_u8 DcKeepAliveTimeout = 0x8D"
| "disconnect_reason_as_u8 DcSessionTakenOver = 0x8E"
| "disconnect_reason_as_u8 DcTopicFilterInvalid = 0x8F"
| "disconnect_reason_as_u8 DcTopicNameInvalid = 0x90"
| "disconnect_reason_as_u8 DcReceiveMaximumExceeded = 0x93"
| "disconnect_reason_as_u8 DcTopicAliasInvalid = 0x94"
| "disconnect_reason_as_u8 DcPacketTooLarge = 0x95"
| "disconnect_reason_as_u8 DcMessageRateTooHigh = 0x96"
| "disconnect_reason_as_u8 DcQuotaExceeded = 0x97"
| "disconnect_reason_as_u8 DcAdministrativeAction = 0x98"
| "disconnect_reason_as_u8 DcPayloadFormatInvalid = 0x99"
| "disconnect_reason_as_u8 DcRetainNotSupported = 0x9A"
| "disconnect_reason_as_u8 DcQoSNotSupported = 0x9B"
| "disconnect_reason_as_u8 DcUseAnotherServer = 0x9C"
| "disconnect_reason_as_u8 DcServerMoved = 0x9D"
| "disconnect_reason_as_u8 DcSharedSubscriptionsNotSupported = 0x9E"
| "disconnect_reason_as_u8 DcConnectionRateExceeded = 0x9F"
| "disconnect_reason_as_u8 DcMaximumConnectTime = 0xA0"
| "disconnect_reason_as_u8 DcSubscriptionIdentifiersNotSupported = 0xA1"
| "disconnect_reason_as_u8 DcWildcardSubscriptionsNotSupported = 0xA2"

interpretation disconnect_reason: byte_enum disconnect_reason_from_u8 disconnect_reason_as_u8
proof unfold_locales
  show "disconnect_reason_from_u8 (disconnect_reason_as_u8 c) = Some c" for c
    by (cases c) (simp_all add: disconnect_reason_from_u8_def)
  show "disconnect_reason_from_u8 v = Some c \<Longrightarrow> disconnect_reason_as_u8 c = v" for v c
    unfolding disconnect_reason_from_u8_def by (auto split: if_splits)
qed

definition disconnect_sent_by_client :: "disconnect_reason_code \<Rightarrow> bool" where
  "disconnect_sent_by_client c \<longleftrightarrow> List.member
     [DcNormalDisconnection, DcDisconnectWithWillMessage, DcUnspecifiedError, DcMalformedPacket, DcProtocolError, DcImplementationSpecificError, DcBadAuthenticationMethod, DcTopicNameInvalid, DcReceiveMaximumExceeded, DcTopicAliasInvalid, DcPacketTooLarge, DcMessageRateTooHigh, DcQuotaExceeded, DcAdministrativeAction, DcPayloadFormatInvalid] c"

definition disconnect_sent_by_server :: "disconnect_reason_code \<Rightarrow> bool" where
  "disconnect_sent_by_server c \<longleftrightarrow> c \<noteq> DcDisconnectWithWillMessage"

record v5_disconnect =
  v5_disconnect_reason_code :: disconnect_reason_code
  v5_disconnect_properties :: properties

definition v5_disconnect_encoded_len :: "v5_disconnect \<Rightarrow> nat" where
  "v5_disconnect_encoded_len p = reason_code_only_packet_encoded_len (v5_disconnect_properties p)"

definition v5_disconnect_validate :: "v5_disconnect \<Rightarrow> (unit, encode_error) result" where
  "v5_disconnect_validate p =
     (if \<not> disconnect_sent_by_client (v5_disconnect_reason_code p)
      then Err (InvalidField InvalidReasonCode)
      else if is_err (validate_for_disconnect_with_direction ClientToServer (v5_disconnect_properties p))
      then Err (InvalidField PropertyValidationFailed)
      else if is_err (validate_duplicate_identifiers False (v5_disconnect_properties p))
      then Err (InvalidField DuplicatePropertyIdentifier)
      else Ok ())"

definition v5_disconnect_encode :: "v5_disconnect \<Rightarrow> encoder" where
  "v5_disconnect_encode p buf =
     rbind (v5_disconnect_validate p) (\<lambda>_.
     encode_reason_code_only_packet 0xE0 0 (disconnect_reason_as_u8 (v5_disconnect_reason_code p))
       (v5_disconnect_properties p) buf)"

definition v5_disconnect_decode :: "v5_disconnect decoder" where
  "v5_disconnect_decode buf =
     rbind (decode_reason_code_only_packet 0xE0 0 buf) (\<lambda>((reason_code, properties), consumed).
     rbind (ok_or MalformedPacket (disconnect_reason_from_u8 reason_code)) (\<lambda>reason_code.
     if \<not> disconnect_sent_by_server reason_code then Err MalformedPacket
     else
       rbind (validate_for_disconnect_with_direction ServerToClient properties) (\<lambda>_.
       Ok (\<lparr>v5_disconnect_reason_code = reason_code, v5_disconnect_properties = properties\<rparr>, consumed))))"

definition v5_disconnect_bytes :: "v5_disconnect \<Rightarrow> bytes" where
  "v5_disconnect_bytes p =
     reason_code_only_bytes (disconnect_reason_as_u8 (v5_disconnect_reason_code p)) (v5_disconnect_properties p)"

definition v5_disconnect_sendable :: "v5_disconnect \<Rightarrow> bool" where
  "v5_disconnect_sendable p \<longleftrightarrow>
     disconnect_sent_by_client (v5_disconnect_reason_code p) \<and>
     carries_only {0x11, 0x1C, 0x1F, 0x26} (v5_disconnect_properties p) \<and>
     no_duplicates False (v5_disconnect_properties p) \<and> properties_fit (v5_disconnect_properties p)"

definition v5_disconnect_accepts :: "v5_disconnect \<Rightarrow> bytes \<Rightarrow> bool" where
  "v5_disconnect_accepts p s \<longleftrightarrow>
     disconnect_sent_by_server (v5_disconnect_reason_code p) \<and>
     carries_only {0x1C, 0x1F, 0x26} (v5_disconnect_properties p) \<and>
     properties_ok False (v5_disconnect_properties p) \<and>
     reason_code_only_forms (disconnect_reason_as_u8 (v5_disconnect_reason_code p))
       (v5_disconnect_properties p) s"

lemma carries_only_remove:
  "carries_only (insert i A) ps \<and> i \<notin> property_identifier ` set ps \<longleftrightarrow> carries_only (A - {i}) ps"
  by (auto simp: carries_only_def)

lemma v5_disconnect_validate_iff:
  "v5_disconnect_validate p = Ok () \<longleftrightarrow>
     disconnect_sent_by_client (v5_disconnect_reason_code p) \<and>
     carries_only {0x11, 0x1C, 0x1F, 0x26} (v5_disconnect_properties p) \<and>
     no_duplicates False (v5_disconnect_properties p)"
  by (auto simp: v5_disconnect_validate_def)

interpretation v5_disconnect: duplex_packet v5_disconnect_encode v5_disconnect_decode "\<lambda>_. 0xE0 OR 0"
  v5_disconnect_bytes v5_disconnect_sendable v5_disconnect_accepts
  "\<lambda>p. properties_typed (v5_disconnect_properties p)"
proof
  have "v5_disconnect_validate p \<noteq> Panic" for p by (simp add: v5_disconnect_validate_def)
  note enc = reason_code_only_encoder [of v5_disconnect_encode, OF v5_disconnect_encode_def this]
  note dec = reason_code_only_decoder [of "0xE0" 0]
  fix x buf n
  show "emits (v5_disconnect_encode x) (frame_wire (0xE0 OR 0) (v5_disconnect_bytes x))"
    if "v5_disconnect_sendable x" "length (v5_disconnect_bytes x) \<le> max_remaining"
    unfolding v5_disconnect_bytes_def
    by (rule enc(1)) (use that in \<open>auto simp: v5_disconnect_sendable_def v5_disconnect_validate_iff v5_disconnect_bytes_def\<close>)
  show "v5_disconnect_encode x buf \<noteq> Panic" by (rule enc(2))
  show "v5_disconnect_sendable x \<and> length (v5_disconnect_bytes x) \<le> max_remaining"
    if "v5_disconnect_encode x buf = Ok r" for r
    using enc(3) [OF that]
    by (auto simp: v5_disconnect_sendable_def v5_disconnect_validate_iff v5_disconnect_bytes_def)
  show "v5_disconnect_decode buf = Ok (x, n) \<longleftrightarrow>
      (\<exists>s rest. v5_disconnect_accepts x s \<and> length s \<le> max_remaining \<and>
        n = length (frame_wire (0xE0 OR 0) s) \<and> buf = frame_wire (0xE0 OR 0) s @ rest)"
  proof -
    let ?c = "v5_disconnect_reason_code x" and ?ps = "v5_disconnect_properties x"
    have "carries_only {0x11, 0x1C, 0x1F, 0x26} ?ps \<and> 0x11 \<notin> property_identifier ` set ?ps \<longleftrightarrow>
        carries_only {0x1C, 0x1F, 0x26} ?ps"
      using carries_only_remove [of "0x11" "{0x1C, 0x1F, 0x26}" ?ps] by simp
    moreover have "v5_disconnect_decode buf = Ok (x, n) \<longleftrightarrow>
        decode_reason_code_only_packet 0xE0 0 buf = Ok ((disconnect_reason_as_u8 ?c, ?ps), n) \<and>
        disconnect_sent_by_server ?c \<and>
        carries_only {0x11, 0x1C, 0x1F, 0x26} ?ps \<and> 0x11 \<notin> property_identifier ` set ?ps"
      by (cases x) (auto simp: v5_disconnect_decode_def rbind_Ok_iff disconnect_reason.from_u8_iff split: if_splits)
    ultimately show ?thesis
      using dec(1) [of buf "disconnect_reason_as_u8 ?c" ?ps n] by (auto simp: v5_disconnect_accepts_def)
  qed
  show "v5_disconnect_decode buf \<noteq> Panic"
    using dec(2) by (auto simp: v5_disconnect_decode_def rbind_Panic_iff split: if_splits)
qed

section \<open>AUTH\<close>

datatype auth_reason_code =
    AuSuccess
  | AuContinueAuthentication
  | AuReAuthenticate

definition auth_reason_from_u8 :: "u8 \<Rightarrow> auth_reason_code option" where
  "auth_reason_from_u8 value =
     (if value = 0x00 then Some AuSuccess
      else if value = 0x18 then Some AuContinueAuthentication
      else if value = 0x19 then Some AuReAuthenticate
      else None)"

fun auth_reason_as_u8 :: "auth_reason_code \<Rightarrow> u8" where
  "auth_reason_as_u8 AuSuccess = 0x00"
| "auth_reason_as_u8 AuContinueAuthentication = 0x18"
| "auth_reason_as_u8 AuReAuthenticate = 0x19"

interpretation auth_reason: byte_enum auth_reason_from_u8 auth_reason_as_u8
proof unfold_locales
  show "auth_reason_from_u8 (auth_reason_as_u8 c) = Some c" for c
    by (cases c) (simp_all add: auth_reason_from_u8_def)
  show "auth_reason_from_u8 v = Some c \<Longrightarrow> auth_reason_as_u8 c = v" for v c
    unfolding auth_reason_from_u8_def by (auto split: if_splits)
qed

definition auth_sent_by_client :: "auth_reason_code \<Rightarrow> bool" where
  "auth_sent_by_client c \<longleftrightarrow> List.member [AuContinueAuthentication, AuReAuthenticate] c"

definition auth_sent_by_server :: "auth_reason_code \<Rightarrow> bool" where
  "auth_sent_by_server c \<longleftrightarrow> List.member [AuSuccess, AuContinueAuthentication] c"

record v5_auth =
  v5_auth_reason_code :: auth_reason_code
  v5_auth_properties :: properties

definition v5_auth_encoded_len :: "v5_auth \<Rightarrow> nat" where
  "v5_auth_encoded_len p = reason_code_only_packet_encoded_len (v5_auth_properties p)"

definition v5_authentication_method :: "v5_auth \<Rightarrow> rstring option" where
  "v5_authentication_method p =
     map_option (\<lambda>q. case q of AuthenticationMethod m \<Rightarrow> m | _ \<Rightarrow> [])
       (List.find (\<lambda>q. case q of AuthenticationMethod _ \<Rightarrow> True | _ \<Rightarrow> False) (v5_auth_properties p))"

definition v5_auth_validate :: "v5_auth \<Rightarrow> (unit, encode_error) result" where
  "v5_auth_validate p =
     (if \<not> auth_sent_by_client (v5_auth_reason_code p) then Err (InvalidField InvalidReasonCode)
      else if is_err (validate_for_auth (v5_auth_properties p))
      then Err (InvalidField PropertyValidationFailed)
      else if is_err (validate_duplicate_identifiers False (v5_auth_properties p))
      then Err (InvalidField DuplicatePropertyIdentifier)
      else Ok ())"

definition v5_auth_encode :: "v5_auth \<Rightarrow> encoder" where
  "v5_auth_encode p buf =
     rbind (v5_auth_validate p) (\<lambda>_.
     encode_reason_code_only_packet 0xF0 0 (auth_reason_as_u8 (v5_auth_reason_code p))
       (v5_auth_properties p) buf)"

text \<open>What \<^verbatim>\<open>decode\<close> does after the fixed header; the result ends at the end of the frame.\<close>

definition v5_auth_body :: "nat \<Rightarrow> v5_auth reader" where
  "v5_auth_body remaining_len buf end header_len =
     (if remaining_len = 0
      then Ok (\<lparr>v5_auth_reason_code = AuSuccess, v5_auth_properties = []\<rparr>, end)
      else
        rbind (index buf header_len) (\<lambda>b.
        rbind (ok_or MalformedPacket (auth_reason_from_u8 b)) (\<lambda>reason_code.
        if \<not> auth_sent_by_server reason_code then Err MalformedPacket
        else
          let properties_offset = header_len + 1 in
          rbind (if properties_offset = end then Ok ([], 0)
                 else rbind (subslice buf properties_offset end) properties_decode) (\<lambda>(properties, n).
          if properties_offset + n \<noteq> end then Err MalformedPacket
          else
            rbind (validate_for_auth properties) (\<lambda>_.
            Ok (\<lparr>v5_auth_reason_code = reason_code, v5_auth_properties = properties\<rparr>, end))))))"

definition v5_auth_decode :: "v5_auth decoder" where
  "v5_auth_decode buf =
     rbind (decode_fixed_header buf 0xF0 0) (\<lambda>(remaining_len, header_len, end).
     v5_auth_body remaining_len buf end header_len)"

definition v5_auth_parser :: "nat \<Rightarrow> v5_auth parser" where
  "v5_auth_parser remaining_len s =
     (if remaining_len = 0
      then Ok (\<lparr>v5_auth_reason_code = AuSuccess, v5_auth_properties = []\<rparr>, [])
      else
        rbind (p_u8 s) (\<lambda>(b, s).
        rbind (ok_or MalformedPacket (auth_reason_from_u8 b)) (\<lambda>reason_code.
        if \<not> auth_sent_by_server reason_code then Err MalformedPacket
        else
          rbind (if s = [] then Ok ([], s) else p_sub properties_decode s) (\<lambda>(properties, s).
          rbind (p_end properties s) (\<lambda>(properties, s).
          rbind (validate_for_auth properties) (\<lambda>_.
          Ok (\<lparr>v5_auth_reason_code = reason_code, v5_auth_properties = properties\<rparr>, s)))))))"

lemma reads_v5_auth:
  "reads (\<lambda>buf end offset. v5_auth_body (end - offset) buf end offset) (\<lambda>s. v5_auth_parser (length s) s)"
proof (rule reads_cong)
  let ?rd = "\<lambda>n buf end offset.
     (if n = 0
      then Ok (\<lparr>v5_auth_reason_code = AuSuccess, v5_auth_properties = []\<rparr>, end)
      else
        rbind (read_u8 buf end offset) (\<lambda>(b, offset).
        rbind (ok_or MalformedPacket (auth_reason_from_u8 b)) (\<lambda>reason_code.
        if \<not> auth_sent_by_server reason_code then Err MalformedPacket
        else
          rbind (if offset = end then Ok ([], offset) else read_sub properties_decode buf end offset)
            (\<lambda>(properties, offset).
          rbind (read_end properties buf end offset) (\<lambda>(properties, offset).
          rbind (validate_for_auth properties) (\<lambda>_.
          Ok (\<lparr>v5_auth_reason_code = reason_code, v5_auth_properties = properties\<rparr>, offset)))))))"
  have "reads (?rd n) (v5_auth_parser n)" for n :: nat
    unfolding v5_auth_parser_def [abs_def] by (intro reads_intros)
  then show "reads (\<lambda>buf end offset. ?rd (end - offset) buf end offset) (\<lambda>s. v5_auth_parser (length s) s)"
    by (rule reads_len)
  show "v5_auth_body (end - offset) buf end offset = ?rd (end - offset) buf end offset"
    if "offset \<le> end" "end \<le> length buf" for buf "end" offset
  proof (cases "end - offset = 0")
    case False
    then have lt: "offset < end" by simp
    show ?thesis
    proof (cases "auth_reason_from_u8 (buf ! offset)")
      case (Some c)
      show ?thesis
        using lt that Some
        by (cases "properties_decode (drop (Suc offset) (take end buf))")
          (auto simp: v5_auth_body_def read_u8_def read_sub_def read_end_def Let_def)
    qed (use lt that in \<open>simp add: v5_auth_body_def read_u8_def\<close>)
  qed (simp add: v5_auth_body_def)
qed

definition v5_auth_bytes :: "v5_auth \<Rightarrow> bytes" where
  "v5_auth_bytes p = reason_code_only_bytes (auth_reason_as_u8 (v5_auth_reason_code p)) (v5_auth_properties p)"

definition v5_auth_sendable :: "v5_auth \<Rightarrow> bool" where
  "v5_auth_sendable p \<longleftrightarrow>
     auth_sent_by_client (v5_auth_reason_code p) \<and>
     carries_only {0x15, 0x16, 0x1F, 0x26} (v5_auth_properties p) \<and>
     0x15 \<in> property_identifier ` set (v5_auth_properties p) \<and>
     no_duplicates False (v5_auth_properties p) \<and> properties_fit (v5_auth_properties p)"

definition v5_auth_accepts :: "v5_auth \<Rightarrow> bytes \<Rightarrow> bool" where
  "v5_auth_accepts p s \<longleftrightarrow>
     v5_auth_reason_code p = AuSuccess \<and> v5_auth_properties p = [] \<and> s = [] \<or>
     auth_sent_by_server (v5_auth_reason_code p) \<and>
     carries_only {0x15, 0x16, 0x1F, 0x26} (v5_auth_properties p) \<and>
     0x15 \<in> property_identifier ` set (v5_auth_properties p) \<and>
     properties_ok False (v5_auth_properties p) \<and> s = v5_auth_bytes p"

lemma v5_auth_parser_iff:
  "v5_auth_parser (length s) s = Ok (p, s') \<longleftrightarrow> v5_auth_accepts p s \<and> s' = []"
proof
  assume "v5_auth_parser (length s) s = Ok (p, s')"
  then show "v5_auth_accepts p s \<and> s' = []"
    by (auto simp: v5_auth_parser_def v5_auth_accepts_def v5_auth_bytes_def reason_code_only_bytes_def
        rbind_Ok_iff wire_simps auth_reason.from_u8_iff split: if_splits)
next
  assume a: "v5_auth_accepts p s \<and> s' = []"
  then consider "v5_auth_reason_code p = AuSuccess" "v5_auth_properties p = []" "s = []" "s' = []"
    | "auth_sent_by_server (v5_auth_reason_code p)"
      "validate_for_auth (v5_auth_properties p) = Ok ()"
      "properties_ok False (v5_auth_properties p)" "s = v5_auth_bytes p" "s' = []"
    by (auto simp: v5_auth_accepts_def)
  then show "v5_auth_parser (length s) s = Ok (p, s')"
  proof cases
    case 2
    then show ?thesis
      by (cases p) (simp add: v5_auth_parser_def v5_auth_bytes_def reason_code_only_bytes_def p_end_def
        auth_reason.from_as rbind_Ok_iff del: rbind.simps(2))
  qed (cases p, simp add: v5_auth_parser_def)
qed

lemma v5_auth_parser_no_panic: "v5_auth_parser n s \<noteq> Panic"
  by (auto simp: v5_auth_parser_def rbind_Panic_iff no_panic split: if_splits)

lemma v5_auth_validate_iff:
  "v5_auth_validate p = Ok () \<longleftrightarrow>
     auth_sent_by_client (v5_auth_reason_code p) \<and>
     carries_only {0x15, 0x16, 0x1F, 0x26} (v5_auth_properties p) \<and>
     0x15 \<in> property_identifier ` set (v5_auth_properties p) \<and>
     no_duplicates False (v5_auth_properties p)"
  by (auto simp: v5_auth_validate_def)

interpretation v5_auth: duplex_packet v5_auth_encode v5_auth_decode "\<lambda>_. 0xF0 OR 0"
  v5_auth_bytes v5_auth_sendable v5_auth_accepts "\<lambda>p. properties_typed (v5_auth_properties p)"
proof
  have "v5_auth_validate p \<noteq> Panic" for p by (simp add: v5_auth_validate_def)
  note enc = reason_code_only_encoder [of v5_auth_encode, OF v5_auth_encode_def this]
  have d: "v5_auth_decode (b # r) = (if b AND 0xF0 \<noteq> 0xF0 then Err InvalidPacketType
       else if b AND 0x0F \<noteq> 0 then Err InvalidPacketFlags
       else rbind (read_frame_header (b # r)) (\<lambda>(offset, end).
         v5_auth_body (end - offset) (b # r) end offset))" for b r
    by (cases "read_frame_header (b # r)") (auto simp: v5_auth_decode_def decode_fixed_header_Cons)
  have d0: "v5_auth_decode [] = Err InsufficientData" by (simp add: v5_auth_decode_def)
  note dec = duplex_decoder [OF d0 d reads_v5_auth v5_auth_parser_iff v5_auth_parser_no_panic]
  fix x buf n
  show "emits (v5_auth_encode x) (frame_wire (0xF0 OR 0) (v5_auth_bytes x))"
    if "v5_auth_sendable x" "length (v5_auth_bytes x) \<le> max_remaining"
    unfolding v5_auth_bytes_def
    by (rule enc(1)) (use that in \<open>auto simp: v5_auth_sendable_def v5_auth_validate_iff v5_auth_bytes_def\<close>)
  show "v5_auth_encode x buf \<noteq> Panic" by (rule enc(2))
  show "v5_auth_sendable x \<and> length (v5_auth_bytes x) \<le> max_remaining"
    if "v5_auth_encode x buf = Ok r" for r
    using enc(3) [OF that] by (auto simp: v5_auth_sendable_def v5_auth_validate_iff v5_auth_bytes_def)
  show "v5_auth_decode buf = Ok (x, n) \<longleftrightarrow>
      (\<exists>s rest. v5_auth_accepts x s \<and> length s \<le> max_remaining \<and>
        n = length (frame_wire (0xF0 OR 0) s) \<and> buf = frame_wire (0xF0 OR 0) s @ rest)"
    by (rule dec(1)) simp_all
  show "v5_auth_decode buf \<noteq> Panic" by (rule dec(2)) simp_all
qed

section \<open>CONNACK\<close>

record v5_connack =
  v5ca_session_present :: bool
  v5ca_reason_code :: connect_reason_code
  v5ca_properties :: properties

definition v5_connack_encoded_len :: "v5_connack \<Rightarrow> nat" where
  "v5_connack_encoded_len p =
     usize_saturating_add (usize_saturating_add 1 1) (properties_encoded_len (v5ca_properties p))"

definition v5_connack_validate :: "v5_connack \<Rightarrow> (unit, encode_error) result" where
  "v5_connack_validate p =
     (if v5ca_session_present p \<and> v5ca_reason_code p \<noteq> Success
      then Err (InvalidField SessionPresentWithNonSuccess)
      else if is_err (validate_for_connack (v5ca_properties p))
      then Err (InvalidField PropertyValidationFailed)
      else if is_err (validate_duplicate_identifiers False (v5ca_properties p))
      then Err (InvalidField DuplicatePropertyIdentifier)
      else Ok ())"

definition v5_connack_put :: "v5_connack \<Rightarrow> writer \<Rightarrow> (writer, encode_error) result" where
  "v5_connack_put p w =
     rbind (put_u8 (if v5ca_session_present p then 0x01 else 0x00) w) (\<lambda>w.
     rbind (put_u8 (reason_code_as_u8 (v5ca_reason_code p)) w) (\<lambda>w.
     put_with (properties_encode (v5ca_properties p)) w))"

definition v5_connack_encode :: "v5_connack \<Rightarrow> encoder" where
  "v5_connack_encode p buf =
     rbind (v5_connack_validate p) (\<lambda>_.
     let remaining_len = v5_connack_encoded_len p in
     rbind (open_frame 0x20 remaining_len buf) (\<lambda>w.
     rbind (v5_connack_put p w) finish))"

definition v5_connack_body :: "v5_connack reader" where
  "v5_connack_body buf end offset =
     rbind (read_u8 buf end offset) (\<lambda>(flags, offset).
     if flags AND 0xFE \<noteq> 0 then Err MalformedPacket
     else
       let session_present = flags AND 0x01 \<noteq> 0 in
       rbind (read_u8 buf end offset) (\<lambda>(code, offset).
       rbind (ok_or MalformedPacket (reason_code_from_u8 code)) (\<lambda>reason_code.
       rbind (read_sub properties_decode buf end offset) (\<lambda>(properties, offset).
       rbind (validate_for_connack properties) (\<lambda>_.
       if reason_code \<noteq> Success \<and> session_present then Err MalformedPacket
       else
         read_end \<lparr>v5ca_session_present = session_present, v5ca_reason_code = reason_code,
           v5ca_properties = properties\<rparr> buf end offset)))))"

definition v5_connack_decode :: "v5_connack decoder" where
  "v5_connack_decode buf =
     (if buf = [] then Err InsufficientData
      else
        rbind (index buf 0) (\<lambda>b0.
        if b0 AND 0xF0 \<noteq> 0x20 then Err InvalidPacketType
        else if b0 AND 0x0F \<noteq> 0 then Err InvalidPacketFlags
        else rbind (read_frame_header buf) (\<lambda>(offset, end). v5_connack_body buf end offset)))"

definition v5_connack_parser :: "v5_connack parser" where
  "v5_connack_parser s =
     rbind (p_u8 s) (\<lambda>(flags, s).
     if flags AND 0xFE \<noteq> 0 then Err MalformedPacket
     else
       rbind (p_u8 s) (\<lambda>(code, s).
       rbind (ok_or MalformedPacket (reason_code_from_u8 code)) (\<lambda>reason_code.
       rbind (p_sub properties_decode s) (\<lambda>(properties, s).
       rbind (validate_for_connack properties) (\<lambda>_.
       if reason_code \<noteq> Success \<and> flags AND 0x01 \<noteq> 0 then Err MalformedPacket
       else
         p_end \<lparr>v5ca_session_present = flags AND 0x01 \<noteq> 0, v5ca_reason_code = reason_code,
           v5ca_properties = properties\<rparr> s)))))"

lemma reads_v5_connack: "reads v5_connack_body v5_connack_parser"
  unfolding v5_connack_body_def [abs_def] v5_connack_parser_def [abs_def] Let_def
  by (intro reads_intros)

definition v5_connack_bytes :: "v5_connack \<Rightarrow> bytes" where
  "v5_connack_bytes p =
     [if v5ca_session_present p then 1 else 0, reason_code_as_u8 (v5ca_reason_code p)] @
     properties_bytes (v5ca_properties p)"

definition v5_connack_props :: "properties \<Rightarrow> bool" where
  "v5_connack_props ps \<longleftrightarrow> validate_for_connack ps = Ok ()"

definition v5_connack_ok :: "v5_connack \<Rightarrow> bool" where
  "v5_connack_ok p \<longleftrightarrow> (v5ca_session_present p \<longrightarrow> v5ca_reason_code p = Success) \<and>
     v5_connack_props (v5ca_properties p) \<and> properties_ok False (v5ca_properties p)"

lemma session_flag_iff: "(f :: u8) AND 0xFE = 0 \<and> (f AND 1 \<noteq> 0) = b \<longleftrightarrow> f = (if b then 1 else 0)"
proof -
  have "f = 0 \<or> f = 1" if "f AND 0xFE = 0"
  proof -
    have "f = (f AND 0xFE) OR (f AND 1)" by (rule u8_bit_eqI) (simp_all add: byte_bits)
    with that show ?thesis using u8_flag_tests(1) [of f] by (auto split: if_splits)
  qed
  then show ?thesis by auto
qed

lemma v5_connack_parser_sound:
  assumes "v5_connack_parser s = Ok (p, s')"
  shows "v5_connack_ok p \<and> s = v5_connack_bytes p \<and> s' = []"
proof -
  from assms obtain flags code s1 where s: "s = flags # code # s1"
    unfolding v5_connack_parser_def by (auto simp: rbind_Ok_iff wire_simps split: if_splits)
  from assms have f: "flags AND 0xFE = 0"
    unfolding v5_connack_parser_def s by (auto split: if_splits)
  with assms obtain c ps s2 where c: "code = reason_code_as_u8 c"
    and q: "properties_ok False ps" "s1 = properties_bytes ps @ s2" and v: "v5_connack_props ps"
    and ok: "flags AND 1 \<noteq> 0 \<longrightarrow> c = Success" and e: "s2 = []" "s' = []"
    and p: "p = \<lparr>v5ca_session_present = flags AND 1 \<noteq> 0, v5ca_reason_code = c, v5ca_properties = ps\<rparr>"
    unfolding v5_connack_parser_def s v5_connack_props_def
    by (auto simp del: validate_for_iffs
        simp: rbind_Ok_iff wire_simps reason_code.from_u8_iff split: if_splits)
  from session_flag_iff [of flags] f have "flags = (if flags AND 1 \<noteq> 0 then 1 else 0)" by blast
  with c q v ok e show ?thesis
    by (simp add: v5_connack_ok_def v5_connack_bytes_def s p del: validate_for_iffs)
qed

lemma v5_connack_parser_complete:
  assumes "v5_connack_ok p"
  shows "v5_connack_parser (v5_connack_bytes p) = Ok (p, [])"
  using assms
  by (cases p) (auto simp: v5_connack_parser_def v5_connack_ok_def v5_connack_bytes_def
      v5_connack_props_def reason_code.from_as p_end_def rbind_Ok_iff simp del: validate_for_iffs)

lemma v5_connack_parser_iff:
  "v5_connack_parser s = Ok (p, s') \<longleftrightarrow> v5_connack_ok p \<and> s = v5_connack_bytes p \<and> s' = []"
  using v5_connack_parser_sound v5_connack_parser_complete by blast

lemma v5_connack_parser_no_panic: "v5_connack_parser s \<noteq> Panic"
  by (auto simp: v5_connack_parser_def rbind_Panic_iff no_panic split: if_splits)

lemma v5_connack_validate_iff:
  "v5_connack_validate p = Ok () \<longleftrightarrow> (v5ca_session_present p \<longrightarrow> v5ca_reason_code p = Success) \<and>
     v5_connack_props (v5ca_properties p) \<and> no_duplicates False (v5ca_properties p)"
  by (auto simp: v5_connack_validate_def v5_connack_props_def)

lemma writes_v5_connack:
  "writes (v5_connack_put p)
     ([if v5ca_session_present p then 1 else 0, reason_code_as_u8 (v5ca_reason_code p)] @
      properties_image (v5ca_properties p)) (properties_fit (v5ca_properties p))"
  unfolding v5_connack_put_def [abs_def] by (rule writes_cong, (rule writes_intros)+) simp_all

interpretation v5_connack: framed_packet v5_connack_encode v5_connack_decode "\<lambda>_. 0x20 OR 0"
  v5_connack_bytes v5_connack_ok "\<lambda>p. properties_typed (v5ca_properties p)"
proof
  fix x buf n
  have v: "v5_connack_validate x \<noteq> Panic" by (simp add: v5_connack_validate_def)
  have n: "v5_connack_encoded_len x =
      min (length ([if v5ca_session_present x then 1 else 0, reason_code_as_u8 (v5ca_reason_code x)] @
        properties_image (v5ca_properties x))) usize_max"
    by (simp add: v5_connack_encoded_len_def length_properties_image usize_saturating_add_def usize_max_def)
  have e: "v5_connack_encode x buf = rbind (v5_connack_validate x) (\<lambda>_.
      rbind (open_frame (0x20 OR 0) (v5_connack_encoded_len x) buf) (\<lambda>w. rbind (v5_connack_put x w) finish))"
    for buf by (simp add: v5_connack_encode_def Let_def)
  note enc = duplex_encoder [of v5_connack_encode x, OF e writes_v5_connack n v, of "v5_connack_bytes x"]
  note dec = framed_decoder [where dec = v5_connack_decode and t = "0x20" and f = 0,
    OF _ _ reads_v5_connack v5_connack_parser_iff v5_connack_parser_no_panic]
  show "emits (v5_connack_encode x) (frame_wire (0x20 OR 0) (v5_connack_bytes x))"
    if "v5_connack_ok x" "length (v5_connack_bytes x) \<le> max_remaining"
    by (rule enc(1)) (use that in \<open>auto simp: v5_connack_ok_def v5_connack_validate_iff properties_ok_iff v5_connack_bytes_def\<close>)
  show "v5_connack_encode x buf \<noteq> Panic" by (rule enc(2)) (simp add: v5_connack_bytes_def)
  show "v5_connack_ok x \<and> length (v5_connack_bytes x) \<le> max_remaining"
    if "properties_typed (v5ca_properties x)" "v5_connack_encode x buf = Ok r" for r
    using enc(3) [OF _ that(2)] that(1)
    by (auto simp: v5_connack_ok_def v5_connack_validate_iff properties_ok_iff v5_connack_bytes_def)
  show "v5_connack_decode buf = Ok (x, n) \<longleftrightarrow> v5_connack_ok x \<and>
      length (v5_connack_bytes x) \<le> max_remaining \<and>
      n = length (frame_wire (0x20 OR 0) (v5_connack_bytes x)) \<and>
      (\<exists>rest. buf = frame_wire (0x20 OR 0) (v5_connack_bytes x) @ rest)"
    by (rule dec(1)) (simp_all add: v5_connack_decode_def)
  show "v5_connack_decode buf \<noteq> Panic" by (rule dec(2)) (simp_all add: v5_connack_decode_def)
qed

end
