(* ===== verification/V311Subscribe.thy ===== *)
theory V311Subscribe
  imports Packet TopicFilter ReasonCodes
begin

unbundle bit_operations_syntax

text \<open>
  The subscription packets of MQTT 3.1.1: SUBSCRIBE (\<^verbatim>\<open>src/v311/subscribe.rs\<close>), SUBACK
  (\<^verbatim>\<open>src/v311/suback.rs\<close>) and UNSUBSCRIBE (\<^verbatim>\<open>src/v311/unsubscribe.rs\<close>), each a packet
  identifier followed by one or more entries, as interpretations of the packet contract.
\<close>

section \<open>A packet identifier and its entries\<close>

text \<open>
  The three decoders share their shape: the identifier must not be zero, the loop reads entries up
  to the end of the frame, and at least one entry is required.
\<close>

definition entries_parser :: "'a parser \<Rightarrow> (u16 \<Rightarrow> 'a list \<Rightarrow> 'p) \<Rightarrow> 'p parser" where
  "entries_parser p mk s =
     rbind (p_u16 s) (\<lambda>(packet_id, s).
     if packet_id = 0 then Err MalformedPacket
     else
       rbind (p_each p s) (\<lambda>(entries, s).
       if entries = [] then Err MalformedPacket else Ok (mk packet_id entries, s)))"

lemma entries_parser_Ok_iff:
  assumes "\<And>s x s'. p s = Ok (x, s') \<longleftrightarrow> ok x \<and> s = w x @ s'" "\<And>x. w x \<noteq> []"
    and "\<And>y. mk (pid y) (entries y) = y" "\<And>i xs. pid (mk i xs) = i \<and> entries (mk i xs) = xs"
  shows "entries_parser p mk s = Ok (y, s') \<longleftrightarrow>
    (pid y \<noteq> 0 \<and> entries y \<noteq> [] \<and> (\<forall>x \<in> set (entries y). ok x)) \<and>
    s = u16_to_be_bytes (pid y) @ concat (map w (entries y)) \<and> s' = []"
proof -
  have "entries_parser p mk s = Ok (y, s') \<longleftrightarrow>
      (\<exists>i xs. y = mk i xs \<and> i \<noteq> 0 \<and> xs \<noteq> [] \<and> (\<forall>x \<in> set xs. ok x) \<and>
        s = u16_to_be_bytes i @ concat (map w xs) \<and> s' = [])"
    by (auto simp: entries_parser_def rbind_Ok_iff wire_simps p_each_Ok_iff [OF assms(1,2)] split: if_splits)
  moreover have "y = mk i xs \<longleftrightarrow> i = pid y \<and> xs = entries y" for i xs
    using assms(3) [of y] assms(4) [of i xs] by auto
  ultimately show ?thesis by auto
qed

lemma entries_parser_no_panic:
  assumes "\<And>s. p s \<noteq> Panic" "\<And>s x s'. p s = Ok (x, s') \<longleftrightarrow> ok x \<and> s = w x @ s'" "\<And>x. w x \<noteq> []"
  shows "entries_parser p mk s \<noteq> Panic"
proof -
  have "p_each p s \<noteq> Panic" for s
    using assms by (intro p_each_no_panic) auto
  then show ?thesis by (auto simp: entries_parser_def rbind_Panic_iff no_panic)
qed

section \<open>SUBSCRIBE\<close>

record v3_subscription =
  v3s_filter :: rstring
  v3s_qos :: qos

record v3_subscribe =
  v3s_packet_id :: u16
  v3s_topic_filters :: "v3_subscription list"

definition v3_subscribe_encoded_len :: "v3_subscribe \<Rightarrow> nat" where
  "v3_subscribe_encoded_len p =
     fold (\<lambda>s len.
       let len = usize_saturating_add (usize_saturating_add len 2) (length (v3s_filter s))
       in usize_saturating_add len 1) (v3s_topic_filters p) 2"

definition v3_subscribe_validate :: "v3_subscribe \<Rightarrow> (unit, encode_error) result" where
  "v3_subscribe_validate p =
     (if v3s_packet_id p = 0 then Err (InvalidField ZeroPacketId)
      else if v3s_topic_filters p = [] then Err (InvalidField EmptyTopicFilters)
      else if list_ex (\<lambda>s. \<not> is_valid_topic_filter (v3s_filter s)) (v3s_topic_filters p)
      then Err (InvalidField InvalidTopicFilter)
      else Ok ())"

definition v3_subscribe_put :: "v3_subscribe \<Rightarrow> writer \<Rightarrow> (writer, encode_error) result" where
  "v3_subscribe_put p w =
     rbind (put_bytes (u16_to_be_bytes (v3s_packet_id p)) w) (\<lambda>w.
     put_each (\<lambda>s w.
       rbind (put_with (utf8_encode_str (v3s_filter s)) w) (\<lambda>w.
       put_u8 (qos_as_u8 (v3s_qos s)) w)) (v3s_topic_filters p) w)"

definition v3_subscribe_encode :: "v3_subscribe \<Rightarrow> encoder" where
  "v3_subscribe_encode p buf =
     rbind (v3_subscribe_validate p) (\<lambda>_.
     let remaining_len = v3_subscribe_encoded_len p in
     rbind (check_remaining_len remaining_len) (\<lambda>_.
     rbind (begin_frame (0x80 OR 0x02) remaining_len buf) (\<lambda>w.
     rbind (v3_subscribe_put p w) finish)))"

text \<open>One iteration of the loop in \<^verbatim>\<open>decode\<close>.\<close>

definition v3_subscription_body :: "v3_subscription reader" where
  "v3_subscription_body buf end offset =
     rbind (read_with utf8_decode buf end offset) (\<lambda>(topic_filter, offset).
     if \<not> is_valid_topic_filter topic_filter then Err MalformedPacket
     else
       rbind (read_u8 buf end offset) (\<lambda>(b, offset).
       rbind (ok_or MalformedPacket (qos_from_u8 (b AND 0x03))) (\<lambda>q.
       if b AND 0xFC \<noteq> 0 then Err MalformedPacket
       else Ok (\<lparr>v3s_filter = topic_filter, v3s_qos = q\<rparr>, offset))))"

definition v3_subscribe_body :: "v3_subscribe reader" where
  "v3_subscribe_body buf end offset =
     rbind (read_u16 buf end offset) (\<lambda>(packet_id, offset).
     if packet_id = 0 then Err MalformedPacket
     else
       rbind (read_each v3_subscription_body [] buf end offset) (\<lambda>(topic_filters, offset).
       if topic_filters = [] then Err MalformedPacket
       else Ok (\<lparr>v3s_packet_id = packet_id, v3s_topic_filters = topic_filters\<rparr>, offset)))"

definition v3_subscribe_decode :: "v3_subscribe decoder" where
  "v3_subscribe_decode buf =
     (if buf = [] then Err InsufficientData
      else
        rbind (index buf 0) (\<lambda>b0.
        if b0 \<noteq> (0x80 OR 0x02) then Err InvalidPacketFlags
        else
          rbind (read_frame_header buf) (\<lambda>(offset, end). v3_subscribe_body buf end offset)))"

definition v3_subscription_parser :: "v3_subscription parser" where
  "v3_subscription_parser s =
     rbind (p_with utf8_decode s) (\<lambda>(topic_filter, s).
     if \<not> is_valid_topic_filter topic_filter then Err MalformedPacket
     else
       rbind (p_u8 s) (\<lambda>(b, s).
       rbind (ok_or MalformedPacket (qos_from_u8 (b AND 0x03))) (\<lambda>q.
       if b AND 0xFC \<noteq> 0 then Err MalformedPacket
       else Ok (\<lparr>v3s_filter = topic_filter, v3s_qos = q\<rparr>, s))))"

lemma reads_v3_subscribe:
  "reads v3_subscribe_body
     (entries_parser v3_subscription_parser (\<lambda>i xs. \<lparr>v3s_packet_id = i, v3s_topic_filters = xs\<rparr>))"
  unfolding v3_subscribe_body_def [abs_def] entries_parser_def [abs_def]
    v3_subscription_body_def [abs_def] v3_subscription_parser_def [abs_def]
  by (intro reads_intros)

lemma qos_option_byte:
  "b AND 0xFC = 0 \<and> qos_from_u8 (b AND 0x03) = Some q \<longleftrightarrow> b = qos_as_u8 q"
proof
  assume *: "b AND 0xFC = 0 \<and> qos_from_u8 (b AND 0x03) = Some q"
  have "b = b AND (0xFC OR 0x03)" by (rule u8_bit_eqI) (simp_all add: byte_bits)
  then show "b = qos_as_u8 q" using * by (simp only: bit.conj_disj_distrib) (simp add: qos_from_u8_Some_iff)
next
  show "b = qos_as_u8 q \<Longrightarrow> b AND 0xFC = 0 \<and> qos_from_u8 (b AND 0x03) = Some q"
    by (cases q) (simp_all add: qos_from_u8_def)
qed

definition v3_subscription_ok :: "v3_subscription \<Rightarrow> bool" where
  "v3_subscription_ok s \<longleftrightarrow> mqtt_string (v3s_filter s) \<and> is_valid_topic_filter (v3s_filter s)"

definition v3_subscription_bytes :: "v3_subscription \<Rightarrow> bytes" where
  "v3_subscription_bytes s = binary_bytes (v3s_filter s) @ [qos_as_u8 (v3s_qos s)]"

lemma v3_subscription_parser_Ok_iff:
  "v3_subscription_parser s = Ok (x, s') \<longleftrightarrow> v3_subscription_ok x \<and> s = v3_subscription_bytes x @ s'"
proof
  assume "v3_subscription_parser s = Ok (x, s')"
  then show "v3_subscription_ok x \<and> s = v3_subscription_bytes x @ s'"
    by (auto simp: v3_subscription_parser_def v3_subscription_ok_def v3_subscription_bytes_def
        rbind_Ok_iff wire_simps simp flip: qos_option_byte split: if_splits)
next
  assume "v3_subscription_ok x \<and> s = v3_subscription_bytes x @ s'"
  then show "v3_subscription_parser s = Ok (x, s')"
    using qos_option_byte [of "qos_as_u8 (v3s_qos x)" "v3s_qos x"]
    by (auto simp: v3_subscription_parser_def v3_subscription_ok_def v3_subscription_bytes_def)
qed

lemma v3_subscription_bytes_not_Nil: "v3_subscription_bytes x \<noteq> []"
  by (simp add: v3_subscription_bytes_def)

lemma v3_subscription_parser_no_panic: "v3_subscription_parser s \<noteq> Panic"
  by (auto simp: v3_subscription_parser_def rbind_Panic_iff no_panic)

definition v3_subscribe_ok :: "v3_subscribe \<Rightarrow> bool" where
  "v3_subscribe_ok p \<longleftrightarrow>
     v3s_packet_id p \<noteq> 0 \<and> v3s_topic_filters p \<noteq> [] \<and> (\<forall>s \<in> set (v3s_topic_filters p). v3_subscription_ok s)"

definition v3_subscribe_bytes :: "v3_subscribe \<Rightarrow> bytes" where
  "v3_subscribe_bytes p =
     u16_to_be_bytes (v3s_packet_id p) @ concat (map v3_subscription_bytes (v3s_topic_filters p))"

lemma v3_subscribe_parser_Ok_iff:
  "entries_parser v3_subscription_parser (\<lambda>i xs. \<lparr>v3s_packet_id = i, v3s_topic_filters = xs\<rparr>) s = Ok (p, s') \<longleftrightarrow>
   v3_subscribe_ok p \<and> s = v3_subscribe_bytes p \<and> s' = []"
  unfolding v3_subscribe_ok_def v3_subscribe_bytes_def
  by (rule entries_parser_Ok_iff [OF v3_subscription_parser_Ok_iff v3_subscription_bytes_not_Nil]) simp_all

lemma writes_v3_subscribe:
  "writes (v3_subscribe_put p) (v3_subscribe_bytes p)
     (\<forall>s \<in> set (v3s_topic_filters p). 0 \<notin> set (v3s_filter s) \<and> length (v3s_filter s) \<le> 65535)"
  unfolding v3_subscribe_put_def [abs_def]
  by (rule writes_cong, (rule writes_intros)+)
    (simp_all add: v3_subscribe_bytes_def v3_subscription_bytes_def [abs_def])

lemma min_2_usize_max: "min 2 usize_max = 2"
  by (simp add: usize_max_def)

lemma saturating_fold_len:
  assumes "\<And>x n. f x (min n usize_max) = min (n + length (w x)) usize_max"
  shows "fold f xs (min n usize_max) = min (n + length (concat (map w xs))) usize_max"
  by (induction xs arbitrary: n) (simp_all add: assms add.assoc)

lemma v3_subscribe_encoded_len_eq:
  "v3_subscribe_encoded_len p = min (length (v3_subscribe_bytes p)) usize_max"
proof -
  let ?f = "\<lambda>s len. let len = usize_saturating_add (usize_saturating_add len 2) (length (v3s_filter s))
        in usize_saturating_add len 1"
  have "?f x (min n usize_max) = min (n + length (v3_subscription_bytes x)) usize_max" for x n
    by (simp add: v3_subscription_bytes_def Let_def)
  from saturating_fold_len [of ?f, OF this, of "v3s_topic_filters p" 2]
  show ?thesis
    unfolding v3_subscribe_encoded_len_def v3_subscribe_bytes_def
    by (simp only: min_2_usize_max length_append u16_to_be_bytes_length)
qed

lemma v3_subscribe_validate_Ok_iff:
  "v3_subscribe_validate p = Ok () \<longleftrightarrow> v3s_packet_id p \<noteq> 0 \<and> v3s_topic_filters p \<noteq> [] \<and>
     (\<forall>s \<in> set (v3s_topic_filters p). is_valid_topic_filter (v3s_filter s))"
  by (auto simp: v3_subscribe_validate_def list_ex_iff)

definition v3_subscribe_typed :: "v3_subscribe \<Rightarrow> bool" where
  "v3_subscribe_typed p \<longleftrightarrow> (\<forall>s \<in> set (v3s_topic_filters p). utf8_valid (v3s_filter s))"

lemma v3_subscribe_encoder:
  "v3_subscribe_ok p \<Longrightarrow> length (v3_subscribe_bytes p) \<le> max_remaining \<Longrightarrow>
   emits (v3_subscribe_encode p) (frame_wire (0x80 OR 0x02) (v3_subscribe_bytes p))"
  "v3_subscribe_encode p buf \<noteq> Panic"
  "v3_subscribe_typed p \<Longrightarrow> v3_subscribe_encode p buf = Ok r \<Longrightarrow>
   v3_subscribe_ok p \<and> length (v3_subscribe_bytes p) \<le> max_remaining"
proof -
  have ok: "v3_subscribe_validate p \<noteq> Panic" by (simp add: v3_subscribe_validate_def)
  note enc = framed_encoder [of v3_subscribe_encode p, OF v3_subscribe_encode_def [unfolded Let_def]
    writes_v3_subscribe v3_subscribe_encoded_len_eq ok]
  show "v3_subscribe_encode p buf \<noteq> Panic" by (rule enc(2))
  show "v3_subscribe_ok p \<and> length (v3_subscribe_bytes p) \<le> max_remaining"
    if "v3_subscribe_typed p" "v3_subscribe_encode p buf = Ok r"
    using enc(3) [OF that(2)] that(1)
    by (auto simp: v3_subscribe_ok_def v3_subscribe_validate_Ok_iff v3_subscribe_typed_def
        v3_subscription_ok_def mqtt_string_def)
  assume "v3_subscribe_ok p" "length (v3_subscribe_bytes p) \<le> max_remaining"
  then show "emits (v3_subscribe_encode p) (frame_wire (0x80 OR 0x02) (v3_subscribe_bytes p))"
    by (intro enc(1)) (auto simp: v3_subscribe_ok_def v3_subscribe_validate_Ok_iff v3_subscription_ok_def
        mqtt_string_def)
qed

interpretation v3_subscribe: framed_packet v3_subscribe_encode v3_subscribe_decode "\<lambda>_. 0x80 OR 0x02"
  v3_subscribe_bytes v3_subscribe_ok v3_subscribe_typed
proof
  have no_panic: "entries_parser v3_subscription_parser mk s \<noteq> Panic"
    for mk :: "u16 \<Rightarrow> v3_subscription list \<Rightarrow> v3_subscribe" and s
    by (rule entries_parser_no_panic [OF v3_subscription_parser_no_panic v3_subscription_parser_Ok_iff
        v3_subscription_bytes_not_Nil])
  note dec = framed_decoder_byte [where dec = v3_subscribe_decode and t = "0x80 OR 0x02",
    OF _ _ reads_v3_subscribe v3_subscribe_parser_Ok_iff no_panic]
  fix x buf n
  show "v3_subscribe_ok x \<Longrightarrow> length (v3_subscribe_bytes x) \<le> max_remaining \<Longrightarrow>
      emits (v3_subscribe_encode x) (frame_wire (0x80 OR 0x02) (v3_subscribe_bytes x))"
    "v3_subscribe_encode x buf \<noteq> Panic"
    "v3_subscribe_typed x \<Longrightarrow> v3_subscribe_encode x buf = Ok r \<Longrightarrow>
      v3_subscribe_ok x \<and> length (v3_subscribe_bytes x) \<le> max_remaining" for r
    by (rule v3_subscribe_encoder; assumption)+
  show "v3_subscribe_decode buf = Ok (x, n) \<longleftrightarrow> v3_subscribe_ok x \<and>
      length (v3_subscribe_bytes x) \<le> max_remaining \<and>
      n = length (frame_wire (0x80 OR 0x02) (v3_subscribe_bytes x)) \<and>
      (\<exists>rest. buf = frame_wire (0x80 OR 0x02) (v3_subscribe_bytes x) @ rest)"
    by (rule dec(1)) (simp_all add: v3_subscribe_decode_def)
  show "v3_subscribe_decode buf \<noteq> Panic"
    by (rule dec(2)) (simp_all add: v3_subscribe_decode_def)
qed

section \<open>SUBACK\<close>

datatype subscribe_return_code =
    SuccessQoS0
  | SuccessQoS1
  | SuccessQoS2
  | SubFailure

definition subscribe_return_code_from_u8 :: "u8 \<Rightarrow> subscribe_return_code option" where
  "subscribe_return_code_from_u8 value =
     (if value = 0x00 then Some SuccessQoS0
      else if value = 0x01 then Some SuccessQoS1
      else if value = 0x02 then Some SuccessQoS2
      else if value = 0x80 then Some SubFailure
      else None)"

fun subscribe_return_code_as_u8 :: "subscribe_return_code \<Rightarrow> u8" where
  "subscribe_return_code_as_u8 SuccessQoS0 = 0x00"
| "subscribe_return_code_as_u8 SuccessQoS1 = 0x01"
| "subscribe_return_code_as_u8 SuccessQoS2 = 0x02"
| "subscribe_return_code_as_u8 SubFailure = 0x80"

interpretation subscribe_return_code: byte_enum subscribe_return_code_from_u8 subscribe_return_code_as_u8
proof unfold_locales
  show "subscribe_return_code_from_u8 (subscribe_return_code_as_u8 c) = Some c" for c
    by (cases c) (simp_all add: subscribe_return_code_from_u8_def)
qed (auto simp: subscribe_return_code_from_u8_def split: if_splits)

record v3_suback =
  v3sa_packet_id :: u16
  v3sa_return_codes :: "subscribe_return_code list"

definition v3_suback_encoded_len :: "v3_suback \<Rightarrow> nat" where
  "v3_suback_encoded_len p = 2 + length (v3sa_return_codes p)"

definition v3_suback_validate :: "v3_suback \<Rightarrow> (unit, encode_error) result" where
  "v3_suback_validate p =
     (if v3sa_packet_id p = 0 then Err (InvalidField ZeroPacketId)
      else if v3sa_return_codes p = [] then Err (InvalidField EmptyReturnCodes)
      else Ok ())"

definition v3_suback_put :: "v3_suback \<Rightarrow> writer \<Rightarrow> (writer, encode_error) result" where
  "v3_suback_put p w =
     rbind (put_bytes (u16_to_be_bytes (v3sa_packet_id p)) w) (\<lambda>w.
     put_each (\<lambda>code. put_u8 (subscribe_return_code_as_u8 code)) (v3sa_return_codes p) w)"

definition v3_suback_encode :: "v3_suback \<Rightarrow> encoder" where
  "v3_suback_encode p buf =
     rbind (v3_suback_validate p) (\<lambda>_.
     let remaining_len = v3_suback_encoded_len p in
     rbind (check_remaining_len remaining_len) (\<lambda>_.
     rbind (begin_frame 0x90 remaining_len buf) (\<lambda>w.
     rbind (v3_suback_put p w) finish)))"

text \<open>One iteration of the loop: \<^verbatim>\<open>SubscribeReturnCode::from_u8(buf[offset])\<close>.\<close>

definition v3_return_code_body :: "subscribe_return_code reader" where
  "v3_return_code_body buf end offset =
     rbind (read_u8 buf end offset) (\<lambda>(b, offset).
     rbind (ok_or MalformedPacket (subscribe_return_code_from_u8 b)) (\<lambda>code. Ok (code, offset)))"

definition v3_suback_body :: "v3_suback reader" where
  "v3_suback_body buf end offset =
     rbind (read_u16 buf end offset) (\<lambda>(packet_id, offset).
     if packet_id = 0 then Err MalformedPacket
     else
       rbind (read_each v3_return_code_body [] buf end offset) (\<lambda>(return_codes, offset).
       if return_codes = [] then Err MalformedPacket
       else Ok (\<lparr>v3sa_packet_id = packet_id, v3sa_return_codes = return_codes\<rparr>, offset)))"

definition v3_suback_decode :: "v3_suback decoder" where
  "v3_suback_decode buf =
     (if buf = [] then Err InsufficientData
      else
        rbind (index buf 0) (\<lambda>b0.
        if b0 AND 0xF0 \<noteq> 0x90 then Err InvalidPacketType
        else if b0 AND 0x0F \<noteq> 0 then Err InvalidPacketFlags
        else
          rbind (read_frame_header buf) (\<lambda>(offset, end). v3_suback_body buf end offset)))"

definition v3_return_code_parser :: "subscribe_return_code parser" where
  "v3_return_code_parser s =
     rbind (p_u8 s) (\<lambda>(b, s).
     rbind (ok_or MalformedPacket (subscribe_return_code_from_u8 b)) (\<lambda>code. Ok (code, s)))"

lemma reads_v3_suback:
  "reads v3_suback_body
     (entries_parser v3_return_code_parser (\<lambda>i xs. \<lparr>v3sa_packet_id = i, v3sa_return_codes = xs\<rparr>))"
  unfolding v3_suback_body_def [abs_def] entries_parser_def [abs_def]
    v3_return_code_body_def [abs_def] v3_return_code_parser_def [abs_def]
  by (intro reads_intros)

lemma v3_return_code_parser_Ok_iff:
  "v3_return_code_parser s = Ok (c, s') \<longleftrightarrow> True \<and> s = [subscribe_return_code_as_u8 c] @ s'"
  by (auto simp: v3_return_code_parser_def rbind_Ok_iff wire_simps subscribe_return_code.from_u8_iff)

definition v3_suback_ok :: "v3_suback \<Rightarrow> bool" where
  "v3_suback_ok p \<longleftrightarrow> v3sa_packet_id p \<noteq> 0 \<and> v3sa_return_codes p \<noteq> []"

definition v3_suback_bytes :: "v3_suback \<Rightarrow> bytes" where
  "v3_suback_bytes p =
     u16_to_be_bytes (v3sa_packet_id p) @ concat (map (\<lambda>c. [subscribe_return_code_as_u8 c]) (v3sa_return_codes p))"

lemma length_v3_suback_bytes: "length (v3_suback_bytes p) = 2 + length (v3sa_return_codes p)"
  by (simp add: v3_suback_bytes_def length_concat comp_def sum_list_triv)

lemma v3_suback_parser_Ok_iff:
  "entries_parser v3_return_code_parser (\<lambda>i xs. \<lparr>v3sa_packet_id = i, v3sa_return_codes = xs\<rparr>) s = Ok (p, s') \<longleftrightarrow>
   v3_suback_ok p \<and> s = v3_suback_bytes p \<and> s' = []"
proof -
  have "entries_parser v3_return_code_parser (\<lambda>i xs. \<lparr>v3sa_packet_id = i, v3sa_return_codes = xs\<rparr>) s = Ok (p, s') \<longleftrightarrow>
     (v3sa_packet_id p \<noteq> 0 \<and> v3sa_return_codes p \<noteq> [] \<and> (\<forall>x \<in> set (v3sa_return_codes p). True)) \<and>
     s = u16_to_be_bytes (v3sa_packet_id p) @
       concat (map (\<lambda>c. [subscribe_return_code_as_u8 c]) (v3sa_return_codes p)) \<and> s' = []"
    by (rule entries_parser_Ok_iff [OF v3_return_code_parser_Ok_iff]) simp_all
  then show ?thesis by (simp add: v3_suback_ok_def v3_suback_bytes_def)
qed

lemma writes_v3_suback: "writes (v3_suback_put p) (v3_suback_bytes p) True"
  unfolding v3_suback_put_def [abs_def] v3_suback_bytes_def
  by (rule writes_cong, (rule writes_intros)+) simp_all

lemma v3_suback_validate_Ok_iff: "v3_suback_validate p = Ok () \<longleftrightarrow> v3_suback_ok p"
  by (auto simp: v3_suback_validate_def v3_suback_ok_def)

lemma v3_suback_encoder:
  "v3_suback_ok p \<Longrightarrow> length (v3_suback_bytes p) \<le> max_remaining \<Longrightarrow>
   emits (v3_suback_encode p) (frame_wire 0x90 (v3_suback_bytes p))"
  "v3_suback_encode p buf \<noteq> Panic"
  "v3_suback_encode p buf = Ok r \<Longrightarrow>
   v3_suback_ok p \<and> length (v3_suback_bytes p) \<le> max_remaining"
proof -
  have ok: "v3_suback_validate p \<noteq> Panic" by (simp add: v3_suback_validate_def)
  have n: "v3_suback_encoded_len p = length (v3_suback_bytes p)"
    by (simp add: v3_suback_encoded_len_def length_v3_suback_bytes)
  note enc = framed_encoder_len [of v3_suback_encode p, OF v3_suback_encode_def [unfolded Let_def]
    writes_v3_suback n ok]
  show "v3_suback_encode p buf \<noteq> Panic" by (rule enc(2))
  show "v3_suback_ok p \<and> length (v3_suback_bytes p) \<le> max_remaining" if "v3_suback_encode p buf = Ok r"
    using enc(3) [OF that] by (simp add: v3_suback_validate_Ok_iff)
  assume "v3_suback_ok p" "length (v3_suback_bytes p) \<le> max_remaining"
  then show "emits (v3_suback_encode p) (frame_wire 0x90 (v3_suback_bytes p))"
    by (intro enc(1)) (auto simp: v3_suback_validate_Ok_iff)
qed

interpretation v3_suback: framed_packet v3_suback_encode v3_suback_decode "\<lambda>_. 0x90 OR 0"
  v3_suback_bytes v3_suback_ok "\<lambda>_. True"
proof
  have "v3_return_code_parser s \<noteq> Panic" for s
    by (auto simp: v3_return_code_parser_def rbind_Panic_iff no_panic)
  then have no_panic: "entries_parser v3_return_code_parser mk s \<noteq> Panic"
    for mk :: "u16 \<Rightarrow> subscribe_return_code list \<Rightarrow> v3_suback" and s
    by (rule entries_parser_no_panic [OF _ v3_return_code_parser_Ok_iff]) simp_all
  note dec = framed_decoder [where dec = v3_suback_decode and t = "0x90" and f = 0,
    OF _ _ reads_v3_suback v3_suback_parser_Ok_iff no_panic]
  fix x buf n
  show "emits (v3_suback_encode x) (frame_wire (0x90 OR 0) (v3_suback_bytes x))"
    if "v3_suback_ok x" "length (v3_suback_bytes x) \<le> max_remaining"
    using v3_suback_encoder(1) [OF that] by simp
  show "v3_suback_encode x buf \<noteq> Panic" by (rule v3_suback_encoder)
  show "v3_suback_encode x buf = Ok r \<Longrightarrow>
      v3_suback_ok x \<and> length (v3_suback_bytes x) \<le> max_remaining" for r by (rule v3_suback_encoder)
  show "v3_suback_decode buf = Ok (x, n) \<longleftrightarrow> v3_suback_ok x \<and>
      length (v3_suback_bytes x) \<le> max_remaining \<and>
      n = length (frame_wire (0x90 OR 0) (v3_suback_bytes x)) \<and>
      (\<exists>rest. buf = frame_wire (0x90 OR 0) (v3_suback_bytes x) @ rest)"
    by (rule dec(1)) (simp_all add: v3_suback_decode_def)
  show "v3_suback_decode buf \<noteq> Panic"
    by (rule dec(2)) (simp_all add: v3_suback_decode_def)
qed

section \<open>UNSUBSCRIBE\<close>

record v3_unsubscribe =
  v3u_packet_id :: u16
  v3u_topic_filters :: "rstring list"

definition v3_unsubscribe_encoded_len :: "v3_unsubscribe \<Rightarrow> nat" where
  "v3_unsubscribe_encoded_len p =
     fold (\<lambda>f len. usize_saturating_add (usize_saturating_add len 2) (length f)) (v3u_topic_filters p) 2"

definition v3_unsubscribe_validate :: "v3_unsubscribe \<Rightarrow> (unit, encode_error) result" where
  "v3_unsubscribe_validate p =
     (if v3u_packet_id p = 0 then Err (InvalidField ZeroPacketId)
      else if v3u_topic_filters p = [] then Err (InvalidField EmptyTopicFilters)
      else if list_ex (\<lambda>f. \<not> is_valid_topic_filter f) (v3u_topic_filters p)
      then Err (InvalidField InvalidTopicFilter)
      else Ok ())"

definition v3_unsubscribe_put :: "v3_unsubscribe \<Rightarrow> writer \<Rightarrow> (writer, encode_error) result" where
  "v3_unsubscribe_put p w =
     rbind (put_bytes (u16_to_be_bytes (v3u_packet_id p)) w) (\<lambda>w.
     put_each (\<lambda>f. put_with (utf8_encode_str f)) (v3u_topic_filters p) w)"

definition v3_unsubscribe_encode :: "v3_unsubscribe \<Rightarrow> encoder" where
  "v3_unsubscribe_encode p buf =
     rbind (v3_unsubscribe_validate p) (\<lambda>_.
     let remaining_len = v3_unsubscribe_encoded_len p in
     rbind (check_remaining_len remaining_len) (\<lambda>_.
     rbind (begin_frame (0xA0 OR 0x02) remaining_len buf) (\<lambda>w.
     rbind (v3_unsubscribe_put p w) finish)))"

definition v3_filter_body :: "rstring reader" where
  "v3_filter_body buf end offset =
     rbind (read_with utf8_decode buf end offset) (\<lambda>(topic_filter, offset).
     if \<not> is_valid_topic_filter topic_filter then Err MalformedPacket
     else Ok (topic_filter, offset))"

definition v3_unsubscribe_body :: "v3_unsubscribe reader" where
  "v3_unsubscribe_body buf end offset =
     rbind (read_u16 buf end offset) (\<lambda>(packet_id, offset).
     if packet_id = 0 then Err MalformedPacket
     else
       rbind (read_each v3_filter_body [] buf end offset) (\<lambda>(topic_filters, offset).
       if topic_filters = [] then Err MalformedPacket
       else Ok (\<lparr>v3u_packet_id = packet_id, v3u_topic_filters = topic_filters\<rparr>, offset)))"

definition v3_unsubscribe_decode :: "v3_unsubscribe decoder" where
  "v3_unsubscribe_decode buf =
     (if buf = [] then Err InsufficientData
      else
        rbind (index buf 0) (\<lambda>b0.
        if b0 \<noteq> (0xA0 OR 0x02) then Err InvalidPacketFlags
        else
          rbind (read_frame_header buf) (\<lambda>(offset, end). v3_unsubscribe_body buf end offset)))"

definition v3_filter_parser :: "rstring parser" where
  "v3_filter_parser s =
     rbind (p_with utf8_decode s) (\<lambda>(topic_filter, s).
     if \<not> is_valid_topic_filter topic_filter then Err MalformedPacket
     else Ok (topic_filter, s))"

lemma reads_v3_unsubscribe:
  "reads v3_unsubscribe_body
     (entries_parser v3_filter_parser (\<lambda>i xs. \<lparr>v3u_packet_id = i, v3u_topic_filters = xs\<rparr>))"
  unfolding v3_unsubscribe_body_def [abs_def] entries_parser_def [abs_def]
    v3_filter_body_def [abs_def] v3_filter_parser_def [abs_def]
  by (intro reads_intros)

lemma v3_filter_parser_Ok_iff:
  "v3_filter_parser s = Ok (f, s') \<longleftrightarrow>
     (mqtt_string f \<and> is_valid_topic_filter f) \<and> s = binary_bytes f @ s'"
  by (auto simp: v3_filter_parser_def rbind_Ok_iff wire_simps split: if_splits)

definition v3_unsubscribe_ok :: "v3_unsubscribe \<Rightarrow> bool" where
  "v3_unsubscribe_ok p \<longleftrightarrow> v3u_packet_id p \<noteq> 0 \<and> v3u_topic_filters p \<noteq> [] \<and>
     (\<forall>f \<in> set (v3u_topic_filters p). mqtt_string f \<and> is_valid_topic_filter f)"

definition v3_unsubscribe_bytes :: "v3_unsubscribe \<Rightarrow> bytes" where
  "v3_unsubscribe_bytes p =
     u16_to_be_bytes (v3u_packet_id p) @ concat (map binary_bytes (v3u_topic_filters p))"

lemma binary_bytes_not_Nil: "binary_bytes f \<noteq> []"
  by (metis length_binary_bytes add_is_0 list.size(3) zero_neq_numeral)

lemma v3_unsubscribe_parser_Ok_iff:
  "entries_parser v3_filter_parser (\<lambda>i xs. \<lparr>v3u_packet_id = i, v3u_topic_filters = xs\<rparr>) s = Ok (p, s') \<longleftrightarrow>
   v3_unsubscribe_ok p \<and> s = v3_unsubscribe_bytes p \<and> s' = []"
  unfolding v3_unsubscribe_ok_def v3_unsubscribe_bytes_def
  by (rule entries_parser_Ok_iff [OF v3_filter_parser_Ok_iff binary_bytes_not_Nil]) simp_all

lemma writes_v3_unsubscribe:
  "writes (v3_unsubscribe_put p) (v3_unsubscribe_bytes p)
     (\<forall>f \<in> set (v3u_topic_filters p). 0 \<notin> set f \<and> length f \<le> 65535)"
  unfolding v3_unsubscribe_put_def [abs_def] v3_unsubscribe_bytes_def
  by (rule writes_cong, (rule writes_intros)+) simp_all

lemma v3_unsubscribe_encoded_len_eq:
  "v3_unsubscribe_encoded_len p = min (length (v3_unsubscribe_bytes p)) usize_max"
proof -
  let ?f = "\<lambda>f len. usize_saturating_add (usize_saturating_add len 2) (length f)"
  have "?f x (min n usize_max) = min (n + length (binary_bytes x)) usize_max" for x :: rstring and n
    by simp
  from saturating_fold_len [of ?f, OF this, of "v3u_topic_filters p" 2]
  show ?thesis
    unfolding v3_unsubscribe_encoded_len_def v3_unsubscribe_bytes_def
    by (simp only: min_2_usize_max length_append u16_to_be_bytes_length)
qed

lemma v3_unsubscribe_validate_Ok_iff:
  "v3_unsubscribe_validate p = Ok () \<longleftrightarrow> v3u_packet_id p \<noteq> 0 \<and> v3u_topic_filters p \<noteq> [] \<and>
     (\<forall>f \<in> set (v3u_topic_filters p). is_valid_topic_filter f)"
  by (auto simp: v3_unsubscribe_validate_def list_ex_iff)

definition v3_unsubscribe_typed :: "v3_unsubscribe \<Rightarrow> bool" where
  "v3_unsubscribe_typed p \<longleftrightarrow> (\<forall>f \<in> set (v3u_topic_filters p). utf8_valid f)"

lemma v3_unsubscribe_encoder:
  "v3_unsubscribe_ok p \<Longrightarrow> length (v3_unsubscribe_bytes p) \<le> max_remaining \<Longrightarrow>
   emits (v3_unsubscribe_encode p) (frame_wire (0xA0 OR 0x02) (v3_unsubscribe_bytes p))"
  "v3_unsubscribe_encode p buf \<noteq> Panic"
  "v3_unsubscribe_typed p \<Longrightarrow> v3_unsubscribe_encode p buf = Ok r \<Longrightarrow>
   v3_unsubscribe_ok p \<and> length (v3_unsubscribe_bytes p) \<le> max_remaining"
proof -
  have ok: "v3_unsubscribe_validate p \<noteq> Panic" by (simp add: v3_unsubscribe_validate_def)
  note enc = framed_encoder [of v3_unsubscribe_encode p, OF v3_unsubscribe_encode_def [unfolded Let_def]
    writes_v3_unsubscribe v3_unsubscribe_encoded_len_eq ok]
  show "v3_unsubscribe_encode p buf \<noteq> Panic" by (rule enc(2))
  show "v3_unsubscribe_ok p \<and> length (v3_unsubscribe_bytes p) \<le> max_remaining"
    if "v3_unsubscribe_typed p" "v3_unsubscribe_encode p buf = Ok r"
    using enc(3) [OF that(2)] that(1)
    by (auto simp: v3_unsubscribe_ok_def v3_unsubscribe_validate_Ok_iff v3_unsubscribe_typed_def
        mqtt_string_def)
  assume "v3_unsubscribe_ok p" "length (v3_unsubscribe_bytes p) \<le> max_remaining"
  then show "emits (v3_unsubscribe_encode p) (frame_wire (0xA0 OR 0x02) (v3_unsubscribe_bytes p))"
    by (intro enc(1)) (auto simp: v3_unsubscribe_ok_def v3_unsubscribe_validate_Ok_iff mqtt_string_def)
qed

interpretation v3_unsubscribe: framed_packet v3_unsubscribe_encode v3_unsubscribe_decode
  "\<lambda>_. 0xA0 OR 0x02" v3_unsubscribe_bytes v3_unsubscribe_ok v3_unsubscribe_typed
proof
  have "v3_filter_parser s \<noteq> Panic" for s
    by (auto simp: v3_filter_parser_def rbind_Panic_iff no_panic)
  then have no_panic: "entries_parser v3_filter_parser mk s \<noteq> Panic"
    for mk :: "u16 \<Rightarrow> rstring list \<Rightarrow> v3_unsubscribe" and s
    by (rule entries_parser_no_panic [OF _ v3_filter_parser_Ok_iff binary_bytes_not_Nil])
  note dec = framed_decoder_byte [where dec = v3_unsubscribe_decode and t = "0xA0 OR 0x02",
    OF _ _ reads_v3_unsubscribe v3_unsubscribe_parser_Ok_iff no_panic]
  fix x buf n
  show "v3_unsubscribe_ok x \<Longrightarrow> length (v3_unsubscribe_bytes x) \<le> max_remaining \<Longrightarrow>
      emits (v3_unsubscribe_encode x) (frame_wire (0xA0 OR 0x02) (v3_unsubscribe_bytes x))"
    "v3_unsubscribe_encode x buf \<noteq> Panic"
    "v3_unsubscribe_typed x \<Longrightarrow> v3_unsubscribe_encode x buf = Ok r \<Longrightarrow>
      v3_unsubscribe_ok x \<and> length (v3_unsubscribe_bytes x) \<le> max_remaining" for r
    by (rule v3_unsubscribe_encoder; assumption)+
  show "v3_unsubscribe_decode buf = Ok (x, n) \<longleftrightarrow> v3_unsubscribe_ok x \<and>
      length (v3_unsubscribe_bytes x) \<le> max_remaining \<and>
      n = length (frame_wire (0xA0 OR 0x02) (v3_unsubscribe_bytes x)) \<and>
      (\<exists>rest. buf = frame_wire (0xA0 OR 0x02) (v3_unsubscribe_bytes x) @ rest)"
    by (rule dec(1)) (simp_all add: v3_unsubscribe_decode_def)
  show "v3_unsubscribe_decode buf \<noteq> Panic"
    by (rule dec(2)) (simp_all add: v3_unsubscribe_decode_def)
qed

end
