(* ===== verification/V5Subscribe.thy ===== *)
theory V5Subscribe
  imports V5Acks V311Subscribe Subscription
begin

unbundle bit_operations_syntax

text \<open>
  The subscription packets of MQTT 5: SUBSCRIBE (\<^verbatim>\<open>src/v5/subscribe.rs\<close>), SUBACK
  (\<^verbatim>\<open>src/v5/suback.rs\<close>), UNSUBSCRIBE (\<^verbatim>\<open>src/v5/unsubscribe.rs\<close>) and UNSUBACK
  (\<^verbatim>\<open>src/v5/unsuback.rs\<close>): a packet identifier, properties, and one or more entries. Lemma
  \<open>entries_packet\<close> gives the packet contract from one entry.
\<close>

section \<open>A packet identifier, properties and entries\<close>

definition v5_entries_parser ::
    "(properties \<Rightarrow> (unit, decode_error) result) \<Rightarrow> 'a parser \<Rightarrow>
     (u16 \<Rightarrow> properties \<Rightarrow> 'a list \<Rightarrow> 'p) \<Rightarrow> 'p parser" where
  "v5_entries_parser check p mk s =
     rbind (p_u16 s) (\<lambda>(packet_id, s).
     if packet_id = 0 then Err MalformedPacket
     else
       rbind (p_sub properties_decode s) (\<lambda>(properties, s).
       rbind (check properties) (\<lambda>_.
       rbind (p_each p s) (\<lambda>(entries, s).
       if entries = [] then Err MalformedPacket else p_end (mk packet_id properties entries) s))))"

definition v5_entries_bytes :: "u16 \<Rightarrow> properties \<Rightarrow> ('a \<Rightarrow> bytes) \<Rightarrow> 'a list \<Rightarrow> bytes" where
  "v5_entries_bytes packet_id properties w entries =
     u16_to_be_bytes packet_id @ properties_bytes properties @ concat (map w entries)"

definition v5_entries_image :: "u16 \<Rightarrow> properties \<Rightarrow> ('a \<Rightarrow> bytes) \<Rightarrow> 'a list \<Rightarrow> bytes" where
  "v5_entries_image packet_id properties w entries =
     u16_to_be_bytes packet_id @ properties_image properties @ concat (map w entries)"

definition v5_entries_ok ::
    "u16 \<Rightarrow> (properties \<Rightarrow> (unit, decode_error) result) \<Rightarrow> properties \<Rightarrow> ('a \<Rightarrow> bool) \<Rightarrow> 'a list \<Rightarrow> bool" where
  "v5_entries_ok packet_id check properties ok entries \<longleftrightarrow>
     packet_id \<noteq> 0 \<and> check properties = Ok () \<and> properties_ok False properties \<and>
     entries \<noteq> [] \<and> (\<forall>x \<in> set entries. ok x)"

lemma v5_entries_parser_iff:
  assumes p: "\<And>s x s'. p s = Ok (x, s') \<longleftrightarrow> ok x \<and> s = w x @ s'" "\<And>x. w x \<noteq> []"
    and mk: "\<And>y. mk (pid y) (props y) (entries y) = y"
      "\<And>i ps xs. pid (mk i ps xs) = i \<and> props (mk i ps xs) = ps \<and> entries (mk i ps xs) = xs"
  shows "v5_entries_parser check p mk s = Ok (y, s') \<longleftrightarrow>
    v5_entries_ok (pid y) check (props y) ok (entries y) \<and>
    s = v5_entries_bytes (pid y) (props y) w (entries y) \<and> s' = []"
proof -
  have y: "y = mk i ps xs \<longleftrightarrow> i = pid y \<and> ps = props y \<and> xs = entries y" for i ps xs
    using mk(1) [of y] mk(2) [of i ps xs] by auto
  show ?thesis
  proof
    assume "v5_entries_parser check p mk s = Ok (y, s')"
    then show "v5_entries_ok (pid y) check (props y) ok (entries y) \<and>
        s = v5_entries_bytes (pid y) (props y) w (entries y) \<and> s' = []"
      by (auto simp: v5_entries_parser_def v5_entries_ok_def v5_entries_bytes_def y rbind_Ok_iff
          wire_simps p_each_Ok_iff [OF p] split: if_splits)
  next
    assume a: "v5_entries_ok (pid y) check (props y) ok (entries y) \<and>
        s = v5_entries_bytes (pid y) (props y) w (entries y) \<and> s' = []"
    then have "p_each p (concat (map w (entries y))) = Ok (entries y, [])"
      by (simp add: p_each_Ok_iff [OF p] v5_entries_ok_def)
    with a show "v5_entries_parser check p mk s = Ok (y, s')"
      by (simp add: v5_entries_parser_def v5_entries_ok_def v5_entries_bytes_def mk p_end_def)
  qed
qed

lemma v5_entries_parser_no_panic:
  assumes "\<And>ps. check ps \<noteq> Panic" "\<And>s. p s \<noteq> Panic"
    "\<And>s x s'. p s = Ok (x, s') \<longleftrightarrow> ok x \<and> s = w x @ s'" "\<And>x. w x \<noteq> []"
  shows "v5_entries_parser check p mk s \<noteq> Panic"
proof -
  have "p_each p s \<noteq> Panic" for s
    using assms by (intro p_each_no_panic) auto
  then show ?thesis using assms(1) by (auto simp: v5_entries_parser_def rbind_Panic_iff no_panic)
qed

lemma entries_packet:
  fixes check :: "properties \<Rightarrow> (unit, decode_error) result"
  assumes enc: "\<And>x buf. enc x buf = rbind (validate x) (\<lambda>_.
      rbind (open_frame (t OR f) (len x) buf) (\<lambda>v. rbind (put x v) finish))"
    and put: "\<And>x. writes (put x) (v5_entries_image (pid x) (props x) w (entries x))
      (properties_fit (props x) \<and> (\<forall>e \<in> set (entries x). fits e))"
    and len: "\<And>x. len x = min (length (v5_entries_image (pid x) (props x) w (entries x))) usize_max"
    and validate: "\<And>x. validate x \<noteq> Panic" "\<And>x. validate x = Ok () \<longleftrightarrow>
      pid x \<noteq> 0 \<and> check (props x) = Ok () \<and> no_duplicates False (props x) \<and>
      entries x \<noteq> [] \<and> (\<forall>e \<in> set (entries x). valid e)"
    and ok: "\<And>e. ok e \<longleftrightarrow> typed e \<and> fits e \<and> valid e"
    and dec: "dec [] = Err InsufficientData"
    "\<And>b r. dec (b # r) =
      (if b AND 0xF0 \<noteq> t then Err InvalidPacketType
       else if b AND 0x0F \<noteq> f then Err InvalidPacketFlags
       else rbind (read_frame_header (b # r)) (\<lambda>(offset, end). rd (b # r) end offset))"
    and rd: "reads rd (v5_entries_parser check p mk)"
    and p: "\<And>s x s'. p s = Ok (x, s') \<longleftrightarrow> ok x \<and> s = w x @ s'" "\<And>x. w x \<noteq> []" "\<And>s. p s \<noteq> Panic"
    and check: "\<And>ps. check ps \<noteq> Panic"
    and mk: "\<And>y. mk (pid y) (props y) (entries y) = y"
      "\<And>i ps xs. pid (mk i ps xs) = i \<and> props (mk i ps xs) = ps \<and> entries (mk i ps xs) = xs"
    and byte: "(t OR f) AND 0xF0 = t" "(t OR f) AND 0x0F = f"
  shows "framed_packet enc dec (\<lambda>_. t OR f)
    (\<lambda>x. v5_entries_bytes (pid x) (props x) w (entries x))
    (\<lambda>x. v5_entries_ok (pid x) check (props x) ok (entries x))
    (\<lambda>x. properties_typed (props x) \<and> (\<forall>e \<in> set (entries x). typed e))"
proof
  fix x buf n
  have img: "v5_entries_image (pid x) (props x) w (entries x) =
      v5_entries_bytes (pid x) (props x) w (entries x)"
    if "properties_fit (props x) \<and> (\<forall>e \<in> set (entries x). fits e)"
    using that by (simp add: v5_entries_image_def v5_entries_bytes_def)
  note enc = duplex_encoder [of enc x, OF enc put len validate(1) img]
  note dec = framed_decoder [where dec = dec and t = t and f = f,
    OF dec rd v5_entries_parser_iff [OF p(1,2) mk] v5_entries_parser_no_panic [OF check p(3,1,2)] byte]
  show "emits (enc x) (frame_wire (t OR f) (v5_entries_bytes (pid x) (props x) w (entries x)))"
    if "v5_entries_ok (pid x) check (props x) ok (entries x)"
      "length (v5_entries_bytes (pid x) (props x) w (entries x)) \<le> max_remaining"
    by (rule enc(1)) (use that in \<open>auto simp: v5_entries_ok_def validate(2) ok properties_ok_iff\<close>)
  show "enc x buf \<noteq> Panic" by (rule enc(2))
  show "v5_entries_ok (pid x) check (props x) ok (entries x) \<and>
      length (v5_entries_bytes (pid x) (props x) w (entries x)) \<le> max_remaining"
    if "properties_typed (props x) \<and> (\<forall>e \<in> set (entries x). typed e)" "enc x buf = Ok r" for r
    using enc(3) [OF _ that(2)] that(1) by (auto simp: v5_entries_ok_def validate(2) ok properties_ok_iff)
  show "dec buf = Ok (x, n) \<longleftrightarrow> v5_entries_ok (pid x) check (props x) ok (entries x) \<and>
      length (v5_entries_bytes (pid x) (props x) w (entries x)) \<le> max_remaining \<and>
      n = length (frame_wire (t OR f) (v5_entries_bytes (pid x) (props x) w (entries x))) \<and>
      (\<exists>rest. buf = frame_wire (t OR f) (v5_entries_bytes (pid x) (props x) w (entries x)) @ rest)"
    by (rule dec(1))
  show "dec buf \<noteq> Panic" by (rule dec(2))
qed

lemma v5_entries_len:
  assumes "\<And>x n. g x (min n usize_max) = min (n + length (w x)) usize_max"
  shows "fold g xs (usize_saturating_add 2 (properties_encoded_len ps)) =
    min (length (v5_entries_image i ps w xs)) usize_max"
  using saturating_fold_len [of g w, OF assms, of xs "2 + properties_encoded_len ps"]
  by (simp add: v5_entries_image_def length_properties_image add.assoc)

section \<open>SUBSCRIBE\<close>

definition retain_handling_from_u8 :: "u8 \<Rightarrow> retain_handling option" where
  "retain_handling_from_u8 value =
     (if value = 0 then Some SendRetained
      else if value = 1 then Some SendRetainedIfNotExists
      else if value = 2 then Some DoNotSendRetained
      else None)"

fun retain_handling_as_u8 :: "retain_handling \<Rightarrow> u8" where
  "retain_handling_as_u8 SendRetained = 0"
| "retain_handling_as_u8 SendRetainedIfNotExists = 1"
| "retain_handling_as_u8 DoNotSendRetained = 2"

interpretation retain_handling: byte_enum retain_handling_from_u8 retain_handling_as_u8
proof unfold_locales
  show "retain_handling_from_u8 (retain_handling_as_u8 c) = Some c" for c
    by (cases c) (simp_all add: retain_handling_from_u8_def)
qed (auto simp: retain_handling_from_u8_def split: if_splits)

record v5_subscribe_packet =
  v5sp_packet_id :: u16
  v5sp_subscriptions :: "v5_subscription list"
  v5sp_properties :: properties

text \<open>\<^verbatim>\<open>impl From<SubscriptionEntry> for Subscription\<close>\<close>

definition v5_subscription_from :: "subscription_entry \<Rightarrow> v5_subscription" where
  "v5_subscription_from e =
     \<lparr>v5s_topic_filter = se_topic_filter e, v5s_qos = se_requested_qos e, v5s_no_local = se_no_local e,
      v5s_retain_as_published = se_retain_as_published e, v5s_retain_handling = se_retain_handling e\<rparr>"

definition options_byte :: "v5_subscription \<Rightarrow> u8" where
  "options_byte s =
     (let options = qos_as_u8 (v5s_qos s);
          options = (if v5s_no_local s then options OR 0x04 else options);
          options = (if v5s_retain_as_published s then options OR 0x08 else options)
      in options OR push_bit 4 (retain_handling_as_u8 (v5s_retain_handling s)))"

definition v5_subscribe_encoded_len :: "v5_subscribe_packet \<Rightarrow> nat" where
  "v5_subscribe_encoded_len p =
     fold (\<lambda>sub len.
       let len = usize_saturating_add (usize_saturating_add len 2) (length (v5s_topic_filter sub))
       in usize_saturating_add len 1) (v5sp_subscriptions p)
       (usize_saturating_add 2 (properties_encoded_len (v5sp_properties p)))"

text \<open>The loop of \<^verbatim>\<open>validate\<close> over the subscriptions.\<close>

fun v5_subscriptions_validate :: "v5_subscription list \<Rightarrow> (unit, encode_error) result" where
  "v5_subscriptions_validate [] = Ok ()"
| "v5_subscriptions_validate (sub # subs) =
     (if \<not> is_valid_v5_topic_filter (v5s_topic_filter sub) then Err (InvalidField InvalidTopicFilter)
      else if v5s_no_local sub \<and> starts_with share_prefix (v5s_topic_filter sub)
      then Err (InvalidField SharedSubscriptionNoLocal)
      else v5_subscriptions_validate subs)"

definition v5_subscribe_validate :: "v5_subscribe_packet \<Rightarrow> (unit, encode_error) result" where
  "v5_subscribe_validate p =
     (if v5sp_packet_id p = 0 then Err (InvalidField ZeroPacketId)
      else if v5sp_subscriptions p = [] then Err (InvalidField EmptySubscriptions)
      else
        rbind (v5_subscriptions_validate (v5sp_subscriptions p)) (\<lambda>_.
        if is_err (validate_for_subscribe (v5sp_properties p))
        then Err (InvalidField PropertyValidationFailed)
        else if is_err (validate_duplicate_identifiers False (v5sp_properties p))
        then Err (InvalidField DuplicatePropertyIdentifier)
        else Ok ()))"

definition v5_subscribe_put :: "v5_subscribe_packet \<Rightarrow> writer \<Rightarrow> (writer, encode_error) result" where
  "v5_subscribe_put p w =
     rbind (put_bytes (u16_to_be_bytes (v5sp_packet_id p)) w) (\<lambda>w.
     rbind (put_with (properties_encode (v5sp_properties p)) w) (\<lambda>w.
     put_each (\<lambda>sub w.
       rbind (put_with (utf8_encode_str (v5s_topic_filter sub)) w) (\<lambda>w.
       put_u8 (options_byte sub) w)) (v5sp_subscriptions p) w))"

definition v5_subscribe_encode :: "v5_subscribe_packet \<Rightarrow> encoder" where
  "v5_subscribe_encode p buf =
     rbind (v5_subscribe_validate p) (\<lambda>_.
     let remaining_len = v5_subscribe_encoded_len p in
     rbind (open_frame (0x80 OR 0x02) remaining_len buf) (\<lambda>w.
     rbind (v5_subscribe_put p w) finish))"

text \<open>One iteration of the loop in \<^verbatim>\<open>decode\<close>.\<close>

definition v5_subscription_body :: "v5_subscription reader" where
  "v5_subscription_body buf end offset =
     rbind (read_with utf8_decode buf end offset) (\<lambda>(topic_filter, offset).
     if \<not> is_valid_v5_topic_filter topic_filter then Err MalformedPacket
     else
       rbind (read_u8 buf end offset) (\<lambda>(options, offset).
       rbind (ok_or MalformedPacket (qos_from_u8 (options AND 0x03))) (\<lambda>q.
       rbind (ok_or MalformedPacket (retain_handling_from_u8 (drop_bit 4 options AND 0x03)))
         (\<lambda>retain_handling.
       if options AND 0xC0 \<noteq> 0 then Err MalformedPacket
       else if options AND 0x04 \<noteq> 0 \<and> starts_with share_prefix topic_filter then Err MalformedPacket
       else
         Ok (\<lparr>v5s_topic_filter = topic_filter, v5s_qos = q, v5s_no_local = options AND 0x04 \<noteq> 0,
              v5s_retain_as_published = options AND 0x08 \<noteq> 0,
              v5s_retain_handling = retain_handling\<rparr>, offset)))))"

definition v5_subscribe_body :: "v5_subscribe_packet reader" where
  "v5_subscribe_body buf end offset =
     rbind (read_u16 buf end offset) (\<lambda>(packet_id, offset).
     if packet_id = 0 then Err MalformedPacket
     else
       rbind (read_sub properties_decode buf end offset) (\<lambda>(properties, offset).
       rbind (validate_for_subscribe properties) (\<lambda>_.
       rbind (read_each v5_subscription_body [] buf end offset) (\<lambda>(subscriptions, offset).
       if subscriptions = [] then Err MalformedPacket
       else
         read_end \<lparr>v5sp_packet_id = packet_id, v5sp_subscriptions = subscriptions,
           v5sp_properties = properties\<rparr> buf end offset))))"

definition v5_subscribe_decode :: "v5_subscribe_packet decoder" where
  "v5_subscribe_decode buf =
     (if buf = [] then Err InsufficientData
      else
        rbind (index buf 0) (\<lambda>b0.
        if b0 AND 0xF0 \<noteq> 0x80 then Err InvalidPacketType
        else if b0 AND 0x0F \<noteq> 0x02 then Err InvalidPacketFlags
        else
          rbind (read_frame_header buf) (\<lambda>(offset, end). v5_subscribe_body buf end offset)))"

subsection \<open>The options byte\<close>

lemma bit_times_16: "bit (b * 16 :: u8) n \<longleftrightarrow> 4 \<le> n \<and> n < 8 \<and> bit b (n - 4)"
  "bit (16 * b :: u8) n \<longleftrightarrow> 4 \<le> n \<and> n < 8 \<and> bit b (n - 4)"
proof -
  have "b * 16 = push_bit 4 b" by (simp add: push_bit_eq_mult)
  then show *: "bit (b * 16 :: u8) n \<longleftrightarrow> 4 \<le> n \<and> n < 8 \<and> bit b (n - 4)"
    by (simp only: bit_push_bit_iff) simp
  then show "bit (16 * b :: u8) n \<longleftrightarrow> 4 \<le> n \<and> n < 8 \<and> bit b (n - 4)"
    by (simp add: mult.commute)
qed

lemma options_split:
  "(b :: u8) = (b AND 3) OR (b AND 4) OR (b AND 8) OR push_bit 4 (drop_bit 4 b AND 3) OR (b AND 0xC0)"
  by (rule u8_bit_eqI) (simp_all add: byte_bits bit_times_16)

lemma options_byte_iff:
  "b AND 0xC0 = 0 \<and> qos_from_u8 (b AND 0x03) = Some (v5s_qos s) \<and>
   (b AND 0x04 \<noteq> 0) = v5s_no_local s \<and> (b AND 0x08 \<noteq> 0) = v5s_retain_as_published s \<and>
   retain_handling_from_u8 (drop_bit 4 b AND 0x03) = Some (v5s_retain_handling s) \<longleftrightarrow>
   b = options_byte s"
proof
  assume *: "b AND 0xC0 = 0 \<and> qos_from_u8 (b AND 0x03) = Some (v5s_qos s) \<and>
   (b AND 0x04 \<noteq> 0) = v5s_no_local s \<and> (b AND 0x08 \<noteq> 0) = v5s_retain_as_published s \<and>
   retain_handling_from_u8 (drop_bit 4 b AND 0x03) = Some (v5s_retain_handling s)"
  then have p: "b AND 3 = qos_as_u8 (v5s_qos s)" "b AND 4 = (if v5s_no_local s then 4 else 0)"
    "b AND 8 = (if v5s_retain_as_published s then 8 else 0)"
    "drop_bit 4 b AND 3 = retain_handling_as_u8 (v5s_retain_handling s)" "b AND 0xC0 = 0"
    using u8_flag_tests(3,4) [of b]
    by (auto simp: qos_from_u8_Some_iff retain_handling.from_u8_iff split: if_splits)
  show "b = options_byte s"
    by (subst options_split, simp only: p) (simp add: options_byte_def or.assoc Let_def)
next
  assume "b = options_byte s"
  then show "b AND 0xC0 = 0 \<and> qos_from_u8 (b AND 0x03) = Some (v5s_qos s) \<and>
   (b AND 0x04 \<noteq> 0) = v5s_no_local s \<and> (b AND 0x08 \<noteq> 0) = v5s_retain_as_published s \<and>
   retain_handling_from_u8 (drop_bit 4 b AND 0x03) = Some (v5s_retain_handling s)"
    by (cases "v5s_qos s"; cases "v5s_no_local s"; cases "v5s_retain_as_published s";
        cases "v5s_retain_handling s")
      (simp_all add: options_byte_def qos_from_u8_def retain_handling_from_u8_def)
qed

subsection \<open>The packet contract\<close>

definition v5_subscription_parser :: "v5_subscription parser" where
  "v5_subscription_parser s =
     rbind (p_with utf8_decode s) (\<lambda>(topic_filter, s).
     if \<not> is_valid_v5_topic_filter topic_filter then Err MalformedPacket
     else
       rbind (p_u8 s) (\<lambda>(options, s).
       rbind (ok_or MalformedPacket (qos_from_u8 (options AND 0x03))) (\<lambda>q.
       rbind (ok_or MalformedPacket (retain_handling_from_u8 (drop_bit 4 options AND 0x03)))
         (\<lambda>retain_handling.
       if options AND 0xC0 \<noteq> 0 then Err MalformedPacket
       else if options AND 0x04 \<noteq> 0 \<and> starts_with share_prefix topic_filter then Err MalformedPacket
       else
         Ok (\<lparr>v5s_topic_filter = topic_filter, v5s_qos = q, v5s_no_local = options AND 0x04 \<noteq> 0,
              v5s_retain_as_published = options AND 0x08 \<noteq> 0,
              v5s_retain_handling = retain_handling\<rparr>, s)))))"

definition v5_subscription_valid :: "v5_subscription \<Rightarrow> bool" where
  "v5_subscription_valid s \<longleftrightarrow> is_valid_v5_topic_filter (v5s_topic_filter s) \<and>
     \<not> (v5s_no_local s \<and> starts_with share_prefix (v5s_topic_filter s))"

definition v5_subscription_ok :: "v5_subscription \<Rightarrow> bool" where
  "v5_subscription_ok s \<longleftrightarrow> mqtt_string (v5s_topic_filter s) \<and> v5_subscription_valid s"

definition v5_subscription_bytes :: "v5_subscription \<Rightarrow> bytes" where
  "v5_subscription_bytes s = binary_bytes (v5s_topic_filter s) @ [options_byte s]"

lemma reads_v5_subscribe:
  "reads v5_subscribe_body (v5_entries_parser validate_for_subscribe v5_subscription_parser
     (\<lambda>i ps xs. \<lparr>v5sp_packet_id = i, v5sp_subscriptions = xs, v5sp_properties = ps\<rparr>))"
  unfolding v5_subscribe_body_def [abs_def] v5_entries_parser_def [abs_def]
    v5_subscription_body_def [abs_def] v5_subscription_parser_def [abs_def]
  by (intro reads_intros)

lemma v5_subscription_parser_iff:
  "v5_subscription_parser s = Ok (x, s') \<longleftrightarrow> v5_subscription_ok x \<and> s = v5_subscription_bytes x @ s'"
proof
  assume "v5_subscription_parser s = Ok (x, s')"
  then show "v5_subscription_ok x \<and> s = v5_subscription_bytes x @ s'"
    by (auto simp: v5_subscription_parser_def v5_subscription_ok_def v5_subscription_valid_def
        v5_subscription_bytes_def rbind_Ok_iff wire_simps simp flip: options_byte_iff split: if_splits)
next
  assume "v5_subscription_ok x \<and> s = v5_subscription_bytes x @ s'"
  then show "v5_subscription_parser s = Ok (x, s')"
    using options_byte_iff [of "options_byte x" x]
    by (cases x) (auto simp: v5_subscription_parser_def v5_subscription_ok_def v5_subscription_valid_def
        v5_subscription_bytes_def)
qed

lemma v5_subscription_bytes_not_Nil: "v5_subscription_bytes x \<noteq> []"
  by (simp add: v5_subscription_bytes_def)

lemma v5_subscription_parser_no_panic: "v5_subscription_parser s \<noteq> Panic"
  by (auto simp: v5_subscription_parser_def rbind_Panic_iff no_panic)

lemma v5_subscriptions_validate_iff:
  "v5_subscriptions_validate subs = Ok () \<longleftrightarrow> (\<forall>s \<in> set subs. v5_subscription_valid s)"
  "v5_subscriptions_validate subs \<noteq> Panic"
  by (induction subs) (auto simp: v5_subscription_valid_def)

lemma v5_subscribe_validate_iff:
  "v5_subscribe_validate p = Ok () \<longleftrightarrow> v5sp_packet_id p \<noteq> 0 \<and>
     validate_for_subscribe (v5sp_properties p) = Ok () \<and> no_duplicates False (v5sp_properties p) \<and>
     v5sp_subscriptions p \<noteq> [] \<and> (\<forall>s \<in> set (v5sp_subscriptions p). v5_subscription_valid s)"
  "v5_subscribe_validate p \<noteq> Panic"
  by (auto simp: v5_subscribe_validate_def rbind_Ok_iff rbind_Panic_iff v5_subscriptions_validate_iff)

lemma writes_v5_subscribe:
  "writes (v5_subscribe_put p)
     (v5_entries_image (v5sp_packet_id p) (v5sp_properties p) v5_subscription_bytes (v5sp_subscriptions p))
     (properties_fit (v5sp_properties p) \<and> (\<forall>s \<in> set (v5sp_subscriptions p).
       0 \<notin> set (v5s_topic_filter s) \<and> length (v5s_topic_filter s) \<le> 65535))"
  unfolding v5_subscribe_put_def [abs_def]
  by (rule writes_cong, (rule writes_intros)+)
    (simp_all add: v5_entries_image_def v5_subscription_bytes_def [abs_def])

lemma v5_subscribe_encoded_len_eq:
  "v5_subscribe_encoded_len p = min (length (v5_entries_image (v5sp_packet_id p) (v5sp_properties p)
     v5_subscription_bytes (v5sp_subscriptions p))) usize_max"
  unfolding v5_subscribe_encoded_len_def
  by (rule v5_entries_len) (simp add: v5_subscription_bytes_def Let_def)

interpretation v5_subscribe: framed_packet v5_subscribe_encode v5_subscribe_decode "\<lambda>_. 0x80 OR 0x02"
  "\<lambda>p. v5_entries_bytes (v5sp_packet_id p) (v5sp_properties p) v5_subscription_bytes (v5sp_subscriptions p)"
  "\<lambda>p. v5_entries_ok (v5sp_packet_id p) validate_for_subscribe (v5sp_properties p) v5_subscription_ok
     (v5sp_subscriptions p)"
  "\<lambda>p. properties_typed (v5sp_properties p) \<and> (\<forall>s \<in> set (v5sp_subscriptions p). utf8_valid (v5s_topic_filter s))"
  by (rule entries_packet [OF _ writes_v5_subscribe v5_subscribe_encoded_len_eq
      v5_subscribe_validate_iff(2,1) _ _ _ reads_v5_subscribe v5_subscription_parser_iff
      v5_subscription_bytes_not_Nil v5_subscription_parser_no_panic])
    (auto simp: v5_subscribe_encode_def v5_subscribe_decode_def v5_subscription_ok_def mqtt_string_def)

section \<open>Lists of reason codes\<close>

text \<open>One iteration of the loops: \<^verbatim>\<open>from_u8(buf[offset]).ok_or(MalformedPacket)?; offset += 1\<close>\<close>

definition read_code :: "(u8 \<Rightarrow> 'c option) \<Rightarrow> 'c reader" where
  "read_code from buf end offset =
     rbind (read_u8 buf end offset) (\<lambda>(b, offset).
     rbind (ok_or MalformedPacket (from b)) (\<lambda>code. Ok (code, offset)))"

definition p_code :: "(u8 \<Rightarrow> 'c option) \<Rightarrow> 'c parser" where
  "p_code from s =
     rbind (p_u8 s) (\<lambda>(b, s).
     rbind (ok_or MalformedPacket (from b)) (\<lambda>code. Ok (code, s)))"

lemma reads_code [reads_intros]: "reads (read_code from) (p_code from)"
  unfolding read_code_def [abs_def] p_code_def [abs_def] by (intro reads_intros)

lemma p_code_no_panic: "p_code from s \<noteq> Panic"
  by (auto simp: p_code_def rbind_Panic_iff no_panic)

context byte_enum
begin

lemma p_code_iff: "p_code from_u8 s = Ok (c, s') \<longleftrightarrow> True \<and> s = [as_u8 c] @ s'"
  by (auto simp: p_code_def rbind_Ok_iff wire_simps from_u8_iff)

end

lemma length_concat_bytes: "length (concat (map (\<lambda>c. [g c]) xs)) = length xs"
  by (induction xs) simp_all

section \<open>SUBACK\<close>

datatype suback_reason =
    SaGrantedQoS0
  | SaGrantedQoS1
  | SaGrantedQoS2
  | SaUnspecifiedError
  | SaImplementationSpecificError
  | SaNotAuthorized
  | SaTopicFilterInvalid
  | SaPacketIdentifierInUse
  | SaQuotaExceeded
  | SaSharedSubscriptionsNotSupported
  | SaSubscriptionIdentifiersNotSupported
  | SaWildcardSubscriptionsNotSupported

definition suback_reason_from_u8 :: "u8 \<Rightarrow> suback_reason option" where
  "suback_reason_from_u8 value =
     (if value = 0x00 then Some SaGrantedQoS0
      else if value = 0x01 then Some SaGrantedQoS1
      else if value = 0x02 then Some SaGrantedQoS2
      else if value = 0x80 then Some SaUnspecifiedError
      else if value = 0x83 then Some SaImplementationSpecificError
      else if value = 0x87 then Some SaNotAuthorized
      else if value = 0x8F then Some SaTopicFilterInvalid
      else if value = 0x91 then Some SaPacketIdentifierInUse
      else if value = 0x97 then Some SaQuotaExceeded
      else if value = 0x9E then Some SaSharedSubscriptionsNotSupported
      else if value = 0xA1 then Some SaSubscriptionIdentifiersNotSupported
      else if value = 0xA2 then Some SaWildcardSubscriptionsNotSupported
      else None)"

fun suback_reason_as_u8 :: "suback_reason \<Rightarrow> u8" where
  "suback_reason_as_u8 SaGrantedQoS0 = 0x00"
| "suback_reason_as_u8 SaGrantedQoS1 = 0x01"
| "suback_reason_as_u8 SaGrantedQoS2 = 0x02"
| "suback_reason_as_u8 SaUnspecifiedError = 0x80"
| "suback_reason_as_u8 SaImplementationSpecificError = 0x83"
| "suback_reason_as_u8 SaNotAuthorized = 0x87"
| "suback_reason_as_u8 SaTopicFilterInvalid = 0x8F"
| "suback_reason_as_u8 SaPacketIdentifierInUse = 0x91"
| "suback_reason_as_u8 SaQuotaExceeded = 0x97"
| "suback_reason_as_u8 SaSharedSubscriptionsNotSupported = 0x9E"
| "suback_reason_as_u8 SaSubscriptionIdentifiersNotSupported = 0xA1"
| "suback_reason_as_u8 SaWildcardSubscriptionsNotSupported = 0xA2"

interpretation suback_reason: byte_enum suback_reason_from_u8 suback_reason_as_u8
proof unfold_locales
  show "suback_reason_from_u8 (suback_reason_as_u8 c) = Some c" for c
    by (cases c) (simp_all add: suback_reason_from_u8_def)
  show "suback_reason_from_u8 v = Some c \<Longrightarrow> suback_reason_as_u8 c = v" for v c
    unfolding suback_reason_from_u8_def by (auto split: if_splits)
qed

record v5_suback =
  v5sa_packet_id :: u16
  v5sa_reason_codes :: "suback_reason list"
  v5sa_properties :: properties

definition v5_suback_encoded_len :: "v5_suback \<Rightarrow> nat" where
  "v5_suback_encoded_len p =
     usize_saturating_add (usize_saturating_add 2 (properties_encoded_len (v5sa_properties p)))
       (length (v5sa_reason_codes p))"

definition v5_suback_validate :: "v5_suback \<Rightarrow> (unit, encode_error) result" where
  "v5_suback_validate p =
     (if v5sa_packet_id p = 0 then Err (InvalidField ZeroPacketId)
      else if v5sa_reason_codes p = [] then Err (InvalidField EmptyReasonCodes)
      else if is_err (validate_for_suback (v5sa_properties p))
      then Err (InvalidField PropertyValidationFailed)
      else if is_err (validate_duplicate_identifiers False (v5sa_properties p))
      then Err (InvalidField DuplicatePropertyIdentifier)
      else Ok ())"

definition v5_suback_put :: "v5_suback \<Rightarrow> writer \<Rightarrow> (writer, encode_error) result" where
  "v5_suback_put p w =
     rbind (put_bytes (u16_to_be_bytes (v5sa_packet_id p)) w) (\<lambda>w.
     rbind (put_with (properties_encode (v5sa_properties p)) w) (\<lambda>w.
     put_each (\<lambda>code. put_u8 (suback_reason_as_u8 code)) (v5sa_reason_codes p) w))"

definition v5_suback_encode :: "v5_suback \<Rightarrow> encoder" where
  "v5_suback_encode p buf =
     rbind (v5_suback_validate p) (\<lambda>_.
     let remaining_len = v5_suback_encoded_len p in
     rbind (open_frame 0x90 remaining_len buf) (\<lambda>w.
     rbind (v5_suback_put p w) finish))"

definition v5_suback_body :: "v5_suback reader" where
  "v5_suback_body buf end offset =
     rbind (read_u16 buf end offset) (\<lambda>(packet_id, offset).
     if packet_id = 0 then Err MalformedPacket
     else
       rbind (read_sub properties_decode buf end offset) (\<lambda>(properties, offset).
       rbind (validate_for_suback properties) (\<lambda>_.
       rbind (read_each (read_code suback_reason_from_u8) [] buf end offset) (\<lambda>(reason_codes, offset).
       if reason_codes = [] then Err MalformedPacket
       else
         read_end \<lparr>v5sa_packet_id = packet_id, v5sa_reason_codes = reason_codes,
           v5sa_properties = properties\<rparr> buf end offset))))"

definition v5_suback_decode :: "v5_suback decoder" where
  "v5_suback_decode buf =
     (if buf = [] then Err InsufficientData
      else
        rbind (index buf 0) (\<lambda>b0.
        if b0 AND 0xF0 \<noteq> 0x90 then Err InvalidPacketType
        else if b0 AND 0x0F \<noteq> 0 then Err InvalidPacketFlags
        else
          rbind (read_frame_header buf) (\<lambda>(offset, end). v5_suback_body buf end offset)))"

lemma reads_v5_suback:
  "reads v5_suback_body (v5_entries_parser validate_for_suback (p_code suback_reason_from_u8)
     (\<lambda>i ps xs. \<lparr>v5sa_packet_id = i, v5sa_reason_codes = xs, v5sa_properties = ps\<rparr>))"
  unfolding v5_suback_body_def [abs_def] v5_entries_parser_def [abs_def]
  by (intro reads_intros)

lemma v5_suback_validate_iff:
  "v5_suback_validate p = Ok () \<longleftrightarrow> v5sa_packet_id p \<noteq> 0 \<and>
     validate_for_suback (v5sa_properties p) = Ok () \<and> no_duplicates False (v5sa_properties p) \<and>
     v5sa_reason_codes p \<noteq> [] \<and> (\<forall>c \<in> set (v5sa_reason_codes p). True)"
  "v5_suback_validate p \<noteq> Panic"
  by (auto simp: v5_suback_validate_def)

lemma writes_v5_suback:
  "writes (v5_suback_put p)
     (v5_entries_image (v5sa_packet_id p) (v5sa_properties p) (\<lambda>c. [suback_reason_as_u8 c]) (v5sa_reason_codes p))
     (properties_fit (v5sa_properties p) \<and> (\<forall>c \<in> set (v5sa_reason_codes p). True))"
  unfolding v5_suback_put_def [abs_def]
  by (rule writes_cong, (rule writes_intros)+) (simp_all add: v5_entries_image_def)

lemma v5_suback_encoded_len_eq:
  "v5_suback_encoded_len p = min (length (v5_entries_image (v5sa_packet_id p) (v5sa_properties p)
     (\<lambda>c. [suback_reason_as_u8 c]) (v5sa_reason_codes p))) usize_max"
  by (simp add: v5_suback_encoded_len_def v5_entries_image_def length_properties_image length_concat_bytes)

interpretation v5_suback: framed_packet v5_suback_encode v5_suback_decode "\<lambda>_. 0x90 OR 0"
  "\<lambda>p. v5_entries_bytes (v5sa_packet_id p) (v5sa_properties p) (\<lambda>c. [suback_reason_as_u8 c]) (v5sa_reason_codes p)"
  "\<lambda>p. v5_entries_ok (v5sa_packet_id p) validate_for_suback (v5sa_properties p) (\<lambda>_. True) (v5sa_reason_codes p)"
  "\<lambda>p. properties_typed (v5sa_properties p) \<and> (\<forall>c \<in> set (v5sa_reason_codes p). True)"
  by (rule entries_packet [OF _ writes_v5_suback v5_suback_encoded_len_eq v5_suback_validate_iff(2,1) _ _ _
      reads_v5_suback suback_reason.p_code_iff _ p_code_no_panic])
    (auto simp: v5_suback_encode_def v5_suback_decode_def)

section \<open>UNSUBACK\<close>

datatype unsuback_reason =
    UaSuccess
  | UaNoSubscriptionExisted
  | UaUnspecifiedError
  | UaImplementationSpecificError
  | UaNotAuthorized
  | UaTopicFilterInvalid
  | UaPacketIdentifierInUse

definition unsuback_reason_from_u8 :: "u8 \<Rightarrow> unsuback_reason option" where
  "unsuback_reason_from_u8 value =
     (if value = 0x00 then Some UaSuccess
      else if value = 0x11 then Some UaNoSubscriptionExisted
      else if value = 0x80 then Some UaUnspecifiedError
      else if value = 0x83 then Some UaImplementationSpecificError
      else if value = 0x87 then Some UaNotAuthorized
      else if value = 0x8F then Some UaTopicFilterInvalid
      else if value = 0x91 then Some UaPacketIdentifierInUse
      else None)"

fun unsuback_reason_as_u8 :: "unsuback_reason \<Rightarrow> u8" where
  "unsuback_reason_as_u8 UaSuccess = 0x00"
| "unsuback_reason_as_u8 UaNoSubscriptionExisted = 0x11"
| "unsuback_reason_as_u8 UaUnspecifiedError = 0x80"
| "unsuback_reason_as_u8 UaImplementationSpecificError = 0x83"
| "unsuback_reason_as_u8 UaNotAuthorized = 0x87"
| "unsuback_reason_as_u8 UaTopicFilterInvalid = 0x8F"
| "unsuback_reason_as_u8 UaPacketIdentifierInUse = 0x91"

interpretation unsuback_reason: byte_enum unsuback_reason_from_u8 unsuback_reason_as_u8
proof unfold_locales
  show "unsuback_reason_from_u8 (unsuback_reason_as_u8 c) = Some c" for c
    by (cases c) (simp_all add: unsuback_reason_from_u8_def)
  show "unsuback_reason_from_u8 v = Some c \<Longrightarrow> unsuback_reason_as_u8 c = v" for v c
    unfolding unsuback_reason_from_u8_def by (auto split: if_splits)
qed

record v5_unsuback =
  v5ua_packet_id :: u16
  v5ua_reason_codes :: "unsuback_reason list"
  v5ua_properties :: properties

definition v5_unsuback_encoded_len :: "v5_unsuback \<Rightarrow> nat" where
  "v5_unsuback_encoded_len p =
     usize_saturating_add (usize_saturating_add 2 (properties_encoded_len (v5ua_properties p)))
       (length (v5ua_reason_codes p))"

definition v5_unsuback_validate :: "v5_unsuback \<Rightarrow> (unit, encode_error) result" where
  "v5_unsuback_validate p =
     (if v5ua_packet_id p = 0 then Err (InvalidField ZeroPacketId)
      else if v5ua_reason_codes p = [] then Err (InvalidField EmptyReasonCodes)
      else if is_err (validate_for_unsuback (v5ua_properties p))
      then Err (InvalidField PropertyValidationFailed)
      else if is_err (validate_duplicate_identifiers False (v5ua_properties p))
      then Err (InvalidField DuplicatePropertyIdentifier)
      else Ok ())"

definition v5_unsuback_put :: "v5_unsuback \<Rightarrow> writer \<Rightarrow> (writer, encode_error) result" where
  "v5_unsuback_put p w =
     rbind (put_bytes (u16_to_be_bytes (v5ua_packet_id p)) w) (\<lambda>w.
     rbind (put_with (properties_encode (v5ua_properties p)) w) (\<lambda>w.
     put_each (\<lambda>code. put_u8 (unsuback_reason_as_u8 code)) (v5ua_reason_codes p) w))"

definition v5_unsuback_encode :: "v5_unsuback \<Rightarrow> encoder" where
  "v5_unsuback_encode p buf =
     rbind (v5_unsuback_validate p) (\<lambda>_.
     let remaining_len = v5_unsuback_encoded_len p in
     rbind (open_frame 0xB0 remaining_len buf) (\<lambda>w.
     rbind (v5_unsuback_put p w) finish))"

definition v5_unsuback_body :: "v5_unsuback reader" where
  "v5_unsuback_body buf end offset =
     rbind (read_u16 buf end offset) (\<lambda>(packet_id, offset).
     if packet_id = 0 then Err MalformedPacket
     else
       rbind (read_sub properties_decode buf end offset) (\<lambda>(properties, offset).
       rbind (validate_for_unsuback properties) (\<lambda>_.
       rbind (read_each (read_code unsuback_reason_from_u8) [] buf end offset) (\<lambda>(reason_codes, offset).
       if reason_codes = [] then Err MalformedPacket
       else
         read_end \<lparr>v5ua_packet_id = packet_id, v5ua_reason_codes = reason_codes,
           v5ua_properties = properties\<rparr> buf end offset))))"

definition v5_unsuback_decode :: "v5_unsuback decoder" where
  "v5_unsuback_decode buf =
     (if buf = [] then Err InsufficientData
      else
        rbind (index buf 0) (\<lambda>b0.
        if b0 AND 0xF0 \<noteq> 0xB0 then Err InvalidPacketType
        else if b0 AND 0x0F \<noteq> 0 then Err InvalidPacketFlags
        else
          rbind (read_frame_header buf) (\<lambda>(offset, end). v5_unsuback_body buf end offset)))"

lemma reads_v5_unsuback:
  "reads v5_unsuback_body (v5_entries_parser validate_for_unsuback (p_code unsuback_reason_from_u8)
     (\<lambda>i ps xs. \<lparr>v5ua_packet_id = i, v5ua_reason_codes = xs, v5ua_properties = ps\<rparr>))"
  unfolding v5_unsuback_body_def [abs_def] v5_entries_parser_def [abs_def]
  by (intro reads_intros)

lemma v5_unsuback_validate_iff:
  "v5_unsuback_validate p = Ok () \<longleftrightarrow> v5ua_packet_id p \<noteq> 0 \<and>
     validate_for_unsuback (v5ua_properties p) = Ok () \<and> no_duplicates False (v5ua_properties p) \<and>
     v5ua_reason_codes p \<noteq> [] \<and> (\<forall>c \<in> set (v5ua_reason_codes p). True)"
  "v5_unsuback_validate p \<noteq> Panic"
  by (auto simp: v5_unsuback_validate_def)

lemma writes_v5_unsuback:
  "writes (v5_unsuback_put p)
     (v5_entries_image (v5ua_packet_id p) (v5ua_properties p) (\<lambda>c. [unsuback_reason_as_u8 c]) (v5ua_reason_codes p))
     (properties_fit (v5ua_properties p) \<and> (\<forall>c \<in> set (v5ua_reason_codes p). True))"
  unfolding v5_unsuback_put_def [abs_def]
  by (rule writes_cong, (rule writes_intros)+) (simp_all add: v5_entries_image_def)

lemma v5_unsuback_encoded_len_eq:
  "v5_unsuback_encoded_len p = min (length (v5_entries_image (v5ua_packet_id p) (v5ua_properties p)
     (\<lambda>c. [unsuback_reason_as_u8 c]) (v5ua_reason_codes p))) usize_max"
  by (simp add: v5_unsuback_encoded_len_def v5_entries_image_def length_properties_image length_concat_bytes)

interpretation v5_unsuback: framed_packet v5_unsuback_encode v5_unsuback_decode "\<lambda>_. 0xB0 OR 0"
  "\<lambda>p. v5_entries_bytes (v5ua_packet_id p) (v5ua_properties p) (\<lambda>c. [unsuback_reason_as_u8 c]) (v5ua_reason_codes p)"
  "\<lambda>p. v5_entries_ok (v5ua_packet_id p) validate_for_unsuback (v5ua_properties p) (\<lambda>_. True) (v5ua_reason_codes p)"
  "\<lambda>p. properties_typed (v5ua_properties p) \<and> (\<forall>c \<in> set (v5ua_reason_codes p). True)"
  by (rule entries_packet [OF _ writes_v5_unsuback v5_unsuback_encoded_len_eq v5_unsuback_validate_iff(2,1) _ _ _
      reads_v5_unsuback unsuback_reason.p_code_iff _ p_code_no_panic])
    (auto simp: v5_unsuback_encode_def v5_unsuback_decode_def)

section \<open>UNSUBSCRIBE\<close>

record v5_unsubscribe_packet =
  v5up_packet_id :: u16
  v5up_topic_filters :: "rstring list"
  v5up_properties :: properties

definition v5_unsubscribe_encoded_len :: "v5_unsubscribe_packet \<Rightarrow> nat" where
  "v5_unsubscribe_encoded_len p =
     fold (\<lambda>filt len. usize_saturating_add (usize_saturating_add len 2) (length filt))
       (v5up_topic_filters p) (usize_saturating_add 2 (properties_encoded_len (v5up_properties p)))"

definition v5_unsubscribe_validate :: "v5_unsubscribe_packet \<Rightarrow> (unit, encode_error) result" where
  "v5_unsubscribe_validate p =
     (if v5up_packet_id p = 0 then Err (InvalidField ZeroPacketId)
      else if v5up_topic_filters p = [] then Err (InvalidField EmptyTopicFilters)
      else if list_ex (\<lambda>filt. \<not> is_valid_v5_topic_filter filt) (v5up_topic_filters p)
      then Err (InvalidField InvalidTopicFilter)
      else if is_err (validate_for_unsubscribe (v5up_properties p))
      then Err (InvalidField PropertyValidationFailed)
      else if is_err (validate_duplicate_identifiers False (v5up_properties p))
      then Err (InvalidField DuplicatePropertyIdentifier)
      else Ok ())"

definition v5_unsubscribe_put :: "v5_unsubscribe_packet \<Rightarrow> writer \<Rightarrow> (writer, encode_error) result" where
  "v5_unsubscribe_put p w =
     rbind (put_bytes (u16_to_be_bytes (v5up_packet_id p)) w) (\<lambda>w.
     rbind (put_with (properties_encode (v5up_properties p)) w) (\<lambda>w.
     put_each (\<lambda>filt. put_with (utf8_encode_str filt)) (v5up_topic_filters p) w))"

definition v5_unsubscribe_encode :: "v5_unsubscribe_packet \<Rightarrow> encoder" where
  "v5_unsubscribe_encode p buf =
     rbind (v5_unsubscribe_validate p) (\<lambda>_.
     let remaining_len = v5_unsubscribe_encoded_len p in
     rbind (open_frame (0xA0 OR 0x02) remaining_len buf) (\<lambda>w.
     rbind (v5_unsubscribe_put p w) finish))"

text \<open>
  One iteration of the loop in \<^verbatim>\<open>decode\<close>: the length is looked at before the string is decoded,
  so that an incomplete filter is malformed rather than insufficient data.
\<close>

definition v5_filter_body :: "rstring reader" where
  "v5_filter_body buf end offset =
     rbind (read_u16 buf end offset) (\<lambda>(filter_len, start).
     if end < start + unat filter_len then Err MalformedPacket
     else
       rbind (read_sub utf8_decode buf end offset) (\<lambda>(filt, offset).
       if \<not> is_valid_v5_topic_filter filt then Err MalformedPacket
       else Ok (filt, offset)))"

definition v5_unsubscribe_body :: "v5_unsubscribe_packet reader" where
  "v5_unsubscribe_body buf end offset =
     rbind (read_u16 buf end offset) (\<lambda>(packet_id, offset).
     if packet_id = 0 then Err MalformedPacket
     else
       rbind (read_sub properties_decode buf end offset) (\<lambda>(properties, offset).
       rbind (validate_for_unsubscribe properties) (\<lambda>_.
       rbind (read_each v5_filter_body [] buf end offset) (\<lambda>(topic_filters, offset).
       if topic_filters = [] then Err MalformedPacket
       else
         read_end \<lparr>v5up_packet_id = packet_id, v5up_topic_filters = topic_filters,
           v5up_properties = properties\<rparr> buf end offset))))"

definition v5_unsubscribe_decode :: "v5_unsubscribe_packet decoder" where
  "v5_unsubscribe_decode buf =
     (if buf = [] then Err InsufficientData
      else
        rbind (index buf 0) (\<lambda>b0.
        if b0 AND 0xF0 \<noteq> 0xA0 then Err InvalidPacketType
        else if b0 AND 0x0F \<noteq> 0x02 then Err InvalidPacketFlags
        else
          rbind (read_frame_header buf) (\<lambda>(offset, end). v5_unsubscribe_body buf end offset)))"

definition v5_filter_parser :: "rstring parser" where
  "v5_filter_parser s =
     rbind (p_u16 s) (\<lambda>(filter_len, s').
     if length s' < unat filter_len then Err MalformedPacket
     else
       rbind (p_sub utf8_decode s) (\<lambda>(filt, s).
       if \<not> is_valid_v5_topic_filter filt then Err MalformedPacket
       else Ok (filt, s)))"

text \<open>Reading ahead: what a reader finds at an offset decides how to go on from there.\<close>

lemma reads_peek:
  assumes rd: "reads rd p" and f: "\<And>x n. reads (f x n) (g x n)"
  shows "reads (\<lambda>buf end offset. rbind (rd buf end offset) (\<lambda>(x, start). f x (end - start) buf end offset))
    (\<lambda>s. rbind (p s) (\<lambda>(x, s'). g x (length s') s))"
proof (rule readsI)
  fix buf :: bytes and "end" offset :: nat assume le: "offset \<le> end" "end \<le> length buf"
  note r = readsD(1) [OF rd le]
  show "rbind (rd buf end offset) (\<lambda>(x, start). f x (end - start) buf end offset) =
      rbind (rbind (p (drop offset (take end buf)))
        (\<lambda>(x, s'). g x (length s') (drop offset (take end buf)))) (\<lambda>(x, s). Ok (x, end - length s))"
  proof (cases "p (drop offset (take end buf))")
    case (Ok y)
    obtain x s' where y: "y = (x, s')" by fastforce
    with Ok readsD(2) [OF rd] obtain w where "drop offset (take end buf) = w @ s'" by blast
    then have "length (drop offset (take end buf)) = length w + length s'" by (metis length_append)
    with le have "end - (end - length s') = length s'" by simp
    then show ?thesis using r Ok y readsD(1) [OF f le] by simp
  qed (use r in simp_all)
next
  fix s x s' assume "rbind (p s) (\<lambda>(x, s'). g x (length s') s) = Ok (x, s')"
  then show "\<exists>w. s = w @ s'" using readsD(2) [OF f] by (auto simp: rbind_Ok_iff)
qed

lemma reads_utf8_sub [reads_intros]: "reads (read_sub utf8_decode) (p_sub utf8_decode)"
  by (rule reads_sub) (auto simp: utf8.dec_iff)

lemma reads_v5_filter [reads_intros]: "reads v5_filter_body v5_filter_parser"
proof (rule reads_cong)
  show "reads (\<lambda>buf end offset. rbind (read_u16 buf end offset) (\<lambda>(filter_len, start).
      (\<lambda>n buf end offset. if n < unat filter_len then Err MalformedPacket
       else
         rbind (read_sub utf8_decode buf end offset) (\<lambda>(filt, offset).
         if \<not> is_valid_v5_topic_filter filt then Err MalformedPacket
         else Ok (filt, offset))) (end - start) buf end offset)) v5_filter_parser"
    unfolding v5_filter_parser_def [abs_def] by (rule reads_peek) (intro reads_intros)+
  show "v5_filter_body buf end offset = rbind (read_u16 buf end offset) (\<lambda>(filter_len, start).
      (\<lambda>n buf end offset. if n < unat filter_len then Err MalformedPacket
       else
         rbind (read_sub utf8_decode buf end offset) (\<lambda>(filt, offset).
         if \<not> is_valid_v5_topic_filter filt then Err MalformedPacket
         else Ok (filt, offset))) (end - start) buf end offset)"
    if "offset \<le> end" "end \<le> length buf" for buf "end" offset
    using that by (auto simp: v5_filter_body_def read_u16_def less_diff_conv2)
qed

lemma v5_filter_parser_iff:
  "v5_filter_parser s = Ok (f, s') \<longleftrightarrow>
     (mqtt_string f \<and> is_valid_v5_topic_filter f) \<and> s = binary_bytes f @ s'"
proof -
  have "p_sub utf8_decode s = Ok (f, s') \<longleftrightarrow> mqtt_string f \<and> s = binary_bytes f @ s'"
    by (auto simp: p_sub_def rbind_Ok_iff utf8.dec_iff)
  moreover have "\<exists>n r. p_u16 s = Ok (n, r) \<and> \<not> length r < unat n"
    if "mqtt_string f" "s = binary_bytes f @ s'"
    using that by (auto simp: p_u16_Ok_iff binary_bytes_def mqtt_string_def unat_of_nat take_bit_nat_eq_self
      intro!: exI [of _ "word_of_nat (length f)"])
  ultimately show ?thesis
    by (auto simp: v5_filter_parser_def rbind_Ok_iff split: if_splits)
qed

lemma v5_filter_parser_no_panic: "v5_filter_parser s \<noteq> Panic"
proof -
  have "p_sub utf8_decode s \<noteq> Panic" using utf8.dec_total by (auto simp: p_sub_def rbind_Panic_iff)
  then show ?thesis by (auto simp: v5_filter_parser_def rbind_Panic_iff no_panic)
qed

lemma reads_v5_unsubscribe:
  "reads v5_unsubscribe_body (v5_entries_parser validate_for_unsubscribe v5_filter_parser
     (\<lambda>i ps xs. \<lparr>v5up_packet_id = i, v5up_topic_filters = xs, v5up_properties = ps\<rparr>))"
  unfolding v5_unsubscribe_body_def [abs_def] v5_entries_parser_def [abs_def]
  by (intro reads_intros)

lemma v5_unsubscribe_validate_iff:
  "v5_unsubscribe_validate p = Ok () \<longleftrightarrow> v5up_packet_id p \<noteq> 0 \<and>
     validate_for_unsubscribe (v5up_properties p) = Ok () \<and> no_duplicates False (v5up_properties p) \<and>
     v5up_topic_filters p \<noteq> [] \<and> (\<forall>f \<in> set (v5up_topic_filters p). is_valid_v5_topic_filter f)"
  "v5_unsubscribe_validate p \<noteq> Panic"
  by (auto simp: v5_unsubscribe_validate_def list_ex_iff)

lemma writes_v5_unsubscribe:
  "writes (v5_unsubscribe_put p)
     (v5_entries_image (v5up_packet_id p) (v5up_properties p) binary_bytes (v5up_topic_filters p))
     (properties_fit (v5up_properties p) \<and> (\<forall>f \<in> set (v5up_topic_filters p). 0 \<notin> set f \<and> length f \<le> 65535))"
  unfolding v5_unsubscribe_put_def [abs_def]
  by (rule writes_cong, (rule writes_intros)+) (simp_all add: v5_entries_image_def)

lemma v5_unsubscribe_encoded_len_eq:
  "v5_unsubscribe_encoded_len p = min (length (v5_entries_image (v5up_packet_id p) (v5up_properties p)
     binary_bytes (v5up_topic_filters p))) usize_max"
  unfolding v5_unsubscribe_encoded_len_def by (rule v5_entries_len) simp

interpretation v5_unsubscribe: framed_packet v5_unsubscribe_encode v5_unsubscribe_decode
  "\<lambda>_. 0xA0 OR 0x02"
  "\<lambda>p. v5_entries_bytes (v5up_packet_id p) (v5up_properties p) binary_bytes (v5up_topic_filters p)"
  "\<lambda>p. v5_entries_ok (v5up_packet_id p) validate_for_unsubscribe (v5up_properties p)
     (\<lambda>f. mqtt_string f \<and> is_valid_v5_topic_filter f) (v5up_topic_filters p)"
  "\<lambda>p. properties_typed (v5up_properties p) \<and> (\<forall>f \<in> set (v5up_topic_filters p). utf8_valid f)"
  by (rule entries_packet [OF _ writes_v5_unsubscribe v5_unsubscribe_encoded_len_eq
      v5_unsubscribe_validate_iff(2,1) _ _ _ reads_v5_unsubscribe v5_filter_parser_iff
      binary_bytes_not_Nil v5_filter_parser_no_panic])
    (auto simp: v5_unsubscribe_encode_def v5_unsubscribe_decode_def mqtt_string_def)

end
