(* ===== verification/V311Acks.thy ===== *)
theory V311Acks
  imports Packet ReasonCodes
begin

unbundle bit_operations_syntax

text \<open>
  The short packets of MQTT 3.1.1: \<^verbatim>\<open>src/v311/ack_helper.rs\<close> and the packets built on it (PUBACK,
  PUBREC, PUBREL, PUBCOMP, UNSUBACK, PINGREQ, PINGRESP, DISCONNECT), and CONNACK. Each packet
  is an interpretation of the packet contract of theory \<open>Frame\<close>.
\<close>

section \<open>\<^verbatim>\<open>ack_helper\<close>\<close>

definition encode_empty :: "u8 \<Rightarrow> u8 \<Rightarrow> encoder" where
  "encode_empty packet_type flags buf =
     rbind (begin_frame (packet_type OR flags) 0 buf) finish"

definition decode_empty :: "u8 \<Rightarrow> u8 \<Rightarrow> bytes \<Rightarrow> (nat, decode_error) result" where
  "decode_empty packet_type flags buf =
     (if buf = [] then Err InsufficientData
      else
        rbind (index buf 0) (\<lambda>b0.
        if b0 AND 0xF0 \<noteq> packet_type then Err InvalidPacketType
        else if b0 AND 0x0F \<noteq> flags then Err InvalidPacketFlags
        else
          rbind (subslice_from buf 1) (\<lambda>s.
          rbind (vbi_decode s) (\<lambda>(remaining_len, vbi_len).
          if remaining_len \<noteq> 0 then Err MalformedPacket else Ok (1 + vbi_len)))))"

definition encode_simple_ack :: "u8 \<Rightarrow> u8 \<Rightarrow> u16 \<Rightarrow> encoder" where
  "encode_simple_ack packet_type flags packet_id buf =
     (if packet_id = 0 then Err (InvalidField ZeroPacketId)
      else
        rbind (begin_frame (packet_type OR flags) 2 buf) (\<lambda>w.
        rbind (put_bytes (u16_to_be_bytes packet_id) w) finish))"

definition simple_ack_body :: "u16 reader" where
  "simple_ack_body buf end offset =
     rbind (read_u16 buf end offset) (\<lambda>(packet_id, offset).
     if packet_id = 0 then Err MalformedPacket else read_end packet_id buf end offset)"

definition decode_simple_ack :: "u8 \<Rightarrow> u8 \<Rightarrow> u16 decoder" where
  "decode_simple_ack packet_type flags buf =
     (if buf = [] then Err InsufficientData
      else
        rbind (index buf 0) (\<lambda>b0.
        if b0 AND 0xF0 \<noteq> packet_type then Err InvalidPacketType
        else if b0 AND 0x0F \<noteq> flags then Err InvalidPacketFlags
        else
          rbind (read_frame_header buf) (\<lambda>(offset, end). simple_ack_body buf end offset)))"

subsection \<open>Packets without a body\<close>

lemma encode_empty_eq:
  "encode_empty t f buf =
     (if length buf < 2 then Err BufferTooSmall else Ok (2, frame_wire (t OR f) [] @ drop 2 buf))"
proof -
  have "vbi_wire 0 = [0]" by (simp add: vbi_wire_def vbi_bytes.simps)
  then show ?thesis by (simp add: encode_empty_def begin_frame_eq frame_wire_def numeral_2_eq_2 del: drop_Suc_Cons)
qed

lemma decode_empty_Ok_iff:
  assumes "(t OR f) AND 0xF0 = t" "(t OR f) AND 0x0F = f"
  shows "decode_empty t f buf = Ok n \<longleftrightarrow>
    n = length (frame_wire (t OR f) []) \<and> (\<exists>rest. buf = frame_wire (t OR f) [] @ rest)"
proof (cases buf)
  case (Cons b r)
  have "decode_empty t f buf = Ok n \<longleftrightarrow> b = t OR f \<and> (\<exists>k. vbi_decode r = Ok (0, k) \<and> n = 1 + k)"
    using nibbles_iff [OF assms, of b]
    by (auto simp: decode_empty_def Cons rbind_Ok_iff split: if_splits)
  then show ?thesis by (auto simp: vbi.dec_iff frame_wire_def Cons)
qed (simp add: decode_empty_def frame_wire_def)

lemma decode_empty_no_panic [no_panic]: "decode_empty t f buf \<noteq> Panic"
  by (cases buf) (auto simp: decode_empty_def rbind_Panic_iff)

lemma framed_empty:
  assumes "\<And>x buf. enc x buf = encode_empty t f buf"
    and "\<And>buf. dec buf = rbind (decode_empty t f buf) (\<lambda>n. Ok (mk, n))"
    and "\<And>x. x = mk" "(t OR f) AND 0xF0 = t" "(t OR f) AND 0x0F = f"
  shows "framed_packet enc dec (\<lambda>_. t OR f) (\<lambda>_. []) (\<lambda>_. True) (\<lambda>_. True)"
proof
  fix x buf
  show "emits (enc x) (frame_wire (t OR f) [])"
    by (rule emitsI) (auto simp: assms(1) encode_empty_eq length_frame_wire vbi_wire_def vbi_bytes.simps numeral_2_eq_2)
  show "enc x buf \<noteq> Panic" by (simp add: assms(1) encode_empty_eq)
  show "True \<and> length ([] :: bytes) \<le> max_remaining" by simp
  show "dec buf \<noteq> Panic" by (auto simp: assms(2) rbind_Panic_iff decode_empty_no_panic)
  fix n
  show "dec buf = Ok (x, n) \<longleftrightarrow> True \<and> length ([] :: bytes) \<le> max_remaining \<and>
      n = length (frame_wire (t OR f) []) \<and> (\<exists>rest. buf = frame_wire (t OR f) [] @ rest)"
    using assms(3) [of x] by (auto simp: assms(2) rbind_Ok_iff decode_empty_Ok_iff [OF assms(4,5)])
qed

subsection \<open>Packets that carry a packet identifier only\<close>

definition simple_ack_parser :: "u16 parser" where
  "simple_ack_parser s =
     rbind (p_u16 s) (\<lambda>(packet_id, s). if packet_id = 0 then Err MalformedPacket else p_end packet_id s)"

lemma reads_simple_ack: "reads simple_ack_body simple_ack_parser"
  unfolding simple_ack_body_def [abs_def] simple_ack_parser_def [abs_def] by (intro reads_intros)

lemma simple_ack_parser_Ok_iff [wire_simps]:
  "simple_ack_parser s = Ok (i, s') \<longleftrightarrow> i \<noteq> 0 \<and> s = u16_to_be_bytes i \<and> s' = []"
  by (auto simp: simple_ack_parser_def rbind_Ok_iff wire_simps split: if_splits)

lemma simple_ack_parser_no_panic [no_panic]: "simple_ack_parser s \<noteq> Panic"
  by (auto simp: simple_ack_parser_def rbind_Panic_iff no_panic)

lemma decode_simple_ack_Ok_iff:
  assumes "(t OR f) AND 0xF0 = t" "(t OR f) AND 0x0F = f"
  shows "decode_simple_ack t f buf = Ok (i, n) \<longleftrightarrow> i \<noteq> 0 \<and>
    n = length (frame_wire (t OR f) (u16_to_be_bytes i)) \<and>
    (\<exists>rest. buf = frame_wire (t OR f) (u16_to_be_bytes i) @ rest)"
proof (cases buf)
  case (Cons b r)
  have "decode_simple_ack t f buf = Ok (i, n) \<longleftrightarrow> b = t OR f \<and>
      rbind (read_frame_header (b # r)) (\<lambda>(offset, end). simple_ack_body (b # r) end offset) = Ok (i, n)"
    using nibbles_iff [OF assms, of b] by (auto simp: decode_simple_ack_def Cons)
  then show ?thesis
    unfolding frame_decode_packet [OF reads_simple_ack simple_ack_parser_Ok_iff]
    by (auto simp: Cons Cons_frame_wire)
qed (simp add: decode_simple_ack_def)

lemma decode_simple_ack_no_panic [no_panic]: "decode_simple_ack t f buf \<noteq> Panic"
  using frame_decode_no_panic [OF reads_simple_ack simple_ack_parser_no_panic]
  by (cases buf) (auto simp: decode_simple_ack_def)

lemma encode_simple_ack_eq:
  "encode_simple_ack t f i buf =
     (if i = 0 then Err (InvalidField ZeroPacketId)
      else if length buf < length (frame_wire (t OR f) (u16_to_be_bytes i)) then Err BufferTooSmall
      else Ok (length (frame_wire (t OR f) (u16_to_be_bytes i)),
        frame_wire (t OR f) (u16_to_be_bytes i) @
          drop (length (frame_wire (t OR f) (u16_to_be_bytes i))) buf))"
  by (simp add: encode_simple_ack_def begin_frame_eq length_frame_wire put_cursor)
    (simp add: frame_wire_def)

lemma framed_simple_ack:
  assumes "\<And>x buf. enc x buf = encode_simple_ack t f (get x) buf"
    and "\<And>buf. dec buf = rbind (decode_simple_ack t f buf) (\<lambda>(i, n). Ok (mk i, n))"
    and "\<And>i. get (mk i) = i" "\<And>x. mk (get x) = x"
    and "(t OR f) AND 0xF0 = t" "(t OR f) AND 0x0F = f"
  shows "framed_packet enc dec (\<lambda>_. t OR f) (\<lambda>x. u16_to_be_bytes (get x)) (\<lambda>x. get x \<noteq> 0) (\<lambda>_. True)"
proof
  fix x buf
  show "emits (enc x) (frame_wire (t OR f) (u16_to_be_bytes (get x)))" if "get x \<noteq> 0"
    using that by (intro emitsI) (simp_all add: assms(1) encode_simple_ack_eq)
  show "enc x buf \<noteq> Panic" by (simp add: assms(1) encode_simple_ack_eq)
  show "get x \<noteq> 0 \<and> length (u16_to_be_bytes (get x)) \<le> max_remaining" if "enc x buf = Ok r" for r
    using that by (auto simp: assms(1) encode_simple_ack_eq split: if_splits)
  show "dec buf \<noteq> Panic" by (auto simp: assms(2) rbind_Panic_iff decode_simple_ack_no_panic)
  fix n
  have "dec buf = Ok (x, n) \<longleftrightarrow> decode_simple_ack t f buf = Ok (get x, n)"
    using assms(3,4) by (auto simp: assms(2) rbind_Ok_iff)
  then show "dec buf = Ok (x, n) \<longleftrightarrow> get x \<noteq> 0 \<and> length (u16_to_be_bytes (get x)) \<le> max_remaining \<and>
      n = length (frame_wire (t OR f) (u16_to_be_bytes (get x))) \<and>
      (\<exists>rest. buf = frame_wire (t OR f) (u16_to_be_bytes (get x)) @ rest)"
    by (simp add: decode_simple_ack_Ok_iff [OF assms(5,6)])
qed

section \<open>The packets built on \<^verbatim>\<open>ack_helper\<close>\<close>

record v3_puback =
  v3_puback_packet_id :: u16

definition v3_puback_encoded_len :: "v3_puback \<Rightarrow> nat" where
  "v3_puback_encoded_len p = 2"

definition v3_puback_encode :: "v3_puback \<Rightarrow> encoder" where
  "v3_puback_encode p buf = encode_simple_ack 0x40 0 (v3_puback_packet_id p) buf"

definition v3_puback_decode :: "v3_puback decoder" where
  "v3_puback_decode buf =
     rbind (decode_simple_ack 0x40 0 buf) (\<lambda>(packet_id, offset).
     Ok (\<lparr>v3_puback_packet_id = packet_id\<rparr>, offset))"

record v3_pubrec =
  v3_pubrec_packet_id :: u16

definition v3_pubrec_encoded_len :: "v3_pubrec \<Rightarrow> nat" where
  "v3_pubrec_encoded_len p = 2"

definition v3_pubrec_encode :: "v3_pubrec \<Rightarrow> encoder" where
  "v3_pubrec_encode p buf = encode_simple_ack 0x50 0 (v3_pubrec_packet_id p) buf"

definition v3_pubrec_decode :: "v3_pubrec decoder" where
  "v3_pubrec_decode buf =
     rbind (decode_simple_ack 0x50 0 buf) (\<lambda>(packet_id, offset).
     Ok (\<lparr>v3_pubrec_packet_id = packet_id\<rparr>, offset))"

record v3_pubrel =
  v3_pubrel_packet_id :: u16

definition v3_pubrel_encoded_len :: "v3_pubrel \<Rightarrow> nat" where
  "v3_pubrel_encoded_len p = 2"

definition v3_pubrel_encode :: "v3_pubrel \<Rightarrow> encoder" where
  "v3_pubrel_encode p buf = encode_simple_ack 0x60 0x02 (v3_pubrel_packet_id p) buf"

definition v3_pubrel_decode :: "v3_pubrel decoder" where
  "v3_pubrel_decode buf =
     rbind (decode_simple_ack 0x60 0x02 buf) (\<lambda>(packet_id, offset).
     Ok (\<lparr>v3_pubrel_packet_id = packet_id\<rparr>, offset))"

record v3_pubcomp =
  v3_pubcomp_packet_id :: u16

definition v3_pubcomp_encoded_len :: "v3_pubcomp \<Rightarrow> nat" where
  "v3_pubcomp_encoded_len p = 2"

definition v3_pubcomp_encode :: "v3_pubcomp \<Rightarrow> encoder" where
  "v3_pubcomp_encode p buf = encode_simple_ack 0x70 0 (v3_pubcomp_packet_id p) buf"

definition v3_pubcomp_decode :: "v3_pubcomp decoder" where
  "v3_pubcomp_decode buf =
     rbind (decode_simple_ack 0x70 0 buf) (\<lambda>(packet_id, offset).
     Ok (\<lparr>v3_pubcomp_packet_id = packet_id\<rparr>, offset))"

record v3_unsuback =
  v3_unsuback_packet_id :: u16

definition v3_unsuback_encoded_len :: "v3_unsuback \<Rightarrow> nat" where
  "v3_unsuback_encoded_len p = 2"

definition v3_unsuback_encode :: "v3_unsuback \<Rightarrow> encoder" where
  "v3_unsuback_encode p buf = encode_simple_ack 0xB0 0 (v3_unsuback_packet_id p) buf"

definition v3_unsuback_decode :: "v3_unsuback decoder" where
  "v3_unsuback_decode buf =
     rbind (decode_simple_ack 0xB0 0 buf) (\<lambda>(packet_id, offset).
     Ok (\<lparr>v3_unsuback_packet_id = packet_id\<rparr>, offset))"

datatype v3_pingreq = V3PingReq

definition v3_pingreq_encoded_len :: "v3_pingreq \<Rightarrow> nat" where
  "v3_pingreq_encoded_len p = 0"

definition v3_pingreq_encode :: "v3_pingreq \<Rightarrow> encoder" where
  "v3_pingreq_encode p buf = encode_empty 0xC0 0 buf"

definition v3_pingreq_decode :: "v3_pingreq decoder" where
  "v3_pingreq_decode buf = rbind (decode_empty 0xC0 0 buf) (\<lambda>offset. Ok (V3PingReq, offset))"

datatype v3_pingresp = V3PingResp

definition v3_pingresp_encoded_len :: "v3_pingresp \<Rightarrow> nat" where
  "v3_pingresp_encoded_len p = 0"

definition v3_pingresp_encode :: "v3_pingresp \<Rightarrow> encoder" where
  "v3_pingresp_encode p buf = encode_empty 0xD0 0 buf"

definition v3_pingresp_decode :: "v3_pingresp decoder" where
  "v3_pingresp_decode buf = rbind (decode_empty 0xD0 0 buf) (\<lambda>offset. Ok (V3PingResp, offset))"

datatype v3_disconnect = V3Disconnect

definition v3_disconnect_encoded_len :: "v3_disconnect \<Rightarrow> nat" where
  "v3_disconnect_encoded_len p = 0"

definition v3_disconnect_encode :: "v3_disconnect \<Rightarrow> encoder" where
  "v3_disconnect_encode p buf = encode_empty 0xE0 0 buf"

definition v3_disconnect_decode :: "v3_disconnect decoder" where
  "v3_disconnect_decode buf = rbind (decode_empty 0xE0 0 buf) (\<lambda>offset. Ok (V3Disconnect, offset))"

interpretation v3_puback: framed_packet v3_puback_encode v3_puback_decode "\<lambda>_. 0x40 OR 0"
  "\<lambda>p. u16_to_be_bytes (v3_puback_packet_id p)" "\<lambda>p. v3_puback_packet_id p \<noteq> 0" "\<lambda>_. True"
  by (rule framed_simple_ack [where mk = "\<lambda>i. \<lparr>v3_puback_packet_id = i\<rparr>"])
    (simp_all add: v3_puback_encode_def v3_puback_decode_def)

interpretation v3_pubrec: framed_packet v3_pubrec_encode v3_pubrec_decode "\<lambda>_. 0x50 OR 0"
  "\<lambda>p. u16_to_be_bytes (v3_pubrec_packet_id p)" "\<lambda>p. v3_pubrec_packet_id p \<noteq> 0" "\<lambda>_. True"
  by (rule framed_simple_ack [where mk = "\<lambda>i. \<lparr>v3_pubrec_packet_id = i\<rparr>"])
    (simp_all add: v3_pubrec_encode_def v3_pubrec_decode_def)

interpretation v3_pubrel: framed_packet v3_pubrel_encode v3_pubrel_decode "\<lambda>_. 0x60 OR 0x02"
  "\<lambda>p. u16_to_be_bytes (v3_pubrel_packet_id p)" "\<lambda>p. v3_pubrel_packet_id p \<noteq> 0" "\<lambda>_. True"
  by (rule framed_simple_ack [where mk = "\<lambda>i. \<lparr>v3_pubrel_packet_id = i\<rparr>"])
    (simp_all add: v3_pubrel_encode_def v3_pubrel_decode_def)

interpretation v3_pubcomp: framed_packet v3_pubcomp_encode v3_pubcomp_decode "\<lambda>_. 0x70 OR 0"
  "\<lambda>p. u16_to_be_bytes (v3_pubcomp_packet_id p)" "\<lambda>p. v3_pubcomp_packet_id p \<noteq> 0" "\<lambda>_. True"
  by (rule framed_simple_ack [where mk = "\<lambda>i. \<lparr>v3_pubcomp_packet_id = i\<rparr>"])
    (simp_all add: v3_pubcomp_encode_def v3_pubcomp_decode_def)

interpretation v3_unsuback: framed_packet v3_unsuback_encode v3_unsuback_decode "\<lambda>_. 0xB0 OR 0"
  "\<lambda>p. u16_to_be_bytes (v3_unsuback_packet_id p)" "\<lambda>p. v3_unsuback_packet_id p \<noteq> 0" "\<lambda>_. True"
  by (rule framed_simple_ack [where mk = "\<lambda>i. \<lparr>v3_unsuback_packet_id = i\<rparr>"])
    (simp_all add: v3_unsuback_encode_def v3_unsuback_decode_def)

interpretation v3_pingreq: framed_packet v3_pingreq_encode v3_pingreq_decode "\<lambda>_. 0xC0 OR 0"
  "\<lambda>_. []" "\<lambda>_. True" "\<lambda>_. True"
  by (rule framed_empty [where mk = V3PingReq])
    (auto simp: v3_pingreq_encode_def v3_pingreq_decode_def intro: v3_pingreq.exhaust)

interpretation v3_pingresp: framed_packet v3_pingresp_encode v3_pingresp_decode "\<lambda>_. 0xD0 OR 0"
  "\<lambda>_. []" "\<lambda>_. True" "\<lambda>_. True"
  by (rule framed_empty [where mk = V3PingResp])
    (auto simp: v3_pingresp_encode_def v3_pingresp_decode_def intro: v3_pingresp.exhaust)

interpretation v3_disconnect: framed_packet v3_disconnect_encode v3_disconnect_decode "\<lambda>_. 0xE0 OR 0"
  "\<lambda>_. []" "\<lambda>_. True" "\<lambda>_. True"
  by (rule framed_empty [where mk = V3Disconnect])
    (auto simp: v3_disconnect_encode_def v3_disconnect_decode_def intro: v3_disconnect.exhaust)

section \<open>CONNACK\<close>

record v3_connack =
  v3_session_present :: bool
  v3_return_code :: connect_return_code

definition v3_connack_encoded_len :: "v3_connack \<Rightarrow> nat" where
  "v3_connack_encoded_len p = 2"

definition v3_connack_encode :: "v3_connack \<Rightarrow> encoder" where
  "v3_connack_encode p buf =
     (if v3_session_present p \<and> v3_return_code p \<noteq> Accepted
      then Err (InvalidField SessionPresentWithNonSuccess)
      else
        rbind (begin_frame 0x20 (v3_connack_encoded_len p) buf) (\<lambda>w.
        rbind (put_u8 (if v3_session_present p then 0x01 else 0x00) w) (\<lambda>w.
        rbind (put_u8 (return_code_as_u8 (v3_return_code p)) w) finish)))"

definition v3_connack_body :: "v3_connack reader" where
  "v3_connack_body buf end offset =
     rbind (read_u8 buf end offset) (\<lambda>(flags, offset).
     if flags AND 0xFE \<noteq> 0 then Err MalformedPacket
     else
       let session_present = flags AND 0x01 \<noteq> 0 in
       rbind (read_u8 buf end offset) (\<lambda>(code, offset).
       rbind (ok_or MalformedPacket (return_code_from_u8 code)) (\<lambda>return_code.
       if return_code \<noteq> Accepted \<and> session_present then Err MalformedPacket
       else
         read_end \<lparr>v3_session_present = session_present, v3_return_code = return_code\<rparr>
           buf end offset)))"

definition v3_connack_decode :: "v3_connack decoder" where
  "v3_connack_decode buf =
     (if buf = [] then Err InsufficientData
      else
        rbind (index buf 0) (\<lambda>b0.
        if b0 AND 0xF0 \<noteq> 0x20 then Err InvalidPacketType
        else if b0 AND 0x0F \<noteq> 0 then Err InvalidPacketFlags
        else
          rbind (read_frame_header buf) (\<lambda>(offset, end). v3_connack_body buf end offset)))"

definition v3_connack_parser :: "v3_connack parser" where
  "v3_connack_parser s =
     rbind (p_u8 s) (\<lambda>(flags, s).
     if flags AND 0xFE \<noteq> 0 then Err MalformedPacket
     else
       rbind (p_u8 s) (\<lambda>(code, s).
       rbind (ok_or MalformedPacket (return_code_from_u8 code)) (\<lambda>return_code.
       if return_code \<noteq> Accepted \<and> flags AND 0x01 \<noteq> 0 then Err MalformedPacket
       else p_end \<lparr>v3_session_present = flags AND 0x01 \<noteq> 0, v3_return_code = return_code\<rparr> s)))"

definition v3_connack_bytes :: "v3_connack \<Rightarrow> bytes" where
  "v3_connack_bytes p =
     [if v3_session_present p then 1 else 0, return_code_as_u8 (v3_return_code p)]"

definition v3_connack_ok :: "v3_connack \<Rightarrow> bool" where
  "v3_connack_ok p \<longleftrightarrow> (v3_session_present p \<longrightarrow> v3_return_code p = Accepted)"

lemma reads_v3_connack: "reads v3_connack_body v3_connack_parser"
  unfolding v3_connack_body_def [abs_def] v3_connack_parser_def [abs_def] Let_def
  by (intro reads_intros)

lemma u8_flag_bit: "(b :: u8) AND 0xFE = 0 \<longleftrightarrow> b = 0 \<or> b = 1"
proof
  assume *: "b AND 0xFE = 0"
  have "(0xFE OR 0x01 :: u8) = - 1" by simp
  then have "b = b AND (0xFE OR 0x01)" by (simp only: and.right_neutral)
  also have "\<dots> = b AND 1" by (simp only: bit.conj_disj_distrib * or.left_neutral)
  finally show "b = 0 \<or> b = 1" by (metis and_one_eq mod2_eq_if)
qed auto

lemma v3_connack_parser_Ok_iff:
  "v3_connack_parser s = Ok (p, s') \<longleftrightarrow> v3_connack_ok p \<and> s = v3_connack_bytes p \<and> s' = []"
proof (cases "\<exists>flags code r. s = flags # code # r")
  case True
  then obtain flags code r where s: "s = flags # code # r" by blast
  show ?thesis
  proof (cases "flags = 0 \<or> flags = 1")
    case True
    then have flags: "flags AND 0xFE = 0" "flags AND 1 \<noteq> 0 \<longleftrightarrow> flags = 1" by auto
    show ?thesis
    proof (cases "return_code_from_u8 code")
      case None
      then have "code \<noteq> return_code_as_u8 c" for c using return_code.from_as [of c] by auto
      with None flags show ?thesis by (simp add: s v3_connack_parser_def v3_connack_bytes_def)
    next
      case (Some c)
      then have code: "code = return_code_as_u8 c" by (simp add: return_code.from_u8_iff)
      with Some flags True show ?thesis
        by (cases p) (auto simp: s v3_connack_parser_def v3_connack_ok_def v3_connack_bytes_def
          p_end_def return_code.as_u8_inject return_code.from_as)
    qed
  next
    case False
    then show ?thesis by (auto simp: s v3_connack_parser_def v3_connack_bytes_def u8_flag_bit)
  qed
next
  case False
  then consider "s = []" | flags where "s = [flags]" by (metis neq_Nil_conv)
  then show ?thesis by cases (simp_all add: v3_connack_parser_def v3_connack_bytes_def)
qed

lemma v3_connack_parser_no_panic: "v3_connack_parser s \<noteq> Panic"
  by (auto simp: v3_connack_parser_def rbind_Panic_iff no_panic)

lemma v3_connack_encode_eq:
  "v3_connack_encode p buf =
     (let wire = frame_wire 0x20 (v3_connack_bytes p) in
      if \<not> v3_connack_ok p then Err (InvalidField SessionPresentWithNonSuccess)
      else if length buf < length wire then Err BufferTooSmall
      else Ok (length wire, wire @ drop (length wire) buf))"
  by (simp add: v3_connack_encode_def v3_connack_encoded_len_def begin_frame_eq length_frame_wire
      put_cursor v3_connack_ok_def v3_connack_bytes_def Let_def)
    (simp add: frame_wire_def)

interpretation v3_connack: framed_packet v3_connack_encode v3_connack_decode "\<lambda>_. 0x20"
  v3_connack_bytes v3_connack_ok "\<lambda>_. True"
proof
  fix x buf n
  show "emits (v3_connack_encode x) (frame_wire 0x20 (v3_connack_bytes x))" if "v3_connack_ok x"
    using that by (intro emitsI) (simp_all add: v3_connack_encode_eq Let_def)
  show "v3_connack_encode x buf \<noteq> Panic" by (simp add: v3_connack_encode_eq Let_def)
  show "v3_connack_ok x \<and> length (v3_connack_bytes x) \<le> max_remaining"
    if "v3_connack_encode x buf = Ok r" for r
    using that by (auto simp: v3_connack_encode_eq v3_connack_bytes_def Let_def split: if_splits)
  show "v3_connack_decode buf \<noteq> Panic"
    using frame_decode_no_panic [OF reads_v3_connack v3_connack_parser_no_panic]
    by (cases buf) (auto simp: v3_connack_decode_def)
  show "v3_connack_decode buf = Ok (x, n) \<longleftrightarrow> v3_connack_ok x \<and>
      length (v3_connack_bytes x) \<le> max_remaining \<and> n = length (frame_wire 0x20 (v3_connack_bytes x)) \<and>
      (\<exists>rest. buf = frame_wire 0x20 (v3_connack_bytes x) @ rest)"
  proof (cases buf)
    case (Cons b r)
    have "v3_connack_decode buf = Ok (x, n) \<longleftrightarrow> b = 0x20 \<and>
        rbind (read_frame_header (b # r)) (\<lambda>(offset, end). v3_connack_body (b # r) end offset) = Ok (x, n)"
      using nibbles_iff [of "0x20" 0 b] by (auto simp: v3_connack_decode_def Cons)
    then show ?thesis
      unfolding frame_decode_packet [OF reads_v3_connack v3_connack_parser_Ok_iff]
      by (auto simp: Cons Cons_frame_wire)
  qed (simp add: v3_connack_decode_def)
qed

end
