(* ===== verification/V311Packet.thy ===== *)
theory V311Packet
  imports V311Acks V311Connect V311Subscribe
begin

unbundle bit_operations_syntax

text \<open>
  The packet enumerations of MQTT 3.1.1, \<^verbatim>\<open>src/v311/packet.rs\<close>: \<open>v3_packet\<close> of the
  low-level codec with every packet type, and the incoming and outgoing packets of a client. The
  dispatch of \<^verbatim>\<open>codec::Packet\<close> over the first byte is again an interpretation of the packet contract.
\<close>

section \<open>Encoding to a fresh vector\<close>

text \<open>
  \<^verbatim>\<open>encode_to_vec\<close>, the same code in both enumerations: the size of the vector is computed with
  checked additions, the vector is zero-filled and handed to \<^verbatim>\<open>encode\<close>.
\<close>

definition encode_to_vec :: "nat \<Rightarrow> encoder \<Rightarrow> (bytes, encode_error) result" where
  "encode_to_vec remaining_len enc =
     (if unat vbi_MAX < remaining_len then Err (PacketTooLarge remaining_len (unat vbi_MAX))
      else
        let vbi = word_of_nat remaining_len in
        rbind (ok_or (PacketTooLarge usize_max usize_max)
            (Option.bind (usize_checked_add 1 (vbi_encoded_len vbi)) (\<lambda>x. usize_checked_add x remaining_len)))
          (\<lambda>total_len.
        rbind (enc (replicate total_len 0)) (\<lambda>(_, buf). Ok buf)))"

lemma encode_to_vec_eq:
  assumes "emits enc (frame_wire b body)" "length body \<le> max_remaining" "remaining_len = length body"
  shows "encode_to_vec remaining_len enc = Ok (frame_wire b body)"
proof -
  note v = remaining_word [OF assms(2)]
  have le: "length (vbi_wire (word_of_nat (length body))) \<le> 4"
    using length_vbi_wire [OF v(2)] by (simp add: vbi_encoded_len_def split: if_splits)
  then have "1 + vbi_encoded_len (word_of_nat remaining_len) + remaining_len = length (frame_wire b body)"
    "length (frame_wire b body) \<le> usize_max"
    using assms(2,3) by (simp_all add: length_frame_wire length_vbi_wire [OF v(2)] usize_max_def)
  then show ?thesis
    using emitsD [OF assms(1), of "replicate (length (frame_wire b body)) 0"] assms(2,3)
    by (auto simp: encode_to_vec_def usize_checked_add_def vbi_MAX_unat Let_def)
qed

section \<open>The packets\<close>

datatype v3_packet =
    P3Connect v3_connect
  | P3ConnAck v3_connack
  | P3Publish v3_publish
  | P3PubAck v3_puback
  | P3PubRec v3_pubrec
  | P3PubRel v3_pubrel
  | P3PubComp v3_pubcomp
  | P3Subscribe v3_subscribe
  | P3SubAck v3_suback
  | P3Unsubscribe v3_unsubscribe
  | P3UnsubAck v3_unsuback
  | P3PingReq v3_pingreq
  | P3PingResp v3_pingresp
  | P3Disconnect v3_disconnect

fun v3_packet_encoded_len :: "v3_packet \<Rightarrow> nat" where
  "v3_packet_encoded_len (P3Connect p) = v3_connect_encoded_len p"
| "v3_packet_encoded_len (P3ConnAck p) = v3_connack_encoded_len p"
| "v3_packet_encoded_len (P3Publish p) = v3_publish_encoded_len p"
| "v3_packet_encoded_len (P3PubAck p) = v3_puback_encoded_len p"
| "v3_packet_encoded_len (P3PubRec p) = v3_pubrec_encoded_len p"
| "v3_packet_encoded_len (P3PubRel p) = v3_pubrel_encoded_len p"
| "v3_packet_encoded_len (P3PubComp p) = v3_pubcomp_encoded_len p"
| "v3_packet_encoded_len (P3Subscribe p) = v3_subscribe_encoded_len p"
| "v3_packet_encoded_len (P3SubAck p) = v3_suback_encoded_len p"
| "v3_packet_encoded_len (P3Unsubscribe p) = v3_unsubscribe_encoded_len p"
| "v3_packet_encoded_len (P3UnsubAck p) = v3_unsuback_encoded_len p"
| "v3_packet_encoded_len (P3PingReq p) = v3_pingreq_encoded_len p"
| "v3_packet_encoded_len (P3PingResp p) = v3_pingresp_encoded_len p"
| "v3_packet_encoded_len (P3Disconnect p) = v3_disconnect_encoded_len p"

fun v3_packet_encode :: "v3_packet \<Rightarrow> encoder" where
  "v3_packet_encode (P3Connect p) buf = v3_connect_encode p buf"
| "v3_packet_encode (P3ConnAck p) buf = v3_connack_encode p buf"
| "v3_packet_encode (P3Publish p) buf = v3_publish_encode p buf"
| "v3_packet_encode (P3PubAck p) buf = v3_puback_encode p buf"
| "v3_packet_encode (P3PubRec p) buf = v3_pubrec_encode p buf"
| "v3_packet_encode (P3PubRel p) buf = v3_pubrel_encode p buf"
| "v3_packet_encode (P3PubComp p) buf = v3_pubcomp_encode p buf"
| "v3_packet_encode (P3Subscribe p) buf = v3_subscribe_encode p buf"
| "v3_packet_encode (P3SubAck p) buf = v3_suback_encode p buf"
| "v3_packet_encode (P3Unsubscribe p) buf = v3_unsubscribe_encode p buf"
| "v3_packet_encode (P3UnsubAck p) buf = v3_unsuback_encode p buf"
| "v3_packet_encode (P3PingReq p) buf = v3_pingreq_encode p buf"
| "v3_packet_encode (P3PingResp p) buf = v3_pingresp_encode p buf"
| "v3_packet_encode (P3Disconnect p) buf = v3_disconnect_encode p buf"

definition v3_packet_encode_to_vec :: "v3_packet \<Rightarrow> (bytes, encode_error) result" where
  "v3_packet_encode_to_vec p = encode_to_vec (v3_packet_encoded_len p) (v3_packet_encode p)"

definition v3_packet_decode :: "v3_packet decoder" where
  "v3_packet_decode buf =
     (if buf = [] then Err InsufficientData
      else
        rbind (index buf 0) (\<lambda>b0.
        let packet_type = b0 AND 0xF0 in
        if packet_type = 0x10 then decode_as P3Connect v3_connect_decode buf
        else if packet_type = 0x20 then decode_as P3ConnAck v3_connack_decode buf
        else if packet_type = 0x30 then decode_as P3Publish v3_publish_decode buf
        else if packet_type = 0x40 then decode_as P3PubAck v3_puback_decode buf
        else if packet_type = 0x50 then decode_as P3PubRec v3_pubrec_decode buf
        else if packet_type = 0x60 then decode_as P3PubRel v3_pubrel_decode buf
        else if packet_type = 0x70 then decode_as P3PubComp v3_pubcomp_decode buf
        else if packet_type = 0x80 then decode_as P3Subscribe v3_subscribe_decode buf
        else if packet_type = 0x90 then decode_as P3SubAck v3_suback_decode buf
        else if packet_type = 0xA0 then decode_as P3Unsubscribe v3_unsubscribe_decode buf
        else if packet_type = 0xB0 then decode_as P3UnsubAck v3_unsuback_decode buf
        else if packet_type = 0xC0 then decode_as P3PingReq v3_pingreq_decode buf
        else if packet_type = 0xD0 then decode_as P3PingResp v3_pingresp_decode buf
        else if packet_type = 0xE0 then decode_as P3Disconnect v3_disconnect_decode buf
        else Err InvalidPacketType))"

datatype v3_outgoing =
    Out3Connect v3_connect
  | Out3Publish v3_publish
  | Out3PubAck v3_puback
  | Out3PubRec v3_pubrec
  | Out3PubRel v3_pubrel
  | Out3PubComp v3_pubcomp
  | Out3Subscribe v3_subscribe
  | Out3Unsubscribe v3_unsubscribe
  | Out3PingReq v3_pingreq
  | Out3Disconnect v3_disconnect

fun v3_outgoing_encoded_len :: "v3_outgoing \<Rightarrow> nat" where
  "v3_outgoing_encoded_len (Out3Connect p) = v3_connect_encoded_len p"
| "v3_outgoing_encoded_len (Out3Publish p) = v3_publish_encoded_len p"
| "v3_outgoing_encoded_len (Out3PubAck p) = v3_puback_encoded_len p"
| "v3_outgoing_encoded_len (Out3PubRec p) = v3_pubrec_encoded_len p"
| "v3_outgoing_encoded_len (Out3PubRel p) = v3_pubrel_encoded_len p"
| "v3_outgoing_encoded_len (Out3PubComp p) = v3_pubcomp_encoded_len p"
| "v3_outgoing_encoded_len (Out3Subscribe p) = v3_subscribe_encoded_len p"
| "v3_outgoing_encoded_len (Out3Unsubscribe p) = v3_unsubscribe_encoded_len p"
| "v3_outgoing_encoded_len (Out3PingReq p) = v3_pingreq_encoded_len p"
| "v3_outgoing_encoded_len (Out3Disconnect p) = v3_disconnect_encoded_len p"

fun v3_outgoing_encode :: "v3_outgoing \<Rightarrow> encoder" where
  "v3_outgoing_encode (Out3Connect p) buf = v3_connect_encode p buf"
| "v3_outgoing_encode (Out3Publish p) buf = v3_publish_encode p buf"
| "v3_outgoing_encode (Out3PubAck p) buf = v3_puback_encode p buf"
| "v3_outgoing_encode (Out3PubRec p) buf = v3_pubrec_encode p buf"
| "v3_outgoing_encode (Out3PubRel p) buf = v3_pubrel_encode p buf"
| "v3_outgoing_encode (Out3PubComp p) buf = v3_pubcomp_encode p buf"
| "v3_outgoing_encode (Out3Subscribe p) buf = v3_subscribe_encode p buf"
| "v3_outgoing_encode (Out3Unsubscribe p) buf = v3_unsubscribe_encode p buf"
| "v3_outgoing_encode (Out3PingReq p) buf = v3_pingreq_encode p buf"
| "v3_outgoing_encode (Out3Disconnect p) buf = v3_disconnect_encode p buf"

definition v3_outgoing_encode_to_vec :: "v3_outgoing \<Rightarrow> (bytes, encode_error) result" where
  "v3_outgoing_encode_to_vec p = encode_to_vec (v3_outgoing_encoded_len p) (v3_outgoing_encode p)"

datatype v3_incoming =
    In3ConnAck v3_connack
  | In3Publish v3_publish
  | In3PubAck v3_puback
  | In3PubRec v3_pubrec
  | In3PubRel v3_pubrel
  | In3PubComp v3_pubcomp
  | In3SubAck v3_suback
  | In3UnsubAck v3_unsuback
  | In3PingResp v3_pingresp

definition v3_incoming_decode :: "v3_incoming decoder" where
  "v3_incoming_decode buf =
     (if buf = [] then Err InsufficientData
      else
        rbind (index buf 0) (\<lambda>b0.
        let packet_type = b0 AND 0xF0 in
        if packet_type = 0x20 then decode_as In3ConnAck v3_connack_decode buf
        else if packet_type = 0x30 then decode_as In3Publish v3_publish_decode buf
        else if packet_type = 0x40 then decode_as In3PubAck v3_puback_decode buf
        else if packet_type = 0x50 then decode_as In3PubRec v3_pubrec_decode buf
        else if packet_type = 0x60 then decode_as In3PubRel v3_pubrel_decode buf
        else if packet_type = 0x70 then decode_as In3PubComp v3_pubcomp_decode buf
        else if packet_type = 0x90 then decode_as In3SubAck v3_suback_decode buf
        else if packet_type = 0xB0 then decode_as In3UnsubAck v3_unsuback_decode buf
        else if packet_type = 0xD0 then decode_as In3PingResp v3_pingresp_decode buf
        else if packet_type \<in> {0x10, 0x80, 0xA0, 0xC0, 0xE0} then Err (UnexpectedPacket packet_type)
        else if packet_type \<in> {0x00, 0xF0} then Err InvalidPacketType
        else Err InvalidPacketType))"

section \<open>The dispatch\<close>

text \<open>The first byte of a decoded packet has the type of that packet in its upper half.\<close>

lemma v3_publish_first_type: "v3_publish_first p AND 0xF0 = 0x30"
  using publish_first_iff [of "v3_publish_first p" "v3p_dup p" "v3p_qos p" "v3p_retain p"]
  by (simp add: v3_publish_first_def)

lemmas v3_decoded_first =
  v3_connect.dec_first v3_connack.dec_first v3_publish.dec_first v3_puback.dec_first
  v3_pubrec.dec_first v3_pubrel.dec_first v3_pubcomp.dec_first v3_subscribe.dec_first
  v3_suback.dec_first v3_unsubscribe.dec_first v3_unsuback.dec_first v3_pingreq.dec_first
  v3_pingresp.dec_first v3_disconnect.dec_first

fun v3_packet_first :: "v3_packet \<Rightarrow> u8" where
  "v3_packet_first (P3Connect p) = 0x10"
| "v3_packet_first (P3ConnAck p) = 0x20"
| "v3_packet_first (P3Publish p) = v3_publish_first p"
| "v3_packet_first (P3PubAck p) = 0x40 OR 0"
| "v3_packet_first (P3PubRec p) = 0x50 OR 0"
| "v3_packet_first (P3PubRel p) = 0x60 OR 0x02"
| "v3_packet_first (P3PubComp p) = 0x70 OR 0"
| "v3_packet_first (P3Subscribe p) = 0x80 OR 0x02"
| "v3_packet_first (P3SubAck p) = 0x90 OR 0"
| "v3_packet_first (P3Unsubscribe p) = 0xA0 OR 0x02"
| "v3_packet_first (P3UnsubAck p) = 0xB0 OR 0"
| "v3_packet_first (P3PingReq p) = 0xC0 OR 0"
| "v3_packet_first (P3PingResp p) = 0xD0 OR 0"
| "v3_packet_first (P3Disconnect p) = 0xE0 OR 0"

text \<open>The packet of each constructor is decoded by its own decoder, and by no other.\<close>

lemma v3_packet_decode_head:
  "(case y of
        P3Connect p \<Rightarrow> v3_connect_decode buf = Ok (p, n)
      | P3ConnAck p \<Rightarrow> v3_connack_decode buf = Ok (p, n)
      | P3Publish p \<Rightarrow> v3_publish_decode buf = Ok (p, n)
      | P3PubAck p \<Rightarrow> v3_puback_decode buf = Ok (p, n)
      | P3PubRec p \<Rightarrow> v3_pubrec_decode buf = Ok (p, n)
      | P3PubRel p \<Rightarrow> v3_pubrel_decode buf = Ok (p, n)
      | P3PubComp p \<Rightarrow> v3_pubcomp_decode buf = Ok (p, n)
      | P3Subscribe p \<Rightarrow> v3_subscribe_decode buf = Ok (p, n)
      | P3SubAck p \<Rightarrow> v3_suback_decode buf = Ok (p, n)
      | P3Unsubscribe p \<Rightarrow> v3_unsubscribe_decode buf = Ok (p, n)
      | P3UnsubAck p \<Rightarrow> v3_unsuback_decode buf = Ok (p, n)
      | P3PingReq p \<Rightarrow> v3_pingreq_decode buf = Ok (p, n)
      | P3PingResp p \<Rightarrow> v3_pingresp_decode buf = Ok (p, n)
      | P3Disconnect p \<Rightarrow> v3_disconnect_decode buf = Ok (p, n))
   \<Longrightarrow> \<exists>b r. buf = b # r \<and> b AND 0xF0 = v3_packet_first y AND 0xF0"
  by (cases y) (auto dest: v3_decoded_first)

lemma v3_packet_decode_Ok_iff:
  "v3_packet_decode buf = Ok (y, n) \<longleftrightarrow>
     (case y of
        P3Connect p \<Rightarrow> v3_connect_decode buf = Ok (p, n)
      | P3ConnAck p \<Rightarrow> v3_connack_decode buf = Ok (p, n)
      | P3Publish p \<Rightarrow> v3_publish_decode buf = Ok (p, n)
      | P3PubAck p \<Rightarrow> v3_puback_decode buf = Ok (p, n)
      | P3PubRec p \<Rightarrow> v3_pubrec_decode buf = Ok (p, n)
      | P3PubRel p \<Rightarrow> v3_pubrel_decode buf = Ok (p, n)
      | P3PubComp p \<Rightarrow> v3_pubcomp_decode buf = Ok (p, n)
      | P3Subscribe p \<Rightarrow> v3_subscribe_decode buf = Ok (p, n)
      | P3SubAck p \<Rightarrow> v3_suback_decode buf = Ok (p, n)
      | P3Unsubscribe p \<Rightarrow> v3_unsubscribe_decode buf = Ok (p, n)
      | P3UnsubAck p \<Rightarrow> v3_unsuback_decode buf = Ok (p, n)
      | P3PingReq p \<Rightarrow> v3_pingreq_decode buf = Ok (p, n)
      | P3PingResp p \<Rightarrow> v3_pingresp_decode buf = Ok (p, n)
      | P3Disconnect p \<Rightarrow> v3_disconnect_decode buf = Ok (p, n))" (is "_ = ?R")
proof
  assume "v3_packet_decode buf = Ok (y, n)"
  then show ?R
    by (auto simp: v3_packet_decode_def rbind_Ok_iff decode_as_Ok_iff Let_def split: if_splits)
next
  assume ?R
  with v3_packet_decode_head [OF this] show "v3_packet_decode buf = Ok (y, n)"
    by (cases y) (auto simp: v3_packet_decode_def decode_as_Ok_iff v3_publish_first_type Let_def)
qed

lemma v3_incoming_decode_head:
  "(case y of
        In3ConnAck p \<Rightarrow> v3_connack_decode buf = Ok (p, n)
      | In3Publish p \<Rightarrow> v3_publish_decode buf = Ok (p, n)
      | In3PubAck p \<Rightarrow> v3_puback_decode buf = Ok (p, n)
      | In3PubRec p \<Rightarrow> v3_pubrec_decode buf = Ok (p, n)
      | In3PubRel p \<Rightarrow> v3_pubrel_decode buf = Ok (p, n)
      | In3PubComp p \<Rightarrow> v3_pubcomp_decode buf = Ok (p, n)
      | In3SubAck p \<Rightarrow> v3_suback_decode buf = Ok (p, n)
      | In3UnsubAck p \<Rightarrow> v3_unsuback_decode buf = Ok (p, n)
      | In3PingResp p \<Rightarrow> v3_pingresp_decode buf = Ok (p, n))
   \<Longrightarrow> \<exists>b r. buf = b # r \<and> b AND 0xF0 = (case y of
          In3ConnAck p \<Rightarrow> 0x20
        | In3Publish p \<Rightarrow> v3_publish_first p
        | In3PubAck p \<Rightarrow> 0x40 OR 0
        | In3PubRec p \<Rightarrow> 0x50 OR 0
        | In3PubRel p \<Rightarrow> 0x60 OR 0x02
        | In3PubComp p \<Rightarrow> 0x70 OR 0
        | In3SubAck p \<Rightarrow> 0x90 OR 0
        | In3UnsubAck p \<Rightarrow> 0xB0 OR 0
        | In3PingResp p \<Rightarrow> 0xD0 OR 0) AND 0xF0"
  by (cases y) (auto dest: v3_decoded_first)

lemma v3_incoming_decode_Ok_iff:
  "v3_incoming_decode buf = Ok (y, n) \<longleftrightarrow>
     (case y of
        In3ConnAck p \<Rightarrow> v3_connack_decode buf = Ok (p, n)
      | In3Publish p \<Rightarrow> v3_publish_decode buf = Ok (p, n)
      | In3PubAck p \<Rightarrow> v3_puback_decode buf = Ok (p, n)
      | In3PubRec p \<Rightarrow> v3_pubrec_decode buf = Ok (p, n)
      | In3PubRel p \<Rightarrow> v3_pubrel_decode buf = Ok (p, n)
      | In3PubComp p \<Rightarrow> v3_pubcomp_decode buf = Ok (p, n)
      | In3SubAck p \<Rightarrow> v3_suback_decode buf = Ok (p, n)
      | In3UnsubAck p \<Rightarrow> v3_unsuback_decode buf = Ok (p, n)
      | In3PingResp p \<Rightarrow> v3_pingresp_decode buf = Ok (p, n))" (is "_ = ?R")
proof
  assume "v3_incoming_decode buf = Ok (y, n)"
  then show ?R
    by (auto simp: v3_incoming_decode_def rbind_Ok_iff decode_as_Ok_iff Let_def split: if_splits)
next
  assume ?R
  with v3_incoming_decode_head [OF this] show "v3_incoming_decode buf = Ok (y, n)"
    by (cases y) (auto simp: v3_incoming_decode_def decode_as_Ok_iff v3_publish_first_type Let_def)
qed

section \<open>The packet contract\<close>

text \<open>What may be sent, what follows its fixed header, and what the Rust types say of it.\<close>

fun v3_packet_ok :: "v3_packet \<Rightarrow> bool" where
  "v3_packet_ok (P3Connect p) \<longleftrightarrow> v3_connect_ok p"
| "v3_packet_ok (P3ConnAck p) \<longleftrightarrow> v3_connack_ok p"
| "v3_packet_ok (P3Publish p) \<longleftrightarrow> v3_publish_ok p"
| "v3_packet_ok (P3PubAck p) \<longleftrightarrow> v3_puback_packet_id p \<noteq> 0"
| "v3_packet_ok (P3PubRec p) \<longleftrightarrow> v3_pubrec_packet_id p \<noteq> 0"
| "v3_packet_ok (P3PubRel p) \<longleftrightarrow> v3_pubrel_packet_id p \<noteq> 0"
| "v3_packet_ok (P3PubComp p) \<longleftrightarrow> v3_pubcomp_packet_id p \<noteq> 0"
| "v3_packet_ok (P3Subscribe p) \<longleftrightarrow> v3_subscribe_ok p"
| "v3_packet_ok (P3SubAck p) \<longleftrightarrow> v3_suback_ok p"
| "v3_packet_ok (P3Unsubscribe p) \<longleftrightarrow> v3_unsubscribe_ok p"
| "v3_packet_ok (P3UnsubAck p) \<longleftrightarrow> v3_unsuback_packet_id p \<noteq> 0"
| "v3_packet_ok (P3PingReq p) \<longleftrightarrow> True"
| "v3_packet_ok (P3PingResp p) \<longleftrightarrow> True"
| "v3_packet_ok (P3Disconnect p) \<longleftrightarrow> True"

fun v3_packet_bytes :: "v3_packet \<Rightarrow> bytes" where
  "v3_packet_bytes (P3Connect p) = v3_connect_bytes p"
| "v3_packet_bytes (P3ConnAck p) = v3_connack_bytes p"
| "v3_packet_bytes (P3Publish p) = v3_publish_bytes p"
| "v3_packet_bytes (P3PubAck p) = u16_to_be_bytes (v3_puback_packet_id p)"
| "v3_packet_bytes (P3PubRec p) = u16_to_be_bytes (v3_pubrec_packet_id p)"
| "v3_packet_bytes (P3PubRel p) = u16_to_be_bytes (v3_pubrel_packet_id p)"
| "v3_packet_bytes (P3PubComp p) = u16_to_be_bytes (v3_pubcomp_packet_id p)"
| "v3_packet_bytes (P3Subscribe p) = v3_subscribe_bytes p"
| "v3_packet_bytes (P3SubAck p) = v3_suback_bytes p"
| "v3_packet_bytes (P3Unsubscribe p) = v3_unsubscribe_bytes p"
| "v3_packet_bytes (P3UnsubAck p) = u16_to_be_bytes (v3_unsuback_packet_id p)"
| "v3_packet_bytes (P3PingReq p) = []"
| "v3_packet_bytes (P3PingResp p) = []"
| "v3_packet_bytes (P3Disconnect p) = []"

fun v3_packet_typed :: "v3_packet \<Rightarrow> bool" where
  "v3_packet_typed (P3Connect p) \<longleftrightarrow> v3_connect_typed p"
| "v3_packet_typed (P3ConnAck p) \<longleftrightarrow> True"
| "v3_packet_typed (P3Publish p) \<longleftrightarrow> v3_publish_typed p"
| "v3_packet_typed (P3PubAck p) \<longleftrightarrow> True"
| "v3_packet_typed (P3PubRec p) \<longleftrightarrow> True"
| "v3_packet_typed (P3PubRel p) \<longleftrightarrow> True"
| "v3_packet_typed (P3PubComp p) \<longleftrightarrow> True"
| "v3_packet_typed (P3Subscribe p) \<longleftrightarrow> v3_subscribe_typed p"
| "v3_packet_typed (P3SubAck p) \<longleftrightarrow> True"
| "v3_packet_typed (P3Unsubscribe p) \<longleftrightarrow> v3_unsubscribe_typed p"
| "v3_packet_typed (P3UnsubAck p) \<longleftrightarrow> True"
| "v3_packet_typed (P3PingReq p) \<longleftrightarrow> True"
| "v3_packet_typed (P3PingResp p) \<longleftrightarrow> True"
| "v3_packet_typed (P3Disconnect p) \<longleftrightarrow> True"

abbreviation v3_packet_wire :: "v3_packet \<Rightarrow> bytes" where
  "v3_packet_wire p \<equiv> frame_wire (v3_packet_first p) (v3_packet_bytes p)"

lemmas v3_encode_no_panic =
  v3_connect.enc_no_panic v3_connack.enc_no_panic v3_publish.enc_no_panic v3_puback.enc_no_panic
  v3_pubrec.enc_no_panic v3_pubrel.enc_no_panic v3_pubcomp.enc_no_panic v3_subscribe.enc_no_panic
  v3_suback.enc_no_panic v3_unsubscribe.enc_no_panic v3_unsuback.enc_no_panic
  v3_pingreq.enc_no_panic v3_pingresp.enc_no_panic v3_disconnect.enc_no_panic

lemmas v3_decode_no_panic =
  v3_connect.dec_no_panic v3_connack.dec_no_panic v3_publish.dec_no_panic v3_puback.dec_no_panic
  v3_pubrec.dec_no_panic v3_pubrel.dec_no_panic v3_pubcomp.dec_no_panic v3_subscribe.dec_no_panic
  v3_suback.dec_no_panic v3_unsubscribe.dec_no_panic v3_unsuback.dec_no_panic
  v3_pingreq.dec_no_panic v3_pingresp.dec_no_panic v3_disconnect.dec_no_panic

lemma v3_packet_emits:
  "v3_packet_ok p \<Longrightarrow> length (v3_packet_bytes p) \<le> max_remaining \<Longrightarrow>
   emits (v3_packet_encode p) (v3_packet_wire p)"
  using v3_connect.enc_body v3_connack.enc_body v3_publish.enc_body v3_puback.enc_body
    v3_pubrec.enc_body v3_pubrel.enc_body v3_pubcomp.enc_body v3_subscribe.enc_body
    v3_suback.enc_body v3_unsubscribe.enc_body v3_unsuback.enc_body v3_pingreq.enc_body
    v3_pingresp.enc_body v3_disconnect.enc_body
  by (cases p) (simp_all only: v3_packet_ok.simps v3_packet_bytes.simps v3_packet_first.simps
      v3_packet_encode.simps [abs_def])

lemma v3_packet_encode_ok:
  "v3_packet_typed p \<Longrightarrow> v3_packet_encode p buf = Ok r \<Longrightarrow>
   v3_packet_ok p \<and> length (v3_packet_bytes p) \<le> max_remaining"
  using v3_connect.enc_ok v3_connack.enc_ok v3_publish.enc_ok v3_puback.enc_ok
    v3_pubrec.enc_ok v3_pubrel.enc_ok v3_pubcomp.enc_ok v3_subscribe.enc_ok
    v3_suback.enc_ok v3_unsubscribe.enc_ok v3_unsuback.enc_ok
  by (cases p) (simp_all only: v3_packet_ok.simps v3_packet_bytes.simps v3_packet_typed.simps
      v3_packet_encode.simps list.size zero_le simp_thms)

interpretation v3_packet: framed_packet v3_packet_encode v3_packet_decode v3_packet_first
  v3_packet_bytes v3_packet_ok v3_packet_typed
proof
  fix x buf n
  show "v3_packet_ok x \<Longrightarrow> length (v3_packet_bytes x) \<le> max_remaining \<Longrightarrow>
      emits (v3_packet_encode x) (v3_packet_wire x)" by (rule v3_packet_emits)
  show "v3_packet_typed x \<Longrightarrow> v3_packet_encode x buf = Ok r \<Longrightarrow>
      v3_packet_ok x \<and> length (v3_packet_bytes x) \<le> max_remaining" for r by (rule v3_packet_encode_ok)
  show "v3_packet_encode x buf \<noteq> Panic"
    by (cases x) (simp_all only: v3_packet_encode.simps v3_encode_no_panic not_False_eq_True)
  show "v3_packet_decode buf = Ok (x, n) \<longleftrightarrow> v3_packet_ok x \<and>
      length (v3_packet_bytes x) \<le> max_remaining \<and> n = length (v3_packet_wire x) \<and>
      (\<exists>rest. buf = v3_packet_wire x @ rest)"
    unfolding v3_packet_decode_Ok_iff
    by (cases x) (simp_all only: v3_packet.case v3_packet_ok.simps v3_packet_bytes.simps v3_packet_first.simps
        v3_connect.dec_body v3_connack.dec_body v3_publish.dec_body v3_puback.dec_body
        v3_pubrec.dec_body v3_pubrel.dec_body v3_pubcomp.dec_body v3_subscribe.dec_body
        v3_suback.dec_body v3_unsubscribe.dec_body v3_unsuback.dec_body v3_pingreq.dec_body
        v3_pingresp.dec_body v3_disconnect.dec_body)
  show "v3_packet_decode buf \<noteq> Panic"
    by (cases buf) (simp_all add: v3_packet_decode_def v3_decode_no_panic Let_def)
qed

section \<open>Whole packets\<close>

lemma v3_packet_encoded_len_eq:
  "v3_packet_ok p \<Longrightarrow> length (v3_packet_bytes p) \<le> max_remaining \<Longrightarrow>
   v3_packet_encoded_len p = length (v3_packet_bytes p)"
proof (cases p)
  case (P3Publish q)
  moreover assume "v3_packet_ok p" "length (v3_packet_bytes p) \<le> max_remaining"
  ultimately show ?thesis
    using v3_publish_encoded(2) [of q]
    by (auto simp: v3_publish_validate_Ok_iff v3_publish_ok_def usize_max_def split: if_splits)
qed (simp_all add: v3_connect_encoded_len_eq v3_connack_encoded_len_def v3_connack_bytes_def
    v3_puback_encoded_len_def v3_pubrec_encoded_len_def v3_pubrel_encoded_len_def
    v3_pubcomp_encoded_len_def v3_subscribe_encoded_len_eq v3_suback_encoded_len_def
    length_v3_suback_bytes v3_unsubscribe_encoded_len_eq v3_unsuback_encoded_len_def
    v3_pingreq_encoded_len_def v3_pingresp_encoded_len_def v3_disconnect_encoded_len_def usize_max_def)

lemma v3_packet_to_vec:
  "v3_packet_ok p \<Longrightarrow> length (v3_packet_bytes p) \<le> max_remaining \<Longrightarrow>
   v3_packet_encode_to_vec p = Ok (v3_packet_wire p)"
  unfolding v3_packet_encode_to_vec_def by (intro encode_to_vec_eq v3_packet_emits v3_packet_encoded_len_eq)

lemma encode_to_vec_Ok_encode:
  "encode_to_vec n enc = Ok bs \<Longrightarrow> \<exists>buf r. enc buf = Ok r"
  by (auto simp: encode_to_vec_def rbind_Ok_iff Let_def split: if_splits)

lemma v3_to_vec_ok:
  assumes "v3_packet_typed p" "v3_packet_encode_to_vec p = Ok bs"
  shows "v3_packet_ok p" "length (v3_packet_bytes p) \<le> max_remaining" "bs = v3_packet_wire p"
proof -
  have ok: "v3_packet_ok p \<and> length (v3_packet_bytes p) \<le> max_remaining"
    using assms(2) v3_packet_encode_ok [OF assms(1)]
    by (auto simp: v3_packet_encode_to_vec_def dest!: encode_to_vec_Ok_encode)
  then show "v3_packet_ok p" "length (v3_packet_bytes p) \<le> max_remaining" by simp_all
  show "bs = v3_packet_wire p" using v3_packet_to_vec [of p] ok assms(2) by simp
qed

lemma encode_to_vec_Panic: "encode_to_vec n enc = Panic \<Longrightarrow> \<exists>buf. enc buf = Panic"
  by (auto simp: encode_to_vec_def rbind_Panic_iff Let_def split: if_splits)

lemmas wire_eval = frame_wire_def vbi_wire_def vbi_bytes.simps binary_bytes_def u16_to_be_bytes_def

text \<open>
  C39: Whatever the encoder of MQTT 3.1.1 packets accepts is read back by the decoder as the same
  packet with the same length, from the buffer as the encoder left it; the bytes of the buffer after
  the packet are untouched. The hypothesis is what the type \<^verbatim>\<open>String\<close> guarantees.
\<close>

theorem v3_packet_roundtrip:
  assumes "v3_packet_typed p" "v3_packet_encode p buf = Ok (n, buf')"
  shows "v3_packet_decode buf' = Ok (p, n) \<and> n \<le> length buf \<and> length buf' = length buf \<and>
    drop n buf' = drop n buf"
  using v3_packet.enc_Ok_iff [OF assms(1), of buf n buf'] v3_packet.encode_decode [OF assms] assms(2)
  by auto

theorem v3_packet_roundtrip_witness:
  "let p = P3Publish \<lparr>v3p_dup = False, v3p_qos = AtLeastOnce, v3p_retain = True, v3p_topic = [0x61],
         v3p_packet_id = Some 7, v3p_payload = [1, 2]\<rparr>
   in v3_packet_decode [0x33, 7, 0, 1, 0x61, 0, 7, 1, 2, 0] = Ok (p, 9)"
proof -
  let ?p = "P3Publish \<lparr>v3p_dup = False, v3p_qos = AtLeastOnce, v3p_retain = True, v3p_topic = [0x61],
         v3p_packet_id = Some 7, v3p_payload = [1, 2]\<rparr>"
  have "v3_packet_typed ?p" by (simp add: v3_publish_typed_def)
  moreover have "v3_packet_encode ?p [0, 0, 0, 0, 0, 0, 0, 0, 0, 0] =
      Ok (9, [0x33, 7, 0, 1, 0x61, 0, 7, 1, 2, 0])"
  proof -
    have "v3_packet_ok ?p"
      by (simp add: v3_publish_ok_def mqtt_string_def topic_name_ok_def plus_byte_def hash_byte_def str_contains_def)
    moreover have "v3_packet_bytes ?p = [0, 1, 0x61, 0, 7, 1, 2]"
      by (simp add: v3_publish_bytes_def wire_eval)
    moreover from this have "v3_packet_wire ?p = [0x33, 7, 0, 1, 0x61, 0, 7, 1, 2]"
      by (simp add: v3_publish_first_def publish_first_def wire_eval)
    ultimately show ?thesis
      using emitsD [OF v3_packet_emits, of ?p "[0, 0, 0, 0, 0, 0, 0, 0, 0, 0]"] by simp
  qed
  ultimately show ?thesis using v3_packet_roundtrip by simp
qed

text \<open>
  C40: The decoder of MQTT 3.1.1 packets accepts exactly the encodings of the well-formed packets,
  each in its one canonical form: no overlong length, no reserved flag or bit, no trailing byte in the
  frame. What follows the frame is left alone.
\<close>

theorem v3_packet_decode_exact:
  "v3_packet_decode buf = Ok (p, n) \<longleftrightarrow>
     v3_packet_ok p \<and> length (v3_packet_bytes p) \<le> 268435455 \<and>
     n = length (v3_packet_wire p) \<and> (\<exists>rest. buf = v3_packet_wire p @ rest)"
  by (rule v3_packet.dec_body)

text \<open>
  \<^verbatim>\<open>encode_to_vec\<close> succeeds on exactly the well-formed packets that fit the remaining length of
  the wire format, and returns exactly their encoding: the computed length is right, the vector is
  neither too short nor too long.
\<close>

theorem v3_encode_to_vec_exact:
  assumes "v3_packet_typed p"
  shows "v3_packet_encode_to_vec p = Ok bs \<longleftrightarrow>
    v3_packet_ok p \<and> length (v3_packet_bytes p) \<le> 268435455 \<and> bs = v3_packet_wire p"
  using v3_packet_to_vec [of p] v3_to_vec_ok [OF assms] by auto

theorem v3_encode_to_vec_exact_witness:
  "v3_packet_encode_to_vec (P3Subscribe \<lparr>v3s_packet_id = 1,
     v3s_topic_filters = [\<lparr>v3s_filter = [0x61], v3s_qos = ExactlyOnce\<rparr>]\<rparr>) =
   Ok [0x82, 6, 0, 1, 0, 1, 0x61, 2]"
proof -
  let ?p = "P3Subscribe \<lparr>v3s_packet_id = 1,
     v3s_topic_filters = [\<lparr>v3s_filter = [0x61], v3s_qos = ExactlyOnce\<rparr>]\<rparr>"
  have "v3_packet_typed ?p" by (simp add: v3_subscribe_typed_def)
  moreover have "is_valid_topic_filter [0x61]" by code_simp
  then have "v3_packet_ok ?p"
    by (simp add: v3_subscribe_ok_def v3_subscription_ok_def mqtt_string_def str_contains_def)
  moreover have "v3_packet_bytes ?p = [0, 1, 0, 1, 0x61, 2]"
    by (simp add: v3_subscribe_bytes_def v3_subscription_bytes_def wire_eval)
  moreover from this have "v3_packet_wire ?p = [0x82, 6, 0, 1, 0, 1, 0x61, 2]"
    by (simp add: wire_eval)
  ultimately show ?thesis using v3_encode_to_vec_exact [of ?p] by simp
qed

text \<open>
  No input makes the MQTT 3.1.1 packet codec panic or loop: every decoder and encoder returns a
  packet, a length or an error, for arbitrary bytes, arbitrary packets and buffers of any size.
\<close>

theorem v3_codec_total:
  "v3_packet_decode bs \<noteq> Panic \<and> v3_incoming_decode bs \<noteq> Panic \<and>
   v3_packet_encode p buf \<noteq> Panic \<and> v3_packet_encode_to_vec p \<noteq> Panic"
proof (intro conjI)
  show "v3_packet_decode bs \<noteq> Panic" by (rule v3_packet.dec_no_panic)
  show "v3_incoming_decode bs \<noteq> Panic"
    by (cases bs) (simp_all add: v3_incoming_decode_def v3_decode_no_panic Let_def)
  show "v3_packet_encode p buf \<noteq> Panic" by (rule v3_packet.enc_no_panic)
  show "v3_packet_encode_to_vec p \<noteq> Panic"
    using v3_packet.enc_no_panic by (auto simp: v3_packet_encode_to_vec_def dest: encode_to_vec_Panic)
qed

section \<open>Directions\<close>

fun v3_incoming_packet :: "v3_incoming \<Rightarrow> v3_packet" where
  "v3_incoming_packet (In3ConnAck p) = P3ConnAck p"
| "v3_incoming_packet (In3Publish p) = P3Publish p"
| "v3_incoming_packet (In3PubAck p) = P3PubAck p"
| "v3_incoming_packet (In3PubRec p) = P3PubRec p"
| "v3_incoming_packet (In3PubRel p) = P3PubRel p"
| "v3_incoming_packet (In3PubComp p) = P3PubComp p"
| "v3_incoming_packet (In3SubAck p) = P3SubAck p"
| "v3_incoming_packet (In3UnsubAck p) = P3UnsubAck p"
| "v3_incoming_packet (In3PingResp p) = P3PingResp p"

fun v3_outgoing_packet :: "v3_outgoing \<Rightarrow> v3_packet" where
  "v3_outgoing_packet (Out3Connect p) = P3Connect p"
| "v3_outgoing_packet (Out3Publish p) = P3Publish p"
| "v3_outgoing_packet (Out3PubAck p) = P3PubAck p"
| "v3_outgoing_packet (Out3PubRec p) = P3PubRec p"
| "v3_outgoing_packet (Out3PubRel p) = P3PubRel p"
| "v3_outgoing_packet (Out3PubComp p) = P3PubComp p"
| "v3_outgoing_packet (Out3Subscribe p) = P3Subscribe p"
| "v3_outgoing_packet (Out3Unsubscribe p) = P3Unsubscribe p"
| "v3_outgoing_packet (Out3PingReq p) = P3PingReq p"
| "v3_outgoing_packet (Out3Disconnect p) = P3Disconnect p"

lemma v3_outgoing_eq:
  "v3_outgoing_encode_to_vec p = v3_packet_encode_to_vec (v3_outgoing_packet p)"
proof -
  have "v3_outgoing_encode p = v3_packet_encode (v3_outgoing_packet p)"
    "v3_outgoing_encoded_len p = v3_packet_encoded_len (v3_outgoing_packet p)"
    by (cases p; simp add: fun_eq_iff)+
  then show ?thesis by (simp add: v3_outgoing_encode_to_vec_def v3_packet_encode_to_vec_def)
qed

lemma v3_incoming_agrees:
  "b AND 0xF0 \<notin> {0x10, 0x80, 0xA0, 0xC0, 0xE0} \<Longrightarrow>
   map_result (apfst v3_incoming_packet) id (v3_incoming_decode (b # r)) = v3_packet_decode (b # r)"
  by (simp add: v3_incoming_decode_def v3_packet_decode_def map_decode_as Let_def
      if_distrib [of "map_result (apfst v3_incoming_packet) id"] cong: if_cong)

lemma v3_incoming_packet_inject: "v3_incoming_packet p = v3_incoming_packet q \<longleftrightarrow> p = q"
  by (cases p; cases q) simp_all

lemma v3_incoming_decode_packet:
  assumes "v3_packet_decode (b # r) = Ok (v3_incoming_packet q, n)" "b AND 0xF0 \<notin> {0x10, 0x80, 0xA0, 0xC0, 0xE0}"
  shows "v3_incoming_decode (b # r) = Ok (q, n)"
  using v3_incoming_agrees [OF assms(2), of r] assms(1) v3_incoming_packet_inject
  by (cases "v3_incoming_decode (b # r)") auto

text \<open>
  The decoder for what a client receives rejects the packet types only a client may send, by
  the type of the first byte alone and before its flags or its body are looked at; on all other
  types it gives the verdict of the full decoder, errors included.
\<close>

theorem v3_incoming_direction:
  "case buf of
     [] \<Rightarrow> v3_incoming_decode buf = Err InsufficientData
   | b # r \<Rightarrow>
       if b AND 0xF0 \<in> {0x10, 0x80, 0xA0, 0xC0, 0xE0}
       then v3_incoming_decode buf = Err (UnexpectedPacket (b AND 0xF0))
       else map_result (apfst v3_incoming_packet) id (v3_incoming_decode buf) = v3_packet_decode buf"
proof (cases buf)
  case (Cons b r)
  show ?thesis
  proof (cases "b AND 0xF0 \<in> {0x10, 0x80, 0xA0, 0xC0, 0xE0}")
    case True
    then have "v3_incoming_decode buf = Err (UnexpectedPacket (b AND 0xF0))"
      by (elim insertE emptyE) (simp_all add: Cons v3_incoming_decode_def Let_def)
    with True show ?thesis by (simp add: Cons)
  next
    case False
    with v3_incoming_agrees [OF False, of r] show ?thesis by (simp add: Cons)
  qed
qed (simp add: v3_incoming_decode_def)

text \<open>
  What a client sends: the vector of an outgoing packet, followed by anything, decodes to that
  packet and exactly its length, and no type that only a server may send is ever produced.
\<close>

theorem v3_outgoing_roundtrip:
  assumes "v3_packet_typed (v3_outgoing_packet p)" "v3_outgoing_encode_to_vec p = Ok bs"
  shows "v3_packet_decode (bs @ rest) = Ok (v3_outgoing_packet p, length bs) \<and>
    hd bs AND 0xF0 \<notin> {0x00, 0x20, 0x90, 0xB0, 0xD0, 0xF0}"
proof -
  have v: "v3_packet_encode_to_vec (v3_outgoing_packet p) = Ok bs" using assms(2) by (simp add: v3_outgoing_eq)
  note o = v3_to_vec_ok [OF assms(1) v]
  have "v3_packet_first (v3_outgoing_packet p) AND 0xF0 \<notin> {0x00, 0x20, 0x90, 0xB0, 0xD0, 0xF0}"
    by (cases p) (simp_all add: v3_publish_first_type)
  with o show ?thesis by (auto simp: v3_packet.dec_body frame_wire_def)
qed

theorem v3_outgoing_roundtrip_witness:
  "v3_packet_decode [0xC0, 0, 0x10] = Ok (P3PingReq V3PingReq, 2)"
proof -
  have "v3_packet_typed (v3_outgoing_packet (Out3PingReq V3PingReq))" by simp
  moreover have "v3_outgoing_encode_to_vec (Out3PingReq V3PingReq) = Ok [0xC0, 0]"
    by (simp add: v3_outgoing_eq v3_packet_to_vec frame_wire_def vbi_wire_def vbi_bytes.simps)
  ultimately show ?thesis
    using v3_outgoing_roundtrip [of "Out3PingReq V3PingReq" "[0xC0, 0]" "[0x10]"] by simp
qed

end
