(* ===== verification/V5Packet.thy ===== *)
theory V5Packet
  imports V5Connect V5Control V5Subscribe V311Packet
begin

unbundle bit_operations_syntax

text \<open>
  The packet enumerations of MQTT 5, \<^verbatim>\<open>src/v5/packet.rs\<close>: \<open>v5_packet\<close> of the low-level codec with
  every packet type, and the outgoing and incoming packets of a client. The dispatch of
  \<^verbatim>\<open>codec::Packet\<close> over the first byte is again an interpretation of the packet contract, now of the
  asymmetric one.
\<close>

section \<open>The packets\<close>

datatype v5_packet =
    P5Connect v5_connect
  | P5ConnAck v5_connack
  | P5Publish v5_publish
  | P5PubAck v5_puback
  | P5PubRec v5_pubrec
  | P5PubRel v5_pubrel
  | P5PubComp v5_pubcomp
  | P5Subscribe v5_subscribe_packet
  | P5SubAck v5_suback
  | P5Unsubscribe v5_unsubscribe_packet
  | P5UnsubAck v5_unsuback
  | P5PingReq v5_pingreq
  | P5PingResp v5_pingresp
  | P5Disconnect v5_disconnect
  | P5Auth v5_auth

fun v5_packet_encoded_len :: "v5_packet \<Rightarrow> nat" where
  "v5_packet_encoded_len (P5Connect p) = v5_connect_encoded_len p"
| "v5_packet_encoded_len (P5ConnAck p) = v5_connack_encoded_len p"
| "v5_packet_encoded_len (P5Publish p) = v5_publish_encoded_len p"
| "v5_packet_encoded_len (P5PubAck p) = v5_puback_encoded_len p"
| "v5_packet_encoded_len (P5PubRec p) = v5_pubrec_encoded_len p"
| "v5_packet_encoded_len (P5PubRel p) = v5_pubrel_encoded_len p"
| "v5_packet_encoded_len (P5PubComp p) = v5_pubcomp_encoded_len p"
| "v5_packet_encoded_len (P5Subscribe p) = v5_subscribe_encoded_len p"
| "v5_packet_encoded_len (P5SubAck p) = v5_suback_encoded_len p"
| "v5_packet_encoded_len (P5Unsubscribe p) = v5_unsubscribe_encoded_len p"
| "v5_packet_encoded_len (P5UnsubAck p) = v5_unsuback_encoded_len p"
| "v5_packet_encoded_len (P5PingReq p) = 0"
| "v5_packet_encoded_len (P5PingResp p) = 0"
| "v5_packet_encoded_len (P5Disconnect p) = v5_disconnect_encoded_len p"
| "v5_packet_encoded_len (P5Auth p) = v5_auth_encoded_len p"

fun v5_packet_encode :: "v5_packet \<Rightarrow> encoder" where
  "v5_packet_encode (P5Connect p) buf = v5_connect_encode p buf"
| "v5_packet_encode (P5ConnAck p) buf = v5_connack_encode p buf"
| "v5_packet_encode (P5Publish p) buf = v5_publish_encode p buf"
| "v5_packet_encode (P5PubAck p) buf = v5_puback_encode p buf"
| "v5_packet_encode (P5PubRec p) buf = v5_pubrec_encode p buf"
| "v5_packet_encode (P5PubRel p) buf = v5_pubrel_encode p buf"
| "v5_packet_encode (P5PubComp p) buf = v5_pubcomp_encode p buf"
| "v5_packet_encode (P5Subscribe p) buf = v5_subscribe_encode p buf"
| "v5_packet_encode (P5SubAck p) buf = v5_suback_encode p buf"
| "v5_packet_encode (P5Unsubscribe p) buf = v5_unsubscribe_encode p buf"
| "v5_packet_encode (P5UnsubAck p) buf = v5_unsuback_encode p buf"
| "v5_packet_encode (P5PingReq p) buf = v5_pingreq_encode p buf"
| "v5_packet_encode (P5PingResp p) buf = v5_pingresp_encode p buf"
| "v5_packet_encode (P5Disconnect p) buf = v5_disconnect_encode p buf"
| "v5_packet_encode (P5Auth p) buf = v5_auth_encode p buf"

definition v5_packet_encode_to_vec :: "v5_packet \<Rightarrow> (bytes, encode_error) result" where
  "v5_packet_encode_to_vec p = encode_to_vec (v5_packet_encoded_len p) (v5_packet_encode p)"

definition v5_packet_decode :: "v5_packet decoder" where
  "v5_packet_decode buf =
     (if buf = [] then Err InsufficientData
      else
        rbind (index buf 0) (\<lambda>b0.
        let packet_type = b0 AND 0xF0 in
        if packet_type = 0x10 then decode_as P5Connect v5_connect_decode buf
        else if packet_type = 0x20 then decode_as P5ConnAck v5_connack_decode buf
        else if packet_type = 0x30 then decode_as P5Publish v5_publish_decode buf
        else if packet_type = 0x40 then decode_as P5PubAck v5_puback_decode buf
        else if packet_type = 0x50 then decode_as P5PubRec v5_pubrec_decode buf
        else if packet_type = 0x60 then decode_as P5PubRel v5_pubrel_decode buf
        else if packet_type = 0x70 then decode_as P5PubComp v5_pubcomp_decode buf
        else if packet_type = 0x80 then decode_as P5Subscribe v5_subscribe_decode buf
        else if packet_type = 0x90 then decode_as P5SubAck v5_suback_decode buf
        else if packet_type = 0xA0 then decode_as P5Unsubscribe v5_unsubscribe_decode buf
        else if packet_type = 0xB0 then decode_as P5UnsubAck v5_unsuback_decode buf
        else if packet_type = 0xC0 then decode_as P5PingReq v5_pingreq_decode buf
        else if packet_type = 0xD0 then decode_as P5PingResp v5_pingresp_decode buf
        else if packet_type = 0xE0 then decode_as P5Disconnect v5_disconnect_decode buf
        else if packet_type = 0xF0 then decode_as P5Auth v5_auth_decode buf
        else Err InvalidPacketType))"

datatype v5_outgoing =
    Out5Connect v5_connect
  | Out5Publish v5_publish
  | Out5PubAck v5_puback
  | Out5PubRec v5_pubrec
  | Out5PubRel v5_pubrel
  | Out5PubComp v5_pubcomp
  | Out5Subscribe v5_subscribe_packet
  | Out5Unsubscribe v5_unsubscribe_packet
  | Out5PingReq v5_pingreq
  | Out5Disconnect v5_disconnect
  | Out5Auth v5_auth

fun v5_outgoing_encoded_len :: "v5_outgoing \<Rightarrow> nat" where
  "v5_outgoing_encoded_len (Out5Connect p) = v5_connect_encoded_len p"
| "v5_outgoing_encoded_len (Out5Publish p) = v5_publish_encoded_len p"
| "v5_outgoing_encoded_len (Out5PubAck p) = v5_puback_encoded_len p"
| "v5_outgoing_encoded_len (Out5PubRec p) = v5_pubrec_encoded_len p"
| "v5_outgoing_encoded_len (Out5PubRel p) = v5_pubrel_encoded_len p"
| "v5_outgoing_encoded_len (Out5PubComp p) = v5_pubcomp_encoded_len p"
| "v5_outgoing_encoded_len (Out5Subscribe p) = v5_subscribe_encoded_len p"
| "v5_outgoing_encoded_len (Out5Unsubscribe p) = v5_unsubscribe_encoded_len p"
| "v5_outgoing_encoded_len (Out5PingReq p) = 0"
| "v5_outgoing_encoded_len (Out5Disconnect p) = v5_disconnect_encoded_len p"
| "v5_outgoing_encoded_len (Out5Auth p) = v5_auth_encoded_len p"

fun v5_outgoing_encode :: "v5_outgoing \<Rightarrow> encoder" where
  "v5_outgoing_encode (Out5Connect p) buf = v5_connect_encode p buf"
| "v5_outgoing_encode (Out5Publish p) buf = v5_publish_encode p buf"
| "v5_outgoing_encode (Out5PubAck p) buf = v5_puback_encode p buf"
| "v5_outgoing_encode (Out5PubRec p) buf = v5_pubrec_encode p buf"
| "v5_outgoing_encode (Out5PubRel p) buf = v5_pubrel_encode p buf"
| "v5_outgoing_encode (Out5PubComp p) buf = v5_pubcomp_encode p buf"
| "v5_outgoing_encode (Out5Subscribe p) buf = v5_subscribe_encode p buf"
| "v5_outgoing_encode (Out5Unsubscribe p) buf = v5_unsubscribe_encode p buf"
| "v5_outgoing_encode (Out5PingReq p) buf = v5_pingreq_encode p buf"
| "v5_outgoing_encode (Out5Disconnect p) buf = v5_disconnect_encode p buf"
| "v5_outgoing_encode (Out5Auth p) buf = v5_auth_encode p buf"

definition v5_outgoing_encode_to_vec :: "v5_outgoing \<Rightarrow> (bytes, encode_error) result" where
  "v5_outgoing_encode_to_vec p = encode_to_vec (v5_outgoing_encoded_len p) (v5_outgoing_encode p)"

datatype v5_incoming =
    In5ConnAck v5_connack
  | In5Publish v5_publish
  | In5PubAck v5_puback
  | In5PubRec v5_pubrec
  | In5PubRel v5_pubrel
  | In5PubComp v5_pubcomp
  | In5SubAck v5_suback
  | In5UnsubAck v5_unsuback
  | In5PingResp v5_pingresp
  | In5Disconnect v5_disconnect
  | In5Auth v5_auth

definition v5_incoming_decode :: "v5_incoming decoder" where
  "v5_incoming_decode buf =
     (if buf = [] then Err InsufficientData
      else
        rbind (index buf 0) (\<lambda>b0.
        let packet_type = b0 AND 0xF0 in
        if packet_type = 0x20 then decode_as In5ConnAck v5_connack_decode buf
        else if packet_type = 0x30 then decode_as In5Publish v5_publish_decode buf
        else if packet_type = 0x40 then decode_as In5PubAck v5_puback_decode buf
        else if packet_type = 0x50 then decode_as In5PubRec v5_pubrec_decode buf
        else if packet_type = 0x60 then decode_as In5PubRel v5_pubrel_decode buf
        else if packet_type = 0x70 then decode_as In5PubComp v5_pubcomp_decode buf
        else if packet_type = 0x90 then decode_as In5SubAck v5_suback_decode buf
        else if packet_type = 0xB0 then decode_as In5UnsubAck v5_unsuback_decode buf
        else if packet_type = 0xD0 then decode_as In5PingResp v5_pingresp_decode buf
        else if packet_type = 0xE0 then decode_as In5Disconnect v5_disconnect_decode buf
        else if packet_type = 0xF0 then decode_as In5Auth v5_auth_decode buf
        else if packet_type \<in> {0x10, 0x80, 0xA0, 0xC0} then Err (UnexpectedPacket packet_type)
        else if packet_type = 0x00 then Err InvalidPacketType
        else Err InvalidPacketType))"

section \<open>What is sent and what is accepted\<close>

text \<open>
  The first byte and the body of the form that the encoder writes; what the encoder accepts
  (\<open>sendable\<close>), what the decoder reads from which bytes (\<open>accepts\<close>), and what the Rust types say.
\<close>

fun v5_packet_first :: "v5_packet \<Rightarrow> u8" where
  "v5_packet_first (P5Connect p) = 0x10 OR 0"
| "v5_packet_first (P5ConnAck p) = 0x20 OR 0"
| "v5_packet_first (P5Publish p) = v5_publish_first p"
| "v5_packet_first (P5PubAck p) = 0x40 OR 0"
| "v5_packet_first (P5PubRec p) = 0x50 OR 0"
| "v5_packet_first (P5PubRel p) = 0x60 OR 0x02"
| "v5_packet_first (P5PubComp p) = 0x70 OR 0"
| "v5_packet_first (P5Subscribe p) = 0x80 OR 0x02"
| "v5_packet_first (P5SubAck p) = 0x90 OR 0"
| "v5_packet_first (P5Unsubscribe p) = 0xA0 OR 0x02"
| "v5_packet_first (P5UnsubAck p) = 0xB0 OR 0"
| "v5_packet_first (P5PingReq p) = 0xC0 OR 0"
| "v5_packet_first (P5PingResp p) = 0xD0 OR 0"
| "v5_packet_first (P5Disconnect p) = 0xE0 OR 0"
| "v5_packet_first (P5Auth p) = 0xF0 OR 0"

fun v5_packet_bytes :: "v5_packet \<Rightarrow> bytes" where
  "v5_packet_bytes (P5Connect p) = v5_connect_bytes p"
| "v5_packet_bytes (P5ConnAck p) = v5_connack_bytes p"
| "v5_packet_bytes (P5Publish p) = v5_publish_bytes p"
| "v5_packet_bytes (P5PubAck p) = ack_body (v5_puback_packet_id p) (puback_reason_as_u8 (v5_puback_reason_code p)) (v5_puback_properties p)"
| "v5_packet_bytes (P5PubRec p) = ack_body (v5_pubrec_packet_id p) (pubrec_reason_as_u8 (v5_pubrec_reason_code p)) (v5_pubrec_properties p)"
| "v5_packet_bytes (P5PubRel p) = ack_body (v5_pubrel_packet_id p) (pubrel_reason_as_u8 (v5_pubrel_reason_code p)) (v5_pubrel_properties p)"
| "v5_packet_bytes (P5PubComp p) = ack_body (v5_pubcomp_packet_id p) (pubcomp_reason_as_u8 (v5_pubcomp_reason_code p)) (v5_pubcomp_properties p)"
| "v5_packet_bytes (P5Subscribe p) = v5_entries_bytes (v5sp_packet_id p) (v5sp_properties p) v5_subscription_bytes (v5sp_subscriptions p)"
| "v5_packet_bytes (P5SubAck p) = v5_entries_bytes (v5sa_packet_id p) (v5sa_properties p) (\<lambda>c. [suback_reason_as_u8 c]) (v5sa_reason_codes p)"
| "v5_packet_bytes (P5Unsubscribe p) = v5_entries_bytes (v5up_packet_id p) (v5up_properties p) binary_bytes (v5up_topic_filters p)"
| "v5_packet_bytes (P5UnsubAck p) = v5_entries_bytes (v5ua_packet_id p) (v5ua_properties p) (\<lambda>c. [unsuback_reason_as_u8 c]) (v5ua_reason_codes p)"
| "v5_packet_bytes (P5PingReq p) = []"
| "v5_packet_bytes (P5PingResp p) = []"
| "v5_packet_bytes (P5Disconnect p) = v5_disconnect_bytes p"
| "v5_packet_bytes (P5Auth p) = v5_auth_bytes p"

fun v5_packet_sendable :: "v5_packet \<Rightarrow> bool" where
  "v5_packet_sendable (P5Connect p) \<longleftrightarrow> v5_connect_sendable p"
| "v5_packet_sendable (P5ConnAck p) \<longleftrightarrow> v5_connack_ok p"
| "v5_packet_sendable (P5Publish p) \<longleftrightarrow> v5_publish_sendable p"
| "v5_packet_sendable (P5PubAck p) \<longleftrightarrow> ack_sendable (\<lambda>c. c \<noteq> PaNoMatchingSubscribers) (v5_puback_packet_id p) (v5_puback_reason_code p) (v5_puback_properties p)"
| "v5_packet_sendable (P5PubRec p) \<longleftrightarrow> ack_sendable (\<lambda>c. c \<noteq> PrNoMatchingSubscribers) (v5_pubrec_packet_id p) (v5_pubrec_reason_code p) (v5_pubrec_properties p)"
| "v5_packet_sendable (P5PubRel p) \<longleftrightarrow> ack_sendable (\<lambda>_. True) (v5_pubrel_packet_id p) (v5_pubrel_reason_code p) (v5_pubrel_properties p)"
| "v5_packet_sendable (P5PubComp p) \<longleftrightarrow> ack_sendable (\<lambda>_. True) (v5_pubcomp_packet_id p) (v5_pubcomp_reason_code p) (v5_pubcomp_properties p)"
| "v5_packet_sendable (P5Subscribe p) \<longleftrightarrow> v5_entries_ok (v5sp_packet_id p) validate_for_subscribe (v5sp_properties p) v5_subscription_ok (v5sp_subscriptions p)"
| "v5_packet_sendable (P5SubAck p) \<longleftrightarrow> v5_entries_ok (v5sa_packet_id p) validate_for_suback (v5sa_properties p) (\<lambda>_. True) (v5sa_reason_codes p)"
| "v5_packet_sendable (P5Unsubscribe p) \<longleftrightarrow> v5_entries_ok (v5up_packet_id p) validate_for_unsubscribe (v5up_properties p) (\<lambda>f. mqtt_string f \<and> is_valid_v5_topic_filter f) (v5up_topic_filters p)"
| "v5_packet_sendable (P5UnsubAck p) \<longleftrightarrow> v5_entries_ok (v5ua_packet_id p) validate_for_unsuback (v5ua_properties p) (\<lambda>_. True) (v5ua_reason_codes p)"
| "v5_packet_sendable (P5PingReq p) \<longleftrightarrow> True"
| "v5_packet_sendable (P5PingResp p) \<longleftrightarrow> True"
| "v5_packet_sendable (P5Disconnect p) \<longleftrightarrow> v5_disconnect_sendable p"
| "v5_packet_sendable (P5Auth p) \<longleftrightarrow> v5_auth_sendable p"

fun v5_packet_accepts :: "v5_packet \<Rightarrow> bytes \<Rightarrow> bool" where
  "v5_packet_accepts (P5Connect p) s \<longleftrightarrow> v5_connect_ok p \<and> s = v5_connect_bytes p"
| "v5_packet_accepts (P5ConnAck p) s \<longleftrightarrow> v5_connack_ok p \<and> s = v5_connack_bytes p"
| "v5_packet_accepts (P5Publish p) s \<longleftrightarrow> v5_publish_ok p \<and> s = v5_publish_bytes p"
| "v5_packet_accepts (P5PubAck p) s \<longleftrightarrow> ack_accepts (v5_puback_packet_id p) (puback_reason_as_u8 (v5_puback_reason_code p)) (v5_puback_properties p) s"
| "v5_packet_accepts (P5PubRec p) s \<longleftrightarrow> ack_accepts (v5_pubrec_packet_id p) (pubrec_reason_as_u8 (v5_pubrec_reason_code p)) (v5_pubrec_properties p) s"
| "v5_packet_accepts (P5PubRel p) s \<longleftrightarrow> ack_accepts (v5_pubrel_packet_id p) (pubrel_reason_as_u8 (v5_pubrel_reason_code p)) (v5_pubrel_properties p) s"
| "v5_packet_accepts (P5PubComp p) s \<longleftrightarrow> ack_accepts (v5_pubcomp_packet_id p) (pubcomp_reason_as_u8 (v5_pubcomp_reason_code p)) (v5_pubcomp_properties p) s"
| "v5_packet_accepts (P5Subscribe p) s \<longleftrightarrow> v5_entries_ok (v5sp_packet_id p) validate_for_subscribe (v5sp_properties p) v5_subscription_ok (v5sp_subscriptions p) \<and> s = v5_entries_bytes (v5sp_packet_id p) (v5sp_properties p) v5_subscription_bytes (v5sp_subscriptions p)"
| "v5_packet_accepts (P5SubAck p) s \<longleftrightarrow> v5_entries_ok (v5sa_packet_id p) validate_for_suback (v5sa_properties p) (\<lambda>_. True) (v5sa_reason_codes p) \<and> s = v5_entries_bytes (v5sa_packet_id p) (v5sa_properties p) (\<lambda>c. [suback_reason_as_u8 c]) (v5sa_reason_codes p)"
| "v5_packet_accepts (P5Unsubscribe p) s \<longleftrightarrow> v5_entries_ok (v5up_packet_id p) validate_for_unsubscribe (v5up_properties p) (\<lambda>f. mqtt_string f \<and> is_valid_v5_topic_filter f) (v5up_topic_filters p) \<and> s = v5_entries_bytes (v5up_packet_id p) (v5up_properties p) binary_bytes (v5up_topic_filters p)"
| "v5_packet_accepts (P5UnsubAck p) s \<longleftrightarrow> v5_entries_ok (v5ua_packet_id p) validate_for_unsuback (v5ua_properties p) (\<lambda>_. True) (v5ua_reason_codes p) \<and> s = v5_entries_bytes (v5ua_packet_id p) (v5ua_properties p) (\<lambda>c. [unsuback_reason_as_u8 c]) (v5ua_reason_codes p)"
| "v5_packet_accepts (P5PingReq p) s \<longleftrightarrow> True \<and> s = []"
| "v5_packet_accepts (P5PingResp p) s \<longleftrightarrow> True \<and> s = []"
| "v5_packet_accepts (P5Disconnect p) s \<longleftrightarrow> v5_disconnect_accepts p s"
| "v5_packet_accepts (P5Auth p) s \<longleftrightarrow> v5_auth_accepts p s"

fun v5_packet_typed :: "v5_packet \<Rightarrow> bool" where
  "v5_packet_typed (P5Connect p) \<longleftrightarrow> v5_connect_typed p"
| "v5_packet_typed (P5ConnAck p) \<longleftrightarrow> properties_typed (v5ca_properties p)"
| "v5_packet_typed (P5Publish p) \<longleftrightarrow> utf8_valid (v5p_topic p) \<and> properties_typed (v5p_properties p)"
| "v5_packet_typed (P5PubAck p) \<longleftrightarrow> properties_typed (v5_puback_properties p)"
| "v5_packet_typed (P5PubRec p) \<longleftrightarrow> properties_typed (v5_pubrec_properties p)"
| "v5_packet_typed (P5PubRel p) \<longleftrightarrow> properties_typed (v5_pubrel_properties p)"
| "v5_packet_typed (P5PubComp p) \<longleftrightarrow> properties_typed (v5_pubcomp_properties p)"
| "v5_packet_typed (P5Subscribe p) \<longleftrightarrow> properties_typed (v5sp_properties p) \<and> (\<forall>e \<in> set (v5sp_subscriptions p). utf8_valid (v5s_topic_filter e))"
| "v5_packet_typed (P5SubAck p) \<longleftrightarrow> properties_typed (v5sa_properties p) \<and> (\<forall>e \<in> set (v5sa_reason_codes p). True)"
| "v5_packet_typed (P5Unsubscribe p) \<longleftrightarrow> properties_typed (v5up_properties p) \<and> (\<forall>e \<in> set (v5up_topic_filters p). utf8_valid e)"
| "v5_packet_typed (P5UnsubAck p) \<longleftrightarrow> properties_typed (v5ua_properties p) \<and> (\<forall>e \<in> set (v5ua_reason_codes p). True)"
| "v5_packet_typed (P5PingReq p) \<longleftrightarrow> True"
| "v5_packet_typed (P5PingResp p) \<longleftrightarrow> True"
| "v5_packet_typed (P5Disconnect p) \<longleftrightarrow> properties_typed (v5_disconnect_properties p)"
| "v5_packet_typed (P5Auth p) \<longleftrightarrow> properties_typed (v5_auth_properties p)"

abbreviation v5_packet_wire :: "v5_packet \<Rightarrow> bytes" where
  "v5_packet_wire p \<equiv> frame_wire (v5_packet_first p) (v5_packet_bytes p)"

lemmas v5_decoded_first =
  v5_connect.dec_first v5_connack.duplex.dec_first v5_publish.dec_first
  v5_puback.dec_first v5_pubrec.dec_first v5_pubrel.dec_first
  v5_pubcomp.dec_first v5_subscribe.duplex.dec_first v5_suback.duplex.dec_first
  v5_unsubscribe.duplex.dec_first v5_unsuback.duplex.dec_first v5_pingreq.duplex.dec_first
  v5_pingresp.duplex.dec_first v5_disconnect.dec_first v5_auth.dec_first

lemmas v5_decode_no_panic =
  v5_connect.dec_no_panic v5_connack.duplex.dec_no_panic v5_publish.dec_no_panic
  v5_puback.dec_no_panic v5_pubrec.dec_no_panic v5_pubrel.dec_no_panic
  v5_pubcomp.dec_no_panic v5_subscribe.duplex.dec_no_panic v5_suback.duplex.dec_no_panic
  v5_unsubscribe.duplex.dec_no_panic v5_unsuback.duplex.dec_no_panic v5_pingreq.duplex.dec_no_panic
  v5_pingresp.duplex.dec_no_panic v5_disconnect.dec_no_panic v5_auth.dec_no_panic

lemmas v5_encode_no_panic =
  v5_connect.enc_no_panic v5_connack.duplex.enc_no_panic v5_publish.enc_no_panic
  v5_puback.enc_no_panic v5_pubrec.enc_no_panic v5_pubrel.enc_no_panic
  v5_pubcomp.enc_no_panic v5_subscribe.duplex.enc_no_panic v5_suback.duplex.enc_no_panic
  v5_unsubscribe.duplex.enc_no_panic v5_unsuback.duplex.enc_no_panic v5_pingreq.duplex.enc_no_panic
  v5_pingresp.duplex.enc_no_panic v5_disconnect.enc_no_panic v5_auth.enc_no_panic

lemmas v5_enc_body =
  v5_connect.enc_body v5_connack.duplex.enc_body v5_publish.enc_body
  v5_puback.enc_body v5_pubrec.enc_body v5_pubrel.enc_body
  v5_pubcomp.enc_body v5_subscribe.duplex.enc_body v5_suback.duplex.enc_body
  v5_unsubscribe.duplex.enc_body v5_unsuback.duplex.enc_body v5_pingreq.duplex.enc_body
  v5_pingresp.duplex.enc_body v5_disconnect.enc_body v5_auth.enc_body

lemmas v5_enc_ok =
  v5_connect.enc_ok v5_connack.duplex.enc_ok v5_publish.enc_ok
  v5_puback.enc_ok v5_pubrec.enc_ok v5_pubrel.enc_ok
  v5_pubcomp.enc_ok v5_subscribe.duplex.enc_ok v5_suback.duplex.enc_ok
  v5_unsubscribe.duplex.enc_ok v5_unsuback.duplex.enc_ok v5_pingreq.duplex.enc_ok
  v5_pingresp.duplex.enc_ok v5_disconnect.enc_ok v5_auth.enc_ok

lemmas v5_dec_iff =
  v5_connect.dec_iff v5_connack.duplex.dec_iff v5_publish.dec_iff
  v5_puback.dec_iff v5_pubrec.dec_iff v5_pubrel.dec_iff
  v5_pubcomp.dec_iff v5_subscribe.duplex.dec_iff v5_suback.duplex.dec_iff
  v5_unsubscribe.duplex.dec_iff v5_unsuback.duplex.dec_iff v5_pingreq.duplex.dec_iff
  v5_pingresp.duplex.dec_iff v5_disconnect.dec_iff v5_auth.dec_iff

section \<open>The dispatch\<close>

lemma v5_publish_first_type: "v5_publish_first p AND 0xF0 = 0x30"
  using publish_first_iff [of "v5_publish_first p" "v5p_dup p" "v5p_qos p" "v5p_retain p"]
  by (simp add: v5_publish_first_def)

text \<open>The packet of each constructor is decoded by its own decoder, and by no other.\<close>

fun v5_decoded :: "v5_packet \<Rightarrow> bytes \<Rightarrow> nat \<Rightarrow> bool" where
  "v5_decoded (P5Connect p) buf n \<longleftrightarrow> v5_connect_decode buf = Ok (p, n)"
| "v5_decoded (P5ConnAck p) buf n \<longleftrightarrow> v5_connack_decode buf = Ok (p, n)"
| "v5_decoded (P5Publish p) buf n \<longleftrightarrow> v5_publish_decode buf = Ok (p, n)"
| "v5_decoded (P5PubAck p) buf n \<longleftrightarrow> v5_puback_decode buf = Ok (p, n)"
| "v5_decoded (P5PubRec p) buf n \<longleftrightarrow> v5_pubrec_decode buf = Ok (p, n)"
| "v5_decoded (P5PubRel p) buf n \<longleftrightarrow> v5_pubrel_decode buf = Ok (p, n)"
| "v5_decoded (P5PubComp p) buf n \<longleftrightarrow> v5_pubcomp_decode buf = Ok (p, n)"
| "v5_decoded (P5Subscribe p) buf n \<longleftrightarrow> v5_subscribe_decode buf = Ok (p, n)"
| "v5_decoded (P5SubAck p) buf n \<longleftrightarrow> v5_suback_decode buf = Ok (p, n)"
| "v5_decoded (P5Unsubscribe p) buf n \<longleftrightarrow> v5_unsubscribe_decode buf = Ok (p, n)"
| "v5_decoded (P5UnsubAck p) buf n \<longleftrightarrow> v5_unsuback_decode buf = Ok (p, n)"
| "v5_decoded (P5PingReq p) buf n \<longleftrightarrow> v5_pingreq_decode buf = Ok (p, n)"
| "v5_decoded (P5PingResp p) buf n \<longleftrightarrow> v5_pingresp_decode buf = Ok (p, n)"
| "v5_decoded (P5Disconnect p) buf n \<longleftrightarrow> v5_disconnect_decode buf = Ok (p, n)"
| "v5_decoded (P5Auth p) buf n \<longleftrightarrow> v5_auth_decode buf = Ok (p, n)"

lemma v5_decoded_head:
  "v5_decoded y buf n \<Longrightarrow> \<exists>b r. buf = b # r \<and> b AND 0xF0 = v5_packet_first y AND 0xF0"
  by (cases y) (auto dest: v5_decoded_first)

lemma v5_packet_decode_Ok_iff: "v5_packet_decode buf = Ok (y, n) \<longleftrightarrow> v5_decoded y buf n"
proof
  assume "v5_packet_decode buf = Ok (y, n)"
  then show "v5_decoded y buf n"
    by (auto simp: v5_packet_decode_def rbind_Ok_iff decode_as_Ok_iff Let_def split: if_splits)
next
  assume d: "v5_decoded y buf n"
  from v5_decoded_head [OF d] d show "v5_packet_decode buf = Ok (y, n)"
    by (cases y) (auto simp: v5_packet_decode_def decode_as_Ok_iff v5_publish_first_type Let_def)
qed

section \<open>The packet contract\<close>

lemma v5_packet_emits:
  "v5_packet_sendable p \<Longrightarrow> length (v5_packet_bytes p) \<le> max_remaining \<Longrightarrow>
   emits (v5_packet_encode p) (v5_packet_wire p)"
  using v5_enc_body
  by (cases p) (simp_all only: v5_packet_sendable.simps v5_packet_bytes.simps v5_packet_first.simps
      v5_packet_encode.simps [abs_def])

lemma v5_packet_encode_ok:
  "v5_packet_typed p \<Longrightarrow> v5_packet_encode p buf = Ok r \<Longrightarrow>
   v5_packet_sendable p \<and> length (v5_packet_bytes p) \<le> max_remaining"
  using v5_enc_ok
  by (cases p) (simp_all only: v5_packet_sendable.simps v5_packet_bytes.simps v5_packet_typed.simps
      v5_packet_encode.simps list.size zero_le simp_thms)

interpretation v5_packet: duplex_packet v5_packet_encode v5_packet_decode v5_packet_first
  v5_packet_bytes v5_packet_sendable v5_packet_accepts v5_packet_typed
proof
  fix x buf n
  show "v5_packet_sendable x \<Longrightarrow> length (v5_packet_bytes x) \<le> max_remaining \<Longrightarrow>
      emits (v5_packet_encode x) (v5_packet_wire x)" by (rule v5_packet_emits)
  show "v5_packet_typed x \<Longrightarrow> v5_packet_encode x buf = Ok r \<Longrightarrow>
      v5_packet_sendable x \<and> length (v5_packet_bytes x) \<le> max_remaining" for r
    by (rule v5_packet_encode_ok)
  show "v5_packet_encode x buf \<noteq> Panic"
    by (cases x) (simp_all only: v5_packet_encode.simps v5_encode_no_panic not_False_eq_True)
  show "v5_packet_decode buf = Ok (x, n) \<longleftrightarrow>
      (\<exists>s rest. v5_packet_accepts x s \<and> length s \<le> max_remaining \<and>
        n = length (frame_wire (v5_packet_first x) s) \<and> buf = frame_wire (v5_packet_first x) s @ rest)"
    unfolding v5_packet_decode_Ok_iff
    by (cases x) (simp_all only: v5_decoded.simps v5_packet_accepts.simps v5_packet_first.simps v5_dec_iff)
  show "v5_packet_decode buf \<noteq> Panic"
    by (cases buf) (simp_all add: v5_packet_decode_def v5_decode_no_panic Let_def)
qed

lemma frame_wire_inject:
  assumes "frame_wire b s @ r = frame_wire b t @ r'" "length s \<le> max_remaining" "length t \<le> max_remaining"
  shows "s = t"
proof -
  have "\<exists>h. read_frame_header (frame_wire b u @ q) = Ok (h, length (frame_wire b u)) \<and>
      h + length u = length (frame_wire b u)" if "length u \<le> max_remaining" for u q
    using that by (intro exI [of _ "length (frame_wire b u) - length u"])
      (auto simp: frame_wire_def read_frame_header_Ok_iff)
  from this [OF assms(2), of r] this [OF assms(3), of r'] assms(1)
  have "length (frame_wire b s) = length (frame_wire b t)" "length s = length t" by auto
  with assms(1) show ?thesis by (simp add: frame_wire_def)
qed

section \<open>Whole packets\<close>

text \<open>
  What a client may send and a server may send as well: the decoder of a client rejects the reason
  codes and the property that only a client sends in DISCONNECT and AUTH.
\<close>

fun v5_both_ways :: "v5_packet \<Rightarrow> bool" where
  "v5_both_ways (P5Disconnect p) \<longleftrightarrow> disconnect_sent_by_server (v5_disconnect_reason_code p) \<and>
     0x11 \<notin> property_identifier ` set (v5_disconnect_properties p)"
| "v5_both_ways (P5Auth p) \<longleftrightarrow> auth_sent_by_server (v5_auth_reason_code p)"
| "v5_both_ways _ \<longleftrightarrow> True"

lemma v5_both_ways_iff:
  assumes "v5_packet_sendable p" "v5_packet_typed p"
  shows "v5_packet_accepts p (v5_packet_bytes p) \<longleftrightarrow> v5_both_ways p"
proof (cases p)
  case (P5Disconnect q)
  have "carries_only {0x11, 0x1C, 0x1F, 0x26} (v5_disconnect_properties q) \<Longrightarrow>
      0x11 \<notin> property_identifier ` set (v5_disconnect_properties q) \<longleftrightarrow>
      carries_only {0x1C, 0x1F, 0x26} (v5_disconnect_properties q)"
    using carries_only_remove [of "0x11" "{0x1C, 0x1F, 0x26}" "v5_disconnect_properties q"] by simp
  with assms show ?thesis
    by (simp add: P5Disconnect v5_disconnect_sendable_def v5_disconnect_accepts_def properties_ok_iff
        v5_disconnect_bytes_def reason_code_only_bytes_def reason_code_only_forms_def)
next
  case (P5Auth q)
  then show ?thesis
    using assms by (simp add: v5_auth_sendable_def v5_auth_accepts_def properties_ok_iff
      v5_auth_bytes_def reason_code_only_bytes_def)
qed (use assms in \<open>simp_all add: ack_sendable_def ack_accepts_def ack_body_def reason_code_forms_def
    properties_ok_iff v5_connect_sendable_def v5_publish_sendable_def\<close>)

lemma v5_image_len:
  "min (length w) usize_max = length w" if "length w \<le> max_remaining" for w :: bytes
  using that by (simp add: usize_max_def)

lemma length_properties_bytes:
  "properties_fit ps \<Longrightarrow> length (properties_bytes ps) = properties_encoded_len ps"
  using length_properties_image [of ps] by simp

lemma length_properties_ok: "properties_ok False ps \<Longrightarrow> length (properties_bytes ps) = properties_encoded_len ps"
  by (simp add: properties_ok_iff length_properties_bytes)

lemma entries_len_fit:
  "v5_entries_ok i check ps ok xs \<Longrightarrow> length (v5_entries_bytes i ps w xs) = length (v5_entries_image i ps w xs)"
  by (simp add: v5_entries_ok_def v5_entries_bytes_def v5_entries_image_def properties_ok_iff)

lemma v5_packet_encoded_len_eq:
  "v5_packet_sendable p \<Longrightarrow> length (v5_packet_bytes p) \<le> max_remaining \<Longrightarrow>
   v5_packet_encoded_len p = length (v5_packet_bytes p)"
proof (cases p)
  case (P5Publish q)
  moreover assume "v5_packet_sendable p" "length (v5_packet_bytes p) \<le> max_remaining"
  ultimately show ?thesis
    using v5_publish_encoded_len [of q]
    by (auto simp: v5_publish_validate_iff v5_publish_sendable_def v5_publish_ok_def properties_ok_iff
       v5_publish_bytes_def usize_max_def)
next
  case (P5Connect q)
  moreover assume "v5_packet_sendable p" "length (v5_packet_bytes p) \<le> max_remaining"
  ultimately show ?thesis
    by (simp add: v5_connect_sendable_iff v5_connect_encoded_len_eq v5_connect_image_fits v5_image_len)
qed (simp_all add: ack_sendable_def ack_body_def reason_code_packet_encoded_len_def
   v5_puback_encoded_len_def v5_pubrec_encoded_len_def v5_pubrel_encoded_len_def v5_pubcomp_encoded_len_def
   v5_connack_encoded_len_def v5_connack_bytes_def v5_connack_ok_def length_properties_ok length_properties_bytes
   v5_disconnect_encoded_len_def v5_disconnect_bytes_def v5_disconnect_sendable_def reason_code_only_packet_encoded_len_def
   reason_code_only_bytes_def v5_auth_encoded_len_def v5_auth_bytes_def v5_auth_sendable_def
   entries_len_fit v5_subscribe_encoded_len_eq v5_suback_encoded_len_eq v5_unsuback_encoded_len_eq v5_unsubscribe_encoded_len_eq
   v5_image_len usize_saturating_add_def usize_max_def)

lemma v5_packet_to_vec:
  "v5_packet_sendable p \<Longrightarrow> length (v5_packet_bytes p) \<le> max_remaining \<Longrightarrow>
   v5_packet_encode_to_vec p = Ok (v5_packet_wire p)"
  unfolding v5_packet_encode_to_vec_def by (intro encode_to_vec_eq v5_packet_emits v5_packet_encoded_len_eq)

lemma v5_to_vec_sendable:
  assumes "v5_packet_typed p" "v5_packet_encode_to_vec p = Ok bs"
  shows "v5_packet_sendable p" "length (v5_packet_bytes p) \<le> max_remaining" "bs = v5_packet_wire p"
proof -
  have ok: "v5_packet_sendable p \<and> length (v5_packet_bytes p) \<le> max_remaining"
    using assms(2) v5_packet_encode_ok [OF assms(1)]
    by (auto simp: v5_packet_encode_to_vec_def dest!: encode_to_vec_Ok_encode)
  then show "v5_packet_sendable p" "length (v5_packet_bytes p) \<le> max_remaining" by simp_all
  show "bs = v5_packet_wire p" using v5_packet_to_vec [of p] ok assms(2) by simp
qed

text \<open>
  C12: The decoder of MQTT 5 packets accepts exactly the frames whose body is one of the forms of the
  packet: for most packets the one canonical form, for the acknowledgements, DISCONNECT and AUTH also
  the short forms of the standard. It consumes exactly the frame and leaves what follows alone.
\<close>

theorem v5_packet_decode_exact:
  "v5_packet_decode buf = Ok (p, n) \<longleftrightarrow>
     (\<exists>s rest. v5_packet_accepts p s \<and> length s \<le> 268435455 \<and>
        n = length (frame_wire (v5_packet_first p) s) \<and> buf = frame_wire (v5_packet_first p) s @ rest)"
  by (rule v5_packet.dec_iff)

text \<open>
  C11: Whatever the encoder of MQTT 5 packets accepts is read back by the decoder as the same packet
  with the same length, unless it is one that only a client may send (a DISCONNECT with Will Message
  or with a Session Expiry Interval, an AUTH that starts re-authentication): those, and no others,
  the decoder of a client does not read back. The hypothesis is what the type \<^verbatim>\<open>String\<close> guarantees.
\<close>

theorem v5_packet_roundtrip:
  assumes "v5_packet_typed p" "v5_packet_encode p buf = Ok (n, buf')"
  shows "(v5_packet_decode buf' = Ok (p, n) \<longleftrightarrow> v5_both_ways p) \<and>
    n \<le> length buf \<and> length buf' = length buf \<and> drop n buf' = drop n buf"
proof -
  from v5_packet.enc_Ok_iff [OF assms(1), of buf n buf'] assms(2)
  have e: "v5_packet_sendable p" "length (v5_packet_bytes p) \<le> max_remaining" "n = length (v5_packet_wire p)"
    "n \<le> length buf" "buf' = v5_packet_wire p @ drop n buf" by auto
  have "v5_packet_decode buf' = Ok (p, n) \<longleftrightarrow> v5_packet_accepts p (v5_packet_bytes p)"
    unfolding v5_packet.dec_iff e(5) e(3) using frame_wire_inject [OF _ e(2)] e(2) by blast
  with e v5_both_ways_iff [OF e(1) assms(1)] show ?thesis by auto
qed

text \<open>
  \<^verbatim>\<open>encode_to_vec\<close> of MQTT 5 succeeds on exactly the packets a client may send that fit the
  remaining length of the wire format, and returns exactly their encoding: the computed length is
  right, the vector is neither too short nor too long.
\<close>

theorem v5_encode_to_vec_exact:
  assumes "v5_packet_typed p"
  shows "v5_packet_encode_to_vec p = Ok bs \<longleftrightarrow>
    v5_packet_sendable p \<and> length (v5_packet_bytes p) \<le> 268435455 \<and> bs = v5_packet_wire p"
  using v5_packet_to_vec [of p] v5_to_vec_sendable [OF assms] by auto

text \<open>
  C30: No input makes the MQTT 5 packet codec panic or loop: every decoder and encoder returns a
  packet, a length or an error, for arbitrary bytes, arbitrary packets and buffers of any size.
\<close>

theorem v5_codec_total:
  "v5_packet_decode bs \<noteq> Panic \<and> v5_incoming_decode bs \<noteq> Panic \<and>
   v5_packet_encode p buf \<noteq> Panic \<and> v5_packet_encode_to_vec p \<noteq> Panic"
proof (intro conjI)
  show "v5_packet_decode bs \<noteq> Panic" by (rule v5_packet.dec_no_panic)
  show "v5_incoming_decode bs \<noteq> Panic"
    by (cases bs) (simp_all add: v5_incoming_decode_def v5_decode_no_panic Let_def)
  show "v5_packet_encode p buf \<noteq> Panic" by (rule v5_packet.enc_no_panic)
  show "v5_packet_encode_to_vec p \<noteq> Panic"
    using v5_packet.enc_no_panic by (auto simp: v5_packet_encode_to_vec_def dest: encode_to_vec_Panic)
qed

section \<open>Directions\<close>

fun v5_incoming_packet :: "v5_incoming \<Rightarrow> v5_packet" where
  "v5_incoming_packet (In5ConnAck p) = P5ConnAck p"
| "v5_incoming_packet (In5Publish p) = P5Publish p"
| "v5_incoming_packet (In5PubAck p) = P5PubAck p"
| "v5_incoming_packet (In5PubRec p) = P5PubRec p"
| "v5_incoming_packet (In5PubRel p) = P5PubRel p"
| "v5_incoming_packet (In5PubComp p) = P5PubComp p"
| "v5_incoming_packet (In5SubAck p) = P5SubAck p"
| "v5_incoming_packet (In5UnsubAck p) = P5UnsubAck p"
| "v5_incoming_packet (In5PingResp p) = P5PingResp p"
| "v5_incoming_packet (In5Disconnect p) = P5Disconnect p"
| "v5_incoming_packet (In5Auth p) = P5Auth p"

fun v5_outgoing_packet :: "v5_outgoing \<Rightarrow> v5_packet" where
  "v5_outgoing_packet (Out5Connect p) = P5Connect p"
| "v5_outgoing_packet (Out5Publish p) = P5Publish p"
| "v5_outgoing_packet (Out5PubAck p) = P5PubAck p"
| "v5_outgoing_packet (Out5PubRec p) = P5PubRec p"
| "v5_outgoing_packet (Out5PubRel p) = P5PubRel p"
| "v5_outgoing_packet (Out5PubComp p) = P5PubComp p"
| "v5_outgoing_packet (Out5Subscribe p) = P5Subscribe p"
| "v5_outgoing_packet (Out5Unsubscribe p) = P5Unsubscribe p"
| "v5_outgoing_packet (Out5PingReq p) = P5PingReq p"
| "v5_outgoing_packet (Out5Disconnect p) = P5Disconnect p"
| "v5_outgoing_packet (Out5Auth p) = P5Auth p"

lemma v5_outgoing_eq:
  "v5_outgoing_encode_to_vec p = v5_packet_encode_to_vec (v5_outgoing_packet p)"
proof -
  have "v5_outgoing_encode p = v5_packet_encode (v5_outgoing_packet p)"
    "v5_outgoing_encoded_len p = v5_packet_encoded_len (v5_outgoing_packet p)"
    by (cases p; simp add: fun_eq_iff)+
  then show ?thesis by (simp add: v5_outgoing_encode_to_vec_def v5_packet_encode_to_vec_def)
qed

lemma v5_incoming_agrees:
  "b AND 0xF0 \<notin> {0x10, 0x80, 0xA0, 0xC0} \<Longrightarrow>
   map_result (apfst v5_incoming_packet) id (v5_incoming_decode (b # r)) = v5_packet_decode (b # r)"
  by (simp add: v5_incoming_decode_def v5_packet_decode_def map_decode_as Let_def
      if_distrib [of "map_result (apfst v5_incoming_packet) id"] cong: if_cong)

lemma v5_incoming_packet_inject: "v5_incoming_packet p = v5_incoming_packet q \<longleftrightarrow> p = q"
  by (cases p; cases q) simp_all

lemma v5_incoming_decode_packet:
  assumes "v5_packet_decode (b # r) = Ok (v5_incoming_packet q, n)" "b AND 0xF0 \<notin> {0x10, 0x80, 0xA0, 0xC0}"
  shows "v5_incoming_decode (b # r) = Ok (q, n)"
  using v5_incoming_agrees [OF assms(2), of r] assms(1) v5_incoming_packet_inject
  by (cases "v5_incoming_decode (b # r)") auto

text \<open>
  C28: The decoder for what an MQTT 5 client receives rejects the packet types only a client may
  send, by the type of the first byte alone and before its flags or its body are looked at; on all
  other types it gives the verdict of the full decoder, errors included.
\<close>

theorem v5_incoming_direction:
  "case buf of
     [] \<Rightarrow> v5_incoming_decode buf = Err InsufficientData
   | b # r \<Rightarrow>
       if b AND 0xF0 \<in> {0x10, 0x80, 0xA0, 0xC0}
       then v5_incoming_decode buf = Err (UnexpectedPacket (b AND 0xF0))
       else map_result (apfst v5_incoming_packet) id (v5_incoming_decode buf) = v5_packet_decode buf"
proof (cases buf)
  case (Cons b r)
  show ?thesis
  proof (cases "b AND 0xF0 \<in> {0x10, 0x80, 0xA0, 0xC0}")
    case True
    then have "v5_incoming_decode buf = Err (UnexpectedPacket (b AND 0xF0))"
      by (elim insertE emptyE) (simp_all add: Cons v5_incoming_decode_def Let_def)
    with True show ?thesis by (simp add: Cons)
  next
    case False
    with v5_incoming_agrees [OF False, of r] show ?thesis by (simp add: Cons)
  qed
qed (simp add: v5_incoming_decode_def)

lemma v5_accepts_typed: "v5_packet_accepts p s \<Longrightarrow> v5_packet_typed p"
  by (cases p) (auto simp: ack_accepts_def properties_ok_iff v5_connack_ok_def v5_connect_typed_def
     v5_connect_ok_def v5_will_ok_def v5_publish_ok_def mqtt_string_def v5_disconnect_accepts_def v5_auth_accepts_def
     v5_entries_ok_def v5_subscription_ok_def properties_typed_def pred_option_def)

lemma v3_ok_typed: "v3_packet_ok p \<Longrightarrow> v3_packet_typed p"
  by (cases p) (auto simp: v3_connect_typed_def v3_connect_ok_def v3_will_ok_def v3_publish_typed_def
    v3_publish_ok_def mqtt_string_def v3_subscribe_typed_def v3_subscribe_ok_def v3_subscription_ok_def
    v3_unsubscribe_typed_def v3_unsubscribe_ok_def pred_option_def)

lemma length_frame_wire_le:
  "length s \<le> max_remaining \<Longrightarrow> 2 \<le> length (frame_wire b s) \<and> length (frame_wire b s) \<le> 5 + length s"
  using length_vbi_wire [OF remaining_word(2), of "length s"]
  by (simp add: length_frame_wire vbi_encoded_len_def)

definition alias_publish :: v5_packet where
  "alias_publish = P5Publish \<lparr>v5p_dup = False, v5p_qos = AtMostOnce, v5p_retain = False, v5p_topic = [],
     v5p_packet_id = None, v5p_properties = [TopicAlias 5], v5p_payload = [1]\<rparr>"

lemma alias_publish:
  "v5_packet_typed alias_publish" "v5_packet_sendable alias_publish" "v5_both_ways alias_publish"
  "v5_packet_bytes alias_publish = [0, 0, 3, 0x23, 0, 5, 1]"
  "v5_packet_wire alias_publish = [0x30, 7, 0, 0, 3, 0x23, 0, 5, 1]"
proof -
  have b: "property_bytes (TopicAlias 5) = [0x23, 0, 5]"
    by (simp add: property_bytes_def wire_eval)
  show t: "v5_packet_typed alias_publish"
    by (simp add: alias_publish_def properties_typed_def property_typed_def)
  show "v5_packet_sendable alias_publish"
    by (simp add: alias_publish_def v5_publish_sendable_def v5_publish_ok_def mqtt_string_def
      v5_topic_ok_def publish_id_ok_def carries_only_def properties_ok_iff properties_fit_def
       properties_body_def properties_typed_def property_typed_def no_duplicates_def b)
  show "v5_both_ways alias_publish" by (simp add: alias_publish_def)
  show w: "v5_packet_bytes alias_publish = [0, 0, 3, 0x23, 0, 5, 1]"
    by (simp add: alias_publish_def v5_publish_bytes_def properties_bytes_def properties_body_def b wire_eval)
  show "v5_packet_wire alias_publish = [0x30, 7, 0, 0, 3, 0x23, 0, 5, 1]"
    unfolding w by (simp add: alias_publish_def v5_publish_first_def publish_first_def wire_eval)
qed

theorem v5_packet_roundtrip_witness:
  "v5_packet_decode [0x30, 7, 0, 0, 3, 0x23, 0, 5, 1, 0xFF] = Ok (alias_publish, 9)"
proof -
  have "v5_packet_encode alias_publish [0, 0, 0, 0, 0, 0, 0, 0, 0, 0xFF] =
      Ok (9, [0x30, 7, 0, 0, 3, 0x23, 0, 5, 1, 0xFF])"
    using alias_publish by (simp add: v5_packet.enc_Ok_iff)
  from v5_packet_roundtrip [OF alias_publish(1) this] alias_publish(3) show ?thesis by simp
qed


theorem v5_encode_to_vec_exact_witness:
  "v5_packet_encode_to_vec alias_publish = Ok [0x30, 7, 0, 0, 3, 0x23, 0, 5, 1]"
  using v5_encode_to_vec_exact [OF alias_publish(1)] alias_publish by simp

text \<open>
  C29: What either decoder returns for arbitrary bytes is well typed: every string of the packet, also
  inside the properties, is valid UTF-8 as the Rust type \<^verbatim>\<open>String\<close> demands. A packet takes at least
  two bytes, and never more than the buffer has or the five bytes of the longest fixed header and the
  largest remaining length.
\<close>

theorem decoded_well_typed:
  assumes "v5_packet_decode buf = Ok (p, n)" "v3_packet_decode buf' = Ok (q, m)"
  shows "v5_packet_typed p \<and> 2 \<le> n \<and> n \<le> min (length buf) (5 + 268435455) \<and>
    v3_packet_typed q \<and> 2 \<le> m \<and> m \<le> min (length buf') (5 + 268435455)"
proof -
  from assms obtain s where s: "v5_packet_accepts p s" "length s \<le> max_remaining"
    "n = length (frame_wire (v5_packet_first p) s)" "n \<le> length buf"
    by (auto simp: v5_packet.dec_iff)
  from assms have q: "v3_packet_ok q" "length (v3_packet_bytes q) \<le> max_remaining"
    "m = length (v3_packet_wire q)" "m \<le> length buf'"
    by (auto simp: v3_packet.dec_body)
  show ?thesis
    using s q length_frame_wire_le [OF s(2), of "v5_packet_first p"]
      length_frame_wire_le [OF q(2), of "v3_packet_first q"] v5_accepts_typed [OF s(1)] v3_ok_typed [OF q(1)]
    by simp
qed

theorem decoded_well_typed_witness:
  "v5_packet_typed alias_publish \<and> v3_packet_typed (P3PingReq V3PingReq)"
proof -
  have a: "v5_packet_decode [0x30, 7, 0, 0, 3, 0x23, 0, 5, 1] = Ok (alias_publish, 9)"
    using v5_both_ways_iff [OF alias_publish(2,1)] alias_publish
    by (intro v5_packet.dec_iff [THEN iffD2] exI [of _ "v5_packet_bytes alias_publish"] exI [of _ "[]"]) simp
  have "v3_packet_decode [0xC0, 0] = Ok (P3PingReq V3PingReq, 2)"
    by (simp add: v3_packet.dec_body wire_eval)
  with decoded_well_typed [OF a] show ?thesis by blast
qed

end
