(* ===== verification/Decoder.thy ===== *)
theory Decoder
  imports V5Packet
begin

unbundle bit_operations_syntax

text \<open>
  The streaming decoder, \<^verbatim>\<open>src/decoder.rs\<close>: it buffers received bytes, finds the frames in them and
  hands each complete frame to the packet decoder of its protocol version. The concrete state (a
  vector, the offset of the bytes not yet consumed, and the phase of the parse) is refined to the
  bytes that are pending and whether the limit of the current frame has been checked.
\<close>

section \<open>State\<close>

datatype versioned_incoming =
    VersionedV5 v5_incoming
  | VersionedV311 v3_incoming

datatype decode_phase =
    FixedHeader
  | RemainingLength
  | PayloadPhase nat nat

record decoder_state =
  dec_version :: mqtt_version
  dec_limits :: limits
  dec_buf :: bytes
  dec_offset :: nat
  dec_phase :: decode_phase

definition MAX_PACKET_OVERHEAD :: nat where
  "MAX_PACKET_OVERHEAD = 1 + 4"

definition decoder_new :: "mqtt_version \<Rightarrow> decoder_state" where
  "decoder_new version =
     \<lparr>dec_version = version, dec_limits = limits_new, dec_buf = [], dec_offset = 0,
      dec_phase = FixedHeader\<rparr>"

definition decoder_with_limits :: "decoder_state \<Rightarrow> limits \<Rightarrow> decoder_state" where
  "decoder_with_limits d limits = d\<lparr>dec_limits := limits\<rparr>"

definition decoder_new_v5 :: "limits \<Rightarrow> decoder_state" where
  "decoder_new_v5 limits = decoder_with_limits (decoder_new V5) limits"

definition decoder_new_v311 :: "limits \<Rightarrow> decoder_state" where
  "decoder_new_v311 limits = decoder_with_limits (decoder_new V311) limits"

definition decoder_set_limits :: "limits \<Rightarrow> decoder_state \<Rightarrow> decoder_state" where
  "decoder_set_limits limits d = d\<lparr>dec_limits := limits\<rparr>"

section \<open>Operations\<close>

text \<open>
  A vector holds at most \<^verbatim>\<open>isize::MAX\<close> bytes; \<^verbatim>\<open>extend_from_slice\<close> panics beyond that.
\<close>

definition vec_max :: nat where
  "vec_max = 2 ^ 63 - 1"

definition extend_from_slice :: "bytes \<Rightarrow> bytes \<Rightarrow> (bytes, decode_error) result" where
  "extend_from_slice buf data =
     (if length buf + length data \<le> vec_max then Ok (buf @ data) else Panic)"

definition decoder_feed :: "bytes \<Rightarrow> decoder_state \<Rightarrow> (unit, decode_error) result \<times> decoder_state" where
  "decoder_feed data d =
     (let pending_len = length (dec_buf d) - dec_offset d in
      case usize_checked_add pending_len (length data) of
        None \<Rightarrow> (Err (DecPacketTooLarge usize_max (max_packet_size (dec_limits d))), d)
      | Some accumulated_size \<Rightarrow>
          let allowed_size = usize_saturating_add (max_packet_size (dec_limits d)) MAX_PACKET_OVERHEAD in
          if allowed_size < accumulated_size
          then (Err (DecPacketTooLarge accumulated_size allowed_size), d)
          else
            case extend_from_slice (dec_buf d) data of
              Ok buf \<Rightarrow> (Ok (), d\<lparr>dec_buf := buf\<rparr>)
            | Err e \<Rightarrow> (Err e, d)
            | Panic \<Rightarrow> (Panic, d))"

definition decoder_reset :: "decoder_state \<Rightarrow> decoder_state" where
  "decoder_reset d = d\<lparr>dec_buf := [], dec_offset := 0, dec_phase := FixedHeader\<rparr>"

text \<open>\<^verbatim>\<open>self.buf.drain(..self.buf_offset)\<close> panics if the offset is behind the end of the vector.\<close>

definition maybe_compact :: "decoder_state \<Rightarrow> (decoder_state, decode_error) result" where
  "maybe_compact d =
     (if length (dec_buf d) div 2 < dec_offset d
      then rbind (subslice_from (dec_buf d) (dec_offset d)) (\<lambda>rest.
           Ok (d\<lparr>dec_buf := rest, dec_offset := 0\<rparr>))
      else Ok d)"

definition decode_packet :: "mqtt_version \<Rightarrow> bytes \<Rightarrow> (versioned_incoming, decode_error) result" where
  "decode_packet version buf =
     (case version of
        V5 \<Rightarrow>
          (case v5_incoming_decode buf of
             Ok (p, _) \<Rightarrow> Ok (VersionedV5 p)
           | Err e \<Rightarrow> if e = InsufficientData then Err MalformedPacket else Err e
           | Panic \<Rightarrow> Panic)
      | V311 \<Rightarrow>
          (case v3_incoming_decode buf of
             Ok (p, _) \<Rightarrow> Ok (VersionedV311 p)
           | Err e \<Rightarrow> if e = InsufficientData then Err MalformedPacket else Err e
           | Panic \<Rightarrow> Panic))"

text \<open>\<^verbatim>\<open>1usize.checked_add(rlen_len).and_then(|x| x.checked_add(remaining_length))\<close>\<close>

definition frame_size :: "nat \<Rightarrow> nat \<Rightarrow> nat option" where
  "frame_size rlen_len remaining_length =
     Option.bind (usize_checked_add 1 rlen_len) (\<lambda>x. usize_checked_add x remaining_length)"

text \<open>
  The \<^verbatim>\<open>match self.phase\<close> in the loop of \<^verbatim>\<open>try_decode\<close>: \<open>Inl\<close> goes round the loop again, \<open>Inr\<close> returns.
\<close>

type_synonym decode_outcome = "(versioned_incoming, decode_error) result \<times> decoder_state"

definition fixed_header_step :: "decoder_state \<Rightarrow> decoder_state + decode_outcome" where
  "fixed_header_step d =
     (if length (dec_buf d) \<le> dec_offset d then Inr (Err InsufficientData, d)
      else Inl (d\<lparr>dec_phase := RemainingLength\<rparr>))"

definition remaining_length_step :: "decoder_state \<Rightarrow> decoder_state + decode_outcome" where
  "remaining_length_step d =
     (if length (dec_buf d) - dec_offset d < 2 then Inr (Err InsufficientData, d)
      else
        case rbind (subslice_from (dec_buf d) (dec_offset d + 1)) vbi_decode of
          Ok (vbi, rlen_len) \<Rightarrow>
            let remaining_length = unat vbi in
            (case frame_size rlen_len remaining_length of
               None \<Rightarrow> Inr (Err MalformedPacket, d)
             | Some total_size \<Rightarrow>
                 if max_packet_size (dec_limits d) < total_size
                 then Inr (Err (DecPacketTooLarge total_size (max_packet_size (dec_limits d))), decoder_reset d)
                 else Inl (d\<lparr>dec_phase := PayloadPhase rlen_len remaining_length\<rparr>))
        | Err e \<Rightarrow>
            if e = InsufficientData then Inr (Err InsufficientData, d) else Inr (Err e, decoder_reset d)
        | Panic \<Rightarrow> Inr (Panic, d))"

definition payload_step :: "nat \<Rightarrow> nat \<Rightarrow> decoder_state \<Rightarrow> decode_outcome" where
  "payload_step rlen_len remaining_length d =
     (case frame_size rlen_len remaining_length of
        None \<Rightarrow> (Err MalformedPacket, d)
      | Some packet_len \<Rightarrow>
          if length (dec_buf d) - dec_offset d < packet_len then (Err InsufficientData, d)
          else
            case usize_checked_add (dec_offset d) packet_len of
              None \<Rightarrow> (Err MalformedPacket, d)
            | Some end \<Rightarrow>
                let result = rbind (subslice (dec_buf d) (dec_offset d) end) (decode_packet (dec_version d)) in
                (case maybe_compact (d\<lparr>dec_offset := end, dec_phase := FixedHeader\<rparr>) of
                   Ok d' \<Rightarrow> (result, d')
                 | Err e \<Rightarrow> (Err e, d)
                 | Panic \<Rightarrow> (Panic, d)))"

definition decode_step :: "decoder_state \<Rightarrow> decoder_state + decode_outcome" where
  "decode_step d =
     (case dec_phase d of
        FixedHeader \<Rightarrow> fixed_header_step d
      | RemainingLength \<Rightarrow> remaining_length_step d
      | PayloadPhase rlen_len remaining_length \<Rightarrow> Inr (payload_step rlen_len remaining_length d))"

fun phases_left :: "decode_phase \<Rightarrow> nat" where
  "phases_left FixedHeader = 2"
| "phases_left RemainingLength = 1"
| "phases_left (PayloadPhase _ _) = 0"

lemma decode_step_phase: "decode_step d = Inl d' \<Longrightarrow> phases_left (dec_phase d') < phases_left (dec_phase d)"
  by (auto simp: decode_step_def fixed_header_step_def remaining_length_step_def Let_def
      split: decode_phase.splits if_splits result.splits option.splits)

function try_decode :: "decoder_state \<Rightarrow> decode_outcome" where
  "try_decode d = (case decode_step d of Inl d' \<Rightarrow> try_decode d' | Inr r \<Rightarrow> r)"
  by pat_completeness auto
termination
  by (relation "measure (\<lambda>d. phases_left (dec_phase d))") (auto dest: decode_step_phase)

declare try_decode.simps [simp del]

definition decoder_decode ::
    "decoder_state \<Rightarrow> (versioned_incoming option, decode_error) result \<times> decoder_state" where
  "decoder_decode d =
     (case try_decode d of
        (Ok packet, d') \<Rightarrow> (Ok (Some packet), d')
      | (Err e, d') \<Rightarrow> (if e = InsufficientData then Ok None else Err e, d')
      | (Panic, d') \<Rightarrow> (Panic, d'))"

section \<open>The frames in the pending bytes\<close>

text \<open>More input does not change what has already been decided about a variable byte integer.\<close>

lemma vbi_decode_loop_append:
  "vbi_decode_loop s v m i \<noteq> Err InsufficientData \<Longrightarrow>
   vbi_decode_loop (s @ t) v m i = vbi_decode_loop s v m i"
proof (induction s v m i rule: vbi_decode_loop.induct)
  case (1 s v m i)
  show ?case
  proof (cases "4 \<le> i \<or> length s \<le> i")
    case True
    then show ?thesis
      using "1.prems" by (auto simp: vbi_decode_loop.simps [of s v m i] vbi_decode_loop.simps [of "s @ t" v m i])
  next
    case False
    then have nth: "(s @ t) ! i = s ! i" by (simp add: nth_append)
    note step = vbi_decode_loop.simps [of s v m i] vbi_decode_loop.simps [of "s @ t" v m i]
    show ?thesis
      using False "1.prems" "1.IH" [OF _ _ refl]
      by (auto simp: step nth Let_def split: option.splits)
  qed
qed

lemma vbi_decode_append:
  assumes "vbi_decode s \<noteq> Err InsufficientData"
  shows "vbi_decode (s @ t) = vbi_decode s"
proof -
  have "vbi_decode_loop s 0 1 0 \<noteq> Err InsufficientData" using assms by (auto simp: vbi_decode_def)
  from vbi_decode_loop_append [OF this] show ?thesis by (simp add: vbi_decode_def)
qed

lemma vbi_decode_Nil [simp]: "vbi_decode [] = Err InsufficientData"
  by (simp add: vbi_decode_def vbi_decode_loop.simps)

text \<open>The length of the first frame, as far as the pending bytes tell it.\<close>

definition frame_len :: "bytes \<Rightarrow> (nat, decode_error) result" where
  "frame_len s = rbind (vbi_decode (tl s)) (\<lambda>(v, n). Ok (1 + n + unat v))"

lemma vbi_decode_bounds: "vbi_decode s = Ok (v, n) \<Longrightarrow> 1 \<le> n \<and> n \<le> 4 \<and> n \<le> length s \<and> unat v \<le> max_remaining"
  using length_vbi_wire [of v]
  by (auto simp: vbi.dec_iff vbi_encoded_len_def word_le_nat_alt vbi_MAX_unat split: if_splits)

lemma frame_size_Some:
  "vbi_decode s = Ok (v, n) \<Longrightarrow> frame_size n (unat v) = Some (1 + n + unat v)"
  using vbi_decode_bounds [of s v n] by (simp add: frame_size_def usize_checked_add_def usize_max_def)

lemma frame_len_bounds: "frame_len s = Ok n \<Longrightarrow> 2 \<le> n \<and> n \<le> 5 + max_remaining \<and> 2 \<le> length s"
  using vbi_decode_bounds [of "tl s"] by (fastforce simp: frame_len_def rbind_Ok_iff)

lemma frame_len_no_panic [simp]: "frame_len s \<noteq> Panic"
  using vbi.dec_total by (auto simp: frame_len_def rbind_Panic_iff)

lemma frame_len_append:
  "frame_len s \<noteq> Err InsufficientData \<Longrightarrow> frame_len (s @ t) = frame_len s"
proof (cases s)
  case (Cons b r)
  assume "frame_len s \<noteq> Err InsufficientData"
  then have "vbi_decode r \<noteq> Err InsufficientData" by (auto simp: frame_len_def Cons)
  from vbi_decode_append [OF this] show ?thesis by (simp add: frame_len_def Cons)
qed (simp add: frame_len_def)

lemma frame_len_wire:
  assumes "length body \<le> max_remaining"
  shows "frame_len (frame_wire b body @ rest) = Ok (length (frame_wire b body))"
  using assms by (simp add: frame_len_def frame_wire_def vbi.dec_wire remaining_word)

text \<open>A part of a frame: the length is not known yet, or it is right.\<close>

lemma frame_len_prefix:
  assumes "s @ t = frame_wire b body @ rest" "length body \<le> max_remaining"
  shows "frame_len s = Err InsufficientData \<or> frame_len s = Ok (length (frame_wire b body))"
  using frame_len_append [of s t] frame_len_wire [OF assms(2), of b rest] assms(1) by metis

lemma frame_len_complete:
  assumes "s @ t = frame_wire b body @ rest" "length body \<le> max_remaining"
    "length (frame_wire b body) \<le> length s"
  shows "frame_len s = Ok (length (frame_wire b body))"
    "take (length (frame_wire b body)) s = frame_wire b body"
    "drop (length (frame_wire b body)) s @ t = rest"
proof -
  have "take (length (frame_wire b body)) (s @ t) = frame_wire b body" using assms(1) by simp
  then show t: "take (length (frame_wire b body)) s = frame_wire b body" using assms(3) by simp
  have "drop (length (frame_wire b body)) (s @ t) = rest" using assms(1) by simp
  then show "drop (length (frame_wire b body)) s @ t = rest" using assms(3) by simp
  show "frame_len s = Ok (length (frame_wire b body))"
    using frame_len_wire [OF assms(2), of b "drop (length (frame_wire b body)) s"] t
    by (metis append_take_drop_id)
qed

section \<open>The abstract decoder\<close>

text \<open>
  The state that matters: the bytes that are pending, and whether their first frame has passed the
  check of its size. \<open>spec_decode\<close> says what \<^verbatim>\<open>decode\<close> does to it.
\<close>

definition pending :: "decoder_state \<Rightarrow> bytes" where
  "pending d = drop (dec_offset d) (dec_buf d)"

definition size_checked :: "decoder_state \<Rightarrow> bool" where
  "size_checked d = (case dec_phase d of PayloadPhase _ _ \<Rightarrow> True | _ \<Rightarrow> False)"

definition spec_decode :: "mqtt_version \<Rightarrow> nat \<Rightarrow> bytes \<times> bool \<Rightarrow>
    (versioned_incoming option, decode_error) result \<times> bytes \<times> bool" where
  "spec_decode version limit = (\<lambda>(s, checked).
     case frame_len s of
       Ok n \<Rightarrow>
         if \<not> checked \<and> limit < n then (Err (DecPacketTooLarge n limit), [], False)
         else if length s < n then (Ok None, s, True)
         else (map_result Some id (decode_packet version (take n s)), drop n s, False)
     | Err e \<Rightarrow> if e = InsufficientData then (Ok None, s, checked) else (Err e, [], False)
     | Panic \<Rightarrow> (Panic, s, checked))"

fun phase_ok :: "decode_phase \<Rightarrow> bytes \<Rightarrow> bool" where
  "phase_ok FixedHeader s \<longleftrightarrow> True"
| "phase_ok RemainingLength s \<longleftrightarrow> s \<noteq> []"
| "phase_ok (PayloadPhase rlen_len remaining_length) s \<longleftrightarrow>
     (\<exists>v. vbi_decode (tl s) = Ok (v, rlen_len) \<and> remaining_length = unat v)"

text \<open>
  The invariant: at most half of the vector has been consumed, and the phase agrees with the
  pending bytes.
\<close>

definition decoder_inv :: "decoder_state \<Rightarrow> bool" where
  "decoder_inv d \<longleftrightarrow>
     2 * dec_offset d \<le> length (dec_buf d) \<and> length (dec_buf d) \<le> vec_max \<and> phase_ok (dec_phase d) (pending d)"

lemma decode_packet_simps [simp]:
  "decode_packet version buf \<noteq> Panic" "decode_packet version buf \<noteq> Err InsufficientData"
proof -
  have "v5_incoming_decode buf \<noteq> Panic"
    by (cases buf) (simp_all add: v5_incoming_decode_def v5_decode_no_panic Let_def)
  moreover have "v3_incoming_decode buf \<noteq> Panic"
    by (cases buf) (simp_all add: v3_incoming_decode_def v3_decode_no_panic Let_def)
  ultimately show "decode_packet version buf \<noteq> Panic" "decode_packet version buf \<noteq> Err InsufficientData"
    by (auto simp: decode_packet_def split: mqtt_version.split result.split)
qed

lemma maybe_compact_eq:
  assumes "dec_offset d \<le> length (dec_buf d)" "length (dec_buf d) \<le> vec_max"
  shows "\<exists>d'. maybe_compact d = Ok d' \<and> pending d' = pending d \<and> 2 * dec_offset d' \<le> length (dec_buf d') \<and>
    length (dec_buf d') \<le> vec_max \<and> dec_phase d' = dec_phase d \<and>
    dec_version d' = dec_version d \<and> dec_limits d' = dec_limits d"
  using assms by (auto simp: maybe_compact_def subslice_from_def subslice_def pending_def)

definition same_config :: "decoder_state \<Rightarrow> decoder_state \<Rightarrow> bool" where
  "same_config d d' \<longleftrightarrow> dec_version d' = dec_version d \<and> dec_limits d' = dec_limits d"

text \<open>What \<^verbatim>\<open>decode\<close> returns, on the abstract state.\<close>

definition refines_spec :: "decoder_state \<Rightarrow> decode_outcome \<Rightarrow> bool" where
  "refines_spec d r \<longleftrightarrow>
     (let (res, d') = r in
      decoder_inv d' \<and> same_config d d' \<and>
      (case res of Ok p \<Rightarrow> Ok (Some p) | Err e \<Rightarrow> (if e = InsufficientData then Ok None else Err e) | Panic \<Rightarrow> Panic,
       pending d', size_checked d') =
      spec_decode (dec_version d) (max_packet_size (dec_limits d)) (pending d, size_checked d))"

lemma payload_refines:
  assumes inv: "decoder_inv d" and ph: "dec_phase d = PayloadPhase r n"
  shows "refines_spec d (payload_step r n d)"
proof -
  from inv ph obtain v where v: "vbi_decode (tl (pending d)) = Ok (v, r)" "n = unat v"
    by (auto simp: decoder_inv_def)
  define N where "N = 1 + r + unat v"
  have fs: "frame_size r n = Some N" using frame_size_Some [OF v(1)] v(2) by (simp add: N_def)
  have fl: "frame_len (pending d) = Ok N" using v by (simp add: frame_len_def N_def)
  have off: "dec_offset d \<le> length (dec_buf d)" "length (dec_buf d) \<le> vec_max"
    using inv by (auto simp: decoder_inv_def)
  have len: "length (pending d) = length (dec_buf d) - dec_offset d" by (simp add: pending_def)
  show ?thesis
  proof (cases "length (pending d) < N")
    case True
    then show ?thesis
      using inv by (simp add: payload_step_def fs len refines_spec_def same_config_def spec_decode_def fl
        size_checked_def ph)
  next
    case False
    let ?stop = "dec_offset d + N"
    have e: "?stop \<le> length (dec_buf d)" using False len off by simp
    then have add: "usize_checked_add (dec_offset d) N = Some ?stop"
      using off by (simp add: usize_checked_add_def usize_max_def vec_max_def)
    have sub: "subslice (dec_buf d) (dec_offset d) ?stop = Ok (take N (pending d))"
      using e by (simp add: subslice_def pending_def drop_take)
    obtain d' where d': "maybe_compact (d\<lparr>dec_offset := ?stop, dec_phase := FixedHeader\<rparr>) = Ok d'"
      "pending d' = drop N (pending d)" "2 * dec_offset d' \<le> length (dec_buf d')"
      "length (dec_buf d') \<le> vec_max" "dec_phase d' = FixedHeader" "same_config d d'"
      using maybe_compact_eq [of "d\<lparr>dec_offset := ?stop, dec_phase := FixedHeader\<rparr>"] e off
      by (auto simp: pending_def same_config_def add.commute)
    have "payload_step r n d = (decode_packet (dec_version d) (take N (pending d)), d')"
      using False len by (simp add: payload_step_def fs add sub d'(1))
    then show ?thesis
      using d' False
      by (cases "decode_packet (dec_version d) (take N (pending d))")
        (auto simp: refines_spec_def decoder_inv_def spec_decode_def fl size_checked_def ph)
  qed
qed

lemma try_decode_payload:
  "dec_phase d = PayloadPhase r n \<Longrightarrow> try_decode d = payload_step r n d"
  by (simp add: try_decode.simps [of d] decode_step_def)

text \<open>A round of the loop that does not return leaves the abstract state as it is.\<close>

lemma refines_phase:
  assumes "refines_spec (d\<lparr>dec_phase := ph\<rparr>) r"
    "spec_decode (dec_version d) (max_packet_size (dec_limits d)) (pending d, size_checked (d\<lparr>dec_phase := ph\<rparr>)) =
     spec_decode (dec_version d) (max_packet_size (dec_limits d)) (pending d, size_checked d)"
  shows "refines_spec d r"
  using assms by (auto simp: refines_spec_def same_config_def pending_def split: prod.splits)

lemma remaining_length_refines:
  assumes inv: "decoder_inv d" and ph: "dec_phase d = RemainingLength"
  shows "refines_spec d (try_decode d)"
proof -
  let ?s = "pending d" and ?m = "max_packet_size (dec_limits d)"
  have s: "?s \<noteq> []" "length ?s = length (dec_buf d) - dec_offset d"
    using inv ph by (auto simp: decoder_inv_def pending_def)
  have nc: "\<not> size_checked d" by (simp add: size_checked_def ph)
  show ?thesis
  proof (cases "length ?s < 2")
    case True
    then have "tl ?s = []" by (cases "tl ?s") (use length_tl [of ?s] in auto)
    then have "frame_len ?s = Err InsufficientData" by (simp add: frame_len_def)
    moreover have "try_decode d = (Err InsufficientData, d)"
      using True s by (simp add: try_decode.simps [of d] decode_step_def remaining_length_step_def ph)
    ultimately show ?thesis using inv by (simp add: refines_spec_def same_config_def spec_decode_def)
  next
    case False
    then have "subslice_from (dec_buf d) (dec_offset d + 1) = Ok (tl ?s)"
      using s by (simp add: subslice_from_def subslice_def pending_def tl_drop drop_Suc)
    then have step: "decode_step d = (case vbi_decode (tl ?s) of
          Ok (vbi, r) \<Rightarrow> (case frame_size r (unat vbi) of
               None \<Rightarrow> Inr (Err MalformedPacket, d)
             | Some n \<Rightarrow> if ?m < n then Inr (Err (DecPacketTooLarge n ?m), decoder_reset d)
                 else Inl (d\<lparr>dec_phase := PayloadPhase r (unat vbi)\<rparr>))
        | Err e \<Rightarrow> if e = InsufficientData then Inr (Err InsufficientData, d) else Inr (Err e, decoder_reset d)
        | Panic \<Rightarrow> Inr (Panic, d))"
      using False s
      by (cases "vbi_decode (tl ?s)") (auto simp: decode_step_def ph remaining_length_step_def Let_def)
    have reset: "decoder_inv (decoder_reset d)" "pending (decoder_reset d) = []"
      "\<not> size_checked (decoder_reset d)" "same_config d (decoder_reset d)"
      by (simp_all add: decoder_inv_def decoder_reset_def pending_def size_checked_def same_config_def)
    show ?thesis
    proof (cases "vbi_decode (tl ?s)")
      case (Ok y)
      obtain v r where y: "y = (v, r)" by fastforce
      note v = Ok [unfolded y]
      have fl: "frame_len ?s = Ok (1 + r + unat v)" using v by (simp add: frame_len_def)
      show ?thesis
      proof (cases "?m < 1 + r + unat v")
        case True
        then have "try_decode d = (Err (DecPacketTooLarge (1 + r + unat v) ?m), decoder_reset d)"
          by (simp add: try_decode.simps [of d] step v frame_size_Some [OF v])
        then show ?thesis using reset True nc by (simp add: refines_spec_def spec_decode_def fl)
      next
        case no: False
        let ?d = "d\<lparr>dec_phase := PayloadPhase r (unat v)\<rparr>"
        have "try_decode d = payload_step r (unat v) ?d"
          using no by (simp add: try_decode.simps [of d] step v frame_size_Some [OF v] try_decode_payload)
        moreover have "decoder_inv ?d" using inv v by (auto simp: decoder_inv_def pending_def)
        ultimately have "refines_spec ?d (try_decode d)" using payload_refines [of ?d] by simp
        then show ?thesis by (rule refines_phase) (use no in \<open>simp add: spec_decode_def fl\<close>)
      qed
    next
      case (Err e)
      then show ?thesis
        using inv reset nc
        by (auto simp: try_decode.simps [of d] step refines_spec_def spec_decode_def frame_len_def same_config_def)
    next
      case Panic
      then show ?thesis using vbi.dec_total by blast
    qed
  qed
qed

lemma try_decode_refines:
  assumes inv: "decoder_inv d"
  shows "refines_spec d (try_decode d)"
proof (cases "dec_phase d")
  case FixedHeader
  let ?d = "d\<lparr>dec_phase := RemainingLength\<rparr>"
  show ?thesis
  proof (cases "pending d = []")
    case True
    then have "try_decode d = (Err InsufficientData, d)"
      by (simp add: try_decode.simps [of d] decode_step_def FixedHeader fixed_header_step_def pending_def)
    moreover have "frame_len (pending d) = Err InsufficientData" using True by (simp add: frame_len_def)
    ultimately show ?thesis using inv by (simp add: refines_spec_def same_config_def spec_decode_def)
  next
    case False
    then have "try_decode d = try_decode ?d"
      by (simp add: try_decode.simps [of d] decode_step_def FixedHeader fixed_header_step_def pending_def)
    moreover have "decoder_inv ?d" using inv False by (simp add: decoder_inv_def pending_def)
    ultimately have "refines_spec ?d (try_decode d)" using remaining_length_refines [of ?d] by simp
    then show ?thesis by (rule refines_phase) (simp add: size_checked_def FixedHeader)
  qed
next
  case RemainingLength
  then show ?thesis by (rule remaining_length_refines [OF inv])
next
  case (PayloadPhase r n)
  then show ?thesis using payload_refines [OF inv PayloadPhase] by (simp add: try_decode_payload)
qed

lemma decode_refines:
  assumes "decoder_inv d" "decoder_decode d = (res, d')"
  shows "decoder_inv d'" "same_config d d'"
    "(res, pending d', size_checked d') =
     spec_decode (dec_version d) (max_packet_size (dec_limits d)) (pending d, size_checked d)"
  using try_decode_refines [OF assms(1)] assms(2)
  by (cases "try_decode d"; cases "fst (try_decode d)";
      auto simp: refines_spec_def decoder_decode_def split: if_splits)+

end
