(* ===== verification/DecoderRun.thy ===== *)
theory DecoderRun
  imports Decoder
begin

unbundle bit_operations_syntax

text \<open>
  How a client uses the decoder of theory \<open>Decoder\<close>: it feeds what a read from the transport gave it
  and then calls \<^verbatim>\<open>decode\<close> until that returns nothing. The relations \<open>drains\<close> and \<open>streams\<close> are that
  loop; the lemmas show that it ends, that the memory stays bounded and that the packets do not depend on
  where the transport cuts the stream.
\<close>

section \<open>The loop of a client\<close>

type_synonym delivery = "(versioned_incoming option, decode_error) result"

text \<open>Call \<^verbatim>\<open>decode\<close> until it returns \<^verbatim>\<open>Ok(None)\<close>, collecting the packets and the errors.\<close>

inductive drains :: "decoder_state \<Rightarrow> delivery list \<Rightarrow> decoder_state \<Rightarrow> bool" where
  drains_done: "decoder_decode d = (Ok None, d') \<Longrightarrow> drains d [] d'"
| drains_more: "decoder_decode d = (r, d1) \<Longrightarrow> r \<noteq> Ok None \<Longrightarrow> drains d1 rs d' \<Longrightarrow> drains d (r # rs) d'"

text \<open>Feed the chunks one after the other, draining the decoder after each.\<close>

inductive streams :: "decoder_state \<Rightarrow> bytes list \<Rightarrow> delivery list \<Rightarrow> decoder_state \<Rightarrow> bool" where
  streams_done: "streams d [] [] d"
| streams_chunk: "decoder_feed c d = (Ok (), d1) \<Longrightarrow> drains d1 rs d2 \<Longrightarrow> streams d2 cs rs' d' \<Longrightarrow>
    streams d (c # cs) (rs @ rs') d'"

text \<open>The states of a decoder that is only fed and drained.\<close>

inductive decoder_reach :: "mqtt_version \<Rightarrow> limits \<Rightarrow> decoder_state \<Rightarrow> bool" for version limits where
  reach_new: "decoder_reach version limits (decoder_with_limits (decoder_new version) limits)"
| reach_feed: "decoder_reach version limits d \<Longrightarrow> decoder_feed data d = (r, d') \<Longrightarrow>
    decoder_reach version limits d'"
| reach_decode: "decoder_reach version limits d \<Longrightarrow> decoder_decode d = (r, d') \<Longrightarrow>
    decoder_reach version limits d'"

lemma phase_ok_append: "phase_ok ph s \<Longrightarrow> phase_ok ph (s @ t)"
proof (cases ph)
  case (PayloadPhase r n)
  assume "phase_ok ph s"
  then obtain v where v: "vbi_decode (tl s) = Ok (v, r)" "n = unat v" by (auto simp: PayloadPhase)
  then have "s \<noteq> []" by auto
  with v vbi_decode_append [of "tl s" t] show ?thesis by (simp add: PayloadPhase)
qed auto

section \<open>Feeding\<close>

text \<open>A limit that leaves room for the overhead twice in the largest vector.\<close>

definition limit_ok :: "nat \<Rightarrow> bool" where
  "limit_ok limit \<longleftrightarrow> 2 * (limit + MAX_PACKET_OVERHEAD) \<le> vec_max"

lemma limit_ok_simps: "limit_ok limit \<longleftrightarrow> 2 * (limit + 5) \<le> 9223372036854775807"
  by (simp add: limit_ok_def MAX_PACKET_OVERHEAD_def vec_max_def)

lemma feed_exact:
  assumes inv: "decoder_inv d" and lim: "limit_ok (max_packet_size (dec_limits d))"
    and small: "length (pending d) + length data \<le> max_packet_size (dec_limits d) + 5"
  shows "\<exists>d'. decoder_feed data d = (Ok (), d') \<and> decoder_inv d' \<and> same_config d d' \<and>
    pending d' = pending d @ data \<and> size_checked d' = size_checked d \<and> dec_phase d' = dec_phase d"
proof -
  let ?m = "max_packet_size (dec_limits d)"
  have len: "length (pending d) = length (dec_buf d) - dec_offset d" by (simp add: pending_def)
  have off: "2 * dec_offset d \<le> length (dec_buf d)" "phase_ok (dec_phase d) (pending d)"
    using inv by (simp_all add: decoder_inv_def)
  have "usize_checked_add (length (dec_buf d) - dec_offset d) (length data) = Some (length (pending d) + length data)"
    "usize_saturating_add ?m MAX_PACKET_OVERHEAD = ?m + 5" "length (dec_buf d) + length data \<le> vec_max"
    using small lim off(1) len
    by (simp_all add: usize_checked_add_def usize_saturating_add_def usize_max_def limit_ok_simps
        MAX_PACKET_OVERHEAD_def vec_max_def)
  then have "decoder_feed data d = (Ok (), d\<lparr>dec_buf := dec_buf d @ data\<rparr>)"
    using small by (simp add: decoder_feed_def extend_from_slice_def)
  moreover have "pending (d\<lparr>dec_buf := dec_buf d @ data\<rparr>) = pending d @ data"
    using off(1) by (simp add: pending_def)
  ultimately show ?thesis
    using off phase_ok_append [OF off(2), of data] \<open>length (dec_buf d) + length data \<le> vec_max\<close>
    by (simp add: decoder_inv_def same_config_def size_checked_def)
qed

lemma feed_rejects:
  assumes "limit_ok (max_packet_size (dec_limits d))"
    "max_packet_size (dec_limits d) + 5 < length (pending d) + length data"
  shows "\<exists>e. decoder_feed data d = (Err e, d)"
proof -
  have "usize_saturating_add (max_packet_size (dec_limits d)) MAX_PACKET_OVERHEAD =
      max_packet_size (dec_limits d) + 5"
    using assms(1) by (simp add: usize_saturating_add_def usize_max_def limit_ok_simps MAX_PACKET_OVERHEAD_def)
  then show ?thesis
    using assms(2) by (auto simp: decoder_feed_def usize_checked_add_def pending_def Let_def)
qed

lemma decoder_inv_new:
  "decoder_inv (decoder_with_limits (decoder_new version) limits)"
  "pending (decoder_with_limits (decoder_new version) limits) = []"
  by (simp_all add: decoder_inv_def decoder_with_limits_def decoder_new_def pending_def vec_max_def)

section \<open>Memory\<close>

lemma spec_decode_shrinks:
  "spec_decode v m (s, c) = (r, s', c') \<Longrightarrow> length s' \<le> length s"
  by (auto simp: spec_decode_def split: result.splits if_splits)

lemma decoder_reach_inv:
  assumes "decoder_reach version limits d" "limit_ok (max_packet_size limits)"
  shows "decoder_inv d \<and> dec_limits d = limits \<and> dec_version d = version \<and>
    length (pending d) \<le> max_packet_size limits + 5"
  using assms(1)
proof induction
  case reach_new
  then show ?case using decoder_inv_new by (simp add: decoder_with_limits_def decoder_new_def)
next
  case (reach_feed d data r d')
  show ?case
  proof (cases "length (pending d) + length data \<le> max_packet_size limits + 5")
    case True
    then show ?thesis
      using feed_exact [of d data] reach_feed assms(2) by (auto simp: same_config_def)
  next
    case False
    then show ?thesis using feed_rejects [of d data] reach_feed assms(2) by auto
  qed
next
  case (reach_decode d r d')
  note ref = decode_refines [OF _ reach_decode(2)]
  from ref(3) reach_decode spec_decode_shrinks have "length (pending d') \<le> length (pending d)"
    by metis
  with ref reach_decode show ?case by (auto simp: same_config_def)
qed

section \<open>The loop ends\<close>

lemma deliver_simps [simp]:
  "map_result Some id (decode_packet v s) \<noteq> Panic" "map_result Some id (decode_packet v s) \<noteq> Ok None"
  using decode_packet_simps [of v s] by (cases "decode_packet v s"; simp)+

lemma spec_decode_progress:
  assumes "spec_decode v m (s, c) = (r, s', c')" "r \<noteq> Ok None"
  shows "length s' + 2 \<le> length s" "r \<noteq> Panic"
proof -
  have fl: "frame_len s = Ok n \<Longrightarrow> 2 \<le> n \<and> 2 \<le> length s" for n using frame_len_bounds by blast
  have "2 \<le> length s" if "frame_len s = Err e" "e \<noteq> InsufficientData" for e
  proof (cases "tl s")
    case Nil
    with that show ?thesis by (auto simp: frame_len_def)
  next
    case (Cons b t)
    then show ?thesis by (cases s) auto
  qed
  with fl assms show "length s' + 2 \<le> length s"
    by (auto simp: spec_decode_def split: result.splits if_splits)
  show "r \<noteq> Panic"
    using assms by (auto simp: spec_decode_def split: result.splits if_splits)
qed

lemma drains_inv: "drains d rs d' \<Longrightarrow> decoder_inv d \<Longrightarrow> decoder_inv d' \<and> same_config d d'"
proof (induction rule: drains.induct)
  case (drains_done d d')
  then show ?case using decode_refines by blast
next
  case (drains_more d r d1 rs d')
  then show ?case using decode_refines [of d r d1] by (auto simp: same_config_def)
qed

lemma drains_unique: "drains d rs d' \<Longrightarrow> drains d rs' d'' \<Longrightarrow> rs' = rs \<and> d'' = d'"
proof (induction arbitrary: rs' rule: drains.induct)
  case (drains_done d d')
  from drains_done(2,1) show ?case by (auto elim: drains.cases)
next
  case (drains_more d r d1 rs d')
  from drains_more(5,1-4) show ?case by (auto elim: drains.cases)
qed

lemma drains_exists:
  assumes "decoder_inv d"
  shows "\<exists>rs d'. drains d rs d' \<and> 2 * length rs + length (pending d') \<le> length (pending d) \<and> Panic \<notin> set rs"
  using assms
proof (induction "length (pending d)" arbitrary: d rule: less_induct)
  case less
  obtain r d1 where dec: "decoder_decode d = (r, d1)" by fastforce
  note ref = decode_refines [OF less.prems dec]
  show ?case
  proof (cases "r = Ok None")
    case True
    then have "drains d [] d1" using dec drains_done by blast
    moreover have "length (pending d1) \<le> length (pending d)" using ref(3) spec_decode_shrinks by metis
    ultimately show ?thesis by (intro exI [of _ "[]"] exI [of _ d1]) simp
  next
    case False
    from spec_decode_progress [OF ref(3) [symmetric] False]
    have p: "length (pending d1) + 2 \<le> length (pending d)" "r \<noteq> Panic" .
    then have "length (pending d1) < length (pending d)" by simp
    from less.hyps [OF this ref(1)] obtain rs d' where
      "drains d1 rs d'" "2 * length rs + length (pending d') \<le> length (pending d1)" "Panic \<notin> set rs" by blast
    then show ?thesis
      using drains_more [OF dec False] p by (intro exI [of _ "r # rs"] exI [of _ d']) auto
  qed
qed

section \<open>A stream of frames\<close>

type_synonym frame = "u8 \<times> bytes"

definition frames_wire :: "frame list \<Rightarrow> bytes" where
  "frames_wire fs = concat (map (\<lambda>(b, body). frame_wire b body) fs)"

lemma frames_wire_simps [simp]:
  "frames_wire [] = []" "frames_wire ((b, body) # fs) = frame_wire b body @ frames_wire fs"
  by (simp_all add: frames_wire_def)

definition frames_fit :: "nat \<Rightarrow> frame list \<Rightarrow> bool" where
  "frames_fit limit fs \<longleftrightarrow>
     (\<forall>(b, body) \<in> set fs. length body \<le> max_remaining \<and> length (frame_wire b body) \<le> limit)"

text \<open>What the client gets for a frame: the packet in it or the reason it is rejected.\<close>

definition delivered :: "mqtt_version \<Rightarrow> frame \<Rightarrow> delivery" where
  "delivered version = (\<lambda>(b, body). map_result Some id (decode_packet version (frame_wire b body)))"

text \<open>The pending bytes are a proper part of the next frame.\<close>

definition incomplete :: "bytes \<Rightarrow> frame list \<Rightarrow> bool" where
  "incomplete s fs \<longleftrightarrow> (case fs of [] \<Rightarrow> s = [] | (b, body) # _ \<Rightarrow> length s < length (frame_wire b body))"

lemma spec_decode_frame:
  assumes s: "s @ t = frames_wire fs" and fit: "frames_fit limit fs"
  shows "incomplete s fs \<Longrightarrow> \<exists>c'. spec_decode version limit (s, c) = (Ok None, s, c')"
    "\<not> incomplete s fs \<Longrightarrow> \<exists>f fs' s'. fs = f # fs' \<and> s' @ t = frames_wire fs' \<and>
       spec_decode version limit (s, c) = (delivered version f, s', False)"
proof -
  have nil: "frame_len [] = Err InsufficientData" by (simp add: frame_len_def)
  show "\<exists>c'. spec_decode version limit (s, c) = (Ok None, s, c')" if i: "incomplete s fs"
  proof (cases fs)
    case Nil
    with i show ?thesis by (simp add: incomplete_def spec_decode_def nil)
  next
    case (Cons f fs')
    obtain b body where f: "f = (b, body)" by fastforce
    with Cons fit have fit': "length body \<le> max_remaining" "length (frame_wire b body) \<le> limit"
      by (auto simp: frames_fit_def)
    from frame_len_prefix [OF s [unfolded Cons f frames_wire_simps] fit'(1)] fit'(2) i
    show ?thesis by (auto simp: spec_decode_def incomplete_def Cons f)
  qed
  show "\<exists>f fs' s'. fs = f # fs' \<and> s' @ t = frames_wire fs' \<and>
      spec_decode version limit (s, c) = (delivered version f, s', False)" if i: "\<not> incomplete s fs"
  proof (cases fs)
    case Nil
    with i s show ?thesis by (simp add: incomplete_def)
  next
    case (Cons f fs')
    obtain b body where f: "f = (b, body)" by fastforce
    with Cons fit have fit': "length body \<le> max_remaining" "length (frame_wire b body) \<le> limit"
      by (auto simp: frames_fit_def)
    from i have le: "length (frame_wire b body) \<le> length s" by (simp add: incomplete_def Cons f)
    note c = frame_len_complete [OF s [unfolded Cons f frames_wire_simps] fit'(1) le]
    show ?thesis
      using c le fit'(2) by (intro exI [of _ f] exI [of _ fs'] exI [of _ "drop (length (frame_wire b body)) s"])
        (simp add: Cons f spec_decode_def delivered_def)
  qed
qed

lemma delivered_not_None [simp]: "delivered version f \<noteq> Ok None"
  by (cases f) (simp add: delivered_def)

text \<open>Draining delivers exactly the complete frames.\<close>

lemma drains_frames:
  assumes "drains d rs d'" "decoder_inv d" "pending d @ t = frames_wire fs"
    "frames_fit (max_packet_size (dec_limits d)) fs"
  shows "\<exists>fs1 fs2. fs = fs1 @ fs2 \<and> rs = map (delivered (dec_version d)) fs1 \<and>
    pending d' @ t = frames_wire fs2 \<and> incomplete (pending d') fs2"
  using assms
proof (induction arbitrary: fs rule: drains.induct)
  case (drains_done d d')
  let ?spec = "spec_decode (dec_version d) (max_packet_size (dec_limits d)) (pending d, size_checked d)"
  note ref = decode_refines [OF drains_done(2,1)]
  note sf = spec_decode_frame [OF drains_done(3,4), of "dec_version d" "size_checked d"]
  have i: "incomplete (pending d) fs"
  proof (rule ccontr)
    assume "\<not> incomplete (pending d) fs"
    from sf(2) [OF this] ref(3) show False by (metis Pair_inject delivered_not_None)
  qed
  from sf(1) [OF i] ref(3) have "pending d' = pending d" by auto
  with i drains_done show ?case by (intro exI [of _ "[]"] exI [of _ fs]) simp
next
  case (drains_more d r d1 rs d')
  note ref = decode_refines [OF drains_more(5,1)]
  note sf = spec_decode_frame [OF drains_more(6,7), of "dec_version d" "size_checked d"]
  have "\<not> incomplete (pending d) fs" using sf(1) ref(3) drains_more(2) by auto
  from sf(2) [OF this] ref(3) obtain f fs' where f: "fs = f # fs'" "pending d1 @ t = frames_wire fs'"
    "r = delivered (dec_version d) f" by auto
  have "frames_fit (max_packet_size (dec_limits d1)) fs'" "dec_version d1 = dec_version d"
    using drains_more(7) ref(2) by (auto simp: f(1) frames_fit_def same_config_def)
  from drains_more.IH [OF ref(1) f(2) this(1)] this(2) obtain fs1 fs2 where
    "fs' = fs1 @ fs2" "rs = map (delivered (dec_version d)) fs1" "pending d' @ t = frames_wire fs2"
    "incomplete (pending d') fs2" by auto
  then show ?case using f by (intro exI [of _ "f # fs1"] exI [of _ fs2]) simp
qed

lemma streams_frames:
  assumes "streams d cs rs d'" "decoder_inv d" "limit_ok (max_packet_size (dec_limits d))"
    "pending d @ concat cs = frames_wire fs" "frames_fit (max_packet_size (dec_limits d)) fs"
    "incomplete (pending d) fs"
  shows "rs = map (delivered (dec_version d)) fs \<and> pending d' = []"
  using assms
proof (induction arbitrary: fs rule: streams.induct)
  case (streams_done d)
  then show ?case by (cases fs) (auto simp: incomplete_def)
next
  case (streams_chunk c d d1 rs d2 cs rs' d')
  have small: "length (pending d) + length c \<le> max_packet_size (dec_limits d) + 5"
    using feed_rejects [OF streams_chunk.prems(2), of c] streams_chunk.hyps(1) by fastforce
  from feed_exact [OF streams_chunk.prems(1,2) small] streams_chunk.hyps(1)
  have d1: "decoder_inv d1" "same_config d d1" "pending d1 = pending d @ c" by auto
  have "pending d1 @ concat cs = frames_wire fs" using d1(3) streams_chunk.prems(3) by simp
  from drains_frames [OF streams_chunk.hyps(2) d1(1) this] streams_chunk.prems(4) d1(2)
  obtain fs1 fs2 where f: "fs = fs1 @ fs2" "rs = map (delivered (dec_version d)) fs1"
    "pending d2 @ concat cs = frames_wire fs2" "incomplete (pending d2) fs2" by (auto simp: same_config_def)
  have d2: "decoder_inv d2" "same_config d d2"
    using drains_inv [OF streams_chunk.hyps(2) d1(1)] d1(2) by (auto simp: same_config_def)
  have "frames_fit (max_packet_size (dec_limits d)) fs2" using streams_chunk.prems(4) f(1) by (auto simp: frames_fit_def)
  with streams_chunk.IH [OF d2(1) _ f(3) _ f(4)] streams_chunk.prems(2) d2(2)
  have "rs' = map (delivered (dec_version d)) fs2 \<and> pending d' = []" by (simp add: same_config_def)
  with f show ?case by simp
qed

lemma streams_exists:
  assumes "decoder_inv d" "limit_ok (max_packet_size (dec_limits d))" "\<forall>c \<in> set cs. length c \<le> 5"
    "pending d @ concat cs = frames_wire fs" "frames_fit (max_packet_size (dec_limits d)) fs"
    "incomplete (pending d) fs"
  shows "\<exists>rs d'. streams d cs rs d'"
  using assms
proof (induction cs arbitrary: d fs)
  case Nil
  show ?case using streams_done by blast
next
  case (Cons c cs)
  have "length (pending d) \<le> max_packet_size (dec_limits d)"
    using Cons.prems(5,6) by (fastforce simp: incomplete_def frames_fit_def split: list.splits)
  then have small: "length (pending d) + length c \<le> max_packet_size (dec_limits d) + 5"
    using Cons.prems(3) by fastforce
  from feed_exact [OF Cons.prems(1,2) small] obtain d1 where d1: "decoder_feed c d = (Ok (), d1)"
    "decoder_inv d1" "same_config d d1" "pending d1 = pending d @ c" by blast
  from drains_exists [OF d1(2)] obtain rs d2 where dr: "drains d1 rs d2" by blast
  have "pending d1 @ concat cs = frames_wire fs" using d1(4) Cons.prems(4) by simp
  from drains_frames [OF dr d1(2) this] Cons.prems(5) d1(3) obtain fs1 fs2 where
    f: "fs = fs1 @ fs2" "pending d2 @ concat cs = frames_wire fs2" "incomplete (pending d2) fs2"
    by (auto simp: same_config_def)
  have "frames_fit (max_packet_size (dec_limits d)) fs2" using Cons.prems(5) f(1) by (auto simp: frames_fit_def)
  moreover have "decoder_inv d2" "same_config d d2"
    using drains_inv [OF dr d1(2)] d1(3) by (auto simp: same_config_def)
  ultimately obtain rs' d' where "streams d2 cs rs' d'"
    using Cons.IH [of d2 fs2] Cons.prems(2,3) f by (auto simp: same_config_def)
  with streams_chunk [OF d1(1) dr] show ?case by blast
qed

lemma fresh_incomplete: "pending d = [] \<Longrightarrow> incomplete (pending d) fs"
  by (cases fs) (auto simp: incomplete_def frame_wire_def)

section \<open>Properties of the decoder\<close>

text \<open>
  C10: \<^verbatim>\<open>decode\<close> of the streaming decoder implements its specification over the pending bytes: nothing
  until the first frame is complete, then the packet of exactly that frame (or the error in it), the
  bytes behind it kept; a length that is not a variable byte integer or a frame over the limit clears
  what is pending; and the invariant of the vector, the offset and the phase is preserved.
\<close>

theorem decoder_refines:
  assumes "decoder_inv d"
  shows "case decoder_decode d of (res, d') \<Rightarrow>
    decoder_inv d' \<and> dec_version d' = dec_version d \<and> dec_limits d' = dec_limits d \<and>
    (res, pending d', size_checked d') =
      spec_decode (dec_version d) (max_packet_size (dec_limits d)) (pending d, size_checked d)"
  using decode_refines [OF assms] by (cases "decoder_decode d") (simp add: same_config_def)

theorem decoder_refines_witness:
  "fst (decoder_decode (decoder_new V311\<lparr>dec_buf := [0xD0, 0, 0xD0]\<rparr>)) =
     Ok (Some (VersionedV311 (In3PingResp V3PingResp)))"
proof -
  let ?d = "decoder_new V311\<lparr>dec_buf := [0xD0, 0, 0xD0]\<rparr>"
  have i: "decoder_inv ?d" and p: "pending ?d = [0xD0, 0, 0xD0]"
    by (simp_all add: decoder_inv_def decoder_new_def pending_def vec_max_def)
  have "frame_len [0xD0, 0, 0xD0] = Ok 2"
    using frame_len_wire [of "[]" "0xD0" "[0xD0]"] by (simp add: wire_eval)
  moreover have "v3_pingresp_decode [0xD0, 0] = Ok (V3PingResp, 2)"
    by (subst v3_pingresp.dec_body) (simp add: wire_eval)
  then have "decode_packet V311 [0xD0, 0] = Ok (VersionedV311 (In3PingResp V3PingResp))"
    by (simp add: decode_packet_def v3_incoming_decode_def decode_as_def)
  ultimately show ?thesis
    using decoder_refines [OF i] unfolding p
    by (cases "decoder_decode ?d")
      (simp add: spec_decode_def decoder_new_def limits_new_def size_checked_def)
qed

text \<open>
  C24: A decoder that is fed and drained in any order holds at most the limit plus the five bytes of
  a fixed header that are not consumed, in a vector of at most twice that size, whatever the peer
  sends and however rarely the client drains it; and no operation panics. The second hypothesis
  only excludes limits at which the vector itself could not be allocated.
\<close>

theorem decoder_memory_bounded:
  assumes "decoder_reach version limits d" "2 * (max_packet_size limits + 5) \<le> 2 ^ 63 - 1"
  shows "length (pending d) \<le> max_packet_size limits + 5 \<and>
    length (dec_buf d) \<le> 2 * (max_packet_size limits + 5) \<and>
    fst (decoder_feed data d) \<noteq> Panic \<and> fst (decoder_decode d) \<noteq> Panic"
proof -
  have lim: "limit_ok (max_packet_size limits)" using assms(2) by (simp add: limit_ok_simps)
  from decoder_reach_inv [OF assms(1) lim] have inv: "decoder_inv d" "dec_limits d = limits"
    "length (pending d) \<le> max_packet_size limits + 5" by simp_all
  have "2 * dec_offset d \<le> length (dec_buf d)" "length (pending d) = length (dec_buf d) - dec_offset d"
    using inv(1) by (simp_all add: decoder_inv_def pending_def)
  then have "length (dec_buf d) \<le> 2 * length (pending d)" by simp
  with inv(3) have buf: "length (dec_buf d) \<le> 2 * (max_packet_size limits + 5)" by simp
  have "fst (decoder_feed data d) \<noteq> Panic"
  proof (cases "length (pending d) + length data \<le> max_packet_size limits + 5")
    case True
    then show ?thesis using feed_exact [OF inv(1)] inv(2) lim by fastforce
  next
    case False
    then show ?thesis using feed_rejects [of d data] inv(2) lim by auto
  qed
  moreover have "fst (decoder_decode d) \<noteq> Panic"
  proof
    assume "fst (decoder_decode d) = Panic"
    then obtain d' where "decoder_decode d = (Panic, d')" by (cases "decoder_decode d") simp
    from decode_refines(3) [OF inv(1) this] spec_decode_progress(2) show False
      by (metis result.distinct(3))
  qed
  ultimately show ?thesis using inv(3) buf by blast
qed

theorem decoder_memory_bounded_witness:
  "let d = snd (decoder_feed [0xD0] (decoder_with_limits (decoder_new V5) (with_max_packet_size limits_new 10)))
   in length (dec_buf d) \<le> 30"
proof -
  let ?l = "with_max_packet_size limits_new 10"
  obtain r d where d: "decoder_feed [0xD0] (decoder_with_limits (decoder_new V5) ?l) = (r, d)" by fastforce
  have "decoder_reach V5 ?l d" by (rule reach_feed [OF reach_new d])
  from decoder_memory_bounded [OF this, of "[]"] show ?thesis
    unfolding Let_def d snd_conv by (simp add: with_max_packet_size_def)
qed

text \<open>
  C25: The loop of a client that calls \<^verbatim>\<open>decode\<close> until it returns nothing ends, for arbitrary pending
  bytes: every packet and every error costs at least two of them, so it returns at most half as many
  results as there are bytes, none of them a panic, and always the same ones.
\<close>

theorem decoder_drains:
  assumes "decoder_inv d"
  shows "\<exists>rs d'. drains d rs d' \<and> 2 * length rs + length (pending d') \<le> length (pending d) \<and>
    Panic \<notin> set rs \<and> (\<forall>rs' d''. drains d rs' d'' \<longrightarrow> rs' = rs \<and> d'' = d')"
  using drains_exists [OF assms] drains_unique by blast

theorem decoder_drains_witness:
  "\<exists>rs d'. drains (decoder_new V5\<lparr>dec_buf := [0xD0, 0, 0xD0, 0]\<rparr>) rs d' \<and> length rs \<le> 2"
proof -
  let ?d = "decoder_new V5\<lparr>dec_buf := [0xD0, 0, 0xD0, 0]\<rparr>"
  have "decoder_inv ?d" by (simp add: decoder_inv_def decoder_new_def vec_max_def)
  from decoder_drains [OF this] obtain rs d' where r: "drains ?d rs d'"
    "2 * length rs + length (pending d') \<le> length (pending ?d)" by blast
  have "length (pending ?d) = 4" by (simp add: pending_def decoder_new_def)
  with r(2) have "length rs \<le> 2" by simp
  with r(1) show ?thesis by blast
qed

text \<open>
  C9: It does not matter where the transport cuts the stream: however the bytes of a sequence of
  frames are split into the chunks that are fed, the client receives exactly the verdict on each
  frame, in order and once (its packet, or the error if the frame is malformed or of a type a client
  does not receive), nothing else, and no byte is left over.
\<close>

theorem decoder_chunk_independent:
  assumes "decoder_inv d" "pending d = []" "2 * (max_packet_size (dec_limits d) + 5) \<le> 2 ^ 63 - 1"
    and "concat cs = frames_wire fs" "frames_fit (max_packet_size (dec_limits d)) fs"
    and "streams d cs rs d'"
  shows "rs = map (delivered (dec_version d)) fs \<and> pending d' = []"
  using streams_frames [OF assms(6,1) _ _ assms(5) fresh_incomplete [OF assms(2)]] assms(2-4)
  by (simp add: limit_ok_simps)

lemma pingresp_frames:
  "frames_wire [(0xD0, []), (0xD0, [])] = [0xD0, 0, 0xD0, 0]" "frames_fit 268435456 [(0xD0, []), (0xD0, [])]"
  by (simp_all add: frames_fit_def wire_eval)

theorem decoder_chunk_independent_witness:
  "\<exists>rs d'. streams (decoder_new V311) [[0xD0], [0, 0xD0, 0]] rs d' \<and> length rs = 2 \<and> pending d' = []"
proof -
  let ?d = "decoder_new V311" and ?fs = "[(0xD0, []), (0xD0, [])] :: frame list"
  have d: "decoder_inv ?d" "pending ?d = []" "max_packet_size (dec_limits ?d) = 268435456"
    by (simp_all add: decoder_inv_def decoder_new_def pending_def vec_max_def limits_new_def)
  have w: "concat [[0xD0], [0, 0xD0, 0]] = frames_wire ?fs" by (simp only: pingresp_frames) simp
  have fit: "frames_fit (max_packet_size (dec_limits ?d)) ?fs" by (simp only: d pingresp_frames)
  obtain rs d' where s: "streams ?d [[0xD0], [0, 0xD0, 0]] rs d'"
    using streams_exists [OF d(1) _ _ _ fit fresh_incomplete [OF d(2)], of "[[0xD0], [0, 0xD0, 0]]"] w d
    by (auto simp: limit_ok_simps)
  from decoder_chunk_independent [OF d(1,2) _ w fit s] d(3) have "length rs = 2" "pending d' = []"
    by simp_all
  with s show ?thesis by blast
qed

text \<open>
  Every frame is eventually delivered: a decoder that is fed the bytes of any sequence of frames
  within its limit in chunks of up to five bytes, and drained after each, never rejects a chunk for
  its size and returns the verdict on every frame.
\<close>

theorem decoder_delivers:
  assumes "decoder_inv d" "pending d = []" "2 * (max_packet_size (dec_limits d) + 5) \<le> 2 ^ 63 - 1"
    and "concat cs = frames_wire fs" "frames_fit (max_packet_size (dec_limits d)) fs"
    and "\<forall>c \<in> set cs. length c \<le> 5"
  shows "\<exists>d'. streams d cs (map (delivered (dec_version d)) fs) d'"
proof -
  have l: "limit_ok (max_packet_size (dec_limits d))" using assms(3) by (simp add: limit_ok_simps)
  have p: "pending d @ concat cs = frames_wire fs" using assms(2,4) by simp
  from streams_exists [OF assms(1) l assms(6) p assms(5) fresh_incomplete [OF assms(2)]]
  obtain rs d' where "streams d cs rs d'" by blast
  with streams_frames [OF this assms(1) l p assms(5) fresh_incomplete [OF assms(2)]] show ?thesis by auto
qed

theorem decoder_delivers_witness:
  "\<exists>d'. streams (decoder_new V311) [[0xD0], [0], [0xD0], [0]]
     (map (delivered V311) [(0xD0, []), (0xD0, [])]) d'"
proof -
  let ?d = "decoder_new V311" and ?fs = "[(0xD0, []), (0xD0, [])] :: frame list"
  have d: "decoder_inv ?d" "pending ?d = []" "max_packet_size (dec_limits ?d) = 268435456" "dec_version ?d = V311"
    by (simp_all add: decoder_inv_def decoder_new_def pending_def vec_max_def limits_new_def)
  have w: "concat [[0xD0], [0], [0xD0], [0]] = frames_wire ?fs" by (simp only: pingresp_frames) simp
  have fit: "frames_fit (max_packet_size (dec_limits ?d)) ?fs" by (simp only: d pingresp_frames)
  from decoder_delivers [OF d(1,2) _ w fit] d(3,4) show ?thesis by simp
qed

section \<open>Changing the limit\<close>

text \<open>
  C27: \<^verbatim>\<open>set_limits\<close> keeps the pending bytes and the phase. If the limit is lowered while a frame that the old
  limit admitted is incomplete, and as many bytes of it are pending as the new limit and the overhead
  allow, then the decoder is stuck: every further byte is refused, and \<^verbatim>\<open>decode\<close>, which the
  documentation of \<^verbatim>\<open>feed\<close> says to call in that case, returns nothing and keeps the bytes.
\<close>

theorem lowered_limit_wedges:
  assumes "decoder_inv d" "frame_len (pending d) = Ok n" "length (pending d) < n" "size_checked d"
    and "max_packet_size limits + 5 \<le> length (pending d)" "data \<noteq> []"
  shows "let d' = decoder_set_limits limits d in (\<exists>e. decoder_feed data d' = (Err e, d')) \<and>
    (\<exists>d''. decoder_decode d' = (Ok None, d'') \<and> pending d'' = pending d \<and> dec_limits d'' = limits \<and> size_checked d'')"
proof -
  define d' where "d' = decoder_set_limits limits d"
  have eqs: "dec_limits d' = limits" "dec_buf d' = dec_buf d" "dec_offset d' = dec_offset d"
    "dec_phase d' = dec_phase d" by (simp_all add: d'_def decoder_set_limits_def)
  then have same: "pending d' = pending d" "size_checked d' = size_checked d" "decoder_inv d'"
    using assms(1) by (simp_all add: pending_def size_checked_def decoder_inv_def)
  have "2 * (max_packet_size limits + 5) \<le> 2 * length (dec_buf d)" "length (dec_buf d) \<le> vec_max"
    "length (pending d) = length (dec_buf d) - dec_offset d"
    using assms(1,5) by (simp_all add: pending_def decoder_inv_def)
  then have "usize_saturating_add (max_packet_size limits) MAX_PACKET_OVERHEAD = max_packet_size limits + 5"
    by (simp add: usize_saturating_add_def usize_max_def MAX_PACKET_OVERHEAD_def vec_max_def)
  then have "\<exists>e. decoder_feed data d' = (Err e, d')"
    using assms(5,6) eqs
    by (cases data) (auto simp: decoder_feed_def usize_checked_add_def pending_def Let_def)
  moreover obtain r d'' where dec: "decoder_decode d' = (r, d'')" by fastforce
  from decode_refines [OF same(3) dec] have "r = Ok None \<and> pending d'' = pending d \<and>
      dec_limits d'' = limits \<and> size_checked d''"
    using assms(2-4) same eqs(1) by (simp add: spec_decode_def same_config_def)
  ultimately show ?thesis using dec unfolding Let_def d'_def [symmetric] by blast
qed

theorem lowered_limit_wedges_witness:
  "let d = decoder_new V311\<lparr>dec_buf := 0x30 # 100 # replicate 18 0, dec_phase := PayloadPhase 1 100\<rparr>
   in \<exists>e. decoder_feed [7] (decoder_set_limits (with_max_packet_size limits_new 12) d) =
     (Err e, decoder_set_limits (with_max_packet_size limits_new 12) d)"
proof -
  let ?d = "decoder_new V311\<lparr>dec_buf := 0x30 # 100 # replicate 18 0, dec_phase := PayloadPhase 1 100\<rparr>"
  have v: "vbi_decode (100 # replicate 18 0) = Ok (100, 1)"
    using vbi.dec_wire [of 100 "replicate 18 0"] by (simp add: vbi_wire_def vbi_bytes.simps vbi_MAX_def)
  have p: "pending ?d = 0x30 # 100 # replicate 18 0" by (simp add: pending_def decoder_new_def)
  have ph: "dec_phase ?d = PayloadPhase 1 100" "2 * dec_offset ?d \<le> length (dec_buf ?d)"
    "length (dec_buf ?d) \<le> vec_max" by (simp_all add: decoder_new_def vec_max_def)
  then have "decoder_inv ?d" using v unfolding decoder_inv_def p ph(1) by simp
  moreover have "frame_len (pending ?d) = Ok 102" unfolding p by (simp add: frame_len_def v)
  ultimately show ?thesis
    using lowered_limit_wedges [of ?d 102 "with_max_packet_size limits_new 12" "[7]"] p ph(1)
    by (simp add: size_checked_def with_max_packet_size_def Let_def)
qed

section \<open>From one client to another\<close>

text \<open>
  The bytes of a packet as the library encodes it, and the packets of a version that a client may
  receive: strings as the Rust types have them, and nothing only a client sends.
\<close>

fun sent_as :: "versioned_incoming \<Rightarrow> (bytes, encode_error) result" where
  "sent_as (VersionedV5 q) = v5_packet_encode_to_vec (v5_incoming_packet q)"
| "sent_as (VersionedV311 q) = v3_packet_encode_to_vec (v3_incoming_packet q)"

fun receivable :: "mqtt_version \<Rightarrow> versioned_incoming \<Rightarrow> bool" where
  "receivable version (VersionedV5 q) \<longleftrightarrow>
     version = V5 \<and> v5_packet_typed (v5_incoming_packet q) \<and> v5_both_ways (v5_incoming_packet q)"
| "receivable version (VersionedV311 q) \<longleftrightarrow> version = V311 \<and> v3_packet_typed (v3_incoming_packet q)"

lemma v5_incoming_first: "v5_packet_first (v5_incoming_packet q) AND 0xF0 \<notin> {0x10, 0x80, 0xA0, 0xC0}"
  by (cases q) (simp_all add: v5_publish_first_type)

lemma v3_incoming_first: "v3_packet_first (v3_incoming_packet q) AND 0xF0 \<notin> {0x10, 0x80, 0xA0, 0xC0, 0xE0}"
  by (cases q) (simp_all add: v3_publish_first_type)

lemma sent_frame:
  assumes "receivable version q" "sent_as q = Ok w"
  shows "\<exists>b body. w = frame_wire b body \<and> length body \<le> max_remaining \<and>
    delivered version (b, body) = Ok (Some q)"
proof (cases q)
  case (VersionedV5 p)
  let ?p = "v5_incoming_packet p"
  have r: "version = V5" "v5_packet_typed ?p" "v5_both_ways ?p" "v5_packet_encode_to_vec ?p = Ok w"
    using assms by (simp_all add: VersionedV5)
  note e = v5_to_vec_sendable [OF r(2,4)]
  have "v5_packet_accepts ?p (v5_packet_bytes ?p)" using v5_both_ways_iff [OF e(1) r(2)] r(3) by simp
  then have "v5_packet_decode w = Ok (?p, length w)" using e by (subst v5_packet.dec_iff) force
  then have "v5_incoming_decode w = Ok (p, length w)"
    unfolding e(3) frame_wire_def by (intro v5_incoming_decode_packet v5_incoming_first) simp
  with e r(1) VersionedV5 show ?thesis
    by (intro exI [of _ "v5_packet_first ?p"] exI [of _ "v5_packet_bytes ?p"])
      (simp add: delivered_def decode_packet_def)
next
  case (VersionedV311 p)
  let ?p = "v3_incoming_packet p"
  have r: "version = V311" "v3_packet_typed ?p" "v3_packet_encode_to_vec ?p = Ok w"
    using assms by (simp_all add: VersionedV311)
  note e = v3_to_vec_ok [OF r(2,3)]
  have "v3_packet_decode w = Ok (?p, length w)" using e by (subst v3_packet.dec_body) force
  then have "v3_incoming_decode w = Ok (p, length w)"
    unfolding e(3) frame_wire_def by (intro v3_incoming_decode_packet v3_incoming_first) simp
  with e r(1) VersionedV311 show ?thesis
    by (intro exI [of _ "v3_packet_first ?p"] exI [of _ "v3_packet_bytes ?p"])
      (simp add: delivered_def decode_packet_def)
qed

lemma sent_frames:
  assumes "map sent_as qs = map Ok ws" "\<forall>q \<in> set qs. receivable version q" "\<forall>w \<in> set ws. length w \<le> limit"
  shows "\<exists>fs. frames_wire fs = concat ws \<and> frames_fit limit fs \<and>
    map (delivered version) fs = map (\<lambda>q. Ok (Some q)) qs"
  using assms
proof (induction qs arbitrary: ws)
  case Nil
  then show ?case by (intro exI [of _ "[]"]) (simp add: frames_fit_def)
next
  case (Cons q qs)
  then obtain w ws' where ws: "ws = w # ws'" "sent_as q = Ok w" "map sent_as qs = map Ok ws'" by auto
  from sent_frame [of version q w] Cons.prems(2) ws(2) obtain b body where
    b: "w = frame_wire b body" "length body \<le> max_remaining" "delivered version (b, body) = Ok (Some q)" by auto
  from Cons.IH [OF ws(3)] Cons.prems(2,3) ws(1) obtain fs where "frames_wire fs = concat ws'"
    "frames_fit limit fs" "map (delivered version) fs = map (\<lambda>q. Ok (Some q)) qs" by auto
  with b ws(1) Cons.prems(3) show ?case
    by (intro exI [of _ "(b, body) # fs"]) (simp add: frames_fit_def)
qed

end
