(* ===== verification/Client.thy ===== *)
theory Client
  imports Session Decoder
begin

text \<open>
  The client of \<^verbatim>\<open>examples/tokio-mqtt/src/client.rs\<close>, which joins the parts of the library: it feeds the
  decoder with what the transport delivers, hands the packets to the session, and sends the packets
  that the session's answers ask for. The transport and the clock are not part of the repository; they
  are scripts in the state of the client, of what each read gives, whether each write succeeds, and what
  the clock shows, and the theorems hold for all scripts. An operation of the client returns its verdict
  together with the state it leaves, since an error leaves everything done so far in place.
\<close>

section \<open>State\<close>

datatype client_error =
    IoFailed
  | TlsFailed rstring
  | EncodeFailed encode_error
  | DecodeFailed decode_error
  | SessionFailed session_error
  | ConnackFailed connack_error
  | ConnectRefused connect_reason_code
  | CapabilityFailed server_capability_error
  | SubackFailed handle_suback_error
  | UnsubackFailed handle_unsuback_error
  | FlowFailed flow_error
  | FlowControlFailed flow_control_error
  | PublishRejected pubrec_reason_code
  | PacketIdExhausted
  | PacketUnexpected
  | ConnectionClosed
  | KeepAliveTimeout
  | OperationTimeout

text \<open>
  What happens while the client waits: bytes arrive (none of them if the peer has closed the stream),
  the read fails, the wait ends without any of that, the deadline of the operation has passed, or the
  user interrupts.
\<close>

datatype io_event = Arrived bytes | ReadFailed | Elapsed | DeadlinePassed | CtrlC

text \<open>
  The fields of \<^verbatim>\<open>MqttClient\<close>, the three scripts in the place of the stream and the clock, and two
  logs: the byte strings written to the stream, and the messages reported to the user.
\<close>

record client =
  cl_session :: session
  cl_decoder :: decoder_state
  cl_events :: "io_event list"
  cl_writes :: "bool list"
  cl_clock :: "timestamp list"
  cl_written :: "bytes list"
  cl_messages :: "v5_publish list"

type_synonym 'a client_m = "client \<Rightarrow> ('a, client_error) result \<times> client"

section \<open>Sequencing\<close>

definition cl_return :: "'a \<Rightarrow> 'a client_m" where
  "cl_return x c = (Ok x, c)"

definition cl_throw :: "client_error \<Rightarrow> 'a client_m" where
  "cl_throw e c = (Err e, c)"

text \<open>The \<^verbatim>\<open>?\<close> operator.\<close>

definition cl_bind :: "'a client_m \<Rightarrow> ('a \<Rightarrow> 'b client_m) \<Rightarrow> 'b client_m" where
  "cl_bind m f c =
     (case m c of
        (Ok x, c') \<Rightarrow> f x c'
      | (Err e, c') \<Rightarrow> (Err e, c')
      | (Panic, c') \<Rightarrow> (Panic, c'))"

text \<open>\<^verbatim>\<open>if let Err(e) = m { cleanup; return Err(e); }\<close>\<close>

definition cl_cleanup :: "'a client_m \<Rightarrow> (session \<Rightarrow> session) \<Rightarrow> 'a client_m" where
  "cl_cleanup m f c =
     (case m c of
        (Err e, c') \<Rightarrow> (Err e, c'\<lparr>cl_session := f (cl_session c')\<rparr>)
      | r \<Rightarrow> r)"

text \<open>A fallible computation without effect, its error converted by \<^verbatim>\<open>From\<close>.\<close>

definition cl_lift :: "('e \<Rightarrow> client_error) \<Rightarrow> ('a, 'e) result \<Rightarrow> 'a client_m" where
  "cl_lift conv r c = (map_err conv r, c)"

definition on_session :: "(session \<Rightarrow> session) \<Rightarrow> unit client_m" where
  "on_session f c = (Ok (), c\<lparr>cl_session := f (cl_session c)\<rparr>)"

definition session_op :: "('e \<Rightarrow> client_error) \<Rightarrow> (session \<Rightarrow> ('a, 'e) result \<times> session) \<Rightarrow> 'a client_m" where
  "session_op conv f c =
     (case f (cl_session c) of (r, s) \<Rightarrow> (map_err conv r, c\<lparr>cl_session := s\<rparr>))"

definition get_session :: "session client_m" where
  "get_session c = (Ok (cl_session c), c)"

text \<open>
  A loop goes round again when its body returns \<open>None\<close>. Each round either consumes an event or takes a
  packet out of the decoder, which is the measure of termination; a round that does neither would be
  an endless loop and is a panic of the model. None of the loops of the client has such a round.
\<close>

definition client_work :: "client \<Rightarrow> nat \<times> nat" where
  "client_work c = (length (cl_events c), length (dec_buf (cl_decoder c)) - dec_offset (cl_decoder c))"

definition less_work :: "client \<Rightarrow> client \<Rightarrow> bool" where
  "less_work c' c \<longleftrightarrow>
     fst (client_work c') < fst (client_work c) \<or>
     fst (client_work c') = fst (client_work c) \<and> snd (client_work c') < snd (client_work c)"

function cl_loop :: "'a option client_m \<Rightarrow> 'a client_m" where
  "cl_loop body c =
     (case body c of
        (Ok (Some x), c') \<Rightarrow> (Ok x, c')
      | (Ok None, c') \<Rightarrow> if less_work c' c then cl_loop body c' else (Panic, c')
      | (Err e, c') \<Rightarrow> (Err e, c')
      | (Panic, c') \<Rightarrow> (Panic, c'))"
  by pat_completeness auto
termination
  by (relation "inv_image (less_than <*lex*> less_than) (\<lambda>(body, c). client_work c)")
    (auto simp: less_work_def client_work_def)

declare cl_loop.simps [simp del]

section \<open>Transport and clock\<close>

definition clock_now :: "timestamp client_m" where
  "clock_now c =
     (case cl_clock c of [] \<Rightarrow> (Ok 0, c) | t # ts \<Rightarrow> (Ok t, c\<lparr>cl_clock := ts\<rparr>))"

text \<open>\<^verbatim>\<open>write_all\<close> and \<^verbatim>\<open>flush\<close>; what a failed write has sent is unknown and not logged.\<close>

definition stream_write :: "bytes \<Rightarrow> unit client_m" where
  "stream_write buf c =
     (case cl_writes c of
        False # ws \<Rightarrow> (Err IoFailed, c\<lparr>cl_writes := ws\<rparr>)
      | True # ws \<Rightarrow> (Ok (), c\<lparr>cl_writes := ws, cl_written := cl_written c @ [buf]\<rparr>)
      | [] \<Rightarrow> (Ok (), c\<lparr>cl_written := cl_written c @ [buf]\<rparr>))"

text \<open>A read under a timeout: \<open>None\<close> if the wait ends first. An event that does not concern the read ends the wait.\<close>

definition stream_read :: "bytes option client_m" where
  "stream_read c =
     (case cl_events c of
        [] \<Rightarrow> (Ok None, c)
      | e # es \<Rightarrow>
          (case e of
             Arrived bs \<Rightarrow> Ok (Some bs)
           | ReadFailed \<Rightarrow> Err IoFailed
           | _ \<Rightarrow> Ok None, c\<lparr>cl_events := es\<rparr>))"

text \<open>\<^verbatim>\<open>remaining.is_zero()\<close>. Every deadline passes in the end: it has when the script is over.\<close>

definition deadline_passed :: "bool client_m" where
  "deadline_passed c =
     (case cl_events c of
        [] \<Rightarrow> (Ok True, c)
      | DeadlinePassed # es \<Rightarrow> (Ok True, c\<lparr>cl_events := es\<rparr>)
      | _ \<Rightarrow> (Ok False, c))"

definition feed_decoder :: "bytes \<Rightarrow> unit client_m" where
  "feed_decoder data c =
     (case decoder_feed data (cl_decoder c) of (r, d) \<Rightarrow>
        (map_err DecodeFailed r, c\<lparr>cl_decoder := d\<rparr>))"

text \<open>\<^verbatim>\<open>decoder.decode()?\<close> with \<^verbatim>\<open>let VersionedIncomingPacket::V5(packet) = versioned else\<close> an error.\<close>

definition next_packet :: "v5_incoming option client_m" where
  "next_packet c =
     (case decoder_decode (cl_decoder c) of (r, d) \<Rightarrow>
        (rbind (map_err DecodeFailed r) (\<lambda>versioned.
           case versioned of
             None \<Rightarrow> Ok None
           | Some (VersionedV5 packet) \<Rightarrow> Ok (Some packet)
           | Some (VersionedV311 _) \<Rightarrow> Err PacketUnexpected), c\<lparr>cl_decoder := d\<rparr>))"

definition send_packet :: "v5_outgoing \<Rightarrow> unit client_m" where
  "send_packet packet =
     cl_bind (cl_lift EncodeFailed (v5_outgoing_encode_to_vec packet)) (\<lambda>buf.
     cl_bind (stream_write buf) (\<lambda>_.
     case packet of
       Out5PingReq _ \<Rightarrow> cl_return ()
     | _ \<Rightarrow> cl_bind clock_now (\<lambda>now. on_session (session_activity now))))"

section \<open>Receiving\<close>

definition check_keep_alive :: "unit client_m" where
  "check_keep_alive =
     cl_bind clock_now (\<lambda>now.
     cl_bind get_session (\<lambda>s.
     if ka_has_timed_out (keep_alive s) now then cl_throw KeepAliveTimeout
     else if ka_should_send_pingreq (keep_alive s) now then
       cl_bind (send_packet (Out5PingReq V5PingReq)) (\<lambda>_.
       on_session (session_pingreq_sent now))
     else cl_return ()))"

text \<open>The longest wait between two checks of the timer, in milliseconds.\<close>

definition keep_alive_tick :: "u16 \<Rightarrow> u64" where
  "keep_alive_tick secs =
     (if secs = 0 then 1000 else max ((ucast secs :: u64) * 1000 div 4) 200)"

definition try_recv_ready :: "v5_incoming option client_m" where
  "try_recv_ready =
     cl_bind next_packet (\<lambda>ready.
     case ready of
       Some packet \<Rightarrow> cl_return (Some packet)
     | None \<Rightarrow>
         cl_bind stream_read (\<lambda>buf.
         case buf of
           None \<Rightarrow> cl_return None
         | Some data \<Rightarrow>
             if data = [] then cl_throw ConnectionClosed
             else cl_bind (feed_decoder data) (\<lambda>_. next_packet)))"

definition recv_while_connected :: "v5_incoming client_m" where
  "recv_while_connected =
     cl_loop
       (cl_bind check_keep_alive (\<lambda>_.
        cl_bind deadline_passed (\<lambda>over.
        if over then cl_throw OperationTimeout else try_recv_ready)))"

definition recv_packet :: "v5_incoming client_m" where
  "recv_packet =
     cl_loop
       (cl_bind next_packet (\<lambda>ready.
        case ready of
          Some packet \<Rightarrow> cl_return (Some packet)
        | None \<Rightarrow>
            cl_bind deadline_passed (\<lambda>over.
            if over then cl_throw OperationTimeout
            else
              cl_bind stream_read (\<lambda>buf.
              case buf of
                None \<Rightarrow> cl_throw OperationTimeout
              | Some data \<Rightarrow>
                  if data = [] then cl_throw ConnectionClosed
                  else cl_bind (feed_decoder data) (\<lambda>_. cl_return None)))))"

section \<open>Incoming packets\<close>

definition send_puback :: "u16 \<Rightarrow> unit client_m" where
  "send_puback packet_id =
     send_packet (Out5PubAck \<lparr>v5_puback_packet_id = packet_id, v5_puback_reason_code = PaSuccess,
       v5_puback_properties = []\<rparr>)"

definition send_pubrec :: "u16 \<Rightarrow> unit client_m" where
  "send_pubrec packet_id =
     send_packet (Out5PubRec \<lparr>v5_pubrec_packet_id = packet_id, v5_pubrec_reason_code = PrSuccess,
       v5_pubrec_properties = []\<rparr>)"

definition send_pubrel :: "u16 \<Rightarrow> unit client_m" where
  "send_pubrel packet_id =
     send_packet (Out5PubRel \<lparr>v5_pubrel_packet_id = packet_id, v5_pubrel_reason_code = PlSuccess,
       v5_pubrel_properties = []\<rparr>)"

definition send_pubcomp :: "u16 \<Rightarrow> unit client_m" where
  "send_pubcomp packet_id =
     send_packet (Out5PubComp \<lparr>v5_pubcomp_packet_id = packet_id, v5_pubcomp_reason_code = PcSuccess,
       v5_pubcomp_properties = []\<rparr>)"

text \<open>\<^verbatim>\<open>info!("message received")\<close>, the delivery of a message to the user.\<close>

definition report_message :: "v5_publish \<Rightarrow> unit client_m" where
  "report_message p c = (Ok (), c\<lparr>cl_messages := cl_messages c @ [p]\<rparr>)"

fun is_duplicate_pubrec :: "action \<Rightarrow> bool" where
  "is_duplicate_pubrec (SendPubrec _ is_duplicate) = is_duplicate"
| "is_duplicate_pubrec _ = False"

definition handle_incoming_publish :: "v5_publish \<Rightarrow> unit client_m" where
  "handle_incoming_publish publish =
     (case v5p_qos publish of
        AtMostOnce \<Rightarrow> report_message publish
      | AtLeastOnce \<Rightarrow>
          cl_bind (cl_lift id (ok_or PacketUnexpected (v5p_packet_id publish))) (\<lambda>packet_id.
          cl_bind (session_op FlowControlFailed (handle_publish_qos1 packet_id)) (\<lambda>_.
          cl_bind (send_puback packet_id) (\<lambda>_.
          cl_bind (on_session (session_puback_sent packet_id)) (\<lambda>_.
          report_message publish))))
      | ExactlyOnce \<Rightarrow>
          cl_bind (cl_lift id (ok_or PacketUnexpected (v5p_packet_id publish))) (\<lambda>packet_id.
          cl_bind (session_op FlowControlFailed (handle_publish_qos2 packet_id)) (\<lambda>act.
          cl_bind (send_pubrec packet_id) (\<lambda>_.
          cl_bind (on_session (session_pubrec_sent (pubrec_reason_as_u8 PrSuccess))) (\<lambda>_.
          if is_duplicate_pubrec act then cl_return () else report_message publish)))))"

text \<open>Handles a packet; the result tells whether the connection is over.\<close>

definition handle_incoming :: "v5_incoming \<Rightarrow> bool client_m" where
  "handle_incoming packet =
     (case packet of
        In5Publish publish \<Rightarrow> cl_bind (handle_incoming_publish publish) (\<lambda>_. cl_return False)
      | In5PingResp _ \<Rightarrow> cl_bind (on_session session_pingresp_received) (\<lambda>_. cl_return False)
      | In5PubRel pubrel \<Rightarrow>
          cl_bind (session_op FlowFailed (handle_pubrel (v5_pubrel_packet_id pubrel))) (\<lambda>act.
          case act of
            Some (SendPubcomp packet_id) \<Rightarrow>
              cl_bind (send_pubcomp packet_id) (\<lambda>_.
              cl_bind (on_session session_pubcomp_sent) (\<lambda>_. cl_return False))
          | Some (ResendPubcomp packet_id) \<Rightarrow>
              cl_bind (send_pubcomp packet_id) (\<lambda>_. cl_return False)
          | Some _ \<Rightarrow> cl_throw PacketUnexpected
          | None \<Rightarrow> cl_return False)
      | In5Disconnect _ \<Rightarrow> cl_bind (on_session disconnect_received) (\<lambda>_. cl_return True)
      | In5Auth _ \<Rightarrow> cl_throw PacketUnexpected
      | _ \<Rightarrow> cl_throw PacketUnexpected)"

section \<open>Publishing\<close>

definition await_puback :: "u16 \<Rightarrow> unit client_m" where
  "await_puback packet_id =
     cl_loop
       (cl_bind (cl_cleanup recv_while_connected (abort_publish packet_id)) (\<lambda>packet.
        let other =
          cl_bind (handle_incoming packet) (\<lambda>over.
          if over then cl_cleanup (cl_throw ConnectionClosed) (abort_publish packet_id)
          else cl_return None)
        in
        case packet of
          In5PubAck puback \<Rightarrow>
            if v5_puback_packet_id puback = packet_id then
              cl_bind (session_op FlowFailed (handle_puback packet_id)) (\<lambda>act.
              if act = None then cl_cleanup (cl_throw PacketUnexpected) (abort_publish packet_id)
              else cl_return (Some ()))
            else other
        | _ \<Rightarrow> other))"

definition await_pubcomp :: "u16 \<Rightarrow> unit client_m" where
  "await_pubcomp packet_id =
     cl_loop
       (cl_bind (cl_cleanup recv_while_connected (abort_publish packet_id)) (\<lambda>packet.
        let other =
          cl_bind (handle_incoming packet) (\<lambda>over.
          if over then cl_cleanup (cl_throw ConnectionClosed) (abort_publish packet_id)
          else cl_return None)
        in
        case packet of
          In5PubComp pubcomp \<Rightarrow>
            if v5_pubcomp_packet_id pubcomp = packet_id then
              cl_bind (session_op FlowFailed (handle_pubcomp packet_id)) (\<lambda>act.
              if act = None then cl_cleanup (cl_throw PacketUnexpected) (abort_publish packet_id)
              else cl_return (Some ()))
            else other
        | _ \<Rightarrow> other))"

fun is_send_pubrel :: "action option \<Rightarrow> bool" where
  "is_send_pubrel (Some (SendPubrel _)) = True"
| "is_send_pubrel _ = False"

definition await_qos2_completion :: "u16 \<Rightarrow> unit client_m" where
  "await_qos2_completion packet_id =
     cl_loop
       (cl_bind (cl_cleanup recv_while_connected (abort_publish packet_id)) (\<lambda>packet.
        let other =
          cl_bind (handle_incoming packet) (\<lambda>over.
          if over then cl_cleanup (cl_throw ConnectionClosed) (abort_publish packet_id)
          else cl_return None)
        in
        case packet of
          In5PubRec pubrec \<Rightarrow>
            if v5_pubrec_packet_id pubrec = packet_id then
              cl_bind (session_op FlowFailed
                (handle_pubrec packet_id (pubrec_reason_as_u8 (v5_pubrec_reason_code pubrec)))) (\<lambda>act.
              if \<not> is_send_pubrel act then
                let rejected = cl_throw (PublishRejected (v5_pubrec_reason_code pubrec))
                in if act = None then cl_cleanup rejected (abort_publish packet_id) else rejected
              else
                cl_bind (cl_cleanup (send_pubrel packet_id) (abort_publish packet_id)) (\<lambda>_.
                cl_bind (await_pubcomp packet_id) (\<lambda>_.
                cl_return (Some ()))))
            else other
        | _ \<Rightarrow> other))"

text \<open>The number of bytes of the remaining length.\<close>

definition encoded_remaining_length_size :: "nat \<Rightarrow> nat" where
  "encoded_remaining_length_size remaining_length =
     (if remaining_length \<le> 127 then 1
      else if remaining_length \<le> 16383 then 2
      else if remaining_length \<le> 2097151 then 3
      else 4)"

text \<open>\<^verbatim>\<open>encoded_len() + 1 + encoded_remaining_length_size(encoded_len())\<close>, which wraps in a release build.\<close>

definition publish_packet_size :: "v5_outgoing \<Rightarrow> nat" where
  "publish_packet_size p =
     (v5_outgoing_encoded_len p + 1 + encoded_remaining_length_size (v5_outgoing_encoded_len p)) mod 2 ^ 64"

text \<open>The identifier of the PUBLISH, with the send quota taken, if its quality of service has one.\<close>

definition reserve_packet_id :: "qos \<Rightarrow> u16 option client_m" where
  "reserve_packet_id q =
     (if q = AtMostOnce then cl_return None
      else
        cl_bind (session_op id (\<lambda>s. apfst (ok_or PacketIdExhausted) (allocate_packet_id s))) (\<lambda>i.
        cl_bind (cl_cleanup (session_op FlowControlFailed (session_publish_sent q i)) (release_packet_id i)) (\<lambda>_.
        cl_return (Some i))))"

definition abort_reserved :: "u16 option \<Rightarrow> session \<Rightarrow> session" where
  "abort_reserved packet_id s = (case packet_id of None \<Rightarrow> s | Some i \<Rightarrow> abort_publish i s)"

definition client_publish :: "rstring \<Rightarrow> bytes \<Rightarrow> qos \<Rightarrow> bool \<Rightarrow> unit client_m" where
  "client_publish topic payload q retain =
     cl_bind (reserve_packet_id q) (\<lambda>packet_id.
     let publish = Out5Publish \<lparr>v5p_dup = False, v5p_qos = q, v5p_retain = retain, v5p_topic = topic,
           v5p_packet_id = packet_id, v5p_properties = [], v5p_payload = payload\<rparr>
     in
     cl_bind (cl_cleanup
       (session_op CapabilityFailed (\<lambda>s. (validate_outgoing_publish q retain (publish_packet_size publish) s, s)))
       (abort_reserved packet_id)) (\<lambda>_.
     cl_bind (cl_cleanup (send_packet publish) (abort_reserved packet_id)) (\<lambda>_.
     case q of
       AtMostOnce \<Rightarrow> cl_return ()
     | AtLeastOnce \<Rightarrow> cl_bind (cl_lift id (expect packet_id)) await_puback
     | ExactlyOnce \<Rightarrow> cl_bind (cl_lift id (expect packet_id)) await_qos2_completion)))"

section \<open>Subscribing\<close>

fun is_granted :: "suback_reason \<Rightarrow> bool" where
  "is_granted SaGrantedQoS0 = True"
| "is_granted SaGrantedQoS1 = True"
| "is_granted SaGrantedQoS2 = True"
| "is_granted _ = False"

definition client_subscribe :: "rstring \<Rightarrow> qos \<Rightarrow> unit client_m" where
  "client_subscribe topic q =
     cl_bind (session_op id (\<lambda>s. apfst (ok_or PacketIdExhausted) (allocate_packet_id s))) (\<lambda>packet_id.
     let subscription = \<lparr>v5s_topic_filter = topic, v5s_qos = q, v5s_no_local = False,
           v5s_retain_as_published = False, v5s_retain_handling = SendRetained\<rparr>;
         entries = [subscription_entry_from subscription]
     in
     cl_bind (session_op CapabilityFailed (\<lambda>s. (validate_outgoing_subscribe entries s, s))) (\<lambda>_.
     cl_bind (on_session (session_subscribe_sent packet_id entries)) (\<lambda>_.
     cl_bind (cl_cleanup
       (send_packet (Out5Subscribe \<lparr>v5sp_packet_id = packet_id, v5sp_subscriptions = [subscription],
          v5sp_properties = []\<rparr>)) (abort_subscribe packet_id)) (\<lambda>_.
     cl_bind (cl_cleanup recv_while_connected (abort_subscribe packet_id)) (\<lambda>packet.
     let unexpected = cl_cleanup (cl_throw PacketUnexpected) (abort_subscribe packet_id)
     in
     case packet of
       In5SubAck suback \<Rightarrow>
         if v5sa_packet_id suback = packet_id then
           (case v5sa_reason_codes suback of
              [code] \<Rightarrow>
                if is_granted code then
                  cl_bind (session_op SubackFailed (handle_suback packet_id [suback_reason_as_u8 code])) (\<lambda>_.
                  cl_return ())
                else unexpected
            | _ \<Rightarrow> unexpected)
         else unexpected
     | _ \<Rightarrow> unexpected)))))"

definition client_unsubscribe :: "rstring \<Rightarrow> unit client_m" where
  "client_unsubscribe topic =
     cl_bind (session_op id (\<lambda>s. apfst (ok_or PacketIdExhausted) (allocate_packet_id s))) (\<lambda>packet_id.
     let topic_filters = [topic]
     in
     cl_bind (on_session (session_unsubscribe_sent packet_id topic_filters)) (\<lambda>_.
     cl_bind (cl_cleanup
       (send_packet (Out5Unsubscribe \<lparr>v5up_packet_id = packet_id, v5up_topic_filters = topic_filters,
          v5up_properties = []\<rparr>)) (abort_unsubscribe packet_id)) (\<lambda>_.
     cl_bind (cl_cleanup recv_while_connected (abort_unsubscribe packet_id)) (\<lambda>packet.
     let unexpected = cl_cleanup (cl_throw PacketUnexpected) (abort_unsubscribe packet_id)
     in
     case packet of
       In5UnsubAck unsuback \<Rightarrow>
         if v5ua_packet_id unsuback = packet_id then
           (case v5ua_reason_codes unsuback of
              [code] \<Rightarrow>
                if code = UaSuccess then
                  cl_bind (session_op UnsubackFailed (handle_unsuback packet_id [unsuback_reason_as_u8 code])) (\<lambda>_.
                  cl_return ())
                else unexpected
            | _ \<Rightarrow> unexpected)
         else unexpected
     | _ \<Rightarrow> unexpected))))"

section \<open>Receiving messages\<close>

definition recv_publish :: "v5_publish client_m" where
  "recv_publish =
     cl_loop
       (cl_bind deadline_passed (\<lambda>over.
        if over then cl_throw OperationTimeout
        else
          cl_bind recv_while_connected (\<lambda>packet.
          case packet of
            In5Publish publish \<Rightarrow>
              (case v5p_qos publish of
                 AtMostOnce \<Rightarrow> cl_return (Some publish)
               | AtLeastOnce \<Rightarrow>
                   cl_bind (cl_lift id (ok_or PacketUnexpected (v5p_packet_id publish))) (\<lambda>packet_id.
                   cl_bind (session_op FlowControlFailed (handle_publish_qos1 packet_id)) (\<lambda>_.
                   cl_bind (send_puback packet_id) (\<lambda>_.
                   cl_bind (on_session (session_puback_sent packet_id)) (\<lambda>_.
                   cl_return (Some publish)))))
               | ExactlyOnce \<Rightarrow>
                   cl_bind (cl_lift id (ok_or PacketUnexpected (v5p_packet_id publish))) (\<lambda>packet_id.
                   cl_bind (session_op FlowControlFailed (handle_publish_qos2 packet_id)) (\<lambda>act.
                   cl_bind (send_pubrec packet_id) (\<lambda>_.
                   cl_bind (on_session (session_pubrec_sent (pubrec_reason_as_u8 PrSuccess))) (\<lambda>_.
                   cl_bind deadline_passed (\<lambda>over.
                   if over then cl_throw OperationTimeout
                   else
                     cl_bind recv_while_connected (\<lambda>packet.
                     case packet of
                       In5PubRel pubrel \<Rightarrow>
                         if v5_pubrel_packet_id pubrel = packet_id then
                           cl_bind (session_op FlowFailed (handle_pubrel packet_id)) (\<lambda>released.
                           cl_bind (cl_lift id (ok_or PacketUnexpected released)) (\<lambda>_.
                           cl_bind (send_pubcomp packet_id) (\<lambda>_.
                           cl_bind (on_session session_pubcomp_sent) (\<lambda>_.
                           cl_return (if is_duplicate_pubrec act then None else Some publish)))))
                         else cl_throw PacketUnexpected
                     | _ \<Rightarrow> cl_throw PacketUnexpected)))))))
          | In5PingResp _ \<Rightarrow> cl_bind (on_session session_pingresp_received) (\<lambda>_. cl_return None)
          | other \<Rightarrow>
              cl_bind (handle_incoming other) (\<lambda>over.
              if over then cl_throw ConnectionClosed else cl_return None))))"

text \<open>Handles the packets in the decoder; the result tells whether the connection is over.\<close>

definition handle_ready :: "bool client_m" where
  "handle_ready =
     cl_loop
       (cl_bind next_packet (\<lambda>ready.
        case ready of
          None \<Rightarrow> cl_return (Some False)
        | Some packet \<Rightarrow>
            cl_bind (handle_incoming packet) (\<lambda>over.
            cl_return (if over then Some True else None))))"

text \<open>The result is \<open>None\<close> if the loop is still running when the script is over.\<close>

definition run_subscribe_loop :: "unit option client_m" where
  "run_subscribe_loop =
     cl_loop
       (cl_bind check_keep_alive (\<lambda>_ c.
        case cl_events c of
          [] \<Rightarrow> (Ok (Some None), c)
        | CtrlC # es \<Rightarrow> (Ok (Some (Some ())), c\<lparr>cl_events := es\<rparr>)
        | _ \<Rightarrow>
            cl_bind stream_read (\<lambda>buf.
            case buf of
              None \<Rightarrow> cl_return None
            | Some data \<Rightarrow>
                if data = [] then cl_throw ConnectionClosed
                else
                  cl_bind (feed_decoder data) (\<lambda>_.
                  cl_bind handle_ready (\<lambda>over.
                  cl_return (if over then Some (Some ()) else None)))) c))"

section \<open>Opening and closing the connection\<close>

text \<open>One round of the loop in \<^verbatim>\<open>connack_params_from\<close>.\<close>

fun connack_param :: "property \<Rightarrow> connack_params \<Rightarrow> connack_params" where
  "connack_param (SessionExpiryInterval v) p = p\<lparr>p_session_expiry_interval := Some v\<rparr>"
| "connack_param (ReceiveMaximum v) p = p\<lparr>p_receive_maximum := Some v\<rparr>"
| "connack_param (TopicAliasMaximum v) p = p\<lparr>p_topic_alias_maximum := Some v\<rparr>"
| "connack_param (ServerKeepAlive v) p = p\<lparr>p_server_keep_alive := Some v\<rparr>"
| "connack_param (MaximumPacketSize v) p = p\<lparr>p_maximum_packet_size := Some v\<rparr>"
| "connack_param (MaximumQoS v) p = p\<lparr>p_maximum_qos := qos_from_u8 v\<rparr>"
| "connack_param (RetainAvailable v) p = p\<lparr>p_retain_available := Some (v = 1)\<rparr>"
| "connack_param (WildcardSubscriptionAvailable v) p =
     p\<lparr>p_wildcard_subscription_available := Some (v = 1)\<rparr>"
| "connack_param (SubscriptionIdentifierAvailable v) p =
     p\<lparr>p_subscription_identifiers_available := Some (v = 1)\<rparr>"
| "connack_param (SharedSubscriptionAvailable v) p =
     p\<lparr>p_shared_subscription_available := Some (v = 1)\<rparr>"
| "connack_param (AssignedClientIdentifier v) p = p\<lparr>p_assigned_client_identifier := Some v\<rparr>"
| "connack_param (AuthenticationMethod v) p = p\<lparr>p_authentication_method := Some v\<rparr>"
| "connack_param _ p = p"

definition connack_params_from :: "v5_connack \<Rightarrow> connack_params" where
  "connack_params_from connack =
     fold connack_param (v5ca_properties connack)
       \<lparr>p_session_present = v5ca_session_present connack, p_reason_code = ReasonV5 Success,
        p_session_expiry_interval = None, p_receive_maximum = None, p_topic_alias_maximum = None,
        p_server_keep_alive = None, p_maximum_packet_size = None, p_maximum_qos = None,
        p_retain_available = None, p_wildcard_subscription_available = None,
        p_subscription_identifiers_available = None, p_shared_subscription_available = None,
        p_assigned_client_identifier = None, p_authentication_method = None\<rparr>"

text \<open>A client whose transport has just been connected, with what the transport and the clock will do.\<close>

definition client_new :: "io_event list \<Rightarrow> bool list \<Rightarrow> timestamp list \<Rightarrow> (client, client_error) result" where
  "client_new events write_results clock =
     rbind (map_err SessionFailed (session_new_v5 [] True)) (\<lambda>s.
     Ok \<lparr>cl_session = s, cl_decoder = decoder_new V5, cl_events = events, cl_writes = write_results,
         cl_clock = clock, cl_written = [], cl_messages = []\<rparr>)"

definition connect_with_options :: "rstring \<Rightarrow> u16 \<Rightarrow> bool \<Rightarrow> v5_will option \<Rightarrow> properties \<Rightarrow> unit client_m" where
  "connect_with_options ident keep_alive_secs clean will properties =
     cl_bind (cl_lift SessionFailed (session_new_v5 ident clean)) (\<lambda>s.
     cl_bind (on_session (\<lambda>_. s)) (\<lambda>_.
     cl_bind (session_op FlowControlFailed (configure_for_connect keep_alive_secs 0 0 65535 0)) (\<lambda>_.
     let connect = Out5Connect \<lparr>v5c_client_id = ident, v5c_clean_start = clean,
           v5c_keep_alive = keep_alive_secs, v5c_properties = properties, v5c_will = will,
           v5c_username = None, v5c_password = None\<rparr>
     in
     cl_bind (on_session connect_sent) (\<lambda>_.
     cl_bind (send_packet connect) (\<lambda>_.
     cl_bind recv_packet (\<lambda>packet.
     case packet of
       In5ConnAck connack \<Rightarrow>
         if v5ca_reason_code connack \<noteq> Success then cl_throw (ConnectRefused (v5ca_reason_code connack))
         else
           cl_bind (session_op ConnackFailed (apply_connack (connack_params_from connack))) (\<lambda>_ c.
           (Ok (), c\<lparr>cl_decoder := decoder_set_limits (session_limits (cl_session c)) (cl_decoder c)\<rparr>))
     | _ \<Rightarrow> cl_throw PacketUnexpected))))))"

definition client_connect :: "rstring \<Rightarrow> u16 \<Rightarrow> bool \<Rightarrow> unit client_m" where
  "client_connect ident keep_alive_secs clean =
     connect_with_options ident keep_alive_secs clean None []"

definition connect_with_clean_start :: "rstring \<Rightarrow> bool \<Rightarrow> unit client_m" where
  "connect_with_clean_start ident clean = connect_with_options ident 60 clean None []"

definition connect_with_session_expiry :: "rstring \<Rightarrow> u32 \<Rightarrow> unit client_m" where
  "connect_with_session_expiry ident interval =
     connect_with_options ident 60 False None [SessionExpiryInterval interval]"

definition connect_with_will_and_properties ::
    "rstring \<Rightarrow> rstring \<Rightarrow> bytes \<Rightarrow> qos \<Rightarrow> properties \<Rightarrow> unit client_m" where
  "connect_with_will_and_properties ident will_topic will_payload will_qos will_properties =
     (let will = \<lparr>v5w_topic = will_topic, v5w_payload = will_payload, v5w_qos = will_qos,
            v5w_retain = False, v5w_properties = will_properties\<rparr>
      in connect_with_options ident 60 True (Some will) [])"

definition connect_with_will :: "rstring \<Rightarrow> rstring \<Rightarrow> bytes \<Rightarrow> qos \<Rightarrow> unit client_m" where
  "connect_with_will ident will_topic will_payload will_qos =
     connect_with_will_and_properties ident will_topic will_payload will_qos []"

definition client_disconnect :: "unit client_m" where
  "client_disconnect =
     cl_bind get_session (\<lambda>s.
     if \<not> session_is_active s then cl_return ()
     else
       cl_bind (on_session disconnect_sent) (\<lambda>_.
       cl_bind (send_packet (Out5Disconnect \<lparr>v5_disconnect_reason_code = DcNormalDisconnection,
         v5_disconnect_properties = []\<rparr>)) (\<lambda>_.
       on_session session_disconnected)))"

end
