(* ===== verification/ClientWait.thy ===== *)
theory ClientWait
  imports Client SessionConnect DecoderRun
begin

text \<open>
  Reasoning about the client of theory \<open>Client\<close>: a weakest-precondition calculus for its monad, with a separate
  postcondition for errors and none that a panic satisfies, and the rules for what the operations of the
  client are made of, that is sending, waiting and answering a packet of the peer. They leave the client
  in order and what it has begun itself alone, and a loop around them ends.
\<close>

section \<open>Weakest preconditions\<close>

definition wp :: "'a client_m \<Rightarrow> ('a \<Rightarrow> client \<Rightarrow> bool) \<Rightarrow> (client_error \<Rightarrow> client \<Rightarrow> bool) \<Rightarrow> client \<Rightarrow> bool" where
  "wp m Q E c = (case m c of (Ok x, c') \<Rightarrow> Q x c' | (Err e, c') \<Rightarrow> E e c' | (Panic, c') \<Rightarrow> False)"

lemma wp_mono:
  assumes "wp m Q E c" "\<And>x c'. Q x c' \<Longrightarrow> Q' x c'" "\<And>e c'. E e c' \<Longrightarrow> E' e c'"
  shows "wp m Q' E' c"
  using assms by (auto simp: wp_def split: prod.splits result.splits)

lemma wp_cong: "m c = n c \<Longrightarrow> wp m Q E c = wp n Q E c"
  by (simp add: wp_def)

lemma wp_conj: "wp m Q E c \<Longrightarrow> wp m Q' E' c \<Longrightarrow> wp m (\<lambda>x c. Q x c \<and> Q' x c) (\<lambda>e c. E e c \<and> E' e c) c"
  by (auto simp: wp_def split: prod.splits result.splits)

lemma wp_run:
  "wp m Q E c \<Longrightarrow> m c = (r, c') \<Longrightarrow> (case r of Ok x \<Rightarrow> Q x c' | Err e \<Rightarrow> E e c' | Panic \<Rightarrow> False)"
  by (simp add: wp_def)

lemma wp_simps [simp]:
  "wp (cl_return x) Q E = Q x"
  "wp (cl_throw e) Q E = E e"
  "wp (cl_bind m f) Q E = wp m (\<lambda>x. wp (f x) Q E) E"
  "wp (on_session g) R E = (\<lambda>c. R () (c\<lparr>cl_session := g (cl_session c)\<rparr>))"
  "wp get_session S E = (\<lambda>c. S (cl_session c) c)"
  by (auto simp: fun_eq_iff wp_def cl_return_def cl_throw_def cl_bind_def on_session_def get_session_def
      split: prod.splits result.splits)

lemma wp_if [simp]: "wp (if b then m else n) Q E = (if b then wp m Q E else wp n Q E)"
  by simp

lemma wp_cleanup [simp]:
  "wp (cl_cleanup m undo) Q E = wp m Q (\<lambda>e c'. E e (c'\<lparr>cl_session := undo (cl_session c')\<rparr>))"
  by (auto simp: fun_eq_iff wp_def cl_cleanup_def split: prod.splits result.splits)

lemma wp_lift [simp]:
  "wp (cl_lift conv r) Q E = (case r of Ok x \<Rightarrow> Q x | Err e \<Rightarrow> E (conv e) | Panic \<Rightarrow> (\<lambda>c. False))"
  by (cases r) (simp_all add: fun_eq_iff wp_def cl_lift_def)

lemma wp_session_op:
  "wp (session_op conv f) Q E c =
     (case f (cl_session c) of
        (Ok x, s) \<Rightarrow> Q x (c\<lparr>cl_session := s\<rparr>)
      | (Err e, s) \<Rightarrow> E (conv e) (c\<lparr>cl_session := s\<rparr>)
      | (Panic, s) \<Rightarrow> False)"
  by (auto simp: wp_def session_op_def split: prod.splits result.splits)

lemma cl_loop_steps:
  "body c = (Ok None, c') \<Longrightarrow> less_work c' c \<Longrightarrow> cl_loop body c = cl_loop body c'"
  "body c = (Ok (Some x), c') \<Longrightarrow> cl_loop body c = (Ok x, c')"
  by (simp_all add: cl_loop.simps [of body c])

text \<open>A loop with an invariant: every round ends the loop or makes progress.\<close>

lemma wf_less_work: "wf {(c', c). less_work c' c}"
  by (rule wf_subset [OF wf_inv_image [OF wf_lex_prod [OF wf_less_than wf_less_than], of client_work]])
    (auto simp: less_work_def inv_image_def client_work_def)

lemma wp_loop_unfold:
  "wp (cl_loop body) Q E c =
     wp body (\<lambda>r c'. case r of None \<Rightarrow> less_work c' c \<and> wp (cl_loop body) Q E c' | Some x \<Rightarrow> Q x c') E c"
  by (auto simp: wp_def cl_loop.simps [of body c] split: prod.split result.split option.split)

lemma wp_loop:
  assumes "\<And>c. I c \<Longrightarrow> wp body (\<lambda>r c'. case r of None \<Rightarrow> I c' \<and> less_work c' c | Some x \<Rightarrow> Q x c') E c" "I c"
  shows "wp (cl_loop body) Q E c"
  using wf_less_work assms(2)
proof (induction c rule: wf_induct_rule)
  case (less c)
  show ?case
    unfolding wp_loop_unfold [of body _ _ c]
    by (rule wp_mono [OF assms(1) [OF less.prems]]) (auto split: option.splits intro: less.IH)
qed

section \<open>What every operation keeps\<close>

text \<open>
  The session has been used according to its contract and the decoder is in order, with the limits
  that the client leaves at their default.
\<close>

definition client_ok :: "client \<Rightarrow> bool" where
  "client_ok c \<longleftrightarrow>
     session_reachable (cl_session c) \<and> session_limits (cl_session c) = limits_new \<and>
     decoder_inv (cl_decoder c) \<and> dec_limits (cl_decoder c) = limits_new"

text \<open>Waiting and sending touch nothing of the session but the timer, and no message is reported.\<close>

definition quiet :: "client \<Rightarrow> client \<Rightarrow> bool" where
  "quiet c c' \<longleftrightarrow>
     (\<exists>k. cl_session c' = (cl_session c)\<lparr>keep_alive := k\<rparr>) \<and> cl_messages c' = cl_messages c"

definition le_work :: "client \<Rightarrow> client \<Rightarrow> bool" where
  "le_work c' c \<longleftrightarrow> less_work c' c \<or> client_work c' = client_work c"

lemma less_work_trans:
  "less_work a b \<Longrightarrow> le_work b c \<Longrightarrow> less_work a c" "le_work a b \<Longrightarrow> less_work b c \<Longrightarrow> less_work a c"
  "le_work a b \<Longrightarrow> le_work b c \<Longrightarrow> le_work a c"
  by (auto simp: le_work_def less_work_def)

lemma quiet_refl [simp]: "quiet c c"
  by (auto simp: quiet_def intro: exI [of _ "keep_alive (cl_session c)"])

lemma quiet_trans: "quiet a b \<Longrightarrow> quiet b c \<Longrightarrow> quiet a c"
  by (auto simp: quiet_def)

text \<open>The state in which a waiting operation stops, relative to where it began.\<close>

definition waited :: "client \<Rightarrow> client \<Rightarrow> bool" where
  "waited c c' \<longleftrightarrow> client_ok c' \<and> quiet c c' \<and> le_work c' c"

lemma waited_refl: "client_ok c \<Longrightarrow> waited c c"
  by (simp add: waited_def le_work_def)

lemma waited_trans: "waited a b \<Longrightarrow> waited b c \<Longrightarrow> waited a c"
  by (auto simp: waited_def intro: quiet_trans less_work_trans)

lemma waited_ok: "waited c c' \<Longrightarrow> client_ok c'"
  by (simp add: waited_def)

lemma client_ok_env [simp]:
  "client_ok (c\<lparr>cl_clock := x\<rparr>) = client_ok c" "client_ok (c\<lparr>cl_writes := y\<rparr>) = client_ok c"
  "client_ok (c\<lparr>cl_written := z\<rparr>) = client_ok c" "client_ok (c\<lparr>cl_events := u\<rparr>) = client_ok c"
  "client_ok (c\<lparr>cl_messages := v\<rparr>) = client_ok c"
  "client_ok (c\<lparr>cl_clock := x, cl_session := s\<rparr>) = client_ok (c\<lparr>cl_session := s\<rparr>)"
  by (simp_all add: client_ok_def)

lemma waited_env [simp]:
  "waited c (c'\<lparr>cl_clock := x\<rparr>) = waited c c'" "waited c (c'\<lparr>cl_writes := y\<rparr>) = waited c c'"
  "waited c (c'\<lparr>cl_written := z\<rparr>) = waited c c'"
  "waited c (c'\<lparr>cl_clock := x, cl_session := s\<rparr>) = waited c (c'\<lparr>cl_session := s\<rparr>)"
  by (simp_all add: waited_def quiet_def le_work_def less_work_def client_work_def)

lemma waited_session:
  "waited c c' \<Longrightarrow> waited c (c'\<lparr>cl_session := session_activity now (cl_session c')\<rparr>)"
  "waited c c' \<Longrightarrow> waited c (c'\<lparr>cl_session := session_pingreq_sent now (cl_session c')\<rparr>)"
  by (auto simp: waited_def client_ok_def quiet_def le_work_def less_work_def client_work_def
      session_activity_def session_pingreq_sent_def
      intro: reach_step [OF _ st_activity, unfolded session_activity_def]
        reach_step [OF _ st_pingreq, unfolded session_pingreq_sent_def])

section \<open>Sending and receiving\<close>

text \<open>The errors with which an operation gives up while it answers a packet of the peer.\<close>

fun handling_error :: "client_error \<Rightarrow> bool" where
  "handling_error IoFailed = True"
| "handling_error (EncodeFailed _) = True"
| "handling_error (FlowFailed _) = True"
| "handling_error (FlowControlFailed _) = True"
| "handling_error PacketUnexpected = True"
| "handling_error _ = False"

lemma wp_clock_now:
  "(\<And>now c'. c' = c \<or> (\<exists>ts. c' = c\<lparr>cl_clock := ts\<rparr>) \<Longrightarrow> Q now c') \<Longrightarrow> wp clock_now Q E c"
  by (auto simp: wp_def clock_now_def split: list.splits)

lemma wp_stream_write:
  assumes "waited c0 c" "\<And>c'. waited c0 c' \<Longrightarrow> Q () c'" "\<And>e c'. waited c0 c' \<Longrightarrow> handling_error e \<Longrightarrow> E e c'"
  shows "wp (stream_write buf) Q E c"
  using assms by (auto simp: wp_def stream_write_def split: list.splits bool.splits)

lemma v5_outgoing_no_panic: "v5_outgoing_encode_to_vec p \<noteq> Panic"
  using v5_packet.enc_no_panic
  by (auto simp: v5_outgoing_eq v5_packet_encode_to_vec_def dest: encode_to_vec_Panic)

lemma wp_send_packet:
  assumes "waited c0 c" "\<And>c'. waited c0 c' \<Longrightarrow> Q () c'" "\<And>e c'. waited c0 c' \<Longrightarrow> handling_error e \<Longrightarrow> E e c'"
  shows "wp (send_packet p) Q E c"
proof -
  have activity: "wp (cl_bind clock_now (\<lambda>now. on_session (session_activity now))) Q E c'" if "waited c0 c'" for c'
    using that by (auto intro!: wp_clock_now assms(2) waited_session)
  have "wp (case p of Out5PingReq _ \<Rightarrow> cl_return ()
      | _ \<Rightarrow> cl_bind clock_now (\<lambda>now. on_session (session_activity now))) Q E c'" if "waited c0 c'" for c'
    using activity [OF that] assms(2) [OF that] by (cases p) simp_all
  then show ?thesis
    using assms(1,3) v5_outgoing_no_panic [of p]
    by (auto simp: send_packet_def split: result.splits intro!: wp_stream_write [of c0])
qed

lemma wp_check_keep_alive:
  assumes "waited c0 c" "\<And>c'. waited c0 c' \<Longrightarrow> Q () c'" "\<And>e c'. waited c0 c' \<Longrightarrow> E e c'"
  shows "wp check_keep_alive Q E c"
proof -
  have "wp (send_packet (Out5PingReq V5PingReq))
      (\<lambda>_ c'. Q () (c'\<lparr>cl_session := session_pingreq_sent now (cl_session c')\<rparr>)) E c'"
    if "waited c0 c'" for c' now
    by (rule wp_send_packet [OF that]) (auto intro: assms(2,3) waited_session)
  then show ?thesis
    unfolding check_keep_alive_def using assms by (auto intro!: wp_clock_now)
qed

lemma limits_new_ok [simp]: "limit_ok (max_packet_size limits_new)"
  by (simp add: limit_ok_simps limits_new_def)

lemma waited_decoder:
  assumes "waited c0 c" "decoder_inv d" "dec_limits d = dec_limits (cl_decoder c)"
    "length (pending d) \<le> length (pending (cl_decoder c)) \<or> length (cl_events c) < length (cl_events c0)"
  shows "waited c0 (c\<lparr>cl_decoder := d\<rparr>)"
    "length (pending d) < length (pending (cl_decoder c)) \<Longrightarrow> less_work (c\<lparr>cl_decoder := d\<rparr>) c0"
  using assms
  by (auto simp: waited_def client_ok_def quiet_def le_work_def less_work_def client_work_def pending_def)

lemma wp_next_packet:
  assumes "waited c0 c"
    "\<And>r c'. waited c0 c' \<Longrightarrow> cl_events c' = cl_events c \<Longrightarrow> r \<noteq> None \<Longrightarrow> less_work c' c0 \<Longrightarrow> Q r c'"
    "\<And>c'. waited c0 c' \<Longrightarrow> cl_events c' = cl_events c \<Longrightarrow> Q None c'"
    "\<And>e c'. waited c0 c' \<Longrightarrow> E e c'"
  shows "wp next_packet Q E c"
proof -
  obtain r d where dec: "decoder_decode (cl_decoder c) = (r, d)" by fastforce
  from assms(1) have inv: "decoder_inv (cl_decoder c)" by (simp add: waited_def client_ok_def)
  note ref = decode_refines [OF inv dec]
  have le: "length (pending d) \<le> length (pending (cl_decoder c))"
    using ref(3) spec_decode_shrinks by metis
  have lt: "length (pending d) < length (pending (cl_decoder c)) \<and> r \<noteq> Panic" if "r \<noteq> Ok None"
    using spec_decode_progress [OF ref(3) [symmetric] that] by simp
  have w: "waited c0 (c\<lparr>cl_decoder := d\<rparr>)"
    using waited_decoder [OF assms(1) ref(1)] ref(2) le by (simp add: same_config_def)
  have "less_work (c\<lparr>cl_decoder := d\<rparr>) c0" if "r \<noteq> Ok None"
    using waited_decoder [OF assms(1) ref(1)] ref(2) le lt [OF that] by (simp add: same_config_def)
  then show ?thesis
    using w lt assms(2,3,4)
    by (cases r) (auto simp: wp_def next_packet_def dec split: option.splits versioned_incoming.splits)
qed

lemma wp_feed_decoder:
  assumes "waited c0 c" "length (cl_events c) < length (cl_events c0)"
    "\<And>c'. waited c0 c' \<Longrightarrow> cl_events c' = cl_events c \<Longrightarrow> Q () c'" "\<And>e c'. waited c0 c' \<Longrightarrow> E e c'"
  shows "wp (feed_decoder data) Q E c"
proof -
  from assms(1) have d: "decoder_inv (cl_decoder c)" "dec_limits (cl_decoder c) = limits_new"
    by (simp_all add: waited_def client_ok_def)
  show ?thesis
  proof (cases "length (pending (cl_decoder c)) + length data \<le> max_packet_size limits_new + 5")
    case True
    then obtain d' where d': "decoder_feed data (cl_decoder c) = (Ok (), d')" "decoder_inv d'"
        "same_config (cl_decoder c) d'"
      using feed_exact [OF d(1), of data] d(2) by auto
    have "waited c0 (c\<lparr>cl_decoder := d'\<rparr>)"
      using waited_decoder(1) [OF assms(1) d'(2)] d'(3) assms(2) by (simp add: same_config_def)
    then show ?thesis using assms(3) by (simp add: wp_def feed_decoder_def d')
  next
    case False
    then obtain e where "decoder_feed data (cl_decoder c) = (Err e, cl_decoder c)"
      using feed_rejects [of "cl_decoder c" data] d(2) by auto
    then show ?thesis using assms(1,4) by (simp add: wp_def feed_decoder_def)
  qed
qed

lemma waited_events:
  assumes "waited c0 c" "cl_events c = x # es"
  shows "waited c0 (c\<lparr>cl_events := es\<rparr>)"
proof -
  have "length (cl_events c) = Suc (length es)" using assms(2) by simp
  then have "less_work (c\<lparr>cl_events := es\<rparr>) c" by (simp add: less_work_def client_work_def)
  with assms(1) less_work_trans(1) show ?thesis by (simp add: waited_def quiet_def le_work_def)
qed

lemma waited_length: "waited c0 c \<Longrightarrow> length (cl_events c) \<le> length (cl_events c0)"
  by (auto simp: waited_def le_work_def less_work_def client_work_def)

lemma wp_stream_read:
  assumes "waited c0 c" "cl_events c \<noteq> []"
    "\<And>r c'. waited c0 c' \<Longrightarrow> length (cl_events c') < length (cl_events c0) \<Longrightarrow> Q r c'"
    "\<And>e c'. waited c0 c' \<Longrightarrow> E e c'"
  shows "wp stream_read Q E c"
  using assms(2) waited_events [OF assms(1)] waited_length [OF assms(1)] assms(3,4)
  by (auto simp: wp_def stream_read_def Suc_le_eq split: list.splits io_event.splits)

lemma wp_deadline_passed:
  assumes "waited c0 c" "\<And>c'. waited c0 c' \<Longrightarrow> Q True c'" "cl_events c \<noteq> [] \<Longrightarrow> Q False c"
  shows "wp deadline_passed Q E c"
  using assms waited_events [OF assms(1)]
  by (auto simp: wp_def deadline_passed_def split: list.splits io_event.splits)

lemma later_less_work: "length (cl_events c) < length (cl_events c0) \<Longrightarrow> less_work c c0"
  by (simp add: less_work_def client_work_def)

lemma wp_try_recv_ready:
  assumes "waited c0 c" "cl_events c \<noteq> []"
    "\<And>r c'. waited c0 c' \<Longrightarrow> less_work c' c0 \<Longrightarrow> Q r c'" "\<And>e c'. waited c0 c' \<Longrightarrow> E e c'"
  shows "wp try_recv_ready Q E c"
  unfolding try_recv_ready_def wp_simps
proof (rule wp_next_packet [OF assms(1)])
  fix c1 assume c1: "waited c0 c1" "cl_events c1 = cl_events c"
  have "wp next_packet Q E c2" if "waited c0 c2" "length (cl_events c2) < length (cl_events c0)" for c2
    by (rule wp_next_packet [OF that(1)]) (use that assms(3,4) later_less_work in auto)
  then have "wp (feed_decoder data) (\<lambda>_. wp next_packet Q E) E c2"
    if "waited c0 c2" "length (cl_events c2) < length (cl_events c0)" for c2 data
    by (rule wp_feed_decoder [OF that]) (use that assms(4) in auto)
  then show "wp (case None of None \<Rightarrow> cl_bind stream_read (\<lambda>buf. case buf of None \<Rightarrow> cl_return None
      | Some data \<Rightarrow> if data = [] then cl_throw ConnectionClosed
          else cl_bind (feed_decoder data) (\<lambda>_. next_packet)) | Some packet \<Rightarrow> cl_return (Some packet)) Q E c1"
    using c1 assms(2,3,4) later_less_work
    by (auto intro!: wp_stream_read [OF c1(1)] split: option.splits)
qed (use assms in auto)

lemma wp_recv_while_connected:
  assumes "client_ok c0" "\<And>r c'. waited c0 c' \<Longrightarrow> less_work c' c0 \<Longrightarrow> Q r c'" "\<And>e c'. waited c0 c' \<Longrightarrow> E e c'"
  shows "wp recv_while_connected Q E c0"
  unfolding recv_while_connected_def
proof (rule wp_loop [where I = "waited c0"])
  fix c assume c: "waited c0 c"
  note self = waited_refl [OF waited_ok [OF c]] and trans = waited_trans [OF c]
  have less: "less_work c' c0" if "less_work c' c" for c'
    using that c less_work_trans(1) by (auto simp: waited_def)
  show "wp (cl_bind check_keep_alive (\<lambda>_. cl_bind deadline_passed
      (\<lambda>over. if over then cl_throw OperationTimeout else try_recv_ready)))
      (\<lambda>r c'. case r of None \<Rightarrow> waited c0 c' \<and> less_work c' c | Some x \<Rightarrow> Q x c') E c"
    unfolding wp_simps
  proof (rule wp_check_keep_alive [OF self])
    fix c1 assume c1: "waited c c1"
    show "wp deadline_passed (\<lambda>over. wp (if over then cl_throw OperationTimeout else try_recv_ready)
        (\<lambda>r c'. case r of None \<Rightarrow> waited c0 c' \<and> less_work c' c | Some x \<Rightarrow> Q x c') E) E c1"
      by (rule wp_deadline_passed [OF c1])
        (use c1 trans less assms(2,3) in \<open>auto intro!: wp_try_recv_ready [OF c1] split: option.splits\<close>)
  qed (use trans assms(3) in auto)
qed (rule waited_refl [OF assms(1)])

lemma wp_recv_packet:
  assumes "client_ok c0" "\<And>r c'. waited c0 c' \<Longrightarrow> less_work c' c0 \<Longrightarrow> Q r c'" "\<And>e c'. waited c0 c' \<Longrightarrow> E e c'"
  shows "wp recv_packet Q E c0"
  unfolding recv_packet_def
proof (rule wp_loop [where I = "waited c0"])
  fix c assume c: "waited c0 c"
  note self = waited_refl [OF waited_ok [OF c]] and trans = waited_trans [OF c]
  have less: "less_work c' c0" if "less_work c' c" for c'
    using that c less_work_trans(1) by (auto simp: waited_def)
  show "wp (cl_bind next_packet (\<lambda>ready. case ready of Some packet \<Rightarrow> cl_return (Some packet)
      | None \<Rightarrow> cl_bind deadline_passed (\<lambda>over. if over then cl_throw OperationTimeout
          else cl_bind stream_read (\<lambda>buf. case buf of None \<Rightarrow> cl_throw OperationTimeout
          | Some data \<Rightarrow> if data = [] then cl_throw ConnectionClosed
              else cl_bind (feed_decoder data) (\<lambda>_. cl_return None)))))
      (\<lambda>r c'. case r of None \<Rightarrow> waited c0 c' \<and> less_work c' c | Some x \<Rightarrow> Q x c') E c"
    unfolding wp_simps
    by (rule wp_next_packet [OF self])
      (use trans less later_less_work assms(2,3) in
        \<open>auto intro!: wp_deadline_passed [of c] wp_stream_read [of c] wp_feed_decoder [of c] split: option.splits\<close>)
qed (rule waited_refl [OF assms(1)])

section \<open>Handling a packet\<close>

text \<open>
  What the client sends on its own is the same in two sessions: the handshakes, identifiers and requests
  in progress and the send quota in use.
\<close>

definition same_out :: "session \<Rightarrow> session \<Rightarrow> bool" where
  "same_out s s' \<longleftrightarrow>
     outgoing (qos_flow s') = outgoing (qos_flow s) \<and> packet_id_manager s' = packet_id_manager s \<and>
     subscription_manager s' = subscription_manager s \<and> session_limits s' = session_limits s \<and>
     fc_outstanding_count (flow_control s') = fc_outstanding_count (flow_control s)"

definition kept :: "client \<Rightarrow> client \<Rightarrow> bool" where
  "kept c0 c \<longleftrightarrow> client_ok c \<and> same_out (cl_session c0) (cl_session c) \<and> le_work c c0"

lemma same_out_trans: "same_out a b \<Longrightarrow> same_out b c \<Longrightarrow> same_out a c"
  by (simp add: same_out_def)

lemma kept_refl: "client_ok c \<Longrightarrow> kept c c"
  by (simp add: kept_def same_out_def le_work_def)

lemma kept_trans: "kept a b \<Longrightarrow> kept b c \<Longrightarrow> kept a c"
  by (auto simp: kept_def intro: same_out_trans less_work_trans)

lemma kept_ok: "kept a b \<Longrightarrow> client_ok b"
  by (simp add: kept_def)

lemma kept_waited: "kept a b \<Longrightarrow> waited b c \<Longrightarrow> kept a c"
  by (auto simp: kept_def waited_def quiet_def same_out_def intro: less_work_trans)

lemma client_ok_step:
  "client_ok c \<Longrightarrow> session_step (cl_session c) s \<Longrightarrow> session_limits s = session_limits (cl_session c) \<Longrightarrow>
   client_ok (c\<lparr>cl_session := s\<rparr>)"
  by (auto simp: client_ok_def intro: reach_step)

lemma kept_step:
  assumes "kept c0 c" "session_step (cl_session c) s" "same_out (cl_session c) s"
  shows "kept c0 (c\<lparr>cl_session := s\<rparr>)"
  using assms client_ok_step [of c s]
  by (auto simp: kept_def same_out_def le_work_def less_work_def client_work_def)

lemma kept_messages: "kept c0 (c\<lparr>cl_messages := ms\<rparr>) = kept c0 c"
  by (simp add: kept_def le_work_def less_work_def client_work_def)

lemma same_out_ops [simp]:
  "same_out s (session_pingresp_received s)" "same_out s (disconnect_received s)"
  "same_out s (session_pubrec_sent rc s)" "same_out s (session_pubcomp_sent s)"
  "same_out s (session_puback_sent i s)" "same_out s (disconnect_sent s)" "same_out s (session_disconnected s)"
  "same_out s (snd (handle_pubrel i s))"
  "same_out s (snd (handle_publish_qos1 i s))" "same_out s (snd (handle_publish_qos2 i s))"
  by (auto simp: same_out_def session_pingresp_received_def disconnect_received_def session_pubrec_sent_def
      session_pubcomp_sent_def session_puback_sent_def qf_puback_sent_def fc_publish_ack_sent_def Let_def
      disconnect_sent_def session_disconnected_def handle_pubrel_def qf_pubrel_received_def
      handle_publish_qos1_def handle_publish_qos2_def charge_incoming_cases qf_publish_received_qos1_def
      qf_publish_received_qos2_def split: option.splits prod.splits flow_state.splits)

lemma wp_kept_op:
  assumes "kept c0 c" "fst (f (cl_session c)) \<noteq> Panic" "session_step (cl_session c) (snd (f (cl_session c)))"
    "same_out (cl_session c) (snd (f (cl_session c)))"
    "\<And>x c'. kept c0 c' \<Longrightarrow> fst (f (cl_session c)) = Ok x \<Longrightarrow> Q x c'"
    "\<And>e c'. kept c0 c' \<Longrightarrow> E (conv e) c'"
  shows "wp (session_op conv f) Q E c"
  using assms kept_step [OF assms(1,3,4)] by (auto simp: wp_session_op split: prod.splits result.splits)

lemma wp_kept_send:
  assumes "kept c0 c" "\<And>c'. kept c0 c' \<Longrightarrow> Q () c'" "\<And>e c'. kept c0 c' \<Longrightarrow> handling_error e \<Longrightarrow> E e c'"
  shows "wp (send_packet p) Q E c"
  by (rule wp_send_packet [OF waited_refl [OF kept_ok [OF assms(1)]]]) (use kept_waited [OF assms(1)] assms in auto)

lemma wp_kept_session:
  "kept c0 c \<Longrightarrow> kept c0 (c\<lparr>cl_session := session_pingresp_received (cl_session c)\<rparr>)"
  "kept c0 c \<Longrightarrow> kept c0 (c\<lparr>cl_session := disconnect_received (cl_session c)\<rparr>)"
  "kept c0 c \<Longrightarrow> kept c0 (c\<lparr>cl_session := session_pubrec_sent rc (cl_session c)\<rparr>)"
  "kept c0 c \<Longrightarrow> kept c0 (c\<lparr>cl_session := session_pubcomp_sent (cl_session c)\<rparr>)"
  "kept c0 c \<Longrightarrow> kept c0 (c\<lparr>cl_session := session_puback_sent i (cl_session c)\<rparr>)"
  "kept c0 c \<Longrightarrow> kept c0 (c\<lparr>cl_session := disconnect_sent (cl_session c)\<rparr>)"
  "kept c0 c \<Longrightarrow> kept c0 (c\<lparr>cl_session := session_disconnected (cl_session c)\<rparr>)"
  by (auto intro: kept_step session_step.intros)

lemma handler_no_panic:
  "fst (handle_publish_qos1 i s) \<noteq> Panic" "fst (handle_publish_qos2 i s) \<noteq> Panic" "fst (handle_pubrel i s) \<noteq> Panic"
  using qf_verdict_no_panic(3) [of i "qos_flow s"]
  by (simp_all add: handle_publish_qos1_def handle_publish_qos2_def charge_incoming_cases split_def handle_pubrel_def)

lemma wp_handle_incoming_publish:
  assumes "kept c0 c" "\<And>c'. kept c0 c' \<Longrightarrow> Q () c'" "\<And>e c'. kept c0 c' \<Longrightarrow> handling_error e \<Longrightarrow> E e c'"
  shows "wp (handle_incoming_publish p) Q E c"
proof -
  have report: "wp (report_message p) Q E c'" if "kept c0 c'" for c'
    using that assms(2) by (simp add: wp_def report_message_def kept_messages)
  show ?thesis
  proof (cases "v5p_packet_id p")
    case None
    then show ?thesis
      using assms(1,3) report by (auto simp: handle_incoming_publish_def split: qos.split)
  next
    case (Some i)
    then show ?thesis
      using assms(1)
      by (auto simp: handle_incoming_publish_def send_puback_def send_pubrec_def handler_no_panic
          split: qos.split
          intro!: wp_kept_op [of c0] wp_kept_send [of c0] st_publish_qos1 st_publish_qos2 wp_kept_session
            report assms(2,3))
  qed
qed

lemma wp_handle_incoming:
  assumes "kept c0 c" "\<And>r c'. kept c0 c' \<Longrightarrow> Q r c'" "\<And>e c'. kept c0 c' \<Longrightarrow> handling_error e \<Longrightarrow> E e c'"
  shows "wp (handle_incoming p) Q E c"
proof -
  have pubrel: "wp (case act of
        Some (SendPubcomp packet_id) \<Rightarrow>
          cl_bind (send_pubcomp packet_id) (\<lambda>_.
          cl_bind (on_session session_pubcomp_sent) (\<lambda>_. cl_return False))
      | Some (ResendPubcomp packet_id) \<Rightarrow>
          cl_bind (send_pubcomp packet_id) (\<lambda>_. cl_return False)
      | Some _ \<Rightarrow> cl_throw PacketUnexpected
      | None \<Rightarrow> cl_return False) Q E c'" if "kept c0 c'" for c' act
    using that
    by (auto simp: send_pubcomp_def split: option.split action.split
        intro!: wp_kept_send [of c0] wp_kept_session assms(2,3))
  show ?thesis
    using assms(1)
    by (auto simp: handle_incoming_def handler_no_panic split: v5_incoming.split
        intro!: wp_handle_incoming_publish [of c0] wp_kept_op [of c0] st_pubrel wp_kept_session
          pubrel assms(2,3))
qed


end
