(* ===== verification/ClientRun.thy ===== *)
theory ClientRun
  imports ClientWait
begin

text \<open>
  The operations of the client, for every behaviour of the transport and the clock: each keeps to the
  calling contract of the session, ends, and leaves behind no exchange, identifier or request that it
  has begun, with the exceptions that the claims name.
\<close>

section \<open>Publishing\<close>

text \<open>An exchange that the client has begun itself, relative to the session before it.\<close>

definition in_flight :: "u16 \<Rightarrow> flow_state \<Rightarrow> session \<Rightarrow> session \<Rightarrow> bool" where
  "in_flight i st s s' \<longleftrightarrow>
     map_option flow_st (bt_get (outgoing (qos_flow s')) i) = Some st \<and>
     bt_remove i (outgoing (qos_flow s')) = outgoing (qos_flow s) \<and>
     pid_used (packet_id_manager s') - {i} = pid_used (packet_id_manager s) \<and>
     subscription_manager s' = subscription_manager s \<and>
     sat_sub (fc_outstanding_count (flow_control s')) 1 = fc_outstanding_count (flow_control s)"

definition restored :: "session \<Rightarrow> session \<Rightarrow> bool" where
  "restored s s' \<longleftrightarrow>
     outgoing (qos_flow s') = outgoing (qos_flow s) \<and>
     pid_used (packet_id_manager s') = pid_used (packet_id_manager s) \<and>
     subscription_manager s' = subscription_manager s \<and>
     fc_outstanding_count (flow_control s') = fc_outstanding_count (flow_control s)"

lemma in_flight_kept: "in_flight i st s s' \<Longrightarrow> same_out s' s'' \<Longrightarrow> in_flight i st s s''"
  by (simp add: in_flight_def same_out_def)

lemma client_ok_inv: "client_ok c \<Longrightarrow> session_inv (cl_session c)"
  by (simp add: client_ok_def session_reachable_inv)

lemma in_flight_ids: "in_flight i st s s' \<Longrightarrow> i \<in> flow_ids (qos_flow s')"
  by (auto simp: in_flight_def)

lemma in_flight_ends:
  assumes "in_flight i st s s'" "session_inv s'"
  shows "restored s (finish_outgoing i (s'\<lparr>qos_flow := qf_drop i (qos_flow s')\<rparr>))" "restored s (abort_publish i s')"
proof -
  note pid = pid_used_release [OF session_invD(1) [OF assms(2)]]
  show "restored s (finish_outgoing i (s'\<lparr>qos_flow := qf_drop i (qos_flow s')\<rparr>))"
    using assms(1) by (simp add: restored_def in_flight_def finish_outgoing_def qf_drop_def pid fc_publish_acked_def)
  have "qf_is_active (qos_flow s') i"
    using in_flight_ids [OF assms(1)] by (simp add: qf_is_active_def bt_contains_iff)
  then show "restored s (abort_publish i s')"
    using assms(1) by (simp add: restored_def in_flight_def abort_publish_def qf_release_def pid fc_publish_acked_def Let_def)
qed

text \<open>The state of a client in the middle of a PUBLISH of its own, and after it.\<close>

definition publishing :: "u16 \<Rightarrow> flow_state \<Rightarrow> session \<Rightarrow> client \<Rightarrow> bool" where
  "publishing i st s c \<longleftrightarrow> client_ok c \<and> in_flight i st s (cl_session c)"

definition settled :: "session \<Rightarrow> client \<Rightarrow> bool" where
  "settled s c \<longleftrightarrow> client_ok c \<and> restored s (cl_session c)"

lemma publishing_kept: "publishing i st s c \<Longrightarrow> kept c c' \<Longrightarrow> publishing i st s c'"
  by (auto simp: publishing_def kept_def intro: in_flight_kept)

lemma session_limits_ops [simp]:
  "session_limits (abort_publish i s) = session_limits s" "session_limits (finish_outgoing i s) = session_limits s"
  "session_limits (session_subscribe_sent i es s) = session_limits s"
  "session_limits (session_unsubscribe_sent i fs s) = session_limits s"
  "session_limits (abort_subscribe i s) = session_limits s" "session_limits (abort_unsubscribe i s) = session_limits s"
  "session_limits (release_packet_id i s) = session_limits s"
  "session_limits (snd (allocate_packet_id s)) = session_limits s"
  "session_limits (snd (session_publish_sent q i s)) = session_limits s"
  "session_limits (snd (handle_suback i codes s)) = session_limits s"
  "session_limits (snd (handle_unsuback i codes s)) = session_limits s"
  "session_limits (snd (handle_puback i s)) = session_limits s"
  "session_limits (snd (handle_pubcomp i s)) = session_limits s"
  "session_limits (snd (handle_pubrec i rc s)) = session_limits s"
  by (auto simp: abort_publish_def finish_outgoing_def session_subscribe_sent_def session_unsubscribe_sent_def
      abort_subscribe_def abort_unsubscribe_def release_packet_id_def allocate_packet_id_def Let_def
      session_publish_sent_def handle_suback_def handle_unsuback_def handle_puback_def handle_pubcomp_def
      handle_pubrec_def split: result.splits prod.splits qos.splits option.splits action.splits)

lemma publishing_abort:
  assumes "publishing i st s c"
  shows "settled s (c\<lparr>cl_session := abort_publish i (cl_session c)\<rparr>)"
proof -
  from assms have c: "client_ok c" "in_flight i st s (cl_session c)" by (simp_all add: publishing_def)
  show ?thesis
    using c in_flight_ends(2) [OF c(2) client_ok_inv [OF c(1)]] st_abort_publish [OF in_flight_ids [OF c(2)]]
    by (simp add: settled_def client_ok_step)
qed

lemma wp_publishing_recv:
  assumes "publishing i st s c" "\<And>p c'. publishing i st s c' \<Longrightarrow> less_work c' c \<Longrightarrow> Q p c'"
    "\<And>e c'. settled s c' \<Longrightarrow> E e c'"
  shows "wp (cl_cleanup recv_while_connected (abort_publish i)) Q E c"
proof -
  have "publishing i st s c'" if "waited c c'" for c'
    using publishing_kept [OF assms(1)] kept_waited [OF kept_refl that] assms(1) by (auto simp: publishing_def)
  moreover have "client_ok c" using assms(1) by (simp add: publishing_def)
  ultimately show ?thesis
    by (auto intro!: wp_recv_while_connected assms(2,3) publishing_abort [where st = st])
qed

text \<open>An await loop: packets other than the awaited one are handled as usual.\<close>

definition settles :: "session \<Rightarrow> client_error \<Rightarrow> client \<Rightarrow> bool" where
  "settles s e c \<longleftrightarrow> client_ok c \<and> (handling_error e \<or> restored s (cl_session c))"

lemma settles_settled: "settled s c \<Longrightarrow> settles s e c"
  by (simp add: settled_def settles_def)

lemma publishing_ok: "publishing i st s c \<Longrightarrow> client_ok c"
  by (simp add: publishing_def)

lemma publishing_step:
  assumes "publishing i st s c" "session_step (cl_session c) t" "session_limits t = session_limits (cl_session c)"
    "restored s t"
  shows "settled s (c\<lparr>cl_session := t\<rparr>)"
  using assms client_ok_step [of c t] by (simp add: publishing_def settled_def)

definition other_packet :: "u16 \<Rightarrow> v5_incoming \<Rightarrow> 'a option client_m" where
  "other_packet i p =
     cl_bind (handle_incoming p) (\<lambda>over.
     if over then cl_cleanup (cl_throw ConnectionClosed) (abort_publish i) else cl_return None)"

lemma wp_other_packet:
  assumes "publishing i st s c" "less_work c c0"
  shows "wp (other_packet i p) (\<lambda>r c'. case r of None \<Rightarrow> publishing i st s c' \<and> less_work c' c0 | Some x \<Rightarrow> Q x c')
    (settles s) c"
proof -
  have "publishing i st s c' \<and> less_work c' c0" if "kept c c'" for c'
    using publishing_kept [OF assms(1) that] assms(2) that less_work_trans(2) by (auto simp: kept_def)
  moreover have "settles s e (c'\<lparr>cl_session := abort_publish i (cl_session c')\<rparr>)" if "kept c c'" for e c'
    by (rule settles_settled [OF publishing_abort [OF publishing_kept [OF assms(1) that]]])
  moreover have "settles s e c'" if "kept c c'" "handling_error e" for e c'
    using that by (simp add: settles_def kept_ok)
  ultimately show ?thesis
    by (auto simp: other_packet_def intro!: wp_handle_incoming [OF kept_refl [OF publishing_ok [OF assms(1)]]])
qed

lemma wp_await:
  assumes "publishing i st s c0"
    "\<And>p c. publishing i st s c \<Longrightarrow> body p \<noteq> other_packet i p \<Longrightarrow>
      wp (body p) (\<lambda>r c'. case r of None \<Rightarrow> False | Some x \<Rightarrow> Q x c') (settles s) c"
  shows "wp (cl_loop (cl_bind (cl_cleanup recv_while_connected (abort_publish i)) body)) Q (settles s) c0"
proof (rule wp_loop [where I = "publishing i st s"])
  fix c assume c: "publishing i st s c"
  show "wp (cl_bind (cl_cleanup recv_while_connected (abort_publish i)) body)
      (\<lambda>r c'. case r of None \<Rightarrow> publishing i st s c' \<and> less_work c' c | Some x \<Rightarrow> Q x c') (settles s) c"
    unfolding wp_simps(3)
  proof (rule wp_publishing_recv [OF c])
    fix p c1 assume c1: "publishing i st s c1" "less_work c1 c"
    show "wp (body p) (\<lambda>r c'. case r of None \<Rightarrow> publishing i st s c' \<and> less_work c' c | Some x \<Rightarrow> Q x c') (settles s) c1"
      using wp_other_packet [OF c1, of p Q]
      by (cases "body p = other_packet i p") (auto intro: wp_mono [OF assms(2) [OF c1(1)]] split: option.splits)
  qed (rule settles_settled)
qed (rule assms)

lemma publishing_puback:
  assumes "publishing i AwaitingPuback s c"
  shows "handle_puback i (cl_session c) = (Ok (Some (Complete i)),
      finish_outgoing i ((cl_session c)\<lparr>qos_flow := qf_drop i (qos_flow (cl_session c))\<rparr>))"
    "settled s (c\<lparr>cl_session :=
      finish_outgoing i ((cl_session c)\<lparr>qos_flow := qf_drop i (qos_flow (cl_session c))\<rparr>)\<rparr>)"
proof -
  from assms have c: "session_inv (cl_session c)" "in_flight i AwaitingPuback s (cl_session c)"
    by (simp_all add: publishing_def client_ok_inv)
  show p: "handle_puback i (cl_session c) = (Ok (Some (Complete i)),
      finish_outgoing i ((cl_session c)\<lparr>qos_flow := qf_drop i (qos_flow (cl_session c))\<rparr>))"
    using c by (simp add: handle_puback_eq session_invD(2) in_flight_def)
  show "settled s (c\<lparr>cl_session :=
      finish_outgoing i ((cl_session c)\<lparr>qos_flow := qf_drop i (qos_flow (cl_session c))\<rparr>)\<rparr>)"
    using publishing_step [OF assms st_puback [of _ i]] in_flight_ends(1) [OF c(2,1)] by (simp add: p)
qed

lemma publishing_pubcomp:
  assumes "publishing i AwaitingPubcomp s c"
  shows "handle_pubcomp i (cl_session c) = (Ok (Some (Complete i)),
      finish_outgoing i ((cl_session c)\<lparr>qos_flow := qf_drop i (qos_flow (cl_session c))\<rparr>))"
    "settled s (c\<lparr>cl_session :=
      finish_outgoing i ((cl_session c)\<lparr>qos_flow := qf_drop i (qos_flow (cl_session c))\<rparr>)\<rparr>)"
proof -
  from assms have c: "session_inv (cl_session c)" "in_flight i AwaitingPubcomp s (cl_session c)"
    by (simp_all add: publishing_def client_ok_inv)
  show p: "handle_pubcomp i (cl_session c) = (Ok (Some (Complete i)),
      finish_outgoing i ((cl_session c)\<lparr>qos_flow := qf_drop i (qos_flow (cl_session c))\<rparr>))"
    using c by (simp add: handle_pubcomp_eq session_invD(2) in_flight_def)
  show "settled s (c\<lparr>cl_session :=
      finish_outgoing i ((cl_session c)\<lparr>qos_flow := qf_drop i (qos_flow (cl_session c))\<rparr>)\<rparr>)"
    using publishing_step [OF assms st_pubcomp [of _ i]] in_flight_ends(1) [OF c(2,1)] by (simp add: p)
qed


lemma wp_await_puback:
  assumes "publishing i AwaitingPuback s c"
  shows "wp (await_puback i) (\<lambda>_. settled s) (settles s) c"
  unfolding await_puback_def Let_def other_packet_def [symmetric]
  by (rule wp_await [OF assms])
    (auto simp: wp_session_op publishing_puback(1) publishing_puback(2)
      split: v5_incoming.splits if_splits)

lemma wp_await_pubcomp:
  assumes "publishing i AwaitingPubcomp s c"
  shows "wp (await_pubcomp i) (\<lambda>_. settled s) (settles s) c"
  unfolding await_pubcomp_def Let_def other_packet_def [symmetric]
  by (rule wp_await [OF assms])
    (auto simp: wp_session_op publishing_pubcomp(1) publishing_pubcomp(2)
      split: v5_incoming.splits if_splits)

lemma publishing_pubrec:
  assumes "publishing i AwaitingPubrec s c"
  shows "0x80 \<le> rc \<Longrightarrow> \<exists>t. handle_pubrec i rc (cl_session c) = (Ok (Some (Aborted i)), t) \<and>
      settled s (c\<lparr>cl_session := t\<rparr>)"
    "\<not> 0x80 \<le> rc \<Longrightarrow> \<exists>t. handle_pubrec i rc (cl_session c) = (Ok (Some (SendPubrel i)), t) \<and>
      publishing i AwaitingPubcomp s (c\<lparr>cl_session := t\<rparr>)"
proof -
  from assms have c: "client_ok c" "session_inv (cl_session c)" "in_flight i AwaitingPubrec s (cl_session c)"
    by (simp_all add: publishing_def client_ok_inv)
  note wf = session_invD(2) [OF c(2)]
  from c(3) obtain f where f: "bt_get (outgoing (qos_flow (cl_session c))) i = Some f" "flow_st f = AwaitingPubrec"
    by (auto simp: in_flight_def)
  note p = handle_pubrec_eq [OF wf, of i rc, unfolded f, simplified]
  show "\<exists>t. handle_pubrec i rc (cl_session c) = (Ok (Some (Aborted i)), t) \<and> settled s (c\<lparr>cl_session := t\<rparr>)"
    if "0x80 \<le> rc"
    using that publishing_step [OF assms st_pubrec [of _ i rc]] in_flight_ends(1) [OF c(3,2)] by (simp add: p f)
  let ?t = "(cl_session c)\<lparr>qos_flow := qf_put i AwaitingPubcomp (quota_charged f) (qos_flow (cl_session c))\<rparr>"
  have "in_flight i AwaitingPubcomp s ?t"
  proof -
    have "bt_wf (outgoing (qos_flow s))" "i \<notin> flow_ids (qos_flow s)"
      using c(3) bt_wf_remove [OF qf_wfD(1) [OF wf], of i] bt_get_remove [of i "outgoing (qos_flow (cl_session c))"]
      by (auto simp: in_flight_def)
    moreover from this have "bt_remove i (bt_insert i x (outgoing (qos_flow s))) = outgoing (qos_flow s)" for x
      by (intro bt_eqI) auto
    ultimately show ?thesis using c(3) by (simp add: in_flight_def qf_put_def)
  qed
  then show "\<exists>t. handle_pubrec i rc (cl_session c) = (Ok (Some (SendPubrel i)), t) \<and>
      publishing i AwaitingPubcomp s (c\<lparr>cl_session := t\<rparr>)" if "\<not> 0x80 \<le> rc"
    using that client_ok_step [OF c(1) st_pubrec [of _ i rc]] by (simp add: p f publishing_def)
qed

lemma publishing_send:
  assumes "publishing i st s c" "\<And>c'. publishing i st s c' \<Longrightarrow> Q () c'" "\<And>e c'. settled s c' \<Longrightarrow> E e c'"
  shows "wp (cl_cleanup (send_packet p) (abort_publish i)) Q E c"
  by (auto intro!: wp_kept_send [OF kept_refl [OF publishing_ok [OF assms(1)]]] assms(2,3)
      publishing_abort [OF publishing_kept [OF assms(1)]] publishing_kept [OF assms(1)])

lemma wp_await_qos2_completion:
  assumes "publishing i AwaitingPubrec s c"
  shows "wp (await_qos2_completion i) (\<lambda>_. settled s) (settles s) c"
proof -
  have rel: "wp (cl_cleanup (send_pubrel i) (abort_publish i)) (\<lambda>_. wp (await_pubcomp i)
      (\<lambda>_. settled s) (settles s)) (settles s) c'" if "publishing i AwaitingPubcomp s c'" for i c'
    unfolding send_pubrel_def by (rule publishing_send [OF that wp_await_pubcomp settles_settled])
  have rec: "wp (cl_bind (session_op FlowFailed (handle_pubrec i rc)) (\<lambda>act.
      if \<not> is_send_pubrel act then
        if act = None then cl_cleanup (cl_throw (PublishRejected rr)) (abort_publish i)
        else cl_throw (PublishRejected rr)
      else
        cl_bind (cl_cleanup (send_pubrel i) (abort_publish i)) (\<lambda>_.
        cl_bind (await_pubcomp i) (\<lambda>_. cl_return (Some ())))))
      (\<lambda>r c'. case r of None \<Rightarrow> False | Some x \<Rightarrow> settled s c') (settles s) c'"
    if "publishing i AwaitingPubrec s c'" for i c' rc rr
    using publishing_pubrec [OF that, of rc] rel
    by (cases "0x80 \<le> rc") (auto simp: wp_session_op settles_settled)
  show ?thesis
    unfolding await_qos2_completion_def Let_def other_packet_def [symmetric]
    by (rule wp_await [OF assms])
      (auto simp del: wp_simps wp_if wp_cleanup split: v5_incoming.splits if_splits intro!: rec)
qed

text \<open>An identifier reserved for a PUBLISH is in flight; without quality of service there is nothing to await.\<close>

definition reserved :: "u16 option \<Rightarrow> qos \<Rightarrow> session \<Rightarrow> client \<Rightarrow> bool" where
  "reserved r q s c =
     (case r of
        None \<Rightarrow> q = AtMostOnce \<and> settled s c
      | Some i \<Rightarrow> q \<noteq> AtMostOnce \<and>
          publishing i (if q = ExactlyOnce then AwaitingPubrec else AwaitingPuback) s c)"

lemma settled_refl: "client_ok c \<Longrightarrow> settled (cl_session c) c"
  by (simp add: settled_def restored_def)

lemma settled_kept: "settled s c \<Longrightarrow> kept c c' \<Longrightarrow> settled s c'"
  by (auto simp: settled_def kept_def restored_def same_out_def)

lemma reserved_kept: "reserved r q s c \<Longrightarrow> kept c c' \<Longrightarrow> reserved r q s c'"
  by (auto simp: reserved_def intro: settled_kept publishing_kept split: option.splits)

lemma reserved_ok: "reserved r q s c \<Longrightarrow> client_ok c"
  by (auto simp: reserved_def settled_def publishing_def split: option.splits)

lemma reserved_abort:
  "reserved r q s c \<Longrightarrow> settled s (c\<lparr>cl_session := abort_reserved r (cl_session c)\<rparr>)"
  by (auto simp: reserved_def abort_reserved_def intro: publishing_abort split: option.splits)

lemma allocated:
  assumes "client_ok c" "allocate_packet_id (cl_session c) = (r, s')"
  shows "client_ok (c\<lparr>cl_session := s'\<rparr>)" "s' = (cl_session c)\<lparr>packet_id_manager := packet_id_manager s'\<rparr>"
    "r = None \<Longrightarrow> pid_used (packet_id_manager s') = pid_used (packet_id_manager (cl_session c))"
    "r = Some i \<Longrightarrow> fresh_id i s' \<and> i \<noteq> 0 \<and> i \<notin> pid_used (packet_id_manager (cl_session c)) \<and>
       pid_used (packet_id_manager s') = insert i (pid_used (packet_id_manager (cl_session c)))"
proof -
  show "client_ok (c\<lparr>cl_session := s'\<rparr>)"
    using client_ok_step [OF assms(1) st_allocate] assms(2)
      session_limits_ops(8) [of "cl_session c"] by simp
  have p: "pid_allocate (packet_id_manager (cl_session c)) = (r, packet_id_manager s')"
    and s': "s' = (cl_session c)\<lparr>packet_id_manager := packet_id_manager s'\<rparr>"
    using assms(2) by (auto simp: allocate_packet_id_def split: prod.splits)
  show "s' = (cl_session c)\<lparr>packet_id_manager := packet_id_manager s'\<rparr>" by (fact s')
  note inv = session_invD(1) [OF client_ok_inv [OF assms(1)]]
  note used = pid_used_allocate [OF inv, unfolded p, simplified]
  show "r = None \<Longrightarrow> pid_used (packet_id_manager s') = pid_used (packet_id_manager (cl_session c))"
    using used by simp
  show "r = Some i \<Longrightarrow> fresh_id i s' \<and> i \<noteq> 0 \<and> i \<notin> pid_used (packet_id_manager (cl_session c)) \<and>
       pid_used (packet_id_manager s') = insert i (pid_used (packet_id_manager (cl_session c)))"
    using session_allocate_fresh_core [OF client_ok_inv [OF assms(1)]] assms(2) used
      pid.alloc_fresh [OF inv, of i] p by auto
qed

lemma allocated_same:
  assumes "client_ok c" "allocate_packet_id (cl_session c) = (r, s')"
  shows "qos_flow s' = qos_flow (cl_session c)" "subscription_manager s' = subscription_manager (cl_session c)"
    "flow_control s' = flow_control (cl_session c)" "session_limits s' = session_limits (cl_session c)"
    "connection_state s' = connection_state (cl_session c)"
    "server_capabilities s' = server_capabilities (cl_session c)"
  by (subst allocated(2) [OF assms], simp)+

lemma settled_exhausted:
  assumes "client_ok c" "allocate_packet_id (cl_session c) = (None, s')"
  shows "settled (cl_session c) (c\<lparr>cl_session := s'\<rparr>)"
  using allocated(1,3) [OF assms] allocated_same [OF assms] by (simp add: settled_def restored_def)

lemma publish_sent_cases:
  assumes "session_inv s" "fresh_id i s" "q \<noteq> AtMostOnce"
  shows "(\<exists>e. session_publish_sent q i s = (Err e, s)) \<or> (\<exists>s1. session_publish_sent q i s = (Ok (), s1))"
  using assms(3) fc_publish_sent_no_panic(1) [of "flow_control s"]
  by (cases q; cases "fc_publish_sent (flow_control s)") (auto simp: session_publish_sent_def Let_def)

lemma publish_sent_in_flight:
  assumes "session_inv s" "fresh_id i s" "session_publish_sent q i s = (Ok (), s1)"
    "pid_used (packet_id_manager s) - {i} = U"
  shows "in_flight i (if q = ExactlyOnce then AwaitingPubrec else AwaitingPuback)
    (s\<lparr>packet_id_manager := p\<rparr>) s1 \<longleftrightarrow> pid_used p = U"
proof -
  from session_publish_sent_Ok [OF assms(1-3)] obtain fc where fc: "fc_publish_sent (flow_control s) = Ok fc"
    and s1: "s1 = s\<lparr>flow_control := fc,
      qos_flow := qf_put i (if q = ExactlyOnce then AwaitingPubrec else AwaitingPuback) True (qos_flow s)\<rparr>" by blast
  note wf = qf_wfD(1) [OF session_invD(2) [OF assms(1)]]
  have "sat_sub (fc_outstanding_count fc) 1 = fc_outstanding_count (flow_control s)"
    using fc_send_acked [OF fc] by (metis fc_publish_acked_def flow_control.select_convs(2)
        flow_control.surjective flow_control.update_convs(2))
  moreover have "bt_remove i (outgoing (qf_put i st True (qos_flow s))) = outgoing (qos_flow s)" for st
    using qf_put_drop [OF wf fresh_idD [OF assms(2)], of st True] by (simp add: qf_drop_def)
  ultimately show ?thesis
    using assms(4) bt_get_put [OF wf, of i] by (auto simp: in_flight_def s1)
qed

lemma wp_reserve_packet_id:
  assumes "client_ok c" "is_connected (cl_session c)"
  shows "wp (reserve_packet_id q) (\<lambda>r. reserved r q (cl_session c)) (\<lambda>_. settled (cl_session c)) c"
proof (cases "q = AtMostOnce")
  case True
  then show ?thesis by (simp add: reserve_packet_id_def reserved_def settled_refl [OF assms(1)])
next
  case False
  let ?s = "cl_session c"
  obtain r s' where alloc: "allocate_packet_id ?s = (r, s')" by fastforce
  note a = allocated [OF assms(1) alloc]
  have inv: "session_inv s'" using client_ok_inv [OF a(1)] by simp
  show ?thesis
  proof (cases r)
    case None
    then show ?thesis using False settled_exhausted [OF assms(1)] alloc by (simp add: reserve_packet_id_def wp_session_op alloc)
  next
    case (Some i)
    note i = a(4) [OF Some]
    have conn: "connection_state s' = Connected" using assms(2) allocated_same [OF assms(1) alloc] by (simp add: is_connected_def)
    from publish_sent_cases [OF inv _ False, of i] i consider
      (err) e where "session_publish_sent q i s' = (Err e, s')" |
      (ok) s1 where "session_publish_sent q i s' = (Ok (), s1)" by blast
    then show ?thesis
    proof cases
      case err
      have "session_step s' (release_packet_id i s')"
        using i by (intro st_release) (simp_all add: fresh_id_def)
      then have "client_ok (c\<lparr>cl_session := release_packet_id i s'\<rparr>)"
        using client_ok_step [OF a(1), of "release_packet_id i s'"] by simp
      moreover have "pid_used (packet_id_manager (release_packet_id i s')) = pid_used (packet_id_manager ?s)"
        using i pid_used_release [OF session_invD(1) [OF inv], of i] by (simp add: release_packet_id_def)
      ultimately have "settled ?s (c\<lparr>cl_session := release_packet_id i s'\<rparr>)"
        using allocated_same [OF assms(1) alloc] by (simp add: settled_def restored_def release_packet_id_def)
      then show ?thesis using False Some err by (simp add: reserve_packet_id_def wp_session_op alloc)
    next
      case ok
      have "in_flight i (if q = ExactlyOnce then AwaitingPubrec else AwaitingPuback) ?s s1"
      proof -
        have "?s = s'\<lparr>packet_id_manager := packet_id_manager ?s\<rparr>" by (subst a(2)) simp
        with publish_sent_in_flight [OF inv _ ok, of "pid_used (packet_id_manager ?s)" "packet_id_manager ?s"] i
        show ?thesis by auto
      qed
      moreover have "client_ok (c\<lparr>cl_session := s1\<rparr>)"
        using client_ok_step [OF a(1), of s1] st_publish_sent [OF conn, of i q] i ok
          session_limits_ops(9) [of q i s'] by simp
      ultimately show ?thesis
        using False Some ok by (auto simp: reserve_packet_id_def wp_session_op alloc reserved_def publishing_def)
    qed
  qed
qed

lemma wp_client_publish:
  assumes "client_ok c" "is_connected (cl_session c)"
  shows "wp (client_publish topic payload q retain)
    (\<lambda>_. settled (cl_session c)) (settles (cl_session c)) c"
proof -
  let ?s = "cl_session c"
  have rest: "wp (case q of
       AtMostOnce \<Rightarrow> cl_return ()
     | AtLeastOnce \<Rightarrow> cl_bind (cl_lift id (expect r)) await_puback
     | ExactlyOnce \<Rightarrow> cl_bind (cl_lift id (expect r)) await_qos2_completion)
     (\<lambda>_. settled ?s) (settles ?s) c'" if "reserved r q ?s c'" for r c'
    using that by (cases q) (auto simp: reserved_def split: option.splits
        intro: wp_await_puback wp_await_qos2_completion)
  have sent: "wp (cl_cleanup (send_packet p) (abort_reserved r)) (\<lambda>_. wp (case q of
       AtMostOnce \<Rightarrow> cl_return ()
     | AtLeastOnce \<Rightarrow> cl_bind (cl_lift id (expect r)) await_puback
     | ExactlyOnce \<Rightarrow> cl_bind (cl_lift id (expect r)) await_qos2_completion)
     (\<lambda>_. settled ?s) (settles ?s)) (settles ?s) c'" if "reserved r q ?s c'" for p r c'
    by (auto intro!: wp_kept_send [OF kept_refl [OF reserved_ok [OF that]]] rest
        settles_settled [OF reserved_abort] reserved_kept [OF that])
  show ?thesis
    unfolding client_publish_def Let_def wp_simps(3) [of "reserve_packet_id q"]
  proof (rule wp_mono [OF wp_reserve_packet_id [OF assms]])
    fix r c' assume r: "reserved r q ?s c'"
    have c': "c'\<lparr>cl_session := cl_session c'\<rparr> = c'" by simp
    show "wp (cl_bind (cl_cleanup
         (session_op CapabilityFailed (\<lambda>s. (validate_outgoing_publish q retain (publish_packet_size
            (Out5Publish \<lparr>v5p_dup = False, v5p_qos = q, v5p_retain = retain, v5p_topic = topic,
              v5p_packet_id = r, v5p_properties = [], v5p_payload = payload\<rparr>)) s, s)))
         (abort_reserved r)) (\<lambda>_.
       cl_bind (cl_cleanup (send_packet (Out5Publish \<lparr>v5p_dup = False, v5p_qos = q, v5p_retain = retain,
           v5p_topic = topic, v5p_packet_id = r, v5p_properties = [], v5p_payload = payload\<rparr>))
         (abort_reserved r)) (\<lambda>_.
       case q of
         AtMostOnce \<Rightarrow> cl_return ()
       | AtLeastOnce \<Rightarrow> cl_bind (cl_lift id (expect r)) await_puback
       | ExactlyOnce \<Rightarrow> cl_bind (cl_lift id (expect r)) await_qos2_completion)))
       (\<lambda>_. settled ?s) (settles ?s) c'"
      using sent [OF r] settles_settled [OF reserved_abort [OF r]]
      by (auto simp: wp_session_op c' validate_outgoing_publish_def validate_publish_def split: result.splits option.splits)
  qed (rule settles_settled)
qed

section \<open>Subscribing\<close>

text \<open>What every request of the client leaves as it was, whatever happens to the subscriptions.\<close>

definition idle_as :: "session \<Rightarrow> session \<Rightarrow> bool" where
  "idle_as s s' \<longleftrightarrow>
     outgoing (qos_flow s') = outgoing (qos_flow s) \<and>
     pid_used (packet_id_manager s') = pid_used (packet_id_manager s) \<and>
     sub_ids (subscription_manager s') = sub_ids (subscription_manager s) \<and>
     unsub_ids (subscription_manager s') = unsub_ids (subscription_manager s) \<and>
     fc_outstanding_count (flow_control s') = fc_outstanding_count (flow_control s)"

text \<open>A SUBSCRIBE of the client that awaits its answer.\<close>

definition subscribing :: "u16 \<Rightarrow> subscription_entry list \<Rightarrow> session \<Rightarrow> client \<Rightarrow> bool" where
  "subscribing i es s c \<longleftrightarrow> client_ok c \<and> i \<notin> sub_ids (subscription_manager s) \<and>
     bt_get (sm_pending_subscribes (subscription_manager (cl_session c))) i = Some es \<and>
     (subscription_manager (cl_session c))\<lparr>sm_pending_subscribes :=
        bt_remove i (sm_pending_subscribes (subscription_manager (cl_session c)))\<rparr> = subscription_manager s \<and>
     outgoing (qos_flow (cl_session c)) = outgoing (qos_flow s) \<and>
     pid_used (packet_id_manager (cl_session c)) - {i} = pid_used (packet_id_manager s) \<and>
     fc_outstanding_count (flow_control (cl_session c)) = fc_outstanding_count (flow_control s)"

definition unsubscribing :: "u16 \<Rightarrow> rstring list \<Rightarrow> session \<Rightarrow> client \<Rightarrow> bool" where
  "unsubscribing i fs s c \<longleftrightarrow> client_ok c \<and> i \<notin> unsub_ids (subscription_manager s) \<and>
     bt_get (sm_pending_unsubscribes (subscription_manager (cl_session c))) i = Some fs \<and>
     (subscription_manager (cl_session c))\<lparr>sm_pending_unsubscribes :=
        bt_remove i (sm_pending_unsubscribes (subscription_manager (cl_session c)))\<rparr> = subscription_manager s \<and>
     outgoing (qos_flow (cl_session c)) = outgoing (qos_flow s) \<and>
     pid_used (packet_id_manager (cl_session c)) - {i} = pid_used (packet_id_manager s) \<and>
     fc_outstanding_count (flow_control (cl_session c)) = fc_outstanding_count (flow_control s)"

lemma subscribing_kept: "subscribing i es s c \<Longrightarrow> kept c c' \<Longrightarrow> subscribing i es s c'"
  by (simp add: subscribing_def kept_def same_out_def)

lemma subscribing_ok: "subscribing i es s c \<Longrightarrow> client_ok c"
  by (simp add: subscribing_def)

lemma unsubscribing_ok: "unsubscribing i fs s c \<Longrightarrow> client_ok c"
  by (simp add: unsubscribing_def)

lemma unsubscribing_kept: "unsubscribing i fs s c \<Longrightarrow> kept c c' \<Longrightarrow> unsubscribing i fs s c'"
  by (simp add: unsubscribing_def kept_def same_out_def)

text \<open>Sending and waiting in the middle of an exchange that is undone on an error.\<close>

lemma wp_recv_cleanup:
  assumes "P c" "\<And>c c'. P c \<Longrightarrow> kept c c' \<Longrightarrow> P c'" "\<And>c. P c \<Longrightarrow> client_ok c"
    "\<And>c. P c \<Longrightarrow> settled s (c\<lparr>cl_session := undo (cl_session c)\<rparr>)" "\<And>p c'. P c' \<Longrightarrow> Q p c'"
  shows "wp (cl_cleanup recv_while_connected undo) Q (\<lambda>_. settled s) c"
  unfolding wp_cleanup
  by (rule wp_recv_while_connected [OF assms(3) [OF assms(1)]])
    (use assms kept_waited [OF kept_refl [OF assms(3) [OF assms(1)]]] in blast)+

lemma wp_send_cleanup:
  assumes "P c" "\<And>c c'. P c \<Longrightarrow> kept c c' \<Longrightarrow> P c'" "\<And>c. P c \<Longrightarrow> client_ok c"
    "\<And>c. P c \<Longrightarrow> settled s (c\<lparr>cl_session := undo (cl_session c)\<rparr>)" "\<And>c'. P c' \<Longrightarrow> Q () c'"
  shows "wp (cl_cleanup (send_packet p) undo) Q (\<lambda>_. settled s) c"
  unfolding wp_cleanup
  by (rule wp_kept_send [OF kept_refl [OF assms(3) [OF assms(1)]]]) (use assms in blast)+

lemma subscribing_abort:
  assumes "subscribing i es s c"
  shows "settled s (c\<lparr>cl_session := abort_subscribe i (cl_session c)\<rparr>)"
proof -
  from assms have c: "client_ok c" "i \<in> sub_ids (subscription_manager (cl_session c))"
    by (auto simp: subscribing_def)
  show ?thesis
    using client_ok_step [OF c(1) st_abort_subscribe [OF c(2)]] assms
      pid_used_release [OF session_invD(1) [OF client_ok_inv [OF c(1)]]]
    by (simp add: settled_def restored_def subscribing_def abort_subscribe_def sm_drop_pending_subscribe_def)
qed

lemma unsubscribing_abort:
  assumes "unsubscribing i fs s c"
  shows "settled s (c\<lparr>cl_session := abort_unsubscribe i (cl_session c)\<rparr>)"
proof -
  from assms have c: "client_ok c" "i \<in> unsub_ids (subscription_manager (cl_session c))"
    by (auto simp: unsubscribing_def)
  show ?thesis
    using client_ok_step [OF c(1) st_abort_unsubscribe [OF c(2)]] assms
      pid_used_release [OF session_invD(1) [OF client_ok_inv [OF c(1)]]]
    by (simp add: settled_def restored_def unsubscribing_def abort_unsubscribe_def sm_drop_pending_unsubscribe_def)
qed

lemma subscribing_suback:
  assumes "subscribing i [se] s c" "code \<le> 2"
  shows "\<exists>r t. handle_suback i [code] (cl_session c) = (Ok r, t) \<and> client_ok (c\<lparr>cl_session := t\<rparr>) \<and>
    idle_as s t \<and> sm_is_subscribed (subscription_manager t) (se_topic_filter se)"
proof -
  from assms(1) have c: "client_ok c" "i \<in> sub_ids (subscription_manager (cl_session c))"
    by (auto simp: subscribing_def)
  let ?sm = "subscription_manager (cl_session c)" and ?e = "se\<lparr>se_granted_qos := qos_from_u8 code\<rparr>"
  have r: "(sm_suback_received i [code] ?sm :: (_, handle_suback_error) result) =
      Ok (Some [?e], sm_confirm ?e (subscription_manager s))"
    using assms by (simp add: sm_suback_received_eq subscribing_def Let_def granted_def)
  have ok: "client_ok (c\<lparr>cl_session := snd (handle_suback i [code] (cl_session c))\<rparr>)"
    using client_ok_step [OF c(1) st_suback [of i _ "[code]"]] c(2) by simp
  have pend: "sm_pending_subscribes (sm_confirm ?e sm) = sm_pending_subscribes sm"
    "sm_pending_unsubscribes (sm_confirm ?e sm) = sm_pending_unsubscribes sm" for sm
    using sm_confirm_pending [of "[?e]" sm] by simp_all
  have wf: "bt_wf (sm_active (subscription_manager s))"
    using sm_inv_wf(1) [OF session_invD(3) [OF client_ok_inv [OF c(1)]]] assms(1)
    by (auto simp: subscribing_def dest!: arg_cong [where f = sm_active])
  have sub: "sm_is_subscribed (sm_confirm ?e (subscription_manager s)) (se_topic_filter se)"
    using wf by (simp add: sm_is_subscribed_def bt_contains_def sm_confirm_eq)
  show ?thesis
    using ok assms(1) sub pend pid_used_release [OF session_invD(1) [OF client_ok_inv [OF c(1)]]]
    by (simp add: handle_suback_def r idle_as_def subscribing_def)
qed

lemma unsubscribing_unsuback:
  assumes "unsubscribing i [f] s c"
  shows "\<exists>r t. handle_unsuback i [0] (cl_session c) = (Ok r, t) \<and> client_ok (c\<lparr>cl_session := t\<rparr>) \<and>
    idle_as s t \<and> \<not> sm_is_subscribed (subscription_manager t) f"
proof -
  from assms(1) have c: "client_ok c" "i \<in> unsub_ids (subscription_manager (cl_session c))"
    by (auto simp: unsubscribing_def)
  let ?sm = "subscription_manager (cl_session c)"
  obtain l sm' where u: "sm_unsubscribe_all [f] (subscription_manager s) = (l, sm')" by fastforce
  have r: "(sm_unsuback_received i [0] ?sm :: (_, handle_unsuback_error) result) = Ok (Some l, sm')"
    using assms u by (simp add: sm_unsuback_received_eq unsubscribing_def Let_def dropped_def)
  have ok: "client_ok (c\<lparr>cl_session := snd (handle_unsuback i [0] (cl_session c))\<rparr>)"
    using client_ok_step [OF c(1) st_unsuback [of i _ "[0]"]] c(2) by simp
  have sub: "\<not> sm_is_subscribed sm' f"
    using sm_unsubscribe_all_active [OF u] by (simp add: sm_is_subscribed_def bt_contains_def)
  show ?thesis
    using ok assms(1) sub sm_unsubscribe_all_pending [OF u]
      pid_used_release [OF session_invD(1) [OF client_ok_inv [OF c(1)]]]
    by (simp add: handle_unsuback_def r idle_as_def unsubscribing_def)
qed

lemma subscribing_start:
  assumes "client_ok c" "allocate_packet_id (cl_session c) = (Some i, s')"
  shows "es \<noteq> [] \<Longrightarrow> subscribing i es (cl_session c) (c\<lparr>cl_session := session_subscribe_sent i es s'\<rparr>)"
    "fs \<noteq> [] \<Longrightarrow> unsubscribing i fs (cl_session c) (c\<lparr>cl_session := session_unsubscribe_sent i fs s'\<rparr>)"
proof -
  let ?s = "cl_session c"
  note a = allocated [OF assms]
  have i: "fresh_id i s'" "i \<noteq> 0" "pid_used (packet_id_manager s') - {i} = pid_used (packet_id_manager ?s)"
    using a(4) by auto
  note same = allocated_same [OF assms]
  note wf = sm_inv_wf(2,3) [OF session_invD(3) [OF client_ok_inv [OF assms(1)]]]
  have free: "i \<notin> sub_ids (subscription_manager ?s)" "i \<notin> unsub_ids (subscription_manager ?s)"
    using i(1) same by (auto simp: fresh_id_def)
  have ins: "bt_remove i (bt_insert i x (sm_pending_subscribes (subscription_manager ?s))) =
      sm_pending_subscribes (subscription_manager ?s)"
    "bt_remove i (bt_insert i y (sm_pending_unsubscribes (subscription_manager ?s))) =
      sm_pending_unsubscribes (subscription_manager ?s)" for x y
    using wf free by (auto intro!: bt_eqI simp: fun_eq_iff domIff)
  have ok: "client_ok (c\<lparr>cl_session := session_subscribe_sent i es s'\<rparr>)"
    "client_ok (c\<lparr>cl_session := session_unsubscribe_sent i fs s'\<rparr>)"
    using client_ok_step [OF a(1), of "session_subscribe_sent i es s'"]
      client_ok_step [OF a(1), of "session_unsubscribe_sent i fs s'"]
      st_subscribe_sent [OF i(1)] st_unsubscribe_sent [OF i(1)] by simp_all
  show "subscribing i es ?s (c\<lparr>cl_session := session_subscribe_sent i es s'\<rparr>)" if "es \<noteq> []"
    using that ok free ins i wf same
    by (simp add: subscribing_def session_subscribe_sent_def sm_subscribe_sent_def)
  show "unsubscribing i fs ?s (c\<lparr>cl_session := session_unsubscribe_sent i fs s'\<rparr>)" if "fs \<noteq> []"
    using that ok free ins i wf same
    by (simp add: unsubscribing_def session_unsubscribe_sent_def sm_unsubscribe_sent_def)
qed

definition requested :: "rstring \<Rightarrow> qos \<Rightarrow> v5_subscription" where
  "requested topic q = \<lparr>v5s_topic_filter = topic, v5s_qos = q, v5s_no_local = False,
     v5s_retain_as_published = False, v5s_retain_handling = SendRetained\<rparr>"

lemma wp_client_subscribe:
  assumes "client_ok c"
    "validate_outgoing_subscribe [subscription_entry_from (requested topic q)] (cl_session c) = Ok ()"
  shows "wp (client_subscribe topic q)
    (\<lambda>_ c'. client_ok c' \<and> idle_as (cl_session c) (cl_session c') \<and>
      sm_is_subscribed (subscription_manager (cl_session c')) topic)
    (\<lambda>_. settled (cl_session c)) c"
proof -
  let ?s = "cl_session c" and ?es = "[subscription_entry_from (requested topic q)]"
  obtain r s' where alloc: "allocate_packet_id ?s = (r, s')" by fastforce
  show ?thesis
  proof (cases r)
    case None
    then show ?thesis
      using settled_exhausted [OF assms(1)] alloc by (simp add: client_subscribe_def wp_session_op)
  next
    case (Some i)
    have start: "subscribing i ?es ?s (c\<lparr>cl_session := session_subscribe_sent i ?es s'\<rparr>)"
      using subscribing_start(1) [OF assms(1)] alloc Some by simp
    have valid: "validate_outgoing_subscribe ?es s' = Ok ()"
      using assms(2) allocated_same [OF assms(1) alloc] by (simp add: validate_outgoing_subscribe_def)
    have answer: "wp (let unexpected = cl_cleanup (cl_throw PacketUnexpected) (abort_subscribe i)
     in
     case packet of
       In5SubAck suback \<Rightarrow>
         if v5sa_packet_id suback = i then
           (case v5sa_reason_codes suback of
              [code] \<Rightarrow>
                if is_granted code then
                  cl_bind (session_op SubackFailed (handle_suback i [suback_reason_as_u8 code])) (\<lambda>_.
                  cl_return ())
                else unexpected
            | _ \<Rightarrow> unexpected)
         else unexpected
     | _ \<Rightarrow> unexpected)
     (\<lambda>_ c'. client_ok c' \<and> idle_as ?s (cl_session c') \<and>
        sm_is_subscribed (subscription_manager (cl_session c')) topic) (\<lambda>_. settled ?s) c'"
      if "subscribing i ?es ?s c'" for packet c'
    proof -
      let ?Q = "\<lambda>(_ :: unit) c'. client_ok c' \<and> idle_as ?s (cl_session c') \<and>
        sm_is_subscribed (subscription_manager (cl_session c')) topic"
      have ok: "wp (cl_bind (session_op SubackFailed (handle_suback i [suback_reason_as_u8 code]))
          (\<lambda>_. cl_return ())) ?Q (\<lambda>_. settled ?s) c'" if "is_granted code" for code
      proof -
        have "suback_reason_as_u8 code \<le> 2" using that by (cases code) simp_all
        from subscribing_suback [OF \<open>subscribing i ?es ?s c'\<close> this]
        show ?thesis by (auto simp: wp_session_op subscription_entry_from_def requested_def)
      qed
      have bad: "wp (cl_cleanup (cl_throw PacketUnexpected) (abort_subscribe i)) ?Q (\<lambda>_. settled ?s) c'"
        using subscribing_abort [OF that] by simp
      show ?thesis
        unfolding Let_def using ok bad
        by (simp del: wp_simps wp_if wp_cleanup split: v5_incoming.split list.split if_split)
    qed
    show ?thesis
      using start unfolding client_subscribe_def Let_def
      by (auto simp: wp_session_op alloc Some valid requested_def [symmetric] simp del: wp_cleanup
          intro!: wp_send_cleanup [where P = "subscribing i ?es ?s"] wp_recv_cleanup [where P = "subscribing i ?es ?s"]
            answer [unfolded Let_def]
          intro: subscribing_kept subscribing_ok subscribing_abort)
  qed
qed

lemma wp_client_unsubscribe:
  assumes "client_ok c"
  shows "wp (client_unsubscribe topic)
    (\<lambda>_ c'. client_ok c' \<and> idle_as (cl_session c) (cl_session c') \<and>
      \<not> sm_is_subscribed (subscription_manager (cl_session c')) topic)
    (\<lambda>_. settled (cl_session c)) c"
proof -
  let ?s = "cl_session c"
  obtain r s' where alloc: "allocate_packet_id ?s = (r, s')" by fastforce
  show ?thesis
  proof (cases r)
    case None
    then show ?thesis
      using settled_exhausted [OF assms(1)] alloc by (simp add: client_unsubscribe_def wp_session_op)
  next
    case (Some i)
    have start: "unsubscribing i [topic] ?s (c\<lparr>cl_session := session_unsubscribe_sent i [topic] s'\<rparr>)"
      using subscribing_start(2) [OF assms(1)] alloc Some by simp
    have answer: "wp (case packet of
       In5UnsubAck unsuback \<Rightarrow>
         if v5ua_packet_id unsuback = i then
           (case v5ua_reason_codes unsuback of
              [code] \<Rightarrow>
                if code = UaSuccess then
                  cl_bind (session_op UnsubackFailed (handle_unsuback i [unsuback_reason_as_u8 code])) (\<lambda>_.
                  cl_return ())
                else cl_cleanup (cl_throw PacketUnexpected) (abort_unsubscribe i)
            | _ \<Rightarrow> cl_cleanup (cl_throw PacketUnexpected) (abort_unsubscribe i))
         else cl_cleanup (cl_throw PacketUnexpected) (abort_unsubscribe i)
     | _ \<Rightarrow> cl_cleanup (cl_throw PacketUnexpected) (abort_unsubscribe i))
     (\<lambda>_ c'. client_ok c' \<and> idle_as ?s (cl_session c') \<and>
        \<not> sm_is_subscribed (subscription_manager (cl_session c')) topic) (\<lambda>_. settled ?s) c'"
      if "unsubscribing i [topic] ?s c'" for packet c'
    proof -
      let ?Q = "\<lambda>(_ :: unit) c'. client_ok c' \<and> idle_as ?s (cl_session c') \<and>
        \<not> sm_is_subscribed (subscription_manager (cl_session c')) topic"
      have ok: "wp (cl_bind (session_op UnsubackFailed (handle_unsuback i [unsuback_reason_as_u8 UaSuccess]))
          (\<lambda>_. cl_return ())) ?Q (\<lambda>_. settled ?s) c'"
        using unsubscribing_unsuback [OF that] by (auto simp: wp_session_op)
      have bad: "wp (cl_cleanup (cl_throw PacketUnexpected) (abort_unsubscribe i)) ?Q (\<lambda>_. settled ?s) c'"
        using unsubscribing_abort [OF that] by simp
      show ?thesis
        using ok bad
        by (simp del: wp_simps wp_if wp_cleanup unsuback_reason_as_u8.simps
            split: v5_incoming.split list.split if_split)
    qed
    show ?thesis
      using start unfolding client_unsubscribe_def Let_def
      by (auto simp: wp_session_op alloc Some simp del: wp_cleanup
          intro!: wp_send_cleanup [where P = "unsubscribing i [topic] ?s"] wp_recv_cleanup [where P = "unsubscribing i [topic] ?s"]
            answer
          intro: unsubscribing_kept unsubscribing_ok unsubscribing_abort)
  qed
qed

section \<open>Receiving messages\<close>

text \<open>The rounds of the two loops of \<open>run_subscribe_loop\<close>.\<close>

definition ready_round :: "bool option client_m" where
  "ready_round = cl_bind next_packet (\<lambda>ready. case ready of
      None \<Rightarrow> cl_return (Some False)
    | Some packet \<Rightarrow> cl_bind (handle_incoming packet) (\<lambda>over. cl_return (if over then Some True else None)))"

definition read_round :: "unit option option client_m" where
  "read_round = cl_bind stream_read (\<lambda>buf. case buf of
      None \<Rightarrow> cl_return None
    | Some data \<Rightarrow> if data = [] then cl_throw ConnectionClosed
        else cl_bind (feed_decoder data) (\<lambda>_. cl_bind handle_ready (\<lambda>over.
          cl_return (if over then Some (Some ()) else None))))"

definition wait_round :: "unit option option client_m" where
  "wait_round c = (case cl_events c of
      [] \<Rightarrow> (Ok (Some None), c)
    | CtrlC # es \<Rightarrow> (Ok (Some (Some ())), c\<lparr>cl_events := es\<rparr>)
    | _ \<Rightarrow> read_round c)"

lemma handle_ready_eq: "handle_ready = cl_loop ready_round"
  unfolding handle_ready_def ready_round_def ..

lemma run_subscribe_loop_eq: "run_subscribe_loop = cl_loop (cl_bind check_keep_alive (\<lambda>_. wait_round))"
  unfolding run_subscribe_loop_def wait_round_def read_round_def ..

text \<open>What a round of a loop promises for its termination.\<close>

definition goes_on :: "client \<Rightarrow> client \<Rightarrow> 'a option \<Rightarrow> client \<Rightarrow> bool" where
  "goes_on c0 c r c' \<longleftrightarrow> kept c0 c' \<and> (r = None \<longrightarrow> less_work c' c)"

lemma wp_loop_kept:
  assumes "\<And>c. kept c0 c \<Longrightarrow> wp body (goes_on c0 c) (\<lambda>_. kept c0) c" "client_ok c0"
  shows "wp (cl_loop body) (\<lambda>_. kept c0) (\<lambda>_. kept c0) c0"
  by (rule wp_loop [where I = "kept c0", OF _ kept_refl [OF assms(2)]])
    (rule wp_mono [OF assms(1)], auto simp: goes_on_def split: option.split)

lemma wp_ready_round:
  assumes c: "kept c0 c"
  shows "wp ready_round (goes_on c0 c) (\<lambda>_. kept c0) c"
  unfolding ready_round_def wp_simps(3) [of next_packet]
proof (rule wp_next_packet [OF waited_refl [OF kept_ok [OF c]]])
  fix r :: "v5_incoming option" and c1 assume c1: "waited c c1" "less_work c1 c" "r \<noteq> None"
  have "kept c0 c' \<and> less_work c' c" if "kept c1 c'" for c'
    using kept_trans [OF kept_waited [OF c c1(1)] that] less_work_trans(2) [OF _ c1(2)] that
    by (simp add: kept_def)
  then show "wp (case r of None \<Rightarrow> cl_return (Some False) | Some packet \<Rightarrow>
      cl_bind (handle_incoming packet) (\<lambda>over. cl_return (if over then Some True else None)))
      (goes_on c0 c) (\<lambda>_. kept c0) c1"
    using c1(3) by (auto simp: goes_on_def intro!: wp_handle_incoming [OF kept_refl [OF waited_ok [OF c1(1)]]])
qed (auto simp: goes_on_def kept_waited [OF c])

lemma wp_handle_ready: "client_ok c \<Longrightarrow> wp handle_ready (\<lambda>_. kept c) (\<lambda>_. kept c) c"
  unfolding handle_ready_eq by (rule wp_loop_kept [OF wp_ready_round])

lemma wp_read_round:
  assumes c: "kept c0 c" "waited c c1" "cl_events c1 \<noteq> []"
  shows "wp read_round (goes_on c0 c) (\<lambda>_. kept c0) c1"
  unfolding read_round_def wp_simps(3) [of stream_read]
proof (rule wp_stream_read [OF c(2,3)])
  fix r c2 assume c2: "waited c c2" "length (cl_events c2) < length (cl_events c)"
  have ready: "wp (cl_bind handle_ready (\<lambda>over. cl_return (if over then Some (Some ()) else None)))
      (goes_on c0 c) (\<lambda>_. kept c0) c3" if c3: "waited c c3" "cl_events c3 = cl_events c2" for c3
  proof -
    have "less_work c3 c" using c2(2) c3(2) by (intro later_less_work) simp
    then have "kept c0 c' \<and> less_work c' c" if "kept c3 c'" for c'
      using kept_trans [OF kept_waited [OF c(1) c3(1)] that] less_work_trans(2) that by (auto simp: kept_def)
    then show ?thesis
      unfolding wp_simps
      by (intro wp_mono [OF wp_handle_ready [OF waited_ok [OF c3(1)]]]) (auto simp: goes_on_def)
  qed
  have "wp (cl_bind (feed_decoder data) (\<lambda>_. cl_bind handle_ready (\<lambda>over.
      cl_return (if over then Some (Some ()) else None)))) (goes_on c0 c) (\<lambda>_. kept c0) c2" for data
    unfolding wp_simps(3) [of "feed_decoder _"]
    by (rule wp_feed_decoder [OF c2]) (auto intro!: ready kept_waited [OF c(1)] simp del: wp_simps)
  then show "wp (case r of None \<Rightarrow> cl_return None
    | Some data \<Rightarrow> if data = [] then cl_throw ConnectionClosed
        else cl_bind (feed_decoder data) (\<lambda>_. cl_bind handle_ready (\<lambda>over.
          cl_return (if over then Some (Some ()) else None)))) (goes_on c0 c) (\<lambda>_. kept c0) c2"
    using kept_waited [OF c(1) c2(1)] later_less_work [OF c2(2)]
    by (cases r) (simp_all add: goes_on_def del: wp_simps(3))
qed (rule kept_waited [OF c(1)])

lemma wait_round_cases:
  obtains "cl_events c = []" "wait_round c = (Ok (Some None), c)"
  | es where "cl_events c = CtrlC # es" "wait_round c = (Ok (Some (Some ())), c\<lparr>cl_events := es\<rparr>)"
  | e es where "cl_events c = e # es" "e \<noteq> CtrlC" "wait_round c = read_round c"
  by (cases "cl_events c"; cases "hd (cl_events c)") (auto simp: wait_round_def)

lemma wp_wait_round:
  assumes c: "kept c0 c" "waited c c1"
  shows "wp wait_round (goes_on c0 c) (\<lambda>_. kept c0) c1"
proof (cases rule: wait_round_cases [of c1])
  case 1
  then show ?thesis using kept_waited [OF c] by (simp add: wp_def goes_on_def)
next
  case 2
  then show ?thesis using kept_waited [OF c(1) waited_events [OF c(2)]] by (simp add: wp_def goes_on_def)
next
  case 3
  then show ?thesis using wp_read_round [OF c] wp_cong [of wait_round c1 read_round] by simp
qed

lemma wp_subscribe_round:
  assumes "kept c0 c"
  shows "wp (cl_bind check_keep_alive (\<lambda>_. wait_round)) (goes_on c0 c) (\<lambda>_. kept c0) c"
  unfolding wp_simps
  by (rule wp_check_keep_alive [OF waited_refl [OF kept_ok [OF assms]]])
    (auto intro: wp_wait_round [OF assms] kept_waited [OF assms])

lemma wp_run_subscribe_loop: "client_ok c \<Longrightarrow> wp run_subscribe_loop (\<lambda>_. kept c) (\<lambda>_. kept c) c"
  unfolding run_subscribe_loop_eq by (rule wp_loop_kept [OF wp_subscribe_round])

lemma wp_kept_deadline:
  assumes "kept c0 c" "\<And>over c'. kept c0 c' \<Longrightarrow> Q over c'"
  shows "wp deadline_passed Q E c"
  by (rule wp_deadline_passed [OF waited_refl [OF kept_ok [OF assms(1)]]])
    (use assms kept_waited [OF assms(1)] in auto)

lemma wp_kept_recv:
  assumes "kept c0 c" "\<And>p c'. kept c0 c' \<Longrightarrow> Q p c'" "\<And>e c'. kept c0 c' \<Longrightarrow> E e c'"
  shows "wp recv_while_connected Q E c"
  by (rule wp_recv_while_connected [OF kept_ok [OF assms(1)]]) (use assms kept_waited [OF assms(1)] in auto)

text \<open>The rounds of \<open>recv_publish\<close>, from the packet that begins the round.\<close>

definition recv_publish_packet :: "v5_incoming \<Rightarrow> v5_publish option client_m" where
  "recv_publish_packet packet =
     (case packet of
        In5Publish publish \<Rightarrow>
          (case v5p_qos publish of
             AtMostOnce \<Rightarrow> cl_return (Some publish)
           | AtLeastOnce \<Rightarrow>
               cl_bind (cl_lift id (ok_or PacketUnexpected (v5p_packet_id publish))) (\<lambda>packet_id.
               cl_bind (session_op FlowControlFailed (handle_publish_qos1 packet_id)) (\<lambda>_.
               cl_bind (send_puback packet_id) (\<lambda>_.
               cl_bind (on_session (session_puback_sent packet_id)) (\<lambda>_.
               cl_return (Some publish)))))
           | ExactlyOnce \<Rightarrow>
               cl_bind (cl_lift id (ok_or PacketUnexpected (v5p_packet_id publish))) (\<lambda>packet_id.
               cl_bind (session_op FlowControlFailed (handle_publish_qos2 packet_id)) (\<lambda>act.
               cl_bind (send_pubrec packet_id) (\<lambda>_.
               cl_bind (on_session (session_pubrec_sent (pubrec_reason_as_u8 PrSuccess))) (\<lambda>_.
               cl_bind deadline_passed (\<lambda>over.
               if over then cl_throw OperationTimeout
               else
                 cl_bind recv_while_connected (\<lambda>packet.
                 case packet of
                   In5PubRel pubrel \<Rightarrow>
                     if v5_pubrel_packet_id pubrel = packet_id then
                       cl_bind (session_op FlowFailed (handle_pubrel packet_id)) (\<lambda>released.
                       cl_bind (cl_lift id (ok_or PacketUnexpected released)) (\<lambda>_.
                       cl_bind (send_pubcomp packet_id) (\<lambda>_.
                       cl_bind (on_session session_pubcomp_sent) (\<lambda>_.
                       cl_return (if is_duplicate_pubrec act then None else Some publish)))))
                     else cl_throw PacketUnexpected
                 | _ \<Rightarrow> cl_throw PacketUnexpected)))))))
      | In5PingResp _ \<Rightarrow> cl_bind (on_session session_pingresp_received) (\<lambda>_. cl_return None)
      | other \<Rightarrow>
          cl_bind (handle_incoming other) (\<lambda>over.
          if over then cl_throw ConnectionClosed else cl_return None))"

lemma recv_publish_eq:
  "recv_publish = cl_loop (cl_bind deadline_passed (\<lambda>over.
     if over then cl_throw OperationTimeout else cl_bind recv_while_connected recv_publish_packet))"
  unfolding recv_publish_def recv_publish_packet_def ..

lemma wp_recv_publish_packet:
  assumes "kept c0 c" "\<And>r c'. kept c0 c' \<Longrightarrow> Q r c'" "\<And>e c'. kept c0 c' \<Longrightarrow> E e c'"
  shows "wp (recv_publish_packet p) Q E c"
proof -
  have rel: "wp (case packet of
       In5PubRel pubrel \<Rightarrow>
         if v5_pubrel_packet_id pubrel = i then
           cl_bind (session_op FlowFailed (handle_pubrel i)) (\<lambda>released.
           cl_bind (cl_lift id (ok_or PacketUnexpected released)) (\<lambda>_.
           cl_bind (send_pubcomp i) (\<lambda>_.
           cl_bind (on_session session_pubcomp_sent) (\<lambda>_. cl_return r))))
         else cl_throw PacketUnexpected
     | _ \<Rightarrow> cl_throw PacketUnexpected) Q E c'" if "kept c0 c'" for packet i r c'
  proof -
    have "wp (cl_lift id (ok_or PacketUnexpected released)) (\<lambda>_. wp (send_pubcomp i) (\<lambda>_.
        wp (on_session session_pubcomp_sent) (\<lambda>_. wp (cl_return r) Q E) E) E) E c''" if "kept c0 c''" for released c''
      using that by (cases released)
        (auto simp: send_pubcomp_def intro!: wp_kept_send [of c0] wp_kept_session assms(2,3))
    with that show ?thesis
      by (auto simp: handler_no_panic simp del: wp_lift split: v5_incoming.split
          intro!: wp_kept_op [of c0] st_pubrel assms(2,3))
  qed
  have lift: "wp (cl_lift id (ok_or PacketUnexpected (v5p_packet_id x))) P E c \<longleftrightarrow>
      (case v5p_packet_id x of None \<Rightarrow> E PacketUnexpected c | Some i \<Rightarrow> P i c)" for x P
    by (cases "v5p_packet_id x") simp_all
  show ?thesis
  proof (cases p)
    case (In5Publish x)
    then show ?thesis
      using assms(1)
      by (auto simp: recv_publish_packet_def lift handler_no_panic send_puback_def send_pubrec_def
          split: qos.split option.split simp del: wp_lift
          intro!: wp_kept_op [of c0] wp_kept_send [of c0] wp_kept_session wp_kept_deadline [of c0]
            wp_kept_recv [of c0] st_publish_qos1 st_publish_qos2 rel assms(2,3))
  qed (use assms(1) in \<open>auto simp: recv_publish_packet_def intro!: wp_handle_incoming [of c0]
      wp_kept_session assms(2,3)\<close>)
qed

lemma wp_recv_publish:
  assumes "client_ok c0"
  shows "wp recv_publish (\<lambda>_. kept c0) (\<lambda>_. kept c0) c0"
  unfolding recv_publish_eq
proof (rule wp_loop [where I = "kept c0"])
  fix c assume c: "kept c0 c"
  let ?Q = "\<lambda>r c'. case r of None \<Rightarrow> kept c0 c' \<and> less_work c' c | Some x \<Rightarrow> kept c0 c'"
  have packet: "wp (recv_publish_packet p) ?Q (\<lambda>_. kept c0) c2" if "waited c1 c2" "less_work c2 c1" "waited c c1"
    for p c1 c2
  proof (rule wp_recv_publish_packet [OF kept_refl [OF waited_ok [OF that(1)]]])
    fix r c' assume c': "kept c2 c'"
    then have "less_work c' c1" using less_work_trans(2) [OF _ that(2)] by (simp add: kept_def)
    then have "less_work c' c" using less_work_trans(1) that(3) by (auto simp: waited_def)
    then show "?Q r c'"
      using kept_trans [OF kept_waited [OF kept_waited [OF c that(3)] that(1)] c'] by (simp split: option.split)
  qed (rule kept_trans [OF kept_waited [OF kept_waited [OF c that(3)] that(1)]])
  show "wp (cl_bind deadline_passed (\<lambda>over.
      if over then cl_throw OperationTimeout else cl_bind recv_while_connected recv_publish_packet))
      ?Q (\<lambda>_. kept c0) c"
    using kept_waited [OF c] packet waited_refl [OF kept_ok [OF c]]
    by (auto intro!: wp_deadline_passed [OF waited_refl [OF kept_ok [OF c]]]
        wp_recv_while_connected [OF kept_ok [OF c]])
qed (rule kept_refl [OF assms])

section \<open>Opening and closing the connection\<close>

text \<open>A session with nothing in progress in either direction.\<close>

definition no_exchanges :: "session \<Rightarrow> bool" where
  "no_exchanges s \<longleftrightarrow> qos_flow s = qf_new \<and> packet_id_manager s = pid_new \<and>
     subscription_manager s = sm_new \<and> fc_outstanding_count (flow_control s) = 0"

definition connecting :: "client \<Rightarrow> bool" where
  "connecting c \<longleftrightarrow> client_ok c \<and> no_exchanges (cl_session c) \<and> connection_state (cl_session c) = Connecting"

lemma connecting_waited: "connecting c \<Longrightarrow> waited c c' \<Longrightarrow> connecting c'"
  by (auto simp: connecting_def waited_def quiet_def no_exchanges_def)

lemma wp_connecting_connack:
  assumes "connecting c"
  shows "wp (session_op ConnackFailed (apply_connack p))
    (\<lambda>_ c'. client_ok c' \<and> is_connected (cl_session c') \<and> no_exchanges (cl_session c'))
    (\<lambda>_ c'. client_ok c' \<and> \<not> is_connected (cl_session c')) c"
proof -
  let ?s = "cl_session c"
  from assms have c: "client_ok c" "no_exchanges ?s" "connection_state ?s = Connecting"
    by (simp_all add: connecting_def)
  have auth: "auth_inv (auth_state ?s)" using session_invD(4) [OF client_ok_inv [OF c(1)]] .
  show ?thesis
  proof (rule apply_connack_cases [OF auth, of p])
    fix e assume "apply_connack p ?s = (Err e, ?s)"
    then show ?thesis using c by (simp add: wp_session_op is_connected_def)
  next
    fix s' assume ok: "apply_connack p ?s = (Ok (), s')"
    from apply_connack_Ok_eq [OF ok] obtain a where
      s': "s' = params_applied p (session_connected (p_session_present p) (?s\<lparr>auth_state := a\<rparr>))" by blast
    have "session_limits s' = session_limits ?s" "connection_state s' = Connected" "no_exchanges s'"
      using c(2) by (auto simp: s' params_applied_def session_connected_def reset_session_state_def Let_def
          no_exchanges_def split: option.split)
    moreover from this have "client_ok (c\<lparr>cl_session := s'\<rparr>)"
      using client_ok_step [OF c(1) st_apply_connack [of _ p]] ok by simp
    ultimately show ?thesis by (simp add: wp_session_op ok is_connected_def)
  qed
qed

lemma client_ok_limits:
  "client_ok c \<Longrightarrow> c\<lparr>cl_decoder := decoder_set_limits (session_limits (cl_session c)) (cl_decoder c)\<rparr> = c"
  by (simp add: client_ok_def decoder_set_limits_def)

lemma connecting_start:
  assumes "client_ok c" "session_new_v5 ident clean = Ok s"
  shows "\<exists>t. configure_for_connect secs 0 0 65535 0 s = (Ok (), t) \<and>
    connecting (c\<lparr>cl_session := connect_sent t\<rparr>)"
proof -
  let ?t = "snd (configure_for_connect secs 0 0 65535 0 s)"
  from assms(2) have s: "s = \<lparr>protocol_version = V5, connection_state = Disconnected, client_id = ident,
      clean_start = clean, session_expiry_interval = 0, packet_id_manager = pid_new, qos_flow = qf_new,
      flow_control = fc_new, subscription_manager = sm_new, topic_alias_manager = ta_new,
      keep_alive = ka_new 0, auth_state = auth_new, server_capabilities = capabilities_new,
      session_limits = limits_new\<rparr>"
    by (simp add: session_new_v5_def session_new_def)
  have conf: "configure_for_connect secs 0 0 65535 0 s = (Ok (), ?t)"
    by (simp add: configure_for_connect_def fc_set_own_receive_maximum_def Let_def)
  have t: "session_limits ?t = limits_new" "qos_flow ?t = qf_new" "packet_id_manager ?t = pid_new"
    "subscription_manager ?t = sm_new"
    by (simp_all add: configure_for_connect_def fc_set_own_receive_maximum_def Let_def s)
  have "session_reachable s" using assms(2) session_reachable.reach_new by (simp add: session_new_v5_def)
  moreover have "\<not> session_is_active s" by (simp add: s session_is_active_def)
  ultimately have "session_reachable (connect_sent ?t)"
    by (blast intro: session_reachable.reach_step st_configure st_connect_sent)
  then have "connecting (c\<lparr>cl_session := connect_sent ?t\<rparr>)"
    using assms(1) t
    by (simp add: connecting_def client_ok_def no_exchanges_def connect_sent_def reset_connection_state_def
        fc_reset_def Let_def qf_clear_quota_charges_def qf_new_def bt_map_values_def)
  with conf show ?thesis by blast
qed

lemma wp_connect_with_options:
  assumes "client_ok c"
  shows "wp (connect_with_options ident secs clean will props)
    (\<lambda>_ c'. client_ok c' \<and> is_connected (cl_session c') \<and> no_exchanges (cl_session c'))
    (\<lambda>_ c'. client_ok c' \<and> \<not> is_connected (cl_session c')) c"
    (is "wp _ ?Q ?E c")
proof -
  obtain s where s: "session_new_v5 ident clean = Ok s"
    by (simp add: session_new_v5_def session_new_def)
  from connecting_start [OF assms s, of secs] obtain t where
    t: "configure_for_connect secs 0 0 65535 0 s = (Ok (), t)" "connecting (c\<lparr>cl_session := connect_sent t\<rparr>)"
    by blast
  have off: "?E e c'" if "connecting c'" for e :: client_error and c'
    using that by (simp add: connecting_def is_connected_def)
  have connack: "wp (cl_bind (session_op ConnackFailed (apply_connack p)) (\<lambda>_ c.
      (Ok (), c\<lparr>cl_decoder := decoder_set_limits (session_limits (cl_session c)) (cl_decoder c)\<rparr>)))
      ?Q ?E c'" if "connecting c'" for p c'
    unfolding wp_simps
    by (rule wp_mono [OF wp_connecting_connack [OF that]]) (simp_all add: wp_def client_ok_limits)
  have answer: "wp (case packet of
       In5ConnAck connack \<Rightarrow>
         if v5ca_reason_code connack \<noteq> Success then cl_throw (ConnectRefused (v5ca_reason_code connack))
         else
           cl_bind (session_op ConnackFailed (apply_connack (connack_params_from connack))) (\<lambda>_ c.
           (Ok (), c\<lparr>cl_decoder := decoder_set_limits (session_limits (cl_session c)) (cl_decoder c)\<rparr>))
     | _ \<Rightarrow> cl_throw PacketUnexpected) ?Q ?E c'" if "connecting c'" for packet c'
    using connack [OF that] off [OF that]
    by (auto simp del: wp_simps(3) split: v5_incoming.split)
  have ok: "client_ok c'" if "connecting c'" for c' using that by (simp add: connecting_def)
  show ?thesis
    unfolding connect_with_options_def Let_def
    by (auto simp: s t wp_session_op intro!: wp_send_packet [OF waited_refl [OF ok [OF t(2)]]]
        wp_recv_packet answer ok off connecting_waited [OF t(2)] intro: waited_trans)
qed

lemma wp_client_disconnect:
  assumes "client_ok c"
  shows "wp client_disconnect
    (\<lambda>_ c'. client_ok c' \<and> same_out (cl_session c) (cl_session c') \<and> \<not> session_is_active (cl_session c'))
    (\<lambda>_ c'. client_ok c' \<and> same_out (cl_session c) (cl_session c') \<and> \<not> session_is_active (cl_session c')) c"
proof (cases "session_is_active (cl_session c)")
  case False
  then show ?thesis using assms kept_refl [OF assms] by (simp add: client_disconnect_def kept_def)
next
  case True
  let ?c = "c\<lparr>cl_session := disconnect_sent (cl_session c)\<rparr>"
  have k: "kept c ?c" by (rule wp_kept_session [OF kept_refl [OF assms]])
  have "kept c c' \<and> \<not> session_is_active (cl_session c') \<and>
      kept c (c'\<lparr>cl_session := session_disconnected (cl_session c')\<rparr>) \<and>
      \<not> session_is_active (session_disconnected (cl_session c'))" if "waited ?c c'" for c'
    using kept_waited [OF k that] that wp_kept_session(7) [OF kept_waited [OF k that]]
    by (auto simp: waited_def quiet_def session_is_active_def disconnect_sent_def session_disconnected_def)
  with True show ?thesis
    by (auto simp: client_disconnect_def kept_def intro!: wp_send_packet [OF waited_refl [OF kept_ok [OF k]]])
qed

section \<open>The claims\<close>

text \<open>
  Every client: one is made on a new transport, any of its operations may be called at any time and
  whatever their result, with a PUBLISH only on a connection that is open; between the operations the
  transport and the clock do what they like.
\<close>

inductive client_reachable :: "client \<Rightarrow> bool" where
  cr_new: "client_new events write_results clock = Ok c \<Longrightarrow> client_reachable c"
| cr_world: "client_reachable c \<Longrightarrow>
    client_reachable (c\<lparr>cl_events := events, cl_writes := write_results, cl_clock := clock\<rparr>)"
| cr_connect: "client_reachable c \<Longrightarrow>
    client_reachable (snd (connect_with_options ident secs clean will props c))"
| cr_publish: "client_reachable c \<Longrightarrow> is_connected (cl_session c) \<Longrightarrow>
    client_reachable (snd (client_publish topic payload q retain c))"
| cr_subscribe: "client_reachable c \<Longrightarrow> client_reachable (snd (client_subscribe topic q c))"
| cr_unsubscribe: "client_reachable c \<Longrightarrow> client_reachable (snd (client_unsubscribe topic c))"
| cr_recv: "client_reachable c \<Longrightarrow> client_reachable (snd (recv_publish c))"
| cr_loop: "client_reachable c \<Longrightarrow> client_reachable (snd (run_subscribe_loop c))"
| cr_disconnect: "client_reachable c \<Longrightarrow> client_reachable (snd (client_disconnect c))"

lemma wp_snd: "wp m (\<lambda>_. P) (\<lambda>_. P) c \<Longrightarrow> P (snd (m c))"
  by (auto simp: wp_def split: prod.splits result.splits)


lemma client_ok_new: "client_new events write_results clock = Ok c \<Longrightarrow> client_ok c"
  using session_reachable.reach_new [of V5 "[]" True] decoder_inv_new(1) [of V5 limits_new]
  by (auto simp: client_new_def session_new_v5_def session_new_def client_ok_def decoder_with_limits_def
      decoder_new_def)

text \<open>A SUBSCRIBE that the server's capabilities rule out.\<close>

lemma client_subscribe_rejected:
  assumes "client_ok c"
    "validate_outgoing_subscribe [subscription_entry_from (requested topic q)] (cl_session c) = Err e"
  shows "wp (client_subscribe topic q) (\<lambda>_ _. False)
    (\<lambda>e' c'. client_ok c' \<and>
      (pid_used (packet_id_manager (cl_session c)) = - {0} \<and> e' = PacketIdExhausted \<or>
       e' = CapabilityFailed e \<and>
       (\<exists>i. i \<notin> pid_used (packet_id_manager (cl_session c)) \<and> fresh_id i (cl_session c') \<and>
         pid_used (packet_id_manager (cl_session c')) = insert i (pid_used (packet_id_manager (cl_session c)))))) c"
proof -
  obtain r s' where alloc: "allocate_packet_id (cl_session c) = (r, s')" by fastforce
  have v: "validate_outgoing_subscribe [subscription_entry_from (requested topic q)] s' = Err e"
    using assms(2) allocated_same [OF assms(1) alloc] by (simp add: validate_outgoing_subscribe_def)
  show ?thesis
  proof (cases r)
    case None
    have "pid_used (packet_id_manager (cl_session c)) = - {0}"
      using session_allocate_fresh_core [OF client_ok_inv [OF assms(1)]] alloc None by simp
    then show ?thesis
      using allocated(1) [OF assms(1) alloc] None alloc by (simp add: client_subscribe_def wp_session_op)
  next
    case (Some i)
    have "client_ok (c\<lparr>cl_session := s'\<rparr>) \<and> i \<notin> pid_used (packet_id_manager (cl_session c)) \<and> fresh_id i s' \<and>
        pid_used (packet_id_manager s') = insert i (pid_used (packet_id_manager (cl_session c)))"
      using allocated(1,4) [OF assms(1) alloc] Some by auto
    then show ?thesis
      using alloc Some v by (auto simp: client_subscribe_def Let_def wp_session_op requested_def [symmetric])
  qed
qed

lemma wp_subscribe_ok:
  assumes "client_ok c"
  shows "wp (client_subscribe topic q) (\<lambda>_. client_ok) (\<lambda>_. client_ok) c"
proof (cases "validate_outgoing_subscribe [subscription_entry_from (requested topic q)] (cl_session c)")
  case (Ok u)
  then show ?thesis
    by (intro wp_mono [OF wp_client_subscribe [OF assms]]) (simp_all add: settled_def)
next
  case (Err e)
  show ?thesis by (rule wp_mono [OF client_subscribe_rejected [OF assms Err]]) simp_all
next
  case Panic
  then show ?thesis
    using validate_subscribe_no_panic unfolding validate_outgoing_subscribe_def by blast
qed

lemma wp_operations:
  assumes "client_ok c"
  shows "wp (connect_with_options ident secs clean will props) (\<lambda>_. client_ok) (\<lambda>_. client_ok) c"
    "is_connected (cl_session c) \<Longrightarrow> wp (client_publish topic payload q retain) (\<lambda>_. client_ok) (\<lambda>_. client_ok) c"
    "wp (client_subscribe topic q) (\<lambda>_. client_ok) (\<lambda>_. client_ok) c"
    "wp (client_unsubscribe topic) (\<lambda>_. client_ok) (\<lambda>_. client_ok) c"
    "wp recv_publish (\<lambda>_. client_ok) (\<lambda>_. client_ok) c"
    "wp run_subscribe_loop (\<lambda>_. client_ok) (\<lambda>_. client_ok) c"
    "wp client_disconnect (\<lambda>_. client_ok) (\<lambda>_. client_ok) c"
  by (rule wp_mono [OF wp_connect_with_options [OF assms]] wp_mono [OF wp_client_publish [OF assms]]
      wp_subscribe_ok [OF assms] wp_mono [OF wp_client_unsubscribe [OF assms]]
      wp_mono [OF wp_recv_publish [OF assms]] wp_mono [OF wp_run_subscribe_loop [OF assms]]
      wp_mono [OF wp_client_disconnect [OF assms]];
      simp add: settled_def settles_def kept_ok)+

lemma client_reachable_ok: "client_reachable c \<Longrightarrow> client_ok c"
  by (induction rule: client_reachable.induct) (auto intro: client_ok_new wp_snd [OF wp_operations(1)]
      wp_snd [OF wp_operations(2)] wp_snd [OF wp_operations(3)] wp_snd [OF wp_operations(4)]
      wp_snd [OF wp_operations(5)] wp_snd [OF wp_operations(6)] wp_snd [OF wp_operations(7)])

text \<open>
  C5: Whatever the peer sends and the transport does, the client uses the library according to its calling
  contract: the session of every reachable client is a reachable session, so that its invariant holds,
  and the decoder satisfies its own invariant, with the default limits on both.
\<close>

theorem client_keeps_contract:
  assumes "client_reachable c"
  shows "session_reachable (cl_session c) \<and> session_inv (cl_session c) \<and> decoder_inv (cl_decoder c) \<and>
    session_limits (cl_session c) = limits_new \<and> dec_limits (cl_decoder c) = limits_new"
  using client_reachable_ok [OF assms] client_ok_inv [OF client_reachable_ok [OF assms]]
  by (simp add: client_ok_def)

theorem client_keeps_contract_witness:
  "\<exists>c. client_new [Arrived [0x20, 3, 0, 0, 0]] [True] [7] = Ok c \<and>
     session_reachable (cl_session (snd (connect_with_options [97] 60 True None [] c)))"
proof -
  obtain c where c: "client_new [Arrived [0x20, 3, 0, 0, 0]] [True] [7] = Ok c"
    by (simp add: client_new_def session_new_v5_def session_new_def)
  from client_keeps_contract [OF cr_connect [OF cr_new [OF c]]] c show ?thesis by blast
qed


text \<open>A client whose connection has been accepted, with a script of events.\<close>

definition demo_client :: "io_event list \<Rightarrow> client" where
  "demo_client events =
     \<lparr>cl_session = snd (apply_connack demo_connack (connect_sent demo_session)), cl_decoder = decoder_new V5,
      cl_events = events, cl_writes = [], cl_clock = [], cl_written = [], cl_messages = []\<rparr>"

lemma demo_client:
  "client_ok (demo_client events)" "is_connected (cl_session (demo_client events))"
  "no_exchanges (cl_session (demo_client events))"
proof -
  let ?c = "(demo_client events)\<lparr>cl_session := connect_sent demo_session\<rparr>"
  have "client_ok ?c"
    using demo_reachable decoder_inv_new(1) [of V5 limits_new]
    by (simp add: client_ok_def demo_client_def demo_session_def connect_sent_def reset_connection_state_def
        decoder_with_limits_def decoder_new_def)
  then have c: "connecting ?c"
    by (simp add: connecting_def no_exchanges_def connect_sent_def reset_connection_state_def demo_session_def
        fc_reset_def Let_def qf_clear_quota_charges_def qf_new_def bt_map_values_def)
  obtain s where s: "apply_connack demo_connack (connect_sent demo_session) = (Ok (), s)"
    using demo_connected by blast
  have eq: "?c\<lparr>cl_session := s\<rparr> = demo_client events" by (simp add: demo_client_def s)
  then have s': "s = cl_session (demo_client events)" by (simp add: demo_client_def s)
  have r: "client_ok (?c\<lparr>cl_session := s\<rparr>)" "is_connected s" "no_exchanges s"
    using wp_connecting_connack [OF c, of demo_connack] by (simp_all add: wp_session_op s)
  show "client_ok (demo_client events)" using r(1) unfolding eq .
  show "is_connected (cl_session (demo_client events))" "no_exchanges (cl_session (demo_client events))"
    using r(2,3) unfolding s' .
qed




text \<open>
  C8: A request of the client for a subscription or its removal succeeds only if the table of
  subscriptions then has the topic filter or has it no longer, with no identifier or request left
  over, and otherwise leaves the session as it was. The exception is a SUBSCRIBE that the
  capabilities of the server rule out: it takes an identifier from the pool that no exchange uses and
  that nothing gives back.
\<close>

theorem client_requests_settle:
  assumes "client_ok c"
  shows "(case validate_outgoing_subscribe [subscription_entry_from (requested topic q)] (cl_session c) of
        Ok _ \<Rightarrow>
          (case client_subscribe topic q c of
             (Ok _, c') \<Rightarrow> idle_as (cl_session c) (cl_session c') \<and>
               sm_is_subscribed (subscription_manager (cl_session c')) topic
           | (Err _, c') \<Rightarrow> restored (cl_session c) (cl_session c')
           | (Panic, c') \<Rightarrow> False)
      | Err e \<Rightarrow>
          (case client_subscribe topic q c of
             (Err e', c') \<Rightarrow>
               pid_used (packet_id_manager (cl_session c)) = - {0} \<and> e' = PacketIdExhausted \<or>
               e' = CapabilityFailed e \<and>
               (\<exists>i. i \<notin> pid_used (packet_id_manager (cl_session c)) \<and> fresh_id i (cl_session c') \<and>
                 pid_used (packet_id_manager (cl_session c')) = insert i (pid_used (packet_id_manager (cl_session c))))
           | _ \<Rightarrow> False)
      | Panic \<Rightarrow> False) \<and>
    (case client_unsubscribe topic c of
       (Ok _, c') \<Rightarrow> idle_as (cl_session c) (cl_session c') \<and>
         \<not> sm_is_subscribed (subscription_manager (cl_session c')) topic
     | (Err _, c') \<Rightarrow> restored (cl_session c) (cl_session c')
     | (Panic, c') \<Rightarrow> False)"
proof (rule conjI)
  show "case client_unsubscribe topic c of
       (Ok _, c') \<Rightarrow> idle_as (cl_session c) (cl_session c') \<and>
         \<not> sm_is_subscribed (subscription_manager (cl_session c')) topic
     | (Err _, c') \<Rightarrow> restored (cl_session c) (cl_session c')
     | (Panic, c') \<Rightarrow> False"
    using wp_client_unsubscribe [OF assms, of topic]
    by (auto simp: wp_def settled_def split: prod.splits result.splits)
next
  show "case validate_outgoing_subscribe [subscription_entry_from (requested topic q)] (cl_session c) of
        Ok _ \<Rightarrow>
          (case client_subscribe topic q c of
             (Ok _, c') \<Rightarrow> idle_as (cl_session c) (cl_session c') \<and>
               sm_is_subscribed (subscription_manager (cl_session c')) topic
           | (Err _, c') \<Rightarrow> restored (cl_session c) (cl_session c')
           | (Panic, c') \<Rightarrow> False)
      | Err e \<Rightarrow>
          (case client_subscribe topic q c of
             (Err e', c') \<Rightarrow>
               pid_used (packet_id_manager (cl_session c)) = - {0} \<and> e' = PacketIdExhausted \<or>
               e' = CapabilityFailed e \<and>
               (\<exists>i. i \<notin> pid_used (packet_id_manager (cl_session c)) \<and> fresh_id i (cl_session c') \<and>
                 pid_used (packet_id_manager (cl_session c')) = insert i (pid_used (packet_id_manager (cl_session c))))
           | _ \<Rightarrow> False)
      | Panic \<Rightarrow> False"
  proof (cases "validate_outgoing_subscribe [subscription_entry_from (requested topic q)] (cl_session c)")
    case (Ok u)
    then show ?thesis
      using wp_client_subscribe [OF assms, of topic q]
      by (auto simp: wp_def settled_def split: prod.splits result.splits)
  next
    case (Err e)
    then show ?thesis
      using client_subscribe_rejected [OF assms Err]
      by (auto simp: wp_def split: prod.splits result.splits)
  next
    case Panic
    then show ?thesis
      using validate_subscribe_no_panic unfolding validate_outgoing_subscribe_def by blast
  qed
qed

theorem client_requests_settle_witness:
  "case client_unsubscribe [97] (demo_client [Elapsed]) of
     (Ok _, c') \<Rightarrow> \<not> sm_is_subscribed (subscription_manager (cl_session c')) [97]
   | (Err _, c') \<Rightarrow> restored (cl_session (demo_client [Elapsed])) (cl_session c')
   | (Panic, c') \<Rightarrow> False"
  using client_requests_settle [OF demo_client(1) [of "[Elapsed]"], of "[97]" AtMostOnce]
  by (auto split: prod.splits result.splits)

text \<open>
  C15: Opening a connection, on whichever client it is called, ends with a connected session that has no
  exchange in progress in either direction, all identifiers and the whole send quota free, or with an error
  and a session that is not connected.
\<close>

theorem client_connect_outcome:
  assumes "client_ok c"
  shows "case connect_with_options ident secs clean will props c of
      (Ok _, c') \<Rightarrow> is_connected (cl_session c') \<and> no_exchanges (cl_session c')
    | (Err _, c') \<Rightarrow> \<not> is_connected (cl_session c')
    | (Panic, c') \<Rightarrow> False"
  using wp_connect_with_options [OF assms, of ident secs clean will props]
  by (auto simp: wp_def split: prod.splits result.splits)

theorem client_connect_outcome_witness:
  "case connect_with_options [97] 60 True None [] (demo_client []) of
      (Ok _, c') \<Rightarrow> is_connected (cl_session c') \<and> no_exchanges (cl_session c')
    | (Err _, c') \<Rightarrow> \<not> is_connected (cl_session c')
    | (Panic, c') \<Rightarrow> False"
  by (rule client_connect_outcome [OF demo_client(1)])

text \<open>
  C23: The size that the client passes to the check of the server's maximum packet size is exactly the
  number of bytes that the encoder then produces.
\<close>

theorem publish_packet_size_exact:
  assumes "v5_packet_typed (v5_outgoing_packet p)" "v5_outgoing_encode_to_vec p = Ok bs"
  shows "publish_packet_size p = length bs"
proof -
  note s = v5_to_vec_sendable [OF assms(1), of bs] 
  have "v5_packet_encode_to_vec (v5_outgoing_packet p) = Ok bs" using assms(2) by (simp add: v5_outgoing_eq)
  from s [OF this] have b: "v5_packet_sendable (v5_outgoing_packet p)" "bs = v5_packet_wire (v5_outgoing_packet p)"
    "length (v5_packet_bytes (v5_outgoing_packet p)) \<le> max_remaining" by simp_all
  have "v5_outgoing_encoded_len p = v5_packet_encoded_len (v5_outgoing_packet p)" by (cases p) simp_all
  then have len: "v5_outgoing_encoded_len p = length (v5_packet_bytes (v5_outgoing_packet p))"
    using v5_packet_encoded_len_eq [OF b(1,3)] by simp
  have "length bs = 1 + vbi_encoded_len (word_of_nat (v5_outgoing_encoded_len p)) + v5_outgoing_encoded_len p"
    using b(2,3) length_vbi_wire [OF remaining_word(2) [OF b(3)]] by (simp add: length_frame_wire len)
  moreover have "vbi_encoded_len (word_of_nat n) = encoded_remaining_length_size n" if "n \<le> max_remaining" for n
    using that length_vbi_bytes [of n]
    by (simp add: vbi_encoded_len_def encoded_remaining_length_size_def word_le_nat_alt remaining_word(1))
  ultimately show ?thesis
    using b(3) by (simp add: publish_packet_size_def len encoded_remaining_length_size_def)
qed

text \<open>A QoS 2 PUBLISH with identifier 7 and its frame.\<close>

definition demo_publish :: v5_publish where
  "demo_publish = \<lparr>v5p_dup = False, v5p_qos = ExactlyOnce, v5p_retain = False, v5p_topic = [97],
     v5p_packet_id = Some 7, v5p_properties = [], v5p_payload = [1]\<rparr>"

lemma demo_publish:
  "receivable V5 (VersionedV5 (In5Publish demo_publish))"
  "sent_as (VersionedV5 (In5Publish demo_publish)) = Ok [0x34, 7, 0, 1, 97, 0, 7, 0, 1]"
proof -
  have w: "v5_publish_bytes demo_publish = [0, 1, 97, 0, 7, 0, 1]"
    by (simp add: demo_publish_def v5_publish_bytes_def properties_bytes_def properties_body_def wire_eval)
  have "v5_packet_wire (P5Publish demo_publish) = [0x34, 7, 0, 1, 97, 0, 7, 0, 1]"
    unfolding v5_packet_bytes.simps w
    by (simp add: demo_publish_def v5_publish_first_def publish_first_def wire_eval)
  moreover have "v5_packet_sendable (P5Publish demo_publish)"
    by (simp add: demo_publish_def v5_publish_sendable_def v5_publish_ok_def mqtt_string_def
      v5_topic_ok_def publish_id_ok_def carries_only_def properties_ok_iff properties_fit_def
       properties_body_def properties_typed_def property_typed_def no_duplicates_def plus_byte_def hash_byte_def)
  ultimately show "sent_as (VersionedV5 (In5Publish demo_publish)) = Ok [0x34, 7, 0, 1, 97, 0, 7, 0, 1]"
    using v5_packet_to_vec [of "P5Publish demo_publish"] w by simp
  show "receivable V5 (VersionedV5 (In5Publish demo_publish))"
    by (simp add: demo_publish_def properties_typed_def)
qed

lemma demo_pingresp:
  "receivable V5 (VersionedV5 (In5PingResp V5PingResp))" "sent_as (VersionedV5 (In5PingResp V5PingResp)) = Ok [0xD0, 0]"
  by (simp_all add: v5_packet_to_vec wire_eval)

theorem publish_packet_size_exact_witness:
  "publish_packet_size (Out5Publish demo_publish) = length [0x34, 7, 0, 1, 97, 0, 7, 0, 1 :: u8]"
  using publish_packet_size_exact [of "Out5Publish demo_publish"] demo_publish by (simp add: v5_outgoing_eq)

end
