(* ===== verification/ClientLoop.thy ===== *)
theory ClientLoop
  imports ClientRun
begin

text \<open>
  The receiving side of the client, from the bytes of the stream to the messages the user sees: which
  messages a sequence of packets delivers, that the subscriber loop reports exactly those of a prefix of
  what the peer has sent, and two ways in which a message that has arrived is held back or lost.
\<close>

section \<open>What a packet does\<close>

text \<open>The identifiers of the QoS 2 messages that await their PUBREL, and which messages are reported.\<close>

fun opened :: "u16 set \<Rightarrow> v5_incoming \<Rightarrow> u16 set" where
  "opened ids (In5Publish p) =
     (case (v5p_qos p, v5p_packet_id p) of
        (AtLeastOnce, Some i) \<Rightarrow> ids - {i}
      | (ExactlyOnce, Some i) \<Rightarrow> insert i ids
      | _ \<Rightarrow> ids)"
| "opened ids (In5PubRel r) = ids - {v5_pubrel_packet_id r}"
| "opened ids _ = ids"

fun reports :: "u16 set \<Rightarrow> v5_incoming \<Rightarrow> v5_publish list" where
  "reports ids (In5Publish p) =
     (case (v5p_qos p, v5p_packet_id p) of
        (ExactlyOnce, Some i) \<Rightarrow> if i \<in> ids then [] else [p]
      | _ \<Rightarrow> [p])"
| "reports ids _ = []"

fun reported :: "u16 set \<Rightarrow> v5_incoming list \<Rightarrow> v5_publish list" where
  "reported ids [] = []"
| "reported ids (p # ps) = reports ids p @ reported (opened ids p) ps"

definition open_ids :: "client \<Rightarrow> u16 set" where
  "open_ids c = dom (bt_get (incoming (qos_flow (cl_session c))))"

lemma reported_append: "reported ids (ps @ qs) = reported ids ps @ reported (foldl opened ids ps) qs"
  by (induction ps arbitrary: ids) simp_all

text \<open>Sending leaves the decoder and the events to come alone.\<close>

definition sent :: "client \<Rightarrow> client \<Rightarrow> bool" where
  "sent c c' \<longleftrightarrow> waited c c' \<and> cl_decoder c' = cl_decoder c \<and> cl_events c' = cl_events c"

lemma send_packet_frame:
  "send_packet p c = (r, c') \<Longrightarrow> cl_decoder c' = cl_decoder c \<and> cl_events c' = cl_events c"
  by (auto simp: send_packet_def cl_bind_def cl_lift_def stream_write_def cl_return_def clock_now_def on_session_def
      split: prod.splits result.splits list.splits bool.splits v5_outgoing.splits)

lemma check_keep_alive_frame:
  "check_keep_alive c = (r, c') \<Longrightarrow> cl_decoder c' = cl_decoder c \<and> cl_events c' = cl_events c"
  by (auto simp: check_keep_alive_def cl_bind_def clock_now_def get_session_def cl_throw_def cl_return_def on_session_def
      dest!: send_packet_frame split: prod.splits result.splits list.splits if_splits)

lemma wp_frame:
  assumes "wp m Q E c" "\<And>r c'. m c = (r, c') \<Longrightarrow> F c'"
  shows "wp m (\<lambda>x c'. Q x c' \<and> F c') (\<lambda>e c'. E e c' \<and> F c') c"
  using assms by (auto simp: wp_def split: prod.splits result.splits)

lemma wp_sent:
  assumes "sent c0 c" "\<And>c'. sent c0 c' \<Longrightarrow> Q () c'" "\<And>e c'. sent c0 c' \<Longrightarrow> E e c'"
  shows "wp (send_packet p) Q E c"
proof -
  have "wp (send_packet p) (\<lambda>_. waited c0) (\<lambda>_. waited c0) c"
    using assms(1) by (auto simp: sent_def intro!: wp_send_packet)
  from wp_frame [OF this send_packet_frame] show ?thesis
    by (rule wp_mono) (use assms in \<open>auto simp: sent_def\<close>)
qed

lemma wp_sent_check:
  assumes "client_ok c" "\<And>c'. sent c c' \<Longrightarrow> Q () c'" "\<And>e c'. sent c c' \<Longrightarrow> E e c'"
  shows "wp check_keep_alive Q E c"
proof -
  have "wp check_keep_alive (\<lambda>_. waited c) (\<lambda>_. waited c) c"
    by (auto intro!: wp_check_keep_alive waited_refl assms(1))
  from wp_frame [OF this check_keep_alive_frame] show ?thesis
    by (rule wp_mono) (use assms in \<open>auto simp: sent_def\<close>)
qed

text \<open>The state of a client that has taken the packets \<open>ps\<close> out of its decoder.\<close>

definition took :: "client \<Rightarrow> u16 set \<Rightarrow> v5_publish list \<Rightarrow> client \<Rightarrow> bool" where
  "took c ids ms c' \<longleftrightarrow> cl_decoder c' = cl_decoder c \<and> cl_events c' = cl_events c \<and>
     open_ids c' = ids \<and> cl_messages c' = cl_messages c @ ms"

lemma wp_took_send:
  assumes "client_ok c" "took c0 ids ms c" "\<And>c'. client_ok c' \<Longrightarrow> took c0 ids ms c' \<Longrightarrow> Q () c'"
    "\<And>e c'. took c0 ids ms c' \<Longrightarrow> E e c'"
  shows "wp (send_packet p) Q E c"
proof (rule wp_sent [of c])
  have "client_ok c' \<and> took c0 ids ms c'" if "sent c c'" for c'
    using assms(2) that by (auto simp: sent_def took_def waited_def quiet_def open_ids_def)
  then show "sent c c' \<Longrightarrow> Q () c'" "sent c c' \<Longrightarrow> E e c'" for e c' using assms(3,4) by blast+
qed (simp add: sent_def waited_refl assms(1))

abbreviation incoming_ids :: "session \<Rightarrow> u16 set" where
  "incoming_ids s \<equiv> dom (bt_get (incoming (qos_flow s)))"

lemma incoming_effects:
  assumes "qf_wf (qos_flow s)"
  shows "handle_publish_qos1 i s = (Ok a, t) \<Longrightarrow>
      bt_get (incoming (qos_flow t)) = (bt_get (incoming (qos_flow s)))(i \<mapsto> IncomingAwaitingPuback)"
    "handle_publish_qos2 i s = (Ok a, t) \<Longrightarrow>
      a = SendPubrec i (i \<in> incoming_ids s) \<and> incoming_ids t = insert i (incoming_ids s)"
    "bt_get (incoming (qos_flow s)) i = Some IncomingAwaitingPuback \<Longrightarrow>
      incoming_ids (session_puback_sent i s) = incoming_ids s - {i}"
    "handle_pubrel i s = (Ok r, t) \<Longrightarrow> incoming_ids t = incoming_ids s - {i}"
proof -
  note wf = qf_wfD(2) [OF assms]
  show "handle_publish_qos1 i s = (Ok a, t) \<Longrightarrow>
      bt_get (incoming (qos_flow t)) = (bt_get (incoming (qos_flow s)))(i \<mapsto> IncomingAwaitingPuback)"
    using wf by (auto simp: handle_publish_qos1_def charge_incoming_cases qf_publish_received_qos1_def split: if_splits)
  show "handle_publish_qos2 i s = (Ok a, t) \<Longrightarrow>
      a = SendPubrec i (i \<in> incoming_ids s) \<and> incoming_ids t = insert i (incoming_ids s)"
    using wf by (auto simp: handle_publish_qos2_def charge_incoming_cases qf_publish_received_qos2_def Let_def
        bt_contains_iff split: if_splits)
  show "bt_get (incoming (qos_flow s)) i = Some IncomingAwaitingPuback \<Longrightarrow>
      incoming_ids (session_puback_sent i s) = incoming_ids s - {i}"
    by (auto simp: session_puback_sent_def qf_puback_sent_eq [OF assms] fun_eq_iff)
  show "handle_pubrel i s = (Ok r, t) \<Longrightarrow> incoming_ids t = incoming_ids s - {i}"
    by (auto simp: handle_pubrel_def qf_pubrel_received_eq [OF assms] split: option.splits flow_state.splits if_splits)
qed

lemma frame_session [simp]:
  "incoming_ids (session_pubrec_sent rc s) = incoming_ids s" "incoming_ids (session_pubcomp_sent s) = incoming_ids s"
  "incoming_ids (session_pingresp_received s) = incoming_ids s" "incoming_ids (disconnect_received s) = incoming_ids s"
  by (simp_all add: session_pubrec_sent_def session_pubcomp_sent_def session_pingresp_received_def disconnect_received_def)

lemma wp_publish_effect:
  assumes "client_ok c"
  shows "wp (handle_incoming_publish p)
    (\<lambda>_. took c (opened (open_ids c) (In5Publish p)) (reports (open_ids c) (In5Publish p)))
    (\<lambda>_ c'. cl_messages c' = cl_messages c) c"
proof -
  note inv = client_ok_inv [OF assms]
  note wf = session_invD(2) [OF inv]
  have report: "wp (report_message p) Q E c' \<longleftrightarrow> Q () (c'\<lparr>cl_messages := cl_messages c' @ [p]\<rparr>)" for Q E c'
    by (simp add: wp_def report_message_def)
  show ?thesis
  proof (cases "v5p_qos p")
    case AtMostOnce
    then show ?thesis
      by (cases "v5p_packet_id p") (simp_all add: handle_incoming_publish_def report took_def open_ids_def)
  next
    case AtLeastOnce
    show ?thesis
    proof (cases "v5p_packet_id p")
      case None
      with AtLeastOnce show ?thesis by (simp add: handle_incoming_publish_def)
    next
      case (Some i)
      obtain r t where h: "handle_publish_qos1 i (cl_session c) = (r, t)" by fastforce
      have ok: "client_ok (c\<lparr>cl_session := t\<rparr>)"
        using kept_ok [OF kept_step [OF kept_refl [OF assms] st_publish_qos1 [of _ i]]] h
          same_out_ops(9) [of "cl_session c" i] by simp
      show ?thesis
      proof (cases r)
        case (Ok a)
        note eff = incoming_effects(1) [OF wf h [unfolded Ok]]
        have self: "sent (c\<lparr>cl_session := t\<rparr>) (c\<lparr>cl_session := t\<rparr>)"
          by (simp add: sent_def waited_refl [OF ok])
        have "took c (open_ids c - {i}) [] (c'\<lparr>cl_session := session_puback_sent i (cl_session c')\<rparr>) \<and>
            cl_messages c' = cl_messages c" if c': "sent (c\<lparr>cl_session := t\<rparr>) c'" for c'
        proof -
          have q: "qos_flow (cl_session c') = qos_flow t"
            using c' by (auto simp: sent_def waited_def quiet_def)
          have "qf_wf (qos_flow (cl_session c'))"
            using session_invD(2) [OF client_ok_inv [OF waited_ok]] c' unfolding sent_def by blast
          from incoming_effects(3) [OF this, of i]
          have "incoming_ids (session_puback_sent i (cl_session c')) = incoming_ids (cl_session c) - {i}"
            using eff by (simp add: q)
          with c' show ?thesis by (auto simp: took_def open_ids_def sent_def waited_def quiet_def)
        qed
        then have "wp (send_packet pk)
            (\<lambda>_ c'. took c (open_ids c - {i}) [p] (c'\<lparr>cl_session := session_puback_sent i (cl_session c'),
              cl_messages := cl_messages c' @ [p]\<rparr>))
            (\<lambda>_ c'. cl_messages c' = cl_messages c) (c\<lparr>cl_session := t\<rparr>)" for pk
          by (intro wp_sent [OF self]) (simp_all add: took_def open_ids_def sent_def)
        then show ?thesis
          using AtLeastOnce Some Ok h
          by (simp add: handle_incoming_publish_def wp_session_op send_puback_def report)
      qed (use AtLeastOnce Some h handler_no_panic(1) [of i "cl_session c"] in
          \<open>auto simp: handle_incoming_publish_def wp_session_op\<close>)
    qed
  next
    case ExactlyOnce
    show ?thesis
    proof (cases "v5p_packet_id p")
      case None
      with ExactlyOnce show ?thesis by (simp add: handle_incoming_publish_def)
    next
      case (Some i)
      obtain r t where h: "handle_publish_qos2 i (cl_session c) = (r, t)" by fastforce
      have ok: "client_ok (c\<lparr>cl_session := t\<rparr>)"
        using kept_ok [OF kept_step [OF kept_refl [OF assms] st_publish_qos2 [of _ i]]] h
          same_out_ops(10) [of "cl_session c" i] by simp
      show ?thesis
      proof (cases r)
        case (Ok a)
        note eff = incoming_effects(2) [OF wf h [unfolded Ok]]
        have "took c (insert i (open_ids c)) [] (c\<lparr>cl_session := t\<rparr>)"
          using eff by (simp add: took_def open_ids_def)
        from wp_took_send [OF ok this] show ?thesis
          using ExactlyOnce Some Ok h eff
          by (auto simp: handle_incoming_publish_def wp_session_op send_pubrec_def report took_def open_ids_def)
      qed (use ExactlyOnce Some h handler_no_panic(2) [of i "cl_session c"] in
          \<open>auto simp: handle_incoming_publish_def wp_session_op\<close>)
    qed
  qed
qed

lemma wp_packet_effect:
  assumes "client_ok c"
  shows "wp (handle_incoming p)
    (\<lambda>_. took c (opened (open_ids c) p) (reports (open_ids c) p)) (\<lambda>_ c'. cl_messages c' = cl_messages c) c"
proof (cases p)
  case (In5Publish x)
  then show ?thesis
    using wp_publish_effect [OF assms, of x] by (simp add: handle_incoming_def)
next
  case (In5PubRel x)
  let ?i = "v5_pubrel_packet_id x"
  note wf = session_invD(2) [OF client_ok_inv [OF assms]]
  obtain r t where h: "handle_pubrel ?i (cl_session c) = (r, t)" by fastforce
  have ok: "client_ok (c\<lparr>cl_session := t\<rparr>)"
    using kept_ok [OF kept_step [OF kept_refl [OF assms] st_pubrel [of _ ?i]]] h
      same_out_ops(8) [of "cl_session c" ?i] by simp
  show ?thesis
  proof (cases r)
    case (Ok a)
    have "took c (open_ids c - {?i}) [] (c\<lparr>cl_session := t\<rparr>)"
      using incoming_effects(4) [OF wf h [unfolded Ok]] by (simp add: took_def open_ids_def)
    from wp_took_send [OF ok this] this show ?thesis
      using In5PubRel Ok h
      by (auto simp: handle_incoming_def wp_session_op send_pubcomp_def took_def open_ids_def
          split: option.split action.split)
  qed (use In5PubRel h handler_no_panic(3) [of ?i "cl_session c"] in
      \<open>auto simp: handle_incoming_def wp_session_op\<close>)
qed (simp_all add: handle_incoming_def took_def open_ids_def)

section \<open>From the bytes of the stream to the messages\<close>

text \<open>The bytes that arrive before the script ends or the user interrupts.\<close>

fun arriving :: "io_event list \<Rightarrow> bytes" where
  "arriving [] = []"
| "arriving (Arrived bs # es) = bs @ arriving es"
| "arriving (CtrlC # es) = []"
| "arriving (e # es) = arriving es"

text \<open>
  The packets \<open>ps\<close> are still to be handled: their frames begin with what the decoder holds and go on with
  what arrives, of which \<open>tail\<close> may be left for later.
\<close>

definition facing :: "bytes \<Rightarrow> bool \<Rightarrow> client \<Rightarrow> v5_incoming list \<Rightarrow> bool" where
  "facing tail waiting c ps \<longleftrightarrow> client_ok c \<and> dec_version (cl_decoder c) = V5 \<and>
     (\<exists>fs. pending (cl_decoder c) @ arriving (cl_events c) @ tail = frames_wire fs \<and>
        frames_fit (max_packet_size limits_new) fs \<and>
        map (delivered V5) fs = map (\<lambda>p. Ok (Some (VersionedV5 p))) ps \<and>
        (waiting \<longrightarrow> incomplete (pending (cl_decoder c)) fs))"

lemma facing_ok: "facing tail w c ps \<Longrightarrow> client_ok c"
  by (simp add: facing_def)

lemma facing_end:
  assumes "facing [] True c ps" "cl_events c = []"
  shows "ps = []"
proof -
  from assms obtain fs where fs: "pending (cl_decoder c) = frames_wire fs" "incomplete (pending (cl_decoder c)) fs"
    "map (delivered V5) fs = map (\<lambda>p. Ok (Some (VersionedV5 p))) ps"
    by (auto simp: facing_def)
  then have "fs = []" by (cases fs) (auto simp: incomplete_def)
  with fs show ?thesis by simp
qed

lemma facing_next:
  assumes "facing tail w c ps" "decoder_decode (cl_decoder c) = (r, d)"
  shows "r = Ok None \<and> facing tail True (c\<lparr>cl_decoder := d\<rparr>) ps \<or>
    (\<exists>p ps'. r = Ok (Some (VersionedV5 p)) \<and> ps = p # ps' \<and> facing tail False (c\<lparr>cl_decoder := d\<rparr>) ps')"
proof -
  from assms(1) obtain fs where c: "client_ok c" "dec_version (cl_decoder c) = V5"
    and fs: "pending (cl_decoder c) @ arriving (cl_events c) @ tail = frames_wire fs"
      "frames_fit (max_packet_size limits_new) fs" "map (delivered V5) fs = map (\<lambda>p. Ok (Some (VersionedV5 p))) ps"
    by (auto simp: facing_def)
  from c(1) have dec: "decoder_inv (cl_decoder c)" "dec_limits (cl_decoder c) = limits_new"
    by (simp_all add: client_ok_def)
  note ref = decode_refines [OF dec(1) assms(2)]
  from c ref have ok: "client_ok (c\<lparr>cl_decoder := d\<rparr>)" "dec_version d = V5"
    by (simp_all add: client_ok_def same_config_def)
  note frame = spec_decode_frame [OF fs(1,2), of V5 "size_checked (cl_decoder c)"]
  show ?thesis
  proof (cases "incomplete (pending (cl_decoder c)) fs")
    case True
    from frame(1) [OF this] ref(3) c(2) dec(2) have "r = Ok None" "pending d = pending (cl_decoder c)" by auto
    with ok fs True show ?thesis by (auto simp: facing_def)
  next
    case False
    from frame(2) [OF this] ref(3) c(2) dec(2) obtain f fs' where f: "fs = f # fs'"
      "pending d @ arriving (cl_events c) @ tail = frames_wire fs'" "r = delivered V5 f" by auto
    then obtain p ps' where p: "ps = p # ps'" "r = Ok (Some (VersionedV5 p))"
      "map (delivered V5) fs' = map (\<lambda>p. Ok (Some (VersionedV5 p))) ps'"
      using fs(3) by (cases ps) auto
    have "frames_fit (max_packet_size limits_new) fs'" using fs(2) by (auto simp: f(1) frames_fit_def)
    with ok f p show ?thesis by (auto simp: facing_def)
  qed
qed

text \<open>Handling starts from \<open>c0\<close> and has got through a prefix of the packets.\<close>

definition progress :: "bytes \<Rightarrow> bool \<Rightarrow> client \<Rightarrow> v5_incoming list \<Rightarrow> client \<Rightarrow> bool" where
  "progress tail waiting c0 ps0 c \<longleftrightarrow>
     (\<exists>ps qs. ps0 = ps @ qs \<and> facing tail waiting c qs \<and>
        cl_messages c = cl_messages c0 @ reported (open_ids c0) ps \<and>
        open_ids c = foldl opened (open_ids c0) ps)"

definition stopped :: "client \<Rightarrow> v5_incoming list \<Rightarrow> client \<Rightarrow> bool" where
  "stopped c0 ps0 c \<longleftrightarrow> (\<exists>ps qs. ps0 = ps @ qs \<and> cl_messages c = cl_messages c0 @ reported (open_ids c0) ps)"

lemma progress_stopped: "progress tail w c0 ps0 c \<Longrightarrow> cl_messages c' = cl_messages c \<Longrightarrow> stopped c0 ps0 c'"
  by (auto simp: progress_def stopped_def)

lemma progress_weaken: "progress tail w c0 ps0 c \<Longrightarrow> progress tail False c0 ps0 c"
  by (auto simp: progress_def facing_def)

lemma sent_same: "sent c c' \<Longrightarrow> cl_messages c' = cl_messages c \<and> open_ids c' = open_ids c"
  by (auto simp: sent_def waited_def quiet_def open_ids_def)

lemma facing_sent: "facing tail w c ps \<Longrightarrow> sent c c' \<Longrightarrow> facing tail w c' ps"
  by (auto simp: facing_def sent_def waited_def)

lemma progress_sent: "progress tail w c0 ps0 c \<Longrightarrow> sent c c' \<Longrightarrow> progress tail w c0 ps0 c'"
  unfolding progress_def using facing_sent sent_same by metis

text \<open>A round that takes a packet out of the decoder.\<close>

lemma wp_ready_progress:
  assumes "progress tail w c0 ps0 c"
  shows "wp ready_round
    (\<lambda>r c'. case r of
        None \<Rightarrow> progress tail False c0 ps0 c'
      | Some over \<Rightarrow> if over then stopped c0 ps0 c' else progress tail True c0 ps0 c')
    (\<lambda>_. stopped c0 ps0) c"
proof -
  from assms obtain ps qs where ps0: "ps0 = ps @ qs" and f: "facing tail w c qs"
    and m: "cl_messages c = cl_messages c0 @ reported (open_ids c0) ps" "open_ids c = foldl opened (open_ids c0) ps"
    by (auto simp: progress_def)
  obtain r d where dec: "decoder_decode (cl_decoder c) = (r, d)" by fastforce
  let ?c = "c\<lparr>cl_decoder := d\<rparr>"
  have same: "open_ids ?c = open_ids c" by (simp add: open_ids_def)
  from facing_next [OF f dec] consider
    (none) "r = Ok None" "facing tail True ?c qs" |
    (some) p qs' where "r = Ok (Some (VersionedV5 p))" "qs = p # qs'" "facing tail False ?c qs'" by blast
  then show ?thesis
  proof cases
    case none
    then have "progress tail True c0 ps0 ?c" using ps0 m same by (auto simp: progress_def)
    with none show ?thesis by (simp add: ready_round_def wp_def cl_bind_def next_packet_def dec cl_return_def)
  next
    case some
    have n: "next_packet c = (Ok (Some p), ?c)" by (simp add: next_packet_def dec some)
    note ok = facing_ok [OF some(3)]
    have "wp (handle_incoming p) (\<lambda>over c'. progress tail False c0 ps0 c') (\<lambda>_. stopped c0 ps0) ?c"
    proof (rule wp_mono [OF wp_conj [OF wp_packet_effect [OF ok, of p] wp_handle_incoming [OF kept_refl [OF ok]]]])
      fix x c' assume c': "took ?c (opened (open_ids ?c) p) (reports (open_ids ?c) p) c' \<and> client_ok c'"
      then have "facing tail False c' qs'" using some(3) by (simp add: facing_def took_def)
      moreover have "ps0 = (ps @ [p]) @ qs'" using ps0 some(2) by simp
      ultimately show "progress tail False c0 ps0 c'"
        unfolding progress_def using c' m same
        by (intro exI [of _ "ps @ [p]"] exI [of _ qs']) (simp add: took_def reported_append)
    next
      fix e and c' :: client assume "cl_messages c' = cl_messages ?c \<and> True"
      then show "stopped c0 ps0 c'" using ps0 m by (auto simp: stopped_def)
    qed (simp_all add: kept_ok)
    then have "wp (handle_incoming p) (\<lambda>over c'. case if over then Some True else None of
        None \<Rightarrow> progress tail False c0 ps0 c'
      | Some over \<Rightarrow> if over then stopped c0 ps0 c' else progress tail True c0 ps0 c')
      (\<lambda>_. stopped c0 ps0) ?c"
      by (rule wp_mono) (auto intro: progress_stopped)
    then show ?thesis
      unfolding ready_round_def wp_simps by (simp add: wp_def [of next_packet] n)
  qed
qed

lemma wp_handle_ready_progress:
  assumes "progress tail w c0 ps0 c"
  shows "wp handle_ready
    (\<lambda>over c'. if over then stopped c0 ps0 c' else progress tail True c0 ps0 c') (\<lambda>_. stopped c0 ps0) c"
  unfolding handle_ready_eq
proof (rule wp_loop [where I = "progress tail False c0 ps0"])
  fix c1 assume c1: "progress tail False c0 ps0 c1"
  then have "client_ok c1" by (auto simp: progress_def facing_ok)
  from wp_conj [OF wp_ready_progress [OF c1] wp_ready_round [OF kept_refl [OF this]]]
  show "wp ready_round (\<lambda>r c'. case r of None \<Rightarrow> progress tail False c0 ps0 c' \<and> less_work c' c1
      | Some over \<Rightarrow> if over then stopped c0 ps0 c' else progress tail True c0 ps0 c') (\<lambda>_. stopped c0 ps0) c1"
    by (rule wp_mono) (auto simp: goes_on_def split: option.splits)
qed (rule progress_weaken [OF assms])

text \<open>The result of the loop: still running, with everything handled that has come, or over.\<close>

definition loop_result :: "bytes \<Rightarrow> client \<Rightarrow> v5_incoming list \<Rightarrow> unit option \<Rightarrow> client \<Rightarrow> bool" where
  "loop_result tail c0 ps0 r c \<longleftrightarrow>
     (case r of None \<Rightarrow> progress tail True c0 ps0 c \<and> cl_events c = [] | Some _ \<Rightarrow> stopped c0 ps0 c)"

lemma facing_feed:
  assumes "facing tail w c qs" "cl_events c = Arrived bs # es"
    "decoder_feed bs (cl_decoder c) = (Ok (), d)"
  shows "facing tail False (c\<lparr>cl_events := es, cl_decoder := d\<rparr>) qs"
proof -
  from assms(1) have dec: "decoder_inv (cl_decoder c)" "dec_limits (cl_decoder c) = limits_new"
    by (simp_all add: facing_def client_ok_def)
  have "length (pending (cl_decoder c)) + length bs \<le> max_packet_size limits_new + 5"
    using feed_rejects [of "cl_decoder c" bs] dec assms(3) by (cases "length (pending (cl_decoder c)) + length bs \<le> max_packet_size limits_new + 5") auto
  with feed_exact [OF dec(1), of bs] dec(2) assms(3)
  have "decoder_inv d" "same_config (cl_decoder c) d" "pending d = pending (cl_decoder c) @ bs" by auto
  with assms(1,2) show ?thesis by (auto simp: facing_def client_ok_def same_config_def)
qed

lemma progress_step:
  assumes "progress tail w c0 ps0 c" "\<And>qs. facing tail w c qs \<Longrightarrow> facing tail w' c' qs"
    "cl_messages c' = cl_messages c" "open_ids c' = open_ids c"
  shows "progress tail w' c0 ps0 c'"
  using assms unfolding progress_def by metis

lemma wp_read_progress:
  assumes "progress tail True c0 ps0 c" "cl_events c = e # es" "e \<noteq> CtrlC"
  shows "wp read_round (\<lambda>r c'. case r of None \<Rightarrow> progress tail True c0 ps0 c' | Some x \<Rightarrow> loop_result tail c0 ps0 x c')
    (\<lambda>_. stopped c0 ps0) c" (is "wp _ ?Q ?E c")
proof -
  let ?c = "c\<lparr>cl_events := es\<rparr>"
  have skip: "progress tail True c0 ps0 ?c" if "e = Elapsed \<or> e = DeadlinePassed"
    by (rule progress_step [OF assms(1)]) (use that assms(2) in \<open>auto simp: facing_def open_ids_def\<close>)
  have stop: "stopped c0 ps0 c'" if "cl_messages c' = cl_messages c" for c'
    by (rule progress_stopped [OF assms(1) that])
  show ?thesis
  proof (cases e)
    case (Arrived bs)
    obtain r d where feed: "decoder_feed bs (cl_decoder c) = (r, d)" by fastforce
    have ready: "wp (cl_bind handle_ready (\<lambda>over. cl_return (if over then Some (Some ()) else None))) ?Q ?E
        (c\<lparr>cl_events := es, cl_decoder := d\<rparr>)" if "r = Ok ()"
    proof -
      have "progress tail False c0 ps0 (c\<lparr>cl_events := es, cl_decoder := d\<rparr>)"
        by (rule progress_step [OF assms(1)])
          (use facing_feed [of tail True c _ bs es d] assms(2) Arrived feed that in \<open>auto simp: open_ids_def\<close>)
      from wp_handle_ready_progress [OF this] show ?thesis
        unfolding wp_simps by (rule wp_mono) (auto simp: loop_result_def)
    qed
    have "r \<noteq> Panic"
    proof -
      from assms(1) have dec: "decoder_inv (cl_decoder c)" "dec_limits (cl_decoder c) = limits_new"
        by (auto simp: progress_def facing_def client_ok_def)
      show ?thesis
        using feed_exact [OF dec(1), of bs] feed_rejects [of "cl_decoder c" bs] dec(2) feed
        by (cases "length (pending (cl_decoder c)) + length bs \<le> max_packet_size limits_new + 5") auto
    qed
    then have fed: "wp (cl_bind (feed_decoder bs) (\<lambda>_. cl_bind handle_ready (\<lambda>over.
        cl_return (if over then Some (Some ()) else None)))) ?Q ?E ?c"
      using ready stop
      by (cases r) (simp_all add: wp_simps(3) [of "feed_decoder _"] wp_def [of "feed_decoder _"] feed_decoder_def feed
          del: wp_simps(3))
    have "stream_read c = (Ok (Some bs), ?c)" by (simp add: stream_read_def assms(2) Arrived)
    then show ?thesis
      using fed stop unfolding read_round_def wp_simps(3) [of stream_read]
      by (simp add: wp_def [of stream_read] del: wp_simps(3))
  qed (use assms(2,3) skip stop in \<open>auto simp: read_round_def wp_def cl_bind_def stream_read_def cl_return_def\<close>)
qed

lemma wp_subscribe_progress:
  assumes "progress tail True c0 ps0 c"
  shows "wp run_subscribe_loop (loop_result tail c0 ps0) (\<lambda>_. stopped c0 ps0) c"
  unfolding run_subscribe_loop_eq
proof (rule wp_loop [where I = "progress tail True c0 ps0"])
  fix c1 assume c1: "progress tail True c0 ps0 c1"
  then have ok: "client_ok c1" by (auto simp: progress_def facing_ok)
  let ?Q = "\<lambda>r c'. case r of None \<Rightarrow> progress tail True c0 ps0 c' | Some x \<Rightarrow> loop_result tail c0 ps0 x c'"
  have wait: "wp wait_round ?Q (\<lambda>_. stopped c0 ps0) c2" if c2: "progress tail True c0 ps0 c2" for c2
  proof (cases rule: wait_round_cases [of c2])
    case 1
    then show ?thesis using c2 by (simp add: wp_def loop_result_def)
  next
    case 2
    then show ?thesis using progress_stopped [OF c2] by (simp add: wp_def loop_result_def)
  next
    case 3
    then show ?thesis using wp_read_progress [OF c2] wp_cong [of wait_round c2 read_round] by simp
  qed
  have "wp (cl_bind check_keep_alive (\<lambda>_. wait_round)) ?Q (\<lambda>_. stopped c0 ps0) c1"
    unfolding wp_simps
    by (rule wp_sent_check [OF ok]) (auto intro: wait progress_sent [OF c1] progress_stopped [OF progress_sent [OF c1]])
  from wp_conj [OF this wp_subscribe_round [OF kept_refl [OF ok]]]
  show "wp (cl_bind check_keep_alive (\<lambda>_. wait_round)) (\<lambda>r c'. case r of
      None \<Rightarrow> progress tail True c0 ps0 c' \<and> less_work c' c1 | Some x \<Rightarrow> loop_result tail c0 ps0 x c')
      (\<lambda>_. stopped c0 ps0) c1"
    by (rule wp_mono) (auto simp: goes_on_def split: option.splits)
qed (rule assms)

text \<open>The claim of the whole loop.\<close>

lemma run_subscribe_loop_reports_core:
  assumes "client_ok c" "dec_version (cl_decoder c) = V5"
    "pending (cl_decoder c) @ arriving (cl_events c) @ tail = frames_wire fs"
    "frames_fit (max_packet_size limits_new) fs" "incomplete (pending (cl_decoder c)) fs"
    "map (delivered V5) fs = map (\<lambda>p. Ok (Some (VersionedV5 p))) ps"
    "run_subscribe_loop c = (r, c')"
  shows "r \<noteq> Panic \<and> (\<exists>seen left. ps = seen @ left \<and>
      cl_messages c' = cl_messages c @ reported (open_ids c) seen \<and>
      (r = Ok None \<and> tail = [] \<longrightarrow> left = []))"
proof -
  have "progress tail True c ps c"
    unfolding progress_def using assms(1-6) by (intro exI [of _ "[]"] exI [of _ ps]) (auto simp: facing_def)
  from wp_run [OF wp_subscribe_progress [OF this] assms(7)]
  have w: "case r of Ok x \<Rightarrow> loop_result tail c ps x c' | Err e \<Rightarrow> stopped c ps c' | Panic \<Rightarrow> False" .
  show ?thesis
  proof (cases "r = Ok None")
    case True
    with w obtain seen left where "ps = seen @ left" "facing tail True c' left" "cl_events c' = []"
      "cl_messages c' = cl_messages c @ reported (open_ids c) seen"
      by (auto simp: loop_result_def progress_def)
    moreover from this have "tail = [] \<longrightarrow> left = []" using facing_end by blast
    ultimately show ?thesis using True by blast
  next
    case False
    with w show ?thesis by (auto simp: loop_result_def stopped_def split: result.splits option.splits)
  qed
qed

text \<open>
  C22: The subscriber loop looks at its decoder only after new bytes have come: a packet that the decoder
  already holds when the loop starts, as when a message comes in one piece with the SUBACK, stays there
  unhandled and unreported as long as the peer is silent.
\<close>

theorem subscribe_loop_leaves_buffered:
  assumes "client_ok c" "set (cl_events c) \<subseteq> {Elapsed}" "fst (next_packet c) = Ok (Some p)"
  shows "case run_subscribe_loop c of
    (r, c') \<Rightarrow> cl_messages c' = cl_messages c \<and> fst (next_packet c') = Ok (Some p)"
proof -
  let ?I = "\<lambda>c'. client_ok c' \<and> cl_messages c' = cl_messages c \<and> cl_decoder c' = cl_decoder c \<and>
    set (cl_events c') \<subseteq> {Elapsed}"
  have "wp run_subscribe_loop (\<lambda>_. ?I) (\<lambda>_. ?I) c"
    unfolding run_subscribe_loop_eq
  proof (rule wp_loop [where I = ?I])
    fix c1 assume c1: "?I c1"
    have wait: "wp wait_round (\<lambda>r c'. ?I c') (\<lambda>_. ?I) c2" if "sent c1 c2" for c2
    proof -
      have c2: "?I c2" using c1 that sent_same [OF that] by (auto simp: sent_def waited_ok)
      show ?thesis
      proof (cases "cl_events c2")
        case Nil
        then show ?thesis using c2 by (simp add: wp_def wait_round_def)
      next
        case (Cons e es)
        then have "e = Elapsed" using c2 by simp
        with Cons c2 show ?thesis
          by (simp add: wp_def wait_round_def read_round_def cl_bind_def stream_read_def cl_return_def)
      qed
    qed
    have "wp (cl_bind check_keep_alive (\<lambda>_. wait_round)) (\<lambda>r. ?I) (\<lambda>_. ?I) c1"
      unfolding wp_simps
    proof (rule wp_sent_check)
      fix e c' assume "sent c1 c'"
      then show "?I c'" using c1 sent_same [of c1 c'] by (auto simp: sent_def waited_ok)
    qed (use c1 wait in auto)
    from wp_conj [OF this wp_subscribe_round [OF kept_refl [OF conjunct1 [OF c1]]]]
    show "wp (cl_bind check_keep_alive (\<lambda>_. wait_round))
        (\<lambda>r c'. case r of None \<Rightarrow> ?I c' \<and> less_work c' c1 | Some x \<Rightarrow> ?I c') (\<lambda>_. ?I) c1"
      by (rule wp_mono) (auto simp: goes_on_def split: option.split)
  qed (use assms in simp)
  moreover have "fst (next_packet c') = fst (next_packet c)" if "cl_decoder c' = cl_decoder c" for c'
    using that by (simp add: next_packet_def split: prod.split)
  ultimately show ?thesis
    using assms(3) by (auto simp: wp_def split: prod.splits result.splits)
qed


section \<open>A script of single packets\<close>

lemma keep_alive_at_zero [simp]: "\<not> ka_should_send_pingreq ka 0" "\<not> ka_has_timed_out ka 0"
  by (auto simp: ka_should_send_iff ka_timed_out_iff unat_eq_0)

lemma check_keep_alive_at_zero: "cl_clock c = [] \<Longrightarrow> check_keep_alive c = (Ok (), c)"
  by (simp add: check_keep_alive_def cl_bind_def clock_now_def get_session_def cl_return_def)

lemma decode_empty:
  assumes "decoder_inv d" "pending d = []"
  shows "\<exists>d'. decoder_decode d = (Ok None, d') \<and> decoder_inv d' \<and> same_config d d' \<and> pending d' = []"
proof -
  obtain r d' where dec: "decoder_decode d = (r, d')" by fastforce
  note ref = decode_refines [OF assms(1) dec]
  have "frame_len [] = Err InsufficientData" by (simp add: frame_len_def)
  with ref assms dec show ?thesis by (auto simp: spec_decode_def)
qed

lemma decode_frame:
  assumes "decoder_inv d" "pending d = frame_wire b body" "length body \<le> max_remaining"
    "length (frame_wire b body) \<le> max_packet_size (dec_limits d)"
  shows "\<exists>d'. decoder_decode d = (delivered (dec_version d) (b, body), d') \<and> decoder_inv d' \<and> same_config d d' \<and>
    pending d' = []"
proof -
  obtain r d' where dec: "decoder_decode d = (r, d')" by fastforce
  note ref = decode_refines [OF assms(1) dec]
  have "pending d @ [] = frames_wire [(b, body)]" using assms(2) by simp
  moreover have "frames_fit (max_packet_size (dec_limits d)) [(b, body)]" using assms(3,4) by (simp add: frames_fit_def)
  moreover have "\<not> incomplete (pending d) [(b, body)]" using assms(2) by (simp add: incomplete_def)
  ultimately have "spec_decode (dec_version d) (max_packet_size (dec_limits d)) (pending d, size_checked d) =
      (delivered (dec_version d) (b, body), [], False)"
    using spec_decode_frame(2) [of "pending d" "[]" "[(b, body)]"] by fastforce
  with ref dec show ?thesis by auto
qed


lemma demo_frame:
  assumes "receivable V5 (VersionedV5 p)" "sent_as (VersionedV5 p) = Ok w" "length w \<le> 9"
  obtains b body where "w = frame_wire b body" "length body \<le> max_remaining"
    "delivered V5 (b, body) = Ok (Some (VersionedV5 p))" "length (frame_wire b body) \<le> max_packet_size limits_new"
  using sent_frame [OF assms(1,2)] assms(3) by (auto simp: limits_new_def)

lemma demo_client_fields [simp]:
  "cl_events (demo_client es) = es" "cl_clock (demo_client es) = []" "cl_writes (demo_client es) = []"
  "cl_decoder (demo_client es) = decoder_new V5" "cl_messages (demo_client es) = []"
  by (simp_all add: demo_client_def)

lemma demo_decoder [simp]: "dec_version (decoder_new V5) = V5" "pending (decoder_new V5) = []"
  by (simp_all add: decoder_new_def pending_def)

lemma demo_decoder_ok: "decoder_inv (decoder_new V5)" "dec_limits (decoder_new V5) = limits_new"
  using demo_client(1) [of "[]"] by (simp_all add: client_ok_def)

lemma demo_fed:
  obtains d where "decoder_feed [0x34, 7, 0, 1, 97, 0, 7, 0, 1] (decoder_new V5) = (Ok (), d)" "decoder_inv d"
    "same_config (decoder_new V5) d" "pending d = [0x34, 7, 0, 1, 97, 0, 7, 0, 1]"
proof -
  let ?w = "[0x34, 7, 0, 1, 97, 0, 7, 0, 1] :: bytes"
  have "limit_ok (max_packet_size (dec_limits (decoder_new V5)))" by (simp add: demo_decoder_ok)
  moreover have "length (pending (decoder_new V5)) + length ?w \<le> max_packet_size (dec_limits (decoder_new V5)) + 5"
    by (simp add: demo_decoder_ok limits_new_def)
  ultimately show thesis using feed_exact [OF demo_decoder_ok(1)] that by fastforce
qed

lemma demo_accepts:
  obtains s where "handle_publish_qos2 7 (cl_session (demo_client es)) = (Ok (SendPubrec 7 False), s)"
proof -
  let ?c = "demo_client es"
  obtain s where "apply_connack demo_connack (connect_sent demo_session) = (Ok (), s)"
    using demo_connected by blast
  from apply_connack_Ok_eq [OF this] this obtain a where "cl_session ?c = params_applied demo_connack
      (session_connected (p_session_present demo_connack) ((connect_sent demo_session)\<lparr>auth_state := a\<rparr>))"
    by (auto simp: demo_client_def)
  then have "fc_incoming_count (flow_control (cl_session ?c)) < fc_own_receive_maximum (flow_control (cl_session ?c))"
    by (simp add: params_applied_def demo_connack_def session_connected_def reset_session_state_def Let_def
        connect_sent_def reset_connection_state_def demo_session_def fc_reset_def fc_new_def)
  moreover have "\<not> qf_has_incoming_flow (qos_flow (cl_session ?c)) 7"
    using demo_client(3) by (simp add: no_exchanges_def qf_new_def qf_has_incoming_flow_def bt_contains_def)
  ultimately have "fst (handle_publish_qos2 7 (cl_session ?c)) = Ok (SendPubrec 7 False)"
    by (simp add: handle_publish_qos2_def charge_incoming_cases qf_publish_received_qos2_def Let_def
        qf_has_incoming_flow_def)
  then show thesis using that by (metis prod.collapse)
qed

lemma send_pubrec_plain:
  assumes "cl_clock c = []" "cl_writes c = []" "i \<noteq> 0"
  shows "\<exists>buf. send_pubrec i c =
    (Ok (), c\<lparr>cl_written := cl_written c @ [buf], cl_session := session_activity 0 (cl_session c)\<rparr>)"
proof -
  let ?p = "\<lparr>v5_pubrec_packet_id = i, v5_pubrec_reason_code = PrSuccess, v5_pubrec_properties = []\<rparr>"
  have "v5_packet_sendable (P5PubRec ?p)" "length (v5_packet_bytes (P5PubRec ?p)) \<le> max_remaining"
    using assms(3) by (simp_all add: ack_sendable_def ack_body_def properties_ok_iff properties_fit_def
        properties_body_def properties_typed_def no_duplicates_def carries_only_def properties_bytes_def wire_eval)
  from v5_packet_to_vec [OF this] obtain buf where "v5_outgoing_encode_to_vec (Out5PubRec ?p) = Ok buf"
    by (simp add: v5_outgoing_eq)
  then have "send_pubrec i c = (Ok (), c\<lparr>cl_written := cl_written c @ [buf],
      cl_session := session_activity 0 (cl_session c)\<rparr>)"
    using assms
    by (simp add: send_pubrec_def send_packet_def cl_bind_def cl_lift_def stream_write_def clock_now_def on_session_def)
  then show ?thesis by blast
qed


theorem subscribe_loop_leaves_buffered_witness:
  "\<exists>d. decoder_feed [0x34, 7, 0, 1, 97, 0, 7, 0, 1] (decoder_new V5) = (Ok (), d) \<and>
     cl_messages (snd (run_subscribe_loop ((demo_client [Elapsed, Elapsed])\<lparr>cl_decoder := d\<rparr>))) = [] \<and>
     fst (next_packet (snd (run_subscribe_loop ((demo_client [Elapsed, Elapsed])\<lparr>cl_decoder := d\<rparr>)))) =
       Ok (Some (In5Publish demo_publish))"
proof -
  let ?w = "[0x34, 7, 0, 1, 97, 0, 7, 0, 1] :: bytes"
  obtain b body where w: "?w = frame_wire b body" "length body \<le> max_remaining"
    "delivered V5 (b, body) = Ok (Some (VersionedV5 (In5Publish demo_publish)))"
    "length (frame_wire b body) \<le> max_packet_size limits_new"
    by (rule demo_frame [OF demo_publish]) simp
  note new = demo_decoder_ok
  obtain d where d: "decoder_feed ?w (decoder_new V5) = (Ok (), d)" "decoder_inv d"
    "same_config (decoder_new V5) d" "pending d = ?w" by (rule demo_fed)
  let ?c = "(demo_client [Elapsed, Elapsed])\<lparr>cl_decoder := d\<rparr>"
  have ok: "client_ok ?c"
    using demo_client(1) [of "[Elapsed, Elapsed]"] d(2,3) by (simp add: client_ok_def same_config_def)
  from decode_frame [OF d(2) d(4) [unfolded w(1)] w(2)] w(3,4) d(3) new(2)
  have "fst (next_packet ?c) = Ok (Some (In5Publish demo_publish))"
    by (auto simp: next_packet_def same_config_def)
  from subscribe_loop_leaves_buffered [OF ok _ this] d(1) show ?thesis
    by (auto split: prod.splits)
qed

text \<open>
  C6: From the bytes of the stream to the messages: whatever sequence of packets the library encodes for a
  client, cut into pieces anywhere and interrupted anywhere, the messages that the subscriber loop
  reports are those of a prefix of the packets, in order, each QoS 2 message once however often it is
  redelivered before its PUBREL; if the loop is still running when all has come, of all the packets.
\<close>

theorem subscriber_reports:
  assumes "client_ok c" "dec_version (cl_decoder c) = V5" "pending (cl_decoder c) = []"
    and "map (\<lambda>p. sent_as (VersionedV5 p)) ps = map Ok ws" "\<forall>p \<in> set ps. receivable V5 (VersionedV5 p)"
    and "\<forall>w \<in> set ws. length w \<le> 256 * 1024 * 1024" "arriving (cl_events c) @ later = concat ws"
  shows "case run_subscribe_loop c of (r, c') \<Rightarrow> r \<noteq> Panic \<and>
    (\<exists>seen left. ps = seen @ left \<and> cl_messages c' = cl_messages c @ reported (open_ids c) seen \<and>
       (r = Ok None \<and> later = [] \<longrightarrow> left = []))"
proof -
  obtain r c' where run: "run_subscribe_loop c = (r, c')" by fastforce
  have "map sent_as (map VersionedV5 ps) = map Ok ws" using assms(4) by (simp add: comp_def)
  moreover have "\<forall>q \<in> set (map VersionedV5 ps). receivable V5 q" using assms(5) by simp
  moreover have "\<forall>w \<in> set ws. length w \<le> max_packet_size limits_new" using assms(6) by (simp add: limits_new_def)
  ultimately have "\<exists>fs. frames_wire fs = concat ws \<and> frames_fit (max_packet_size limits_new) fs \<and>
      map (delivered V5) fs = map (\<lambda>q. Ok (Some q)) (map VersionedV5 ps)" by (rule sent_frames)
  then obtain fs where fs: "frames_wire fs = concat ws" "frames_fit (max_packet_size limits_new) fs"
    "map (delivered V5) fs = map (\<lambda>p. Ok (Some (VersionedV5 p))) ps" by (auto simp: comp_def)
  from run_subscribe_loop_reports_core [OF assms(1,2) _ fs(2) _ fs(3) run, of later] assms(3,7) fs(1)
    fresh_incomplete [OF assms(3), of fs] run
  show ?thesis by simp
qed

lemma demo_loop_runs:
  obtains c' where "run_subscribe_loop (demo_client [Arrived [0x34, 7, 0, 1, 97, 0, 7, 0, 1]]) = (Ok None, c')"
proof -
  let ?w = "[0x34, 7, 0, 1, 97, 0, 7, 0, 1] :: bytes"
  let ?c = "demo_client [Arrived ?w]"
  obtain b body where w: "?w = frame_wire b body" "length body \<le> max_remaining"
    "delivered V5 (b, body) = Ok (Some (VersionedV5 (In5Publish demo_publish)))"
    "length (frame_wire b body) \<le> max_packet_size limits_new"
    by (rule demo_frame [OF demo_publish]) simp
  obtain d where d: "decoder_feed ?w (decoder_new V5) = (Ok (), d)" "decoder_inv d"
    "same_config (decoder_new V5) d" "pending d = ?w" by (rule demo_fed)
  note new = demo_decoder_ok(2)
  from decode_frame [OF d(2) d(4) [unfolded w(1)] w(2)] w(3,4) d(3) new obtain d1 where d1:
    "decoder_decode d = (Ok (Some (VersionedV5 (In5Publish demo_publish))), d1)" "decoder_inv d1" "pending d1 = []"
    by (auto simp: same_config_def)
  from decode_empty [OF d1(2,3)] obtain d2 where d2: "decoder_decode d1 = (Ok None, d2)"
    "length (dec_buf d2) - dec_offset d2 = 0"
    by (auto simp: pending_def)
  obtain s where h: "handle_publish_qos2 7 (cl_session ?c) = (Ok (SendPubrec 7 False), s)"
    by (rule demo_accepts)
  let ?c1 = "?c\<lparr>cl_events := [], cl_decoder := d1, cl_session := s\<rparr>"
  obtain buf where send: "send_pubrec 7 ?c1 =
      (Ok (), ?c1\<lparr>cl_written := cl_written ?c1 @ [buf], cl_session := session_activity 0 (cl_session ?c1)\<rparr>)"
    using send_pubrec_plain [of ?c1 7] by auto
  let ?c2 = "?c1\<lparr>cl_written := cl_written ?c1 @ [buf], cl_session := session_activity 0 (cl_session ?c1),
    cl_messages := [demo_publish]\<rparr>"
  have inc: "handle_incoming (In5Publish demo_publish) (?c\<lparr>cl_events := [], cl_decoder := d1\<rparr>) = (Ok False, ?c2)"
    using h send
    by (simp add: handle_incoming_def handle_incoming_publish_def demo_publish_def cl_bind_def cl_lift_def session_op_def
        on_session_def session_pubrec_sent_def report_message_def cl_return_def)
  have r: "ready_round (?c\<lparr>cl_events := [], cl_decoder := d\<rparr>) = (Ok None, ?c2)"
    "ready_round ?c2 = (Ok (Some False), ?c2\<lparr>cl_decoder := d2\<rparr>)"
    by (simp_all add: ready_round_def cl_bind_def next_packet_def d1 d2 inc cl_return_def)
  have "less_work ?c2 (?c\<lparr>cl_events := [], cl_decoder := d\<rparr>)"
    using arg_cong [OF d(4), of length] d1(3) by (simp add: less_work_def client_work_def pending_def)
  from cl_loop_steps(1) [of ready_round, OF r(1) this] cl_loop_steps(2) [of ready_round, OF r(2)]
  have "handle_ready (?c\<lparr>cl_events := [], cl_decoder := d\<rparr>) = (Ok False, ?c2\<lparr>cl_decoder := d2\<rparr>)"
    unfolding handle_ready_eq by (rule trans)
  then have "wait_round ?c = (Ok None, ?c2\<lparr>cl_decoder := d2\<rparr>)"
    by (simp add: wait_round_def read_round_def cl_bind_def stream_read_def feed_decoder_def d cl_return_def)
  then have l: "cl_bind check_keep_alive (\<lambda>_. wait_round) ?c = (Ok None, ?c2\<lparr>cl_decoder := d2\<rparr>)"
    "cl_bind check_keep_alive (\<lambda>_. wait_round) (?c2\<lparr>cl_decoder := d2\<rparr>) = (Ok (Some None), ?c2\<lparr>cl_decoder := d2\<rparr>)"
    by (simp_all add: cl_bind_def check_keep_alive_at_zero) (simp add: wait_round_def)
  have "less_work (?c2\<lparr>cl_decoder := d2\<rparr>) ?c" by (simp add: later_less_work)
  from cl_loop_steps(1) [of "cl_bind check_keep_alive (\<lambda>_. wait_round)", OF l(1) this]
    cl_loop_steps(2) [of "cl_bind check_keep_alive (\<lambda>_. wait_round)", OF l(2)]
  have "run_subscribe_loop ?c = (Ok None, ?c2\<lparr>cl_decoder := d2\<rparr>)"
    unfolding run_subscribe_loop_eq by (rule trans)
  then show thesis by (rule that)
qed

text \<open>The message of the demonstration on its own, which the loop handles before it waits for more.\<close>

theorem subscriber_reports_witness:
  "\<exists>c'. run_subscribe_loop (demo_client [Arrived [0x34, 7, 0, 1, 97, 0, 7, 0, 1]]) = (Ok None, c') \<and>
     cl_messages c' = [demo_publish]"
proof -
  let ?c = "demo_client [Arrived [0x34, 7, 0, 1, 97, 0, 7, 0, 1]]"
  obtain c' where run: "run_subscribe_loop ?c = (Ok None, c')" by (rule demo_loop_runs)
  have none: "open_ids ?c = {}"
    using demo_client(3) [of "cl_events ?c"] by (simp add: open_ids_def no_exchanges_def qf_new_def)
  have "reported {} [In5Publish demo_publish] = [demo_publish]" by (simp add: demo_publish_def)
  with subscriber_reports [OF demo_client(1) [of "cl_events ?c"], of "[In5Publish demo_publish]"
      "[[0x34, 7, 0, 1, 97, 0, 7, 0, 1]]" "[]"] demo_publish none run
  show ?thesis by simp
qed

end
