(* ===== verification/Spec2Isabelle.thy ===== *)
theory Spec2Isabelle
  imports SessionConnect DecoderRun ClientLoop
begin

text \<open>
  Verification of the MQTT client library under \<^verbatim>\<open>src/src\<close> and of the client that
  \<^verbatim>\<open>src/examples/tokio-mqtt\<close> builds on it.

  \<^bold>\<open>The program.\<close> The library performs no input or output. A client hands the bytes it received to
  \<^verbatim>\<open>Decoder::feed\<close> and takes packets out with \<^verbatim>\<open>Decoder::decode\<close>; it tells the \<^verbatim>\<open>Session\<close> what it
  received and what it is about to send, and the session answers with actions, packet identifiers or
  errors; it turns packets into bytes with \<^verbatim>\<open>encode_to_vec\<close>. Both versions of the protocol, 3.1.1 and
  5, are supported by separate packet types and one session. Time is an argument, never read.

  \<^bold>\<open>Basics.\<close> \<open>Prelude\<close> has the result type of the model (a value, an error, or a panic), machine
  integers as words, \<^verbatim>\<open>usize\<close> as natural numbers with the checked and saturating operations of the
  64-bit type written out, and slices with the bounds checks of Rust. \<open>BTree\<close> has the ordered map and
  set of the standard library and the contract \<open>ordered_map\<close> its clients rely on. \<open>Wire\<close> has the error
  enumerations (\<^verbatim>\<open>error.rs\<close>) and the contracts \<open>wire_codec\<close> and \<open>canonical_codec\<close> between an encoder
  and a decoder. \<open>Codec\<close> is \<^verbatim>\<open>codec/*.rs\<close>, \<open>TopicFilter\<close> is \<^verbatim>\<open>topic_filter.rs\<close> and
  \<open>ReasonCodes\<close> has the codes of a CONNACK and the contract \<open>byte_enum\<close> of every enumeration that is
  sent as a byte.

  \<^bold>\<open>The session.\<close> One theory per sub state machine of \<^verbatim>\<open>state/*.rs\<close>: \<open>PacketId\<close>,
  \<open>FlowControl\<close>, \<open>KeepAlive\<close>, \<open>TopicAlias\<close>, \<open>QosFlow\<close>, \<open>Subscription\<close>, \<open>Auth\<close> and
  \<open>Capabilities\<close> (\<^verbatim>\<open>state/session/capabilities.rs\<close> and \<^verbatim>\<open>params.rs\<close>). Each has the record of
  the struct, one definition per method, the invariant every method keeps and the abstract description
  of the machine: the least unused identifier, a window of credit, a queue of unfinished handshakes, a
  finite map of subscriptions, an alias table that is transparent to the topics. \<open>Session\<close>
  composes them the way \<^verbatim>\<open>state/session/mod.rs\<close> does. An operation that fails returns the error
  together with the state it leaves, since an early return does not undo assignments to \<^verbatim>\<open>self\<close>.
  \<open>SessionRun\<close> is the transition system of the public interface under the calling contract of the
  documentation, with the invariant of all reachable sessions. \<open>SessionConnect\<close> shows what a CONNACK
  does, that it is applied completely or not at all, what survives a reconnection, and that
  the quota of messages in flight is accounted for exactly.

  \<^bold>\<open>The packets.\<close> A decoder of the source walks with an offset through a buffer up to the end
  of the frame. \<open>Frame\<close> models these reads and writes as they are, with their bounds checks, and relates
  them to parsers that consume a byte string from the front (\<open>reads\<close>); \<open>Packet\<close> adds the loops over
  repeated fields and the contract \<open>framed_packet\<close>. The theories \<open>V311Acks\<close>, \<open>V311Publish\<close>,
  \<open>V311Connect\<close> and \<open>V311Subscribe\<close> model the packets of \<^verbatim>\<open>v311/*.rs\<close>, and \<open>V311Packet\<close> the
  enumerations of \<^verbatim>\<open>v311/packet.rs\<close>. For MQTT 5, \<open>V5Value\<close> and \<open>V5Property\<close> are
  \<^verbatim>\<open>v5/property/mod.rs\<close> and \<^verbatim>\<open>validate.rs\<close>; \<open>V5Frame\<close> is \<^verbatim>\<open>v5/ack_helper.rs\<close> and the
  contract \<open>duplex_packet\<close>, which, other than \<open>framed_packet\<close>, lets the two directions differ and lets a
  decoder accept short forms that are not written; \<open>V5Acks\<close>, \<open>V5Control\<close> (DISCONNECT, AUTH,
  CONNACK), \<open>V5Publish\<close>, \<open>V5Connect\<close> and \<open>V5Subscribe\<close> are the packets of \<^verbatim>\<open>v5/*.rs\<close> and
  \<open>V5Packet\<close> is \<^verbatim>\<open>v5/packet.rs\<close>. Every packet type is an interpretation of one of the two contracts, and
  the dispatch over the first byte is again one. So the theorems say for all packets at once which
  byte strings are accepted, that what was encoded is read back, that no input panics, and which types
  and reason codes are confined to one direction.

  \<^bold>\<open>The streaming decoder.\<close> \<open>Decoder\<close> is \<^verbatim>\<open>decoder.rs\<close>: a vector, the offset of what is not
  consumed, and the phase of the frame being read. It refines \<open>spec_decode\<close> over the bytes that are
  pending. \<open>DecoderRun\<close> models the loop of a client that feeds chunks and drains packets, and shows that
  the loop ends, that memory is bounded, and that the packets do not depend on the chunks.

  \<^bold>\<open>The client.\<close> \<open>Client\<close> is \<^verbatim>\<open>examples/tokio-mqtt/src/client.rs\<close>, where decoder, session and encoders
  meet: connecting, publishing with each quality of service, subscribing and its reverse, receiving
  one message or messages without end, and keeping the connection alive. The stream and the clock, which come
  from tokio, are scripts in the state: what each wait brings (bytes, a failure, a time that has run
  out, an interrupt), whether each write succeeds, what the clock shows. The theorems hold for
  all scripts. When the script of events is over, the deadline of the operation that waits has passed,
  and a loop without a deadline answers that it is still running. \<open>ClientWait\<close> has the
  weakest preconditions with which the operations are verified and the rules for waiting, sending and the
  handling of a packet. \<open>ClientRun\<close> shows that the client keeps the calling contract of the session in
  all reachable states, that no operation panics or loops for ever, and what each operation leaves of
  identifiers, quota and subscriptions on every path. \<open>ClientLoop\<close> relates the bytes that the stream
  delivers to the messages that are reported to the user, and shows where messages get lost.

  \<^bold>\<open>Across components.\<close> This theory joins packets and decoder: what the encoders of either version
  write arrives, packet for packet, at a client that feeds it in arbitrary small chunks.

  \<^bold>\<open>Bounds.\<close> \<^verbatim>\<open>usize\<close> has 64 bits; a vector has at most \<^verbatim>\<open>isize::MAX\<close> bytes (\<open>vec_max\<close>), and to extend it
  further is a panic of the model. A remaining length is at most 268435455, four bytes of a variable
  byte integer. Packet identifiers are 1 to 65535. No definition takes fuel: each loop has a
  termination proof (the bytes left, the identifiers left to try, the phases left). The loops of the
  client are instances of \<open>cl_loop\<close>, whose measure is the events left and then the bytes left in the
  decoder; a round that lowers neither would be a panic of the model, and none of the loops has one.

  \<^bold>\<open>Not modelled.\<close> The text of \<^verbatim>\<open>Display\<close> and \<^verbatim>\<open>Debug\<close> (among them the ones that hide passwords), which
  the program does not read back. \<^verbatim>\<open>debug_assert!\<close>, absent from release builds. The accessors that
  return a field, which are the fields of the records here, and those that hand out a sub state
  machine mutably: what a caller does with it is described by the theory of that machine, but is not a
  step of \<open>SessionRun\<close>. Calls outside the documented contract, such as a PUBLISH before CONNACK.
  Running out of memory. In the loops over the entries of SUBSCRIBE, SUBACK and the like, an entry that
  consumes nothing would loop for ever; the model makes that a panic, and the lemmas show that no entry
  does. Of the example client: setting up TCP and TLS, the text of the log, and real time, of which
  only the order of its events is there. The example client over QUIC has, from \<^verbatim>\<open>connect\<close> on, the methods of
  the tokio client line for line on another transport, and is not modelled a second time. The clients of the end-to-end
  tests, the fuzz targets, the property-based tests and the benches are test code.
\<close>

section \<open>From one client to another\<close>

text \<open>
  C4: Packets arrive: whatever sequence of packets the library encodes for a client, a new decoder of
  that client, fed with the bytes in chunks of up to five bytes cut anywhere, returns exactly those
  packets in that order and keeps nothing back. The packets are of the version of the decoder, within
  its limit, and of a kind a client may receive.
\<close>

theorem packets_arrive:
  assumes "map sent_as qs = map Ok ws" "\<forall>q \<in> set qs. receivable version q"
    and "\<forall>w \<in> set ws. length w \<le> max_packet_size limits" "2 * (max_packet_size limits + 5) \<le> 2 ^ 63 - 1"
    and "concat cs = concat ws" "\<forall>c \<in> set cs. length c \<le> 5"
  shows "\<exists>d'. streams (decoder_with_limits (decoder_new version) limits) cs (map (\<lambda>q. Ok (Some q)) qs) d' \<and>
    pending d' = []"
proof -
  let ?d = "decoder_with_limits (decoder_new version) limits"
  have d: "dec_version ?d = version" "dec_limits ?d = limits"
    by (simp_all add: decoder_with_limits_def decoder_new_def)
  note new = decoder_inv_new [of version limits]
  have lim: "limit_ok (max_packet_size (dec_limits ?d))" using assms(4) by (simp add: d limit_ok_simps)
  from sent_frames [OF assms(1-3)] obtain fs where fs: "frames_wire fs = concat ws"
    "frames_fit (max_packet_size limits) fs" "map (delivered version) fs = map (\<lambda>q. Ok (Some q)) qs" by blast
  have cs: "pending ?d @ concat cs = frames_wire fs" "frames_fit (max_packet_size (dec_limits ?d)) fs"
    using fs new(2) assms(5) by (simp_all add: d)
  note inc = fresh_incomplete [OF new(2)]
  from streams_exists [OF new(1) lim assms(6) cs inc] obtain rs d' where s: "streams ?d cs rs d'" by blast
  from streams_frames [OF s new(1) lim cs inc] fs(3) s show ?thesis by (auto simp: d)
qed

text \<open>A MQTT 5 PUBLISH that uses a topic alias, and a PINGRESP, cut into three chunks.\<close>

theorem packets_arrive_witness:
  "\<exists>d' p. alias_publish = P5Publish p \<and>
     streams (decoder_with_limits (decoder_new V5) limits_new) [[0x30, 7, 0, 0, 3], [0x23, 0, 5, 1, 0xD0], [0]]
       [Ok (Some (VersionedV5 (In5Publish p))), Ok (Some (VersionedV5 (In5PingResp V5PingResp)))] d'"
proof -
  obtain p where p: "alias_publish = P5Publish p" by (simp add: alias_publish_def)
  let ?qs = "[VersionedV5 (In5Publish p), VersionedV5 (In5PingResp V5PingResp)]"
  let ?ws = "[[0x30, 7, 0, 0, 3, 0x23, 0, 5, 1], [0xD0, 0]] :: bytes list"
  note a = alias_publish [unfolded p]
  have "v5_packet_encode_to_vec (P5PingResp V5PingResp) = Ok [0xD0, 0]"
    by (simp add: v5_packet_to_vec wire_eval)
  moreover have "v5_packet_encode_to_vec (P5Publish p) = Ok [0x30, 7, 0, 0, 3, 0x23, 0, 5, 1]"
    using v5_packet_to_vec [OF a(2)] a(4,5) by simp
  ultimately have "map sent_as ?qs = map Ok ?ws" by simp
  from packets_arrive [OF this, of V5 limits_new "[[0x30, 7, 0, 0, 3], [0x23, 0, 5, 1, 0xD0], [0]]"] a(1,3) p
  show ?thesis by (simp add: limits_new_def) blast
qed

end
